(* ===== verification/Prelude.thy ===== *)
theory Prelude
  imports Main "HOL-Library.Word"
begin

text \<open>
  Shared vocabulary of the development: the machine integers of the C code, their
  little-endian layout in memory, C's signed reading of a difference, and the generic
  facts on lists and words that the component theories use.
\<close>

unbundle bit_operations_syntax

section \<open>Machine integers\<close>

type_synonym u8 = "8 word"
type_synonym u16 = "16 word"
type_synonym u32 = "32 word"
type_synonym u64 = "64 word"

text \<open>The equations a component's step functions are unfolded with, and its invariants.\<close>

named_theorems step_defs
named_theorems inv_defs

lemma unat_u16_less: "unat (w :: u16) < 65536"
  by (rule order_less_le_trans [OF unsigned_less]) simp

lemma unat_u32_less: "unat (w :: u32) < 2 ^ 32"
  by (rule order_less_le_trans [OF unsigned_less]) simp

lemma unat_u64_less: "unat (w :: u64) < 2 ^ 64"
  by (rule order_less_le_trans [OF unsigned_less]) simp

lemma unat_ucast_u16_u32 [simp]: "unat (ucast (w :: u16) :: u32) = unat w"
  using unat_u16_less [of w] by (simp add: unsigned_ucast_eq take_bit_nat_eq_self)

lemma ucast_u32_u16: "(ucast (ucast (w :: u16) :: u32) :: u16) = w"
  by (rule bit_word_eqI) (simp add: bit_ucast_iff)

section \<open>Little-endian bytes\<close>

text \<open>
  The targets (Cortex-M4 and aarch64) are little-endian: an n-byte integer field of a
  packed struct is stored least significant byte first.
\<close>

definition le_bytes :: "nat \<Rightarrow> 'a::len word \<Rightarrow> u8 list" where
  "le_bytes n w = map (\<lambda>i. ucast (drop_bit (8 * i) w)) [0..<n]"

fun of_le_bytes :: "u8 list \<Rightarrow> 'a::len word" where
  "of_le_bytes [] = 0"
| "of_le_bytes (b # bs) = ucast b OR push_bit 8 (of_le_bytes bs)"

lemma length_le_bytes [simp]: "length (le_bytes n w) = n"
  by (simp add: le_bytes_def)

lemma le_bytes_0 [simp]: "le_bytes 0 w = []"
  by (simp add: le_bytes_def)

lemma le_bytes_Suc: "le_bytes (Suc n) w = ucast w # le_bytes n (drop_bit 8 w)"
proof -
  have "[0..<Suc n] = 0 # map Suc [0..<n]"
    by (simp add: upt_conv_Cons map_Suc_upt del: upt_Suc)
  then show ?thesis
    by (simp add: le_bytes_def drop_bit_drop_bit comp_def add.commute del: upt_Suc)
qed

lemma bit_of_le_bytes:
  "bit (of_le_bytes bs :: 'a::len word) k \<longleftrightarrow>
     k < LENGTH('a) \<and> k div 8 < length bs \<and> bit (bs ! (k div 8)) (k mod 8)"
proof (induction bs arbitrary: k)
  case Nil
  then show ?case by simp
next
  case (Cons b bs)
  show ?case
  proof (cases "k < 8")
    case True
    then show ?thesis
      by (auto simp: bit_or_iff bit_push_bit_iff bit_ucast_iff)
  next
    case False
    then have k: "k div 8 = Suc ((k - 8) div 8)" "(k - 8) mod 8 = k mod 8"
      by (simp_all add: le_div_geq le_mod_geq)
    have "\<not> bit b k"
      using False bit_imp_le_length [of b k] by auto
    then show ?thesis
      using False k Cons.IH [of "k - 8"]
      by (auto simp: bit_or_iff bit_push_bit_iff bit_ucast_iff)
  qed
qed

lemma bit_le_bytes:
  "i < n \<Longrightarrow> bit (le_bytes n w ! i) j \<longleftrightarrow> j < 8 \<and> bit w (8 * i + j)"
  by (simp add: le_bytes_def bit_ucast_iff bit_drop_bit_eq)

lemma of_le_bytes_le_bytes:
  assumes "LENGTH('a) \<le> 8 * n"
  shows "of_le_bytes (le_bytes n (w :: 'a::len word)) = w"
proof (rule bit_word_eqI)
  fix k
  assume k: "k < LENGTH('a)"
  then have "k div 8 < n"
    using assms by linarith
  then show "bit (of_le_bytes (le_bytes n w) :: 'a word) k = bit w k"
    using k by (simp add: bit_of_le_bytes bit_le_bytes)
qed

lemma le_bytes_inject:
  assumes "LENGTH('a) \<le> 8 * n" "le_bytes n (v :: 'a::len word) = le_bytes n w"
  shows "v = w"
  using of_le_bytes_le_bytes [OF assms(1)] assms(2) by metis

lemmas of_le_bytes_u16 [simp] = of_le_bytes_le_bytes [where 'a = 16 and n = 2, simplified]
lemmas of_le_bytes_u32 [simp] = of_le_bytes_le_bytes [where 'a = 32 and n = 4, simplified]
lemmas of_le_bytes_u64 [simp] = of_le_bytes_le_bytes [where 'a = 64 and n = 8, simplified]

section \<open>Byte ranges\<close>

text \<open>The bytes a pointer cast reads: \<open>n\<close> bytes at offset \<open>off\<close>.\<close>

definition slice :: "nat \<Rightarrow> nat \<Rightarrow> 'a list \<Rightarrow> 'a list" where
  "slice off n xs = take n (drop off xs)"

lemma length_slice [simp]: "off + n \<le> length xs \<Longrightarrow> length (slice off n xs) = n"
  by (simp add: slice_def)

lemma slice_append_left: "off + n \<le> length xs \<Longrightarrow> slice off n (xs @ ys) = slice off n xs"
  by (simp add: slice_def)

lemma slice_append_right:
  "length xs \<le> off \<Longrightarrow> slice off n (xs @ ys) = slice (off - length xs) n ys"
  by (simp add: slice_def)

lemma slice_0_all: "slice 0 (length xs) xs = xs"
  by (simp add: slice_def)

text \<open>\<open>memcpy\<close> of \<open>src\<close> to the start of a buffer at least as long.\<close>

definition overwrite :: "'a list \<Rightarrow> 'a list \<Rightarrow> 'a list" where
  "overwrite dst src = src @ drop (length src) dst"

lemma length_overwrite [simp]:
  "length src \<le> length dst \<Longrightarrow> length (overwrite dst src) = length dst"
  by (simp add: overwrite_def)

lemma take_overwrite [simp]: "take (length src) (overwrite dst src) = src"
  by (simp add: overwrite_def)

section \<open>Lists\<close>

lemma take_Suc_snoc: "i < length xs \<Longrightarrow> take (Suc i) xs = take i xs @ [xs ! i]"
  by (rule take_Suc_conv_app_nth)

lemma take_list_update_cancel: "i \<le> j \<Longrightarrow> take i (xs[j := v]) = take i xs"
  by simp

lemma find_Some_conv:
  "find P xs = Some x \<Longrightarrow> P x \<and> x \<in> set xs"
  by (induction xs) (auto split: if_splits)

section \<open>Runs of a component\<close>

text \<open>
  A component is a partial step function: an event takes a state to the next, or to None
  where the code's behaviour is not defined (or the event cannot happen there).
\<close>

fun run_steps :: "('e \<Rightarrow> 's \<Rightarrow> 's option) \<Rightarrow> 'e list \<Rightarrow> 's \<Rightarrow> 's option" where
  "run_steps step [] s = Some s"
| "run_steps step (e # es) s = (case step e s of None \<Rightarrow> None | Some t \<Rightarrow> run_steps step es t)"

lemma run_steps_append:
  "run_steps step (xs @ ys) s = (case run_steps step xs s of None \<Rightarrow> None | Some t \<Rightarrow> run_steps step ys t)"
  by (induction xs arbitrary: s) (auto split: option.split)

text \<open>The contract between a component and whoever runs it: each step keeps the invariant.\<close>

locale step_invariant =
  fixes step :: "'e \<Rightarrow> 's \<Rightarrow> 's option" and inv :: "'s \<Rightarrow> bool"
  assumes step_inv: "inv s \<Longrightarrow> step e s = Some t \<Longrightarrow> inv t"
begin

lemma run_inv: "inv s \<Longrightarrow> run_steps step es s = Some t \<Longrightarrow> inv t"
  by (induction es arbitrary: s) (auto split: option.splits dest: step_inv)

end

text \<open>A component that in addition can always take a step from a state of its invariant; the
  invariant may mention the events so far.\<close>

locale total_steps =
  fixes step :: "'e \<Rightarrow> 's \<Rightarrow> 's option" and inv :: "'e list \<Rightarrow> 's \<Rightarrow> bool"
  assumes step_total: "inv es s \<Longrightarrow> \<exists>t. step e s = Some t \<and> inv (es @ [e]) t"
begin

lemma run_total: "inv es0 s \<Longrightarrow> \<exists>t. run_steps step es s = Some t \<and> inv (es0 @ es) t"
proof (induction es arbitrary: es0 s)
  case Nil
  then show ?case by simp
next
  case (Cons e es)
  then obtain t where "step e s = Some t" "inv (es0 @ [e]) t"
    using step_total by blast
  then show ?case
    using Cons.IH [of "es0 @ [e]" t] by simp
qed

end

end
