(* ===== verification/MotorWire.thy ===== *)
theory MotorWire
  imports Prelude
begin

text \<open>
  The SPI wire contract between the STM32 and the QNX controller
  (src/src/giga_spi_8adc/motor_wire.h): the packed structs as records, their byte layout and
  its inverse (what the controller's pointer casts read). The lemmas show that every layout
  is read back as written. The checksum of the frames is in FrameCrc.
\<close>

section \<open>Contract constants\<close>

abbreviation (input) MOTOR_CONTRACT_VERSION :: u16 where "MOTOR_CONTRACT_VERSION \<equiv> 4"
abbreviation (input) MOTOR_FRAME_MAGIC :: u32 where "MOTOR_FRAME_MAGIC \<equiv> 0x4D4F5452"
abbreviation (input) MOTOR_CMD_MAGIC :: u32 where "MOTOR_CMD_MAGIC \<equiv> 0x434D4452"
abbreviation (input) MOTOR_MAX_ROWS_PER_BLOCK :: u16 where "MOTOR_MAX_ROWS_PER_BLOCK \<equiv> 200"
abbreviation (input) MOTOR_CMD_SET_CONFIG :: u16 where "MOTOR_CMD_SET_CONFIG \<equiv> 1"
abbreviation (input) MOTOR_CONFIG_SCHEMA_VERSION :: u16 where "MOTOR_CONFIG_SCHEMA_VERSION \<equiv> 2"
abbreviation (input) MOTOR_SOURCE_ADC :: u16 where "MOTOR_SOURCE_ADC \<equiv> 1"
abbreviation (input) MOTOR_RUN_STOP :: u16 where "MOTOR_RUN_STOP \<equiv> 0"
abbreviation (input) MOTOR_RUN_RUN :: u16 where "MOTOR_RUN_RUN \<equiv> 1"
abbreviation (input) MOTOR_FLAG_ACK_OK :: u16 where "MOTOR_FLAG_ACK_OK \<equiv> 0x0001"
abbreviation (input) MOTOR_FLAG_ACK_NACK :: u16 where "MOTOR_FLAG_ACK_NACK \<equiv> 0x0002"
abbreviation (input) MOTOR_FLAG_CONFIG_APPLIED :: u16 where "MOTOR_FLAG_CONFIG_APPLIED \<equiv> 0x0040"

text \<open>\<open>sizeof\<close> of the packed structs, as the source's static assertions fix them.\<close>

abbreviation (input) sizeof_motor_row :: nat where "sizeof_motor_row \<equiv> 24"
abbreviation (input) sizeof_frame_header :: nat where "sizeof_frame_header \<equiv> 24"
abbreviation (input) sizeof_cmd_header :: nat where "sizeof_cmd_header \<equiv> 12"
abbreviation (input) sizeof_config_payload :: nat where "sizeof_config_payload \<equiv> 28"
abbreviation (input) sizeof_frame_crc :: nat where "sizeof_frame_crc \<equiv> 4"

definition MOTOR_MAX_FRAME_BYTES :: nat where
  "MOTOR_MAX_FRAME_BYTES = sizeof_frame_header + 200 * sizeof_motor_row + sizeof_frame_crc"

definition MOTOR_CMD_FRAME_BYTES :: nat where
  "MOTOR_CMD_FRAME_BYTES = sizeof_cmd_header + sizeof_config_payload + sizeof_frame_crc"

section \<open>The packed structs\<close>

text \<open>\<open>vib_x\<close>, \<open>vib_y\<close>, \<open>vib_z\<close> are \<open>int16_t\<close>: 16-bit words read with \<open>sint\<close>.\<close>

record motor_row =
  row_current :: "u16 list"
  row_vib_x :: u16
  row_vib_y :: u16
  row_vib_z :: u16
  row_rpm :: u16

record frame_header =
  fh_magic :: u32
  fh_seq :: u32
  fh_timestamp :: u64
  fh_version :: u16
  fh_flags :: u16
  fh_n_rows :: u16
  fh_reserved :: u16

record cmd_header =
  ch_magic :: u32
  ch_cmd :: u16
  ch_schema_version :: u16
  ch_cmd_seq :: u16
  ch_pad :: u16

record config_payload =
  cp_block_rows :: u16
  cp_reserved0 :: u16
  cp_source :: u16
  cp_run_state :: u16
  cp_sample_rate_hz :: u32
  cp_imu_rate_hz :: u32
  cp_reserved :: "u8 list"

text \<open>The array members have the length their declarations give.\<close>

definition row_wf :: "motor_row \<Rightarrow> bool" where
  "row_wf r \<longleftrightarrow> length (row_current r) = 8"

definition payload_wf :: "config_payload \<Rightarrow> bool" where
  "payload_wf p \<longleftrightarrow> length (cp_reserved p) = 12"

section \<open>Byte layout of the structs\<close>

definition row_bytes :: "motor_row \<Rightarrow> u8 list" where
  "row_bytes r = concat (map (le_bytes 2) (row_current r)) @ le_bytes 2 (row_vib_x r) @
     le_bytes 2 (row_vib_y r) @ le_bytes 2 (row_vib_z r) @ le_bytes 2 (row_rpm r)"

definition row_of_bytes :: "u8 list \<Rightarrow> motor_row" where
  "row_of_bytes bs = \<lparr>
     row_current = map (\<lambda>i. of_le_bytes (slice (2 * i) 2 bs)) [0..<8],
     row_vib_x = of_le_bytes (slice 16 2 bs), row_vib_y = of_le_bytes (slice 18 2 bs),
     row_vib_z = of_le_bytes (slice 20 2 bs), row_rpm = of_le_bytes (slice 22 2 bs)\<rparr>"

definition header_bytes :: "frame_header \<Rightarrow> u8 list" where
  "header_bytes h = le_bytes 4 (fh_magic h) @ le_bytes 4 (fh_seq h) @
     le_bytes 8 (fh_timestamp h) @ le_bytes 2 (fh_version h) @ le_bytes 2 (fh_flags h) @
     le_bytes 2 (fh_n_rows h) @ le_bytes 2 (fh_reserved h)"

definition header_of_bytes :: "u8 list \<Rightarrow> frame_header" where
  "header_of_bytes bs = \<lparr>
     fh_magic = of_le_bytes (slice 0 4 bs), fh_seq = of_le_bytes (slice 4 4 bs),
     fh_timestamp = of_le_bytes (slice 8 8 bs), fh_version = of_le_bytes (slice 16 2 bs),
     fh_flags = of_le_bytes (slice 18 2 bs), fh_n_rows = of_le_bytes (slice 20 2 bs),
     fh_reserved = of_le_bytes (slice 22 2 bs)\<rparr>"

definition cmd_header_bytes :: "cmd_header \<Rightarrow> u8 list" where
  "cmd_header_bytes c = le_bytes 4 (ch_magic c) @ le_bytes 2 (ch_cmd c) @
     le_bytes 2 (ch_schema_version c) @ le_bytes 2 (ch_cmd_seq c) @ le_bytes 2 (ch_pad c)"

definition cmd_header_of_bytes :: "u8 list \<Rightarrow> cmd_header" where
  "cmd_header_of_bytes bs = \<lparr>
     ch_magic = of_le_bytes (slice 0 4 bs), ch_cmd = of_le_bytes (slice 4 2 bs),
     ch_schema_version = of_le_bytes (slice 6 2 bs), ch_cmd_seq = of_le_bytes (slice 8 2 bs),
     ch_pad = of_le_bytes (slice 10 2 bs)\<rparr>"

definition payload_bytes :: "config_payload \<Rightarrow> u8 list" where
  "payload_bytes p = le_bytes 2 (cp_block_rows p) @ le_bytes 2 (cp_reserved0 p) @
     le_bytes 2 (cp_source p) @ le_bytes 2 (cp_run_state p) @
     le_bytes 4 (cp_sample_rate_hz p) @ le_bytes 4 (cp_imu_rate_hz p) @ cp_reserved p"

definition payload_of_bytes :: "u8 list \<Rightarrow> config_payload" where
  "payload_of_bytes bs = \<lparr>
     cp_block_rows = of_le_bytes (slice 0 2 bs), cp_reserved0 = of_le_bytes (slice 2 2 bs),
     cp_source = of_le_bytes (slice 4 2 bs), cp_run_state = of_le_bytes (slice 6 2 bs),
     cp_sample_rate_hz = of_le_bytes (slice 8 4 bs), cp_imu_rate_hz = of_le_bytes (slice 12 4 bs),
     cp_reserved = slice 16 12 bs\<rparr>"

text \<open>The \<open>n\<close> rows behind a header, as the cast of \<open>rx + sizeof(frame_header_t)\<close> reads them.\<close>

definition rows_of_bytes :: "nat \<Rightarrow> u8 list \<Rightarrow> motor_row list" where
  "rows_of_bytes n bs = map (\<lambda>i. row_of_bytes (slice (sizeof_motor_row * i) sizeof_motor_row bs)) [0..<n]"

subsection \<open>Layout sizes and round trips\<close>

lemma length_concat_le_bytes2: "length (concat (map (le_bytes 2) ws)) = 2 * length ws"
  by (induction ws) simp_all

lemma length_row_bytes [simp]: "row_wf r \<Longrightarrow> length (row_bytes r) = sizeof_motor_row"
  by (simp add: row_bytes_def row_wf_def length_concat_le_bytes2)

lemma length_header_bytes [simp]: "length (header_bytes h) = sizeof_frame_header"
  by (simp add: header_bytes_def)

lemma length_cmd_header_bytes [simp]: "length (cmd_header_bytes c) = sizeof_cmd_header"
  by (simp add: cmd_header_bytes_def)

lemma length_payload_bytes [simp]:
  "payload_wf p \<Longrightarrow> length (payload_bytes p) = sizeof_config_payload"
  by (simp add: payload_bytes_def payload_wf_def)

lemma slice_concat_le2:
  "i < length ws \<Longrightarrow> slice (2 * i) 2 (concat (map (le_bytes 2) ws) @ ys) = le_bytes 2 (ws ! i)"
proof (induction ws arbitrary: i)
  case Nil
  then show ?case by simp
next
  case (Cons w ws)
  then show ?case
    by (cases i) (simp_all add: slice_append_left slice_append_right slice_def)
qed

lemma row_of_bytes_row_bytes:
  assumes "row_wf r"
  shows "row_of_bytes (row_bytes r @ xs) = r"
proof -
  let ?cs = "concat (map (le_bytes 2) (row_current r))"
  have l: "length ?cs = 16" and n: "length (row_current r) = 8"
    using assms by (simp_all add: row_wf_def length_concat_le_bytes2)
  have "map (\<lambda>i. of_le_bytes (slice (2 * i) 2 (row_bytes r @ xs))) [0..<8] = row_current r"
    using n by (intro nth_equalityI) (simp_all add: row_bytes_def slice_concat_le2)
  then show ?thesis
    using l by (simp add: row_of_bytes_def row_bytes_def slice_append_left slice_append_right
        slice_def [of 0])
qed

lemma header_of_bytes_header_bytes: "header_of_bytes (header_bytes h @ xs) = h"
  by (simp add: header_of_bytes_def header_bytes_def slice_append_left slice_append_right
      slice_def [of 0])

lemma cmd_header_of_bytes_bytes: "cmd_header_of_bytes (cmd_header_bytes c @ xs) = c"
  by (simp add: cmd_header_of_bytes_def cmd_header_bytes_def slice_append_left
      slice_append_right slice_def [of 0])

lemma payload_of_bytes_payload_bytes:
  "payload_wf p \<Longrightarrow> payload_of_bytes (payload_bytes p @ xs) = p"
  by (simp add: payload_of_bytes_def payload_bytes_def payload_wf_def slice_append_left
      slice_append_right slice_def [of 0])

lemma rows_of_bytes_concat:
  assumes "\<forall>r \<in> set rs. row_wf r"
  shows "rows_of_bytes (length rs) (concat (map row_bytes rs) @ xs) = rs"
proof -
  have "slice (24 * i) 24 (concat (map row_bytes rs) @ xs) = row_bytes (rs ! i)"
    if "i < length rs" for i
    using that assms
  proof (induction rs arbitrary: i)
    case Nil
    then show ?case by simp
  next
    case (Cons r rs)
    then show ?case
      by (cases i) (simp_all add: slice_append_left slice_append_right slice_def [of 0])
  qed
  then show ?thesis
    using assms row_of_bytes_row_bytes [where xs = "[]"]
    by (intro nth_equalityI) (simp_all add: rows_of_bytes_def)
qed

lemma payload_bytes_inject:
  assumes "payload_wf p" "payload_wf q" "payload_bytes p = payload_bytes q"
  shows "p = q"
  using assms payload_of_bytes_payload_bytes [where xs = "[]"] by (metis append_Nil2)

end
