(* ===== verification/MotorShm.thy ===== *)
theory MotorShm
  imports MotorWire
begin

text \<open>
  The shared-memory contract of src/src/giga_spi_8adc/motor_shm.h: the region, its snapshot
  and its block ring, with the producer and consumer operations as functions on the
  region. An atomic object is modelled by its value. The consumer loops take, for every
  try, what its two loads of the sequence word and its copy of the body observed while
  the producer may be writing (theory Seqlock proves which observations are possible);
  on memory that is not being written all tries observe the memory itself.
\<close>

section \<open>The region\<close>

abbreviation (input) MOTOR_RING_DEPTH :: nat where "MOTOR_RING_DEPTH \<equiv> 16"
abbreviation (input) MOTOR_SHM_MAGIC :: u32 where "MOTOR_SHM_MAGIC \<equiv> 0x4D435452"

record shm_snapshot =
  ss_seqlock :: u32
  ss_producer_seq :: u32
  ss_timestamp :: u64
  ss_flags :: u16
  ss_row :: motor_row

record shm_block =
  sb_seq :: u32
  sb_producer_seq :: u32
  sb_timestamp :: u64
  sb_n_rows :: u16
  sb_flags :: u16
  sb_rows :: "motor_row list"

record shm_block_ring =
  br_write_pos :: u64
  br_depth :: u32
  br_slots :: "shm_block list"

record shm_region =
  sr_magic :: u32
  sr_version :: u16
  sr_row_size :: u32
  sr_reserved :: u32
  sr_snapshot :: shm_snapshot
  sr_ring :: shm_block_ring

text \<open>
  \<open>motor_shm_region_init\<close> stores the header and resets the counters of a region that
  \<open>ftruncate\<close> and an earlier producer may have left with any other contents: the row
  data is left as it is.
\<close>

definition motor_shm_region_init :: "shm_region \<Rightarrow> shm_region" where
  "motor_shm_region_init r = r\<lparr>
     sr_magic := MOTOR_SHM_MAGIC,
     sr_version := MOTOR_CONTRACT_VERSION,
     sr_row_size := of_nat sizeof_motor_row,
     sr_reserved := 0,
     sr_snapshot := (sr_snapshot r)\<lparr>ss_seqlock := 0\<rparr>,
     sr_ring := (sr_ring r)\<lparr>
       br_depth := of_nat MOTOR_RING_DEPTH,
       br_write_pos := 0,
       br_slots := map (\<lambda>s. s\<lparr>sb_seq := 0\<rparr>) (br_slots (sr_ring r))\<rparr>\<rparr>"

definition motor_shm_region_valid :: "shm_region \<Rightarrow> bool" where
  "motor_shm_region_valid r \<longleftrightarrow>
     sr_magic r = MOTOR_SHM_MAGIC \<and> sr_version r = MOTOR_CONTRACT_VERSION \<and>
     sr_row_size r = of_nat sizeof_motor_row"

section \<open>The snapshot\<close>

definition motor_snapshot_publish ::
  "shm_snapshot \<Rightarrow> motor_row \<Rightarrow> u32 \<Rightarrow> u64 \<Rightarrow> u16 \<Rightarrow> shm_snapshot" where
  "motor_snapshot_publish s row producer_seq timestamp flags =
     (let s0 = ss_seqlock s;
          s1 = s\<lparr>ss_seqlock := s0 + 1\<rparr>;
          s2 = s1\<lparr>ss_row := row, ss_producer_seq := producer_seq,
                  ss_timestamp := timestamp, ss_flags := flags\<rparr>
      in s2\<lparr>ss_seqlock := s0 + 2\<rparr>)"

text \<open>
  What one try of a consumer loop loads: the sequence word, then a copy of the body,
  then the sequence word again.
\<close>

record 'b try_view =
  tv_s1 :: u32
  tv_body :: 'b
  tv_s2 :: u32

type_synonym snapshot_body = "motor_row \<times> u32 \<times> u64 \<times> u16"

definition snapshot_body :: "shm_snapshot \<Rightarrow> snapshot_body" where
  "snapshot_body s = (ss_row s, ss_producer_seq s, ss_timestamp s, ss_flags s)"

text \<open>The retry loop both readers share: at most 64 tries, a try with an odd first load is
  skipped, and a copy is returned only when both loads agree.\<close>

fun seqlock_tries :: "'b try_view list \<Rightarrow> 'b option" where
  "seqlock_tries [] = None"
| "seqlock_tries (v # vs) =
     (if tv_s1 v AND 1 \<noteq> 0 then seqlock_tries vs
      else if tv_s1 v = tv_s2 v then Some (tv_body v)
      else seqlock_tries vs)"

definition motor_snapshot_read :: "(nat \<Rightarrow> snapshot_body try_view) \<Rightarrow> snapshot_body option" where
  "motor_snapshot_read obs = seqlock_tries (map obs [0..<64])"

section \<open>The block ring\<close>

definition ring_index :: "shm_block_ring \<Rightarrow> u64 \<Rightarrow> nat" where
  "ring_index ring pos = unat (pos mod ucast (br_depth ring))"

definition clamp_rows :: "u16 \<Rightarrow> u16" where
  "clamp_rows n = (if n > MOTOR_MAX_ROWS_PER_BLOCK then MOTOR_MAX_ROWS_PER_BLOCK else n)"

definition motor_ring_publish ::
  "shm_block_ring \<Rightarrow> frame_header \<Rightarrow> motor_row list \<Rightarrow> shm_block_ring" where
  "motor_ring_publish ring hdr rows =
     (let pos = br_write_pos ring;
          i = ring_index ring pos;
          slot = br_slots ring ! i;
          s0 = sb_seq slot;
          slot1 = slot\<lparr>sb_seq := s0 + 1\<rparr>;
          n = clamp_rows (fh_n_rows hdr);
          slot2 = slot1\<lparr>sb_producer_seq := fh_seq hdr, sb_timestamp := fh_timestamp hdr,
                        sb_n_rows := n, sb_flags := fh_flags hdr,
                        sb_rows := overwrite (sb_rows slot) (take (unat n) rows)\<rparr>;
          slot3 = slot2\<lparr>sb_seq := s0 + 2\<rparr>
      in ring\<lparr>br_slots := (br_slots ring)[i := slot3], br_write_pos := pos + 1\<rparr>)"

text \<open>The part of a slot the consumer copies out: \<open>n\<close> is clamped before the rows are read.\<close>

type_synonym block_body = "u32 \<times> u64 \<times> u16 \<times> u16 \<times> motor_row list"

definition block_body :: "shm_block \<Rightarrow> block_body" where
  "block_body s = (let n = clamp_rows (sb_n_rows s) in
     (sb_producer_seq s, sb_timestamp s, n, sb_flags s, take (unat n) (sb_rows s)))"

definition motor_ring_read_slot :: "(nat \<Rightarrow> block_body try_view) \<Rightarrow> block_body option" where
  "motor_ring_read_slot obs = seqlock_tries (map obs [0..<64])"

definition motor_ring_write_pos :: "shm_block_ring \<Rightarrow> u64" where
  "motor_ring_write_pos ring = br_write_pos ring"

text \<open>What the tries observe on memory that no producer is writing.\<close>

definition still_snapshot :: "shm_snapshot \<Rightarrow> nat \<Rightarrow> snapshot_body try_view" where
  "still_snapshot s _ = \<lparr>tv_s1 = ss_seqlock s, tv_body = snapshot_body s, tv_s2 = ss_seqlock s\<rparr>"

definition still_slot :: "shm_block_ring \<Rightarrow> u64 \<Rightarrow> nat \<Rightarrow> block_body try_view" where
  "still_slot ring pos _ = (let slot = br_slots ring ! ring_index ring pos in
     \<lparr>tv_s1 = sb_seq slot, tv_body = block_body slot, tv_s2 = sb_seq slot\<rparr>)"

section \<open>Facts about the retry loop\<close>

lemma seqlock_tries_Some:
  "seqlock_tries vs = Some b \<Longrightarrow>
   \<exists>v \<in> set vs. tv_body v = b \<and> tv_s1 v = tv_s2 v \<and> tv_s1 v AND 1 = 0"
  by (induction vs) (auto split: if_splits)

lemma seqlock_tries_None:
  "seqlock_tries vs = None \<longleftrightarrow> (\<forall>v \<in> set vs. tv_s1 v AND 1 \<noteq> 0 \<or> tv_s1 v \<noteq> tv_s2 v)"
  by (induction vs) auto

lemma seqlock_tries_replicate:
  "seqlock_tries (replicate n v) =
     (if 0 < n \<and> tv_s1 v AND 1 = 0 \<and> tv_s1 v = tv_s2 v then Some (tv_body v) else None)"
  by (induction n) auto

lemma seqlock_tries_const:
  assumes "\<And>k. obs k = v" "0 < n" "tv_s1 v AND 1 = 0" "tv_s1 v = tv_s2 v"
  shows "seqlock_tries (map obs [0..<n]) = Some (tv_body v)"
proof -
  have "map obs [0..<n] = replicate n v"
    using assms(1) by (simp add: map_replicate_const fun_eq_iff list_eq_iff_nth_eq)
  then show ?thesis
    using assms(2-4) by (simp add: seqlock_tries_replicate)
qed

lemma even_word_AND_1: "w AND 1 = 0 \<longleftrightarrow> even (w :: 'a::len word)"
  by (simp add: and_one_eq even_iff_mod_2_eq_zero)

lemma seq_plus_2_even: "(s + 2) AND 1 = 0 \<longleftrightarrow> (s :: u32) AND 1 = 0"
  by (simp add: even_word_AND_1)

section \<open>Sequential behaviour\<close>

lemma snapshot_body_publish [simp]:
  "snapshot_body (motor_snapshot_publish s row q t f) = (row, q, t, f)"
  by (simp add: motor_snapshot_publish_def snapshot_body_def Let_def)

lemma seqlock_publish [simp]:
  "ss_seqlock (motor_snapshot_publish s row q t f) = ss_seqlock s + 2"
  by (simp add: motor_snapshot_publish_def Let_def)

lemma read_after_publish:
  assumes "ss_seqlock s AND 1 = 0"
  shows "motor_snapshot_read (still_snapshot (motor_snapshot_publish s row q t f)) = Some (row, q, t, f)"
proof -
  let ?s = "motor_snapshot_publish s row q t f"
  have "seqlock_tries (map (still_snapshot ?s) [0..<64]) = Some (tv_body (still_snapshot ?s 0))"
    using assms by (intro seqlock_tries_const) (simp_all add: still_snapshot_def seq_plus_2_even)
  then show ?thesis
    by (simp only: motor_snapshot_read_def) (simp add: still_snapshot_def)
qed

text \<open>
  A consumer that reads the snapshot while nobody writes gets, on its first try, exactly
  the row, frame number, timestamp and flags of the last publish, however often the
  producer has published before.
\<close>

theorem snapshot_publish_read:
  assumes "ss_seqlock s AND 1 = 0"
  shows "motor_snapshot_read (still_snapshot (motor_snapshot_publish s row q t f)) = Some (row, q, t, f)"
  using assms by (rule read_after_publish)

definition zero_row :: motor_row where
  "zero_row = \<lparr>row_current = replicate 8 0, row_vib_x = 0, row_vib_y = 0, row_vib_z = 0, row_rpm = 0\<rparr>"

definition zero_snapshot :: shm_snapshot where
  "zero_snapshot = \<lparr>ss_seqlock = 0, ss_producer_seq = 0, ss_timestamp = 0, ss_flags = 0, ss_row = zero_row\<rparr>"

theorem snapshot_publish_read_witness:
  "motor_snapshot_read (still_snapshot (motor_snapshot_publish zero_snapshot zero_row 7 9 1)) =
     Some (zero_row, 7, 9, 1)"
  by (rule snapshot_publish_read) (simp add: zero_snapshot_def)

section \<open>The ring keeps the last blocks\<close>

definition ring_wf :: "shm_block_ring \<Rightarrow> bool" where
  "ring_wf ring \<longleftrightarrow> br_depth ring = of_nat MOTOR_RING_DEPTH \<and>
     length (br_slots ring) = MOTOR_RING_DEPTH \<and>
     (\<forall>s \<in> set (br_slots ring). sb_seq s AND 1 = 0 \<and> length (sb_rows s) = 200)"

text \<open>A block as the controller hands it over: at least the rows its header announces.\<close>

type_synonym wire_block = "frame_header \<times> motor_row list"

definition wire_block_ok :: "wire_block \<Rightarrow> bool" where
  "wire_block_ok b \<longleftrightarrow> unat (clamp_rows (fh_n_rows (fst b))) \<le> length (snd b)"

definition wire_block_body :: "wire_block \<Rightarrow> block_body" where
  "wire_block_body b = (fh_seq (fst b), fh_timestamp (fst b), clamp_rows (fh_n_rows (fst b)),
     fh_flags (fst b), take (unat (clamp_rows (fh_n_rows (fst b)))) (snd b))"

definition ring_publish :: "wire_block \<Rightarrow> shm_block_ring \<Rightarrow> shm_block_ring" where
  "ring_publish b ring = motor_ring_publish ring (fst b) (snd b)"

definition ring_get :: "shm_block_ring \<Rightarrow> nat \<Rightarrow> block_body option" where
  "ring_get ring p = motor_ring_read_slot (still_slot ring (of_nat p))"

lemma clamp_rows_le: "unat (clamp_rows n) \<le> 200"
  by (auto simp: clamp_rows_def word_less_nat_alt not_less)

lemma clamp_rows_idem [simp]: "clamp_rows (clamp_rows n) = clamp_rows n"
  by (simp add: clamp_rows_def)

lemma ring_index_nat:
  assumes "ring_wf ring" "p < 2 ^ 64"
  shows "ring_index ring (of_nat p) = p mod 16"
proof -
  have "unat (of_nat p :: u64) = p"
    using assms(2) by (simp add: unat_of_nat)
  then show ?thesis
    using assms(1) by (simp add: ring_index_def ring_wf_def unat_mod)
qed

lemma ring_get_alt:
  assumes "ring_wf ring" "p < 2 ^ 64"
  shows "ring_get ring p = Some (block_body (br_slots ring ! (p mod 16)))"
proof -
  have "br_slots ring ! (p mod 16) \<in> set (br_slots ring)"
    using assms(1) by (simp add: ring_wf_def)
  then have "sb_seq (br_slots ring ! (p mod 16)) AND 1 = 0"
    using assms(1) by (simp add: ring_wf_def)
  then have "seqlock_tries (map (still_slot ring (of_nat p)) [0..<64]) =
      Some (tv_body (still_slot ring (of_nat p) 0))"
    using ring_index_nat [OF assms]
    by (intro seqlock_tries_const) (simp_all add: still_slot_def Let_def)
  then show ?thesis
    using ring_index_nat [OF assms]
    by (simp only: ring_get_def motor_ring_read_slot_def) (simp add: still_slot_def Let_def)
qed

lemma ring_publish_slots:
  assumes "ring_wf ring"
  shows "\<exists>slot. br_slots (ring_publish b ring) = (br_slots ring)[unat (br_write_pos ring) mod 16 := slot] \<and>
     (wire_block_ok b \<longrightarrow> block_body slot = wire_block_body b \<and>
        sb_seq slot AND 1 = 0 \<and> length (sb_rows slot) = 200)"
proof -
  let ?i = "unat (br_write_pos ring) mod 16"
  have i: "ring_index ring (br_write_pos ring) = ?i"
    using ring_index_nat [OF assms, of "unat (br_write_pos ring)"] unat_u64_less [of "br_write_pos ring"]
    by simp
  have "br_slots ring ! ?i \<in> set (br_slots ring)"
    using assms by (simp add: ring_wf_def)
  then have s: "sb_seq (br_slots ring ! ?i) AND 1 = 0" "length (sb_rows (br_slots ring ! ?i)) = 200"
    using assms by (simp_all add: ring_wf_def)
  show ?thesis
    using s clamp_rows_le [of "fh_n_rows (fst b)"]
    by (intro exI conjI)
       (auto simp: ring_publish_def motor_ring_publish_def Let_def i wire_block_ok_def
         block_body_def wire_block_body_def overwrite_def seq_plus_2_even min_def)
qed

lemma ring_publish_write_pos: "br_write_pos (ring_publish b ring) = br_write_pos ring + 1"
  by (simp add: ring_publish_def motor_ring_publish_def Let_def)

lemma ring_publish_wf:
  assumes "ring_wf ring" "wire_block_ok b"
  shows "ring_wf (ring_publish b ring)"
proof -
  obtain slot where slot: "br_slots (ring_publish b ring) =
      (br_slots ring)[unat (br_write_pos ring) mod 16 := slot]"
      "sb_seq slot AND 1 = 0" "length (sb_rows slot) = 200"
    using ring_publish_slots [OF assms(1), of b] assms(2) by auto
  have "br_depth (ring_publish b ring) = br_depth ring"
    by (simp add: ring_publish_def motor_ring_publish_def Let_def)
  then show ?thesis
    using assms(1) slot set_update_subset_insert [of "br_slots ring" "unat (br_write_pos ring) mod 16" slot]
    by (auto simp: ring_wf_def)
qed

subsection \<open>The interface its consumers rely on\<close>

text \<open>
  A ring published at one end: \<open>put\<close> adds a block at position \<open>wpos\<close>, \<open>get\<close> returns what a
  position holds, and the last \<open>depth\<close> positions survive a \<open>put\<close>. Positions stay below
  \<open>limit\<close>, where the 64-bit counter would wrap.
\<close>

locale publish_ring =
  fixes put :: "'b \<Rightarrow> 'r \<Rightarrow> 'r"
    and wpos :: "'r \<Rightarrow> nat"
    and get :: "'r \<Rightarrow> nat \<Rightarrow> 'c option"
    and view :: "'b \<Rightarrow> 'c"
    and depth :: nat
    and limit :: nat
    and ok :: "'r \<Rightarrow> bool"
    and good :: "'b \<Rightarrow> bool"
  assumes ok_put: "ok r \<Longrightarrow> good b \<Longrightarrow> ok (put b r)"
    and wpos_put: "ok r \<Longrightarrow> Suc (wpos r) < limit \<Longrightarrow> wpos (put b r) = Suc (wpos r)"
    and get_new: "ok r \<Longrightarrow> good b \<Longrightarrow> wpos r < limit \<Longrightarrow> get (put b r) (wpos r) = Some (view b)"
    and get_old: "ok r \<Longrightarrow> good b \<Longrightarrow> wpos r < limit \<Longrightarrow> p < wpos r \<Longrightarrow> wpos r < p + depth \<Longrightarrow>
      get (put b r) p = get r p"
begin

lemma fold_put:
  "ok r \<Longrightarrow> \<forall>b \<in> set bs. good b \<Longrightarrow> wpos r + length bs < limit \<Longrightarrow>
   ok (fold put bs r) \<and> wpos (fold put bs r) = wpos r + length bs"
proof (induction bs arbitrary: r)
  case Nil
  then show ?case by simp
next
  case (Cons b bs)
  then have "ok (put b r)" "wpos (put b r) = Suc (wpos r)"
    by (simp_all add: ok_put wpos_put)
  then show ?case
    using Cons by simp
qed

lemma history:
  "ok r \<Longrightarrow> \<forall>b \<in> set bs. good b \<Longrightarrow> wpos r + length bs < limit \<Longrightarrow>
   wpos r \<le> p \<Longrightarrow> p < wpos r + length bs \<Longrightarrow> wpos r + length bs \<le> p + depth \<Longrightarrow>
   get (fold put bs r) p = Some (view (bs ! (p - wpos r)))"
proof (induction bs rule: rev_induct)
  case Nil
  then show ?case by simp
next
  case (snoc b bs)
  let ?r = "fold put bs r"
  have r: "ok ?r" "wpos ?r = wpos r + length bs"
    using snoc.prems fold_put [of r bs] by simp_all
  show ?case
  proof (cases "p = wpos ?r")
    case True
    then show ?thesis
      using snoc.prems r get_new [of ?r b] by (simp add: nth_append)
  next
    case False
    then have "p < wpos ?r" using snoc.prems r by simp
    then show ?thesis
      using snoc r get_old [of ?r b p] by (simp add: nth_append less_diff_conv2)
  qed
qed

end

interpretation motor_ring: publish_ring ring_publish "\<lambda>r. unat (br_write_pos r)" ring_get
  wire_block_body 16 "2 ^ 64" ring_wf wire_block_ok
proof unfold_locales
  fix r b assume r: "ring_wf r"
  show "wire_block_ok b \<Longrightarrow> ring_wf (ring_publish b r)"
    using r by (rule ring_publish_wf)
  show "Suc (unat (br_write_pos r)) < 2 ^ 64 \<Longrightarrow>
      unat (br_write_pos (ring_publish b r)) = Suc (unat (br_write_pos r))"
    by (simp add: ring_publish_write_pos unat_word_ariths)
  assume b: "wire_block_ok b"
  have wf': "ring_wf (ring_publish b r)"
    using r b by (rule ring_publish_wf)
  obtain slot where slot: "br_slots (ring_publish b r) =
      (br_slots r)[unat (br_write_pos r) mod 16 := slot]" "block_body slot = wire_block_body b"
    using ring_publish_slots [OF r, of b] b by auto
  have len: "length (br_slots r) = 16"
    using r by (simp add: ring_wf_def)
  show "ring_get (ring_publish b r) (unat (br_write_pos r)) = Some (wire_block_body b)"
    using len slot by (simp add: ring_get_alt [OF wf' unat_u64_less])
  fix p assume p: "p < unat (br_write_pos r)" "unat (br_write_pos r) < p + 16"
  have "p < 2 ^ 64"
    using p(1) unat_u64_less [of "br_write_pos r"] by linarith
  moreover have "unat (br_write_pos r) mod 16 \<noteq> p mod 16"
  proof
    assume e: "unat (br_write_pos r) mod 16 = p mod 16"
    then have "(unat (br_write_pos r) - p) mod 16 = 0"
      using p(1) by (metis less_imp_le mod_eq_dvd_iff_nat mod_0_imp_dvd dvd_imp_mod_0)
    then show False using p by auto
  qed
  ultimately show "ring_get (ring_publish b r) p = ring_get r p"
    using ring_get_alt [OF wf', of p] ring_get_alt [OF r, of p] by (simp add: slot(1))
qed

text \<open>
  The block ring keeps the whole recent history: after any sequence of publishes from
  a well-formed ring, each of the last 16 positions reads back as exactly the block
  published there (frame number, timestamp, clamped row count, flags and rows), for as
  long as the 64-bit write position does not wrap.
\<close>

theorem ring_history:
  assumes "ring_wf r" "\<forall>b \<in> set bs. wire_block_ok b"
    "unat (br_write_pos r) + length bs < 2 ^ 64"
    "unat (br_write_pos r) \<le> p" "p < unat (br_write_pos r) + length bs"
    "unat (br_write_pos r) + length bs \<le> p + 16"
  shows "ring_get (fold ring_publish bs r) p = Some (wire_block_body (bs ! (p - unat (br_write_pos r))))"
  using assms by (rule motor_ring.history)

definition zero_block :: shm_block where
  "zero_block = \<lparr>sb_seq = 0, sb_producer_seq = 0, sb_timestamp = 0, sb_n_rows = 0, sb_flags = 0,
     sb_rows = replicate 200 zero_row\<rparr>"

definition zero_ring :: shm_block_ring where
  "zero_ring = \<lparr>br_write_pos = 0, br_depth = 16, br_slots = replicate 16 zero_block\<rparr>"

definition sample_header :: "u32 \<Rightarrow> frame_header" where
  "sample_header q = \<lparr>fh_magic = MOTOR_FRAME_MAGIC, fh_seq = q, fh_timestamp = 1000,
     fh_version = MOTOR_CONTRACT_VERSION, fh_flags = 0, fh_n_rows = 1, fh_reserved = 0\<rparr>"

lemma zero_ring_wf: "ring_wf zero_ring"
  by (simp add: ring_wf_def zero_ring_def zero_block_def)

theorem ring_history_witness:
  "ring_get (fold ring_publish [(sample_header 1, [zero_row]), (sample_header 2, [zero_row])] zero_ring) 1 =
     Some (2, 1000, 1, 0, [zero_row])"
proof -
  have "ring_get (fold ring_publish [(sample_header 1, [zero_row]), (sample_header 2, [zero_row])] zero_ring) 1 =
      Some (wire_block_body ([(sample_header 1, [zero_row]), (sample_header 2, [zero_row])] ! (1 - unat (br_write_pos zero_ring))))"
    by (rule ring_history [OF zero_ring_wf])
       (simp_all add: zero_ring_def wire_block_ok_def sample_header_def clamp_rows_def)
  then show ?thesis
    by (simp add: wire_block_body_def sample_header_def clamp_rows_def zero_ring_def)
qed

end
