(* ===== verification/Seqlock.thy ===== *)
theory Seqlock
  imports MotorShm
begin

text \<open>
  The seqlock protocol of motor_shm.h under interleaving. The snapshot and every ring slot
  are one sequence word and an array of memory cells; \<open>motor_snapshot_publish\<close> and
  \<open>motor_ring_publish\<close> are programs of single stores, and the consumer loops are single
  loads. The step relation interleaves one producer and one consumer store by store and
  load by load (the fences of the source order exactly these accesses). \<open>sl_ver\<close> and
  \<open>sl_hist\<close> are history variables: how often the sequence word was written, and the cell
  contents after every completed publish.
\<close>

section \<open>Publishing as a program of stores\<close>

datatype 'c store = SetSeq u32 | SetCell nat 'c

fun exec_store :: "'c store \<Rightarrow> u32 \<times> 'c list \<Rightarrow> u32 \<times> 'c list" where
  "exec_store (SetSeq s) (_, cells) = (s, cells)"
| "exec_store (SetCell i v) (q, cells) = (q, cells[i := v])"

fun store_in_range :: "nat \<Rightarrow> 'c store \<Rightarrow> bool" where
  "store_in_range n (SetSeq _) \<longleftrightarrow> False"
| "store_in_range n (SetCell i _) \<longleftrightarrow> i < n"

definition publish_stores :: "u32 \<Rightarrow> 'c store list \<Rightarrow> 'c store list" where
  "publish_stores s0 body = SetSeq (s0 + 1) # body @ [SetSeq (s0 + 2)]"

text \<open>The cells of the snapshot: the twelve halfwords of the row, then the three fields.\<close>

definition row_cells :: "motor_row \<Rightarrow> u64 list" where
  "row_cells r = map ucast (row_current r) @
     [ucast (row_vib_x r), ucast (row_vib_y r), ucast (row_vib_z r), ucast (row_rpm r)]"

definition snapshot_cells :: "shm_snapshot \<Rightarrow> u64 list" where
  "snapshot_cells s = row_cells (ss_row s) @
     [ucast (ss_producer_seq s), ss_timestamp s, ucast (ss_flags s)]"

definition store_cells :: "nat \<Rightarrow> 'c list \<Rightarrow> 'c store list" where
  "store_cells off vs = map (\<lambda>k. SetCell (off + k) (vs ! k)) [0..<length vs]"

definition snapshot_stores :: "u32 \<Rightarrow> motor_row \<Rightarrow> u32 \<Rightarrow> u64 \<Rightarrow> u16 \<Rightarrow> u64 store list" where
  "snapshot_stores s0 row q t f =
     publish_stores s0 (store_cells 0 (row_cells row @ [ucast q, t, ucast f]))"

text \<open>The cells of a slot: its four fields, then the rows.\<close>

definition slot_cells :: "shm_block \<Rightarrow> u64 list" where
  "slot_cells b = [ucast (sb_producer_seq b), sb_timestamp b, ucast (sb_n_rows b), ucast (sb_flags b)] @
     concat (map row_cells (sb_rows b))"

definition slot_stores :: "u32 \<Rightarrow> frame_header \<Rightarrow> motor_row list \<Rightarrow> u64 store list" where
  "slot_stores s0 hdr rows = (let n = clamp_rows (fh_n_rows hdr) in
     publish_stores s0 (store_cells 0
       ([ucast (fh_seq hdr), fh_timestamp hdr, ucast n, ucast (fh_flags hdr)] @
        concat (map row_cells (take (unat n) rows)))))"

subsection \<open>The programs compute what the operations compute\<close>

lemma store_cells_Nil [simp]: "store_cells off [] = []"
  by (simp add: store_cells_def)

lemma store_cells_Cons: "store_cells off (v # vs) = SetCell off v # store_cells (Suc off) vs"
  by (simp add: store_cells_def upt_conv_Cons flip: map_Suc_upt del: upt_Suc)

lemma exec_store_cells:
  "off + length vs \<le> length cells \<Longrightarrow>
   fold exec_store (store_cells off vs) (q, cells) =
     (q, take off cells @ vs @ drop (off + length vs) cells)"
proof (induction vs arbitrary: off cells)
  case Nil
  then show ?case by simp
next
  case (Cons v vs)
  have "fold exec_store (store_cells off (v # vs)) (q, cells) =
      fold exec_store (store_cells (Suc off) vs) (q, cells[off := v])"
    by (simp add: store_cells_Cons)
  also have "\<dots> = (q, take (Suc off) (cells[off := v]) @ vs @ drop (Suc off + length vs) cells)"
    using Cons by simp
  also have "take (Suc off) (cells[off := v]) = take off cells @ [v]"
    using Cons.prems by (simp add: take_Suc_snoc)
  finally show ?case by simp
qed

lemma exec_publish_stores:
  "fold exec_store (publish_stores s0 body) (q, cells) =
     (s0 + 2, snd (fold exec_store body (s0 + 1, cells)))"
  by (simp add: publish_stores_def split: prod.split)
     (metis exec_store.simps(1) prod.collapse)

lemma length_row_cells: "row_wf r \<Longrightarrow> length (row_cells r) = 12"
  by (simp add: row_cells_def row_wf_def)

lemma snapshot_stores_correct:
  assumes "row_wf (ss_row s)" "row_wf row"
  shows "fold exec_store (snapshot_stores (ss_seqlock s) row q t f) (ss_seqlock s, snapshot_cells s) =
     (ss_seqlock (motor_snapshot_publish s row q t f), snapshot_cells (motor_snapshot_publish s row q t f))"
  using assms
  by (simp add: snapshot_stores_def exec_publish_stores exec_store_cells length_row_cells
      snapshot_cells_def motor_snapshot_publish_def Let_def)

lemma length_concat_row_cells:
  "\<forall>r \<in> set rs. row_wf r \<Longrightarrow> length (concat (map row_cells rs)) = 12 * length rs"
  by (induction rs) (simp_all add: length_row_cells)

lemma drop_concat_row_cells:
  "\<forall>r \<in> set rs. row_wf r \<Longrightarrow>
   drop (12 * k) (concat (map row_cells rs)) = concat (map row_cells (drop k rs))"
proof (induction rs arbitrary: k)
  case Nil
  then show ?case by simp
next
  case (Cons r rs)
  then show ?case
    by (cases k) (simp_all add: length_row_cells)
qed

text \<open>
  The two publish operations are exactly their store programs: running the stores of a
  ring publish one by one on the slot's memory leaves the sequence word and every cell as
  \<open>motor_ring_publish\<close> computes them, so what the interleaved machine does between two
  publishes is what the sequential operation does.
\<close>

theorem ring_publish_is_store_program:
  assumes "i = ring_index ring (br_write_pos ring)" "i < length (br_slots ring)"
    and "\<forall>r \<in> set (sb_rows (br_slots ring ! i)). row_wf r" "\<forall>r \<in> set rows. row_wf r"
    and "unat (clamp_rows (fh_n_rows hdr)) \<le> length rows"
    and "unat (clamp_rows (fh_n_rows hdr)) \<le> length (sb_rows (br_slots ring ! i))"
  shows "fold exec_store (slot_stores (sb_seq (br_slots ring ! i)) hdr rows)
       (sb_seq (br_slots ring ! i), slot_cells (br_slots ring ! i)) =
     (let slot = br_slots (motor_ring_publish ring hdr rows) ! i in (sb_seq slot, slot_cells slot))"
proof -
  let ?slot = "br_slots ring ! i" and ?n = "unat (clamp_rows (fh_n_rows hdr))"
  have wf: "\<forall>r \<in> set (take ?n rows). row_wf r"
    using assms(4) by (meson in_set_takeD)
  have len: "length (concat (map row_cells (take ?n rows))) = 12 * ?n"
    using length_concat_row_cells [OF wf] assms(5) by (simp add: min_def)
  have old: "length (concat (map row_cells (sb_rows ?slot))) = 12 * length (sb_rows ?slot)"
    by (rule length_concat_row_cells [OF assms(3)])
  have "drop (12 * ?n) (concat (map row_cells (sb_rows ?slot))) =
      concat (map row_cells (drop ?n (sb_rows ?slot)))"
    by (rule drop_concat_row_cells [OF assms(3)])
  moreover have "length (slot_cells ?slot) = 4 + 12 * length (sb_rows ?slot)"
    using old by (simp add: slot_cells_def)
  ultimately show ?thesis
    using assms(1,2,5,6) len
    by (simp add: slot_stores_def exec_publish_stores exec_store_cells motor_ring_publish_def
        Let_def overwrite_def slot_cells_def min_def)
qed

theorem ring_publish_is_store_program_witness:
  "fold exec_store (slot_stores (sb_seq (br_slots zero_ring ! 0)) (sample_header 1) [zero_row])
       (sb_seq (br_slots zero_ring ! 0), slot_cells (br_slots zero_ring ! 0)) =
     (let slot = br_slots (motor_ring_publish zero_ring (sample_header 1) [zero_row]) ! 0
      in (sb_seq slot, slot_cells slot))"
  by (rule ring_publish_is_store_program)
     (auto simp: zero_ring_def zero_block_def ring_index_def zero_row_def row_wf_def
       sample_header_def clamp_rows_def)

section \<open>The interleaved machine\<close>

datatype 'c consumer =
    CIdle nat
  | CCopy nat u32 nat "(nat \<times> 'c) list"
  | CDone "(nat \<times> 'c) list" nat nat
  | CFailed

record 'c seqlock =
  sl_seq :: u32
  sl_cells :: "'c list"
  sl_prog :: "'c store list"
  sl_cons :: "'c consumer"
  sl_ver :: nat
  sl_hist :: "'c list list"

definition seqlock_init :: "'c list \<Rightarrow> 'c seqlock" where
  "seqlock_init cells = \<lparr>sl_seq = 0, sl_cells = cells, sl_prog = [], sl_cons = CIdle 0,
     sl_ver = 0, sl_hist = [cells]\<rparr>"

text \<open>
  One step of either side. A publish is started with any body of cell stores; the consumer
  copies cells one by one, in any order and number (a ring reader decides how many rows to
  load from the \<open>n_rows\<close> it has just loaded), and has 64 tries.
\<close>

inductive seqlock_step :: "'c seqlock \<Rightarrow> 'c seqlock \<Rightarrow> bool" where
  p_begin: "sl_prog s = [] \<Longrightarrow> \<forall>st \<in> set body. store_in_range (length (sl_cells s)) st \<Longrightarrow>
     seqlock_step s (s\<lparr>sl_prog := publish_stores (sl_seq s) body\<rparr>)"
| p_cell: "sl_prog s = SetCell i v # prog \<Longrightarrow>
     seqlock_step s (s\<lparr>sl_prog := prog, sl_cells := (sl_cells s)[i := v]\<rparr>)"
| p_seq: "sl_prog s = SetSeq q # prog \<Longrightarrow>
     seqlock_step s (s\<lparr>sl_prog := prog, sl_seq := q, sl_ver := Suc (sl_ver s),
       sl_hist := (if even (sl_ver s) then sl_hist s else sl_hist s @ [sl_cells s])\<rparr>)"
| c_begin: "sl_cons s = CIdle n \<Longrightarrow> n < 64 \<Longrightarrow> sl_seq s AND 1 = 0 \<Longrightarrow>
     seqlock_step s (s\<lparr>sl_cons := CCopy n (sl_seq s) (sl_ver s) []\<rparr>)"
| c_busy: "sl_cons s = CIdle n \<Longrightarrow> n < 64 \<Longrightarrow> sl_seq s AND 1 \<noteq> 0 \<Longrightarrow>
     seqlock_step s (s\<lparr>sl_cons := CIdle (Suc n)\<rparr>)"
| c_load: "sl_cons s = CCopy n s1 v1 buf \<Longrightarrow> i < length (sl_cells s) \<Longrightarrow>
     seqlock_step s (s\<lparr>sl_cons := CCopy n s1 v1 (buf @ [(i, sl_cells s ! i)])\<rparr>)"
| c_accept: "sl_cons s = CCopy n s1 v1 buf \<Longrightarrow> sl_seq s = s1 \<Longrightarrow>
     seqlock_step s (s\<lparr>sl_cons := CDone buf v1 (sl_ver s)\<rparr>)"
| c_retry: "sl_cons s = CCopy n s1 v1 buf \<Longrightarrow> sl_seq s \<noteq> s1 \<Longrightarrow>
     seqlock_step s (s\<lparr>sl_cons := CIdle (Suc n)\<rparr>)"
| c_fail: "sl_cons s = CIdle n \<Longrightarrow> 64 \<le> n \<Longrightarrow> seqlock_step s (s\<lparr>sl_cons := CFailed\<rparr>)"
| c_again: "sl_cons s = CDone buf v1 v2 \<or> sl_cons s = CFailed \<Longrightarrow>
     seqlock_step s (s\<lparr>sl_cons := CIdle 0\<rparr>)"

inductive seqlock_reach :: "'c list \<Rightarrow> 'c seqlock \<Rightarrow> bool" for cells where
  reach_init: "seqlock_reach cells (seqlock_init cells)"
| reach_step: "seqlock_reach cells s \<Longrightarrow> seqlock_step s t \<Longrightarrow> seqlock_reach cells t"

subsection \<open>The invariant\<close>

text \<open>
  The sequence word is the version counter modulo \<open>2 ^ 32\<close>; between publishes the cells are
  the last recorded contents; what is left of the producer's program is a suffix of a
  publish that fits the parity of the version.
\<close>

definition producer_inv :: "'c seqlock \<Rightarrow> bool" where
  "producer_inv s \<longleftrightarrow>
     (let cell = store_in_range (length (sl_cells s)) in
      if even (sl_ver s)
      then sl_prog s = [] \<or> (\<exists>body. (\<forall>st \<in> set body. cell st) \<and> sl_prog s = publish_stores (sl_seq s) body)
      else (\<exists>body. (\<forall>st \<in> set body. cell st) \<and> sl_prog s = body @ [SetSeq (sl_seq s + 1)]))"

definition memory_inv :: "'c seqlock \<Rightarrow> bool" where
  "memory_inv s \<longleftrightarrow> sl_seq s = of_nat (sl_ver s) \<and>
     length (sl_hist s) = Suc (sl_ver s div 2) \<and>
     (even (sl_ver s) \<longrightarrow> sl_cells s = sl_hist s ! (sl_ver s div 2))"

definition copied_from :: "'c list \<Rightarrow> (nat \<times> 'c) list \<Rightarrow> bool" where
  "copied_from cells buf \<longleftrightarrow> (\<forall>(i, v) \<in> set buf. v = cells ! i)"

fun consumer_inv :: "'c seqlock \<Rightarrow> 'c consumer \<Rightarrow> bool" where
  "consumer_inv s (CCopy n s1 v1 buf) \<longleftrightarrow> v1 \<le> sl_ver s \<and> even v1 \<and> s1 = of_nat v1 \<and>
     (v1 = sl_ver s \<longrightarrow> copied_from (sl_hist s ! (v1 div 2)) buf)"
| "consumer_inv s (CDone buf v1 v2) \<longleftrightarrow> v1 \<le> v2 \<and> v2 \<le> sl_ver s \<and> even v1 \<and>
     (v2 < v1 + 2 ^ 32 \<longrightarrow> copied_from (sl_hist s ! (v1 div 2)) buf)"
| "consumer_inv s _ \<longleftrightarrow> True"

definition seqlock_inv :: "'c seqlock \<Rightarrow> bool" where
  "seqlock_inv s \<longleftrightarrow> producer_inv s \<and> memory_inv s \<and> consumer_inv s (sl_cons s)"

lemma seqlock_inv_init: "seqlock_inv (seqlock_init cells)"
  by (simp add: seqlock_inv_def producer_inv_def memory_inv_def seqlock_init_def)

lemma even_of_nat_AND_1: "(of_nat v :: u32) AND 1 = 0 \<longleftrightarrow> even v"
proof -
  have "unat (of_nat v :: u32) = v mod 2 ^ 32"
    by (simp add: unat_of_nat)
  moreover have "even (v mod 2 ^ 32) \<longleftrightarrow> even v"
    by (simp add: dvd_mod_iff)
  moreover have "even w \<longleftrightarrow> even (unat w)" for w :: u32
    by transfer (simp add: even_nat_iff)
  ultimately show ?thesis
    by (simp add: even_word_AND_1)
qed

lemma of_nat_u32_inject:
  assumes "(of_nat v :: u32) = of_nat w" "v \<le> w" "w < v + 2 ^ 32"
  shows "v = w"
proof -
  have "w mod 2 ^ 32 = v mod 2 ^ 32"
    using assms(1) by (simp add: word_of_nat_eq_iff take_bit_eq_mod)
  then have "2 ^ 32 dvd w - v"
    using assms(2) by (simp only: mod_eq_dvd_iff_nat)
  then have "w - v = 0"
    using assms(3) by (intro ccontr [of "w - v = 0"]) (auto dest: dvd_imp_le)
  then show ?thesis using assms(2) by simp
qed

subsection \<open>Every step keeps it\<close>

inductive_cases seqlock_stepE: "seqlock_step s t"

lemma consumer_inv_frame:
  assumes "sl_ver t = sl_ver s" "sl_hist t = sl_hist s"
  shows "consumer_inv t c = consumer_inv s c"
  using assms by (cases c) simp_all

lemma producer_inv_cons [simp]: "producer_inv (s\<lparr>sl_cons := c\<rparr>) = producer_inv s"
  by (simp add: producer_inv_def)

lemma memory_inv_cons [simp]: "memory_inv (s\<lparr>sl_cons := c\<rparr>) = memory_inv s"
  by (simp add: memory_inv_def)

lemma consumer_inv_cons [simp]: "consumer_inv (s\<lparr>sl_cons := c\<rparr>) = consumer_inv s"
  by (rule ext, rule consumer_inv_frame) simp_all

lemma consumer_inv_advance:
  assumes "consumer_inv s c" "memory_inv s" "sl_ver t = Suc (sl_ver s)"
    and "sl_hist t = sl_hist s \<or> (\<exists>x. sl_hist t = sl_hist s @ [x])"
  shows "consumer_inv t c"
proof -
  have "sl_hist t ! (v div 2) = sl_hist s ! (v div 2)" if "v \<le> sl_ver s" for v
  proof -
    have "v div 2 < length (sl_hist s)"
      using assms(2) div_le_mono [OF that, of 2] by (simp add: memory_inv_def less_Suc_eq_le)
    then show ?thesis
      using assms(4) by (auto simp: nth_append)
  qed
  then show ?thesis
    using assms(1,3) by (cases c) auto
qed

lemma producer_step_inv:
  assumes "seqlock_inv s" "sl_prog s = SetSeq q # prog"
  shows "seqlock_inv (s\<lparr>sl_prog := prog, sl_seq := q, sl_ver := Suc (sl_ver s),
       sl_hist := (if even (sl_ver s) then sl_hist s else sl_hist s @ [sl_cells s])\<rparr>)"
    (is "seqlock_inv ?t")
proof -
  have p: "producer_inv s" and m: "memory_inv s" and c: "consumer_inv s (sl_cons s)"
    using assms(1) by (simp_all add: seqlock_inv_def)
  have cons: "consumer_inv ?t (sl_cons ?t)"
    using consumer_inv_advance [OF c m, of ?t] by simp
  show ?thesis
  proof (cases "even (sl_ver s)")
    case True
    then obtain body where b: "\<forall>st \<in> set body. store_in_range (length (sl_cells s)) st"
      and "SetSeq q # prog = publish_stores (sl_seq s) body"
      using p assms(2) by (auto simp: producer_inv_def Let_def)
    then have q: "q = sl_seq s + 1" and prog: "prog = body @ [SetSeq (sl_seq s + 1 + 1)]"
      by (simp_all add: publish_stores_def add.assoc)
    have "producer_inv ?t"
      using True b q prog by (auto simp: producer_inv_def Let_def)
    moreover have "memory_inv ?t"
      using True m q by (simp add: memory_inv_def)
    ultimately show ?thesis
      using cons by (simp add: seqlock_inv_def)
  next
    case False
    then obtain body where b: "\<forall>st \<in> set body. store_in_range (length (sl_cells s)) st"
      and e: "SetSeq q # prog = body @ [SetSeq (sl_seq s + 1)]"
      using p assms(2) by (auto simp: producer_inv_def Let_def)
    then have "body = []" "q = sl_seq s + 1" "prog = []"
      by (cases body; auto)+
    then have "producer_inv ?t" "memory_inv ?t"
      using False m by (simp_all add: producer_inv_def memory_inv_def Let_def nth_append)
    then show ?thesis
      using cons by (simp add: seqlock_inv_def)
  qed
qed

lemma cell_step_inv:
  assumes "seqlock_inv s" "sl_prog s = SetCell i v # prog"
  shows "seqlock_inv (s\<lparr>sl_prog := prog, sl_cells := (sl_cells s)[i := v]\<rparr>)" (is "seqlock_inv ?t")
proof -
  have p: "producer_inv s"
    using assms(1) by (simp add: seqlock_inv_def)
  have odd: "odd (sl_ver s)"
    using p assms(2) by (auto simp: producer_inv_def publish_stores_def Let_def)
  then obtain body where b: "\<forall>st \<in> set body. store_in_range (length (sl_cells s)) st"
    and e: "SetCell i v # prog = body @ [SetSeq (sl_seq s + 1)]"
    using p assms(2) by (auto simp: producer_inv_def Let_def)
  then obtain body' where "body = SetCell i v # body'" "prog = body' @ [SetSeq (sl_seq s + 1)]"
    by (cases body) auto
  then have "producer_inv ?t"
    using odd b by (auto simp: producer_inv_def Let_def)
  then show ?thesis
    using assms(1) odd consumer_inv_frame [of ?t s]
    by (simp add: seqlock_inv_def memory_inv_def)
qed

lemma seqlock_step_inv: "seqlock_step s t \<Longrightarrow> seqlock_inv s \<Longrightarrow> seqlock_inv t"
proof (induction rule: seqlock_step.induct)
  case (p_begin s body)
  then have "even (sl_ver s)"
    by (auto simp: seqlock_inv_def producer_inv_def Let_def split: if_splits)
  moreover have "producer_inv (s\<lparr>sl_prog := publish_stores (sl_seq s) body\<rparr>)"
    using p_begin.hyps calculation by (simp add: producer_inv_def Let_def) blast
  ultimately show ?case
    using p_begin.prems consumer_inv_frame [of "s\<lparr>sl_prog := publish_stores (sl_seq s) body\<rparr>" s]
    by (simp add: seqlock_inv_def memory_inv_def)
next
  case (p_cell s i v prog)
  then show ?case by (blast intro: cell_step_inv)
next
  case (p_seq s q prog)
  then show ?case by (blast intro: producer_step_inv)
next
  case (c_begin s n)
  then have "even (sl_ver s)"
    by (simp add: seqlock_inv_def memory_inv_def even_of_nat_AND_1)
  then show ?case
    using c_begin by (simp add: seqlock_inv_def copied_from_def) (simp add: memory_inv_def)
next
  case (c_load s n s1 v1 buf i)
  then have "consumer_inv s (CCopy n s1 v1 (buf @ [(i, sl_cells s ! i)]))"
    by (auto simp: seqlock_inv_def memory_inv_def copied_from_def)
  then show ?case
    using c_load by (simp add: seqlock_inv_def)
next
  case (c_accept s n s1 v1 buf)
  then have v: "v1 \<le> sl_ver s" "even v1" "(of_nat v1 :: u32) = of_nat (sl_ver s)"
    "v1 = sl_ver s \<Longrightarrow> copied_from (sl_hist s ! (v1 div 2)) buf"
    by (auto simp: seqlock_inv_def memory_inv_def)
  then have "copied_from (sl_hist s ! (v1 div 2)) buf" if "sl_ver s < v1 + 2 ^ 32"
    using of_nat_u32_inject [of v1 "sl_ver s"] that by simp
  then show ?case
    using c_accept v by (simp add: seqlock_inv_def)
qed (simp_all add: seqlock_inv_def)

lemma seqlock_reach_inv: "seqlock_reach cells s \<Longrightarrow> seqlock_inv s"
  by (induction rule: seqlock_reach.induct) (blast intro: seqlock_inv_init seqlock_step_inv)+

subsection \<open>Accepted copies are never torn\<close>

text \<open>
  C1. Whatever the interleaving, a copy that a snapshot or ring consumer accepts comes from
  a single completed publish (or the initial contents): all loaded cells agree with one
  recorded memory image, provided that fewer than \<open>2 ^ 32\<close> stores to the 32-bit sequence
  word happened while the copy was made.
\<close>

theorem accepted_copy_not_torn:
  assumes "seqlock_reach cells s" "sl_cons s = CDone buf v1 v2" "v2 < v1 + 2 ^ 32"
  shows "\<exists>k < length (sl_hist s). \<forall>(i, v) \<in> set buf. v = sl_hist s ! k ! i"
proof -
  have "consumer_inv s (CDone buf v1 v2)" "memory_inv s"
    using seqlock_reach_inv [OF assms(1)] assms(2) by (simp_all add: seqlock_inv_def)
  then have "copied_from (sl_hist s ! (v1 div 2)) buf" "v1 \<le> sl_ver s"
    "length (sl_hist s) = Suc (sl_ver s div 2)"
    using assms(3) by (auto simp: memory_inv_def)
  then show ?thesis
    by (intro exI [of _ "v1 div 2"]) (auto simp: copied_from_def div_le_mono less_Suc_eq_le)
qed

lemma reach_steps:
  "seqlock_reach cells s \<Longrightarrow> seqlock_step\<^sup>*\<^sup>* s t \<Longrightarrow> seqlock_reach cells t"
  by (rotate_tac, induction rule: rtranclp_induct) (auto intro: reach_step)

theorem accepted_copy_not_torn_witness:
  "\<exists>s. seqlock_reach [5, 6 :: u64] s \<and> sl_cons s = CDone [(0, 5), (1, 6)] 0 0 \<and>
     (\<exists>k < length (sl_hist s). \<forall>(i, v) \<in> set [(0, 5), (1, 6)]. v = sl_hist s ! k ! i)"
proof -
  let ?s = "\<lambda>c. (seqlock_init [5, 6 :: u64])\<lparr>sl_cons := c\<rparr>"
  have "seqlock_step (seqlock_init [5, 6]) (?s (CCopy 0 0 0 []))"
    using seqlock_step.c_begin [of "seqlock_init [5, 6 :: u64]" 0] by (simp add: seqlock_init_def)
  then have 1: "seqlock_reach [5, 6] (?s (CCopy 0 0 0 []))"
    by (rule reach_step [OF reach_init])
  have "seqlock_step (?s (CCopy 0 0 0 [])) (?s (CCopy 0 0 0 [(0, 5)]))"
    using seqlock_step.c_load [of "?s (CCopy 0 0 0 [])" 0 0 0 "[]" 0] by (simp add: seqlock_init_def)
  then have 2: "seqlock_reach [5, 6] (?s (CCopy 0 0 0 [(0, 5)]))"
    by (rule reach_step [OF 1])
  have "seqlock_step (?s (CCopy 0 0 0 [(0, 5)])) (?s (CCopy 0 0 0 [(0, 5), (1, 6)]))"
    using seqlock_step.c_load [of "?s (CCopy 0 0 0 [(0, 5)])" 0 0 0 "[(0, 5)]" 1]
    by (simp add: seqlock_init_def)
  then have 3: "seqlock_reach [5, 6] (?s (CCopy 0 0 0 [(0, 5), (1, 6)]))"
    by (rule reach_step [OF 2])
  have "seqlock_step (?s (CCopy 0 0 0 [(0, 5), (1, 6)])) (?s (CDone [(0, 5), (1, 6)] 0 0))"
    using seqlock_step.c_accept [of "?s (CCopy 0 0 0 [(0, 5), (1, 6)])" 0 0 0 "[(0, 5), (1, 6)]"]
    by (simp add: seqlock_init_def)
  then have 4: "seqlock_reach [5, 6] (?s (CDone [(0, 5), (1, 6)] 0 0))"
    by (rule reach_step [OF 3])
  have "\<exists>k < length (sl_hist (?s (CDone [(0, 5), (1, 6)] 0 0))).
      \<forall>(i, v) \<in> set [(0, 5), (1, 6)]. v = sl_hist (?s (CDone [(0, 5), (1, 6)] 0 0)) ! k ! i"
    by (rule accepted_copy_not_torn [OF 4, of _ 0 0]) simp_all
  then show ?thesis
    using 4 by (intro exI [of _ "?s (CDone [(0, 5), (1, 6)] 0 0)"]) simp
qed

end
