(* ===== verification/ShmReader.thy ===== *)
theory ShmReader
  imports MotorShm
begin

text \<open>
  The consumers of the block ring: \<open>shm_reader_open\<close> and \<open>shm_reader_poll_blocks\<close> of
  src/src/shm_sender/shm_reader_c.c and src/src/motor_ai_client/client/src/shm_reader.c, and
  \<open>shm_connect\<close> and \<open>shm_poll\<close> of src/src/motor_recorder/recorder.c, which share one polling
  loop. The loop is a function of what \<open>motor_ring_read_slot\<close> returns at each position
  (a position is read at most once in a poll). Cursors and counters are 64-bit words with
  the subtraction of the source, so a cursor ahead of the write position wraps as it does
  in C.
\<close>

section \<open>Polling\<close>

record 'b poll_state =
  ps_read_pos :: u64
  ps_dropped :: u64
  ps_out :: "'b list"

definition poll_step :: "(u64 \<Rightarrow> 'b option) \<Rightarrow> 'b poll_state \<Rightarrow> 'b poll_state" where
  "poll_step read_slot s =
     (let s' = (case read_slot (ps_read_pos s) of
                  Some b \<Rightarrow> s\<lparr>ps_out := ps_out s @ [b]\<rparr>
                | None \<Rightarrow> s\<lparr>ps_dropped := ps_dropped s + 1\<rparr>)
      in s'\<lparr>ps_read_pos := ps_read_pos s + 1\<rparr>)"

lemma poll_step_read_pos: "ps_read_pos (poll_step read_slot s) = ps_read_pos s + 1"
  by (simp add: poll_step_def Let_def)

lemma unat_Suc_less: "(p :: u64) < q \<Longrightarrow> unat (p + 1) = Suc (unat p)"
  using unat_u64_less [of q] by (simp add: unat_word_ariths word_less_nat_alt)

function poll_loop :: "(u64 \<Rightarrow> 'b option) \<Rightarrow> u64 \<Rightarrow> nat \<Rightarrow> 'b poll_state \<Rightarrow> 'b poll_state" where
  "poll_loop read_slot wp max_blocks s =
     (if ps_read_pos s < wp \<and> length (ps_out s) < max_blocks
      then poll_loop read_slot wp max_blocks (poll_step read_slot s)
      else s)"
  by pat_completeness auto

termination poll_loop
  by (relation "measure (\<lambda>(_, wp, _, s). unat wp - unat (ps_read_pos s))")
     (auto simp: poll_step_read_pos unat_Suc_less word_less_nat_alt)

declare poll_loop.simps [simp del]

lemma poll_loop_stop:
  "\<not> (ps_read_pos s < wp \<and> length (ps_out s) < max_blocks) \<Longrightarrow> poll_loop read_slot wp max_blocks s = s"
  by (subst poll_loop.simps) (simp only: if_False)

lemma poll_loop_go:
  "ps_read_pos s < wp \<Longrightarrow> length (ps_out s) < max_blocks \<Longrightarrow>
   poll_loop read_slot wp max_blocks s = poll_loop read_slot wp max_blocks (poll_step read_slot s)"
  by (subst poll_loop.simps) simp

definition shm_poll :: "(u64 \<Rightarrow> 'b option) \<Rightarrow> u64 \<Rightarrow> u32 \<Rightarrow> nat \<Rightarrow> 'b poll_state \<Rightarrow> 'b poll_state" where
  "shm_poll read_slot wp depth max_blocks s =
     (let s1 = (if wp - ps_read_pos s > ucast depth
                then s\<lparr>ps_dropped := ps_dropped s + (wp - ps_read_pos s - ucast depth),
                       ps_read_pos := wp - ucast depth\<rparr>
                else s)
      in poll_loop read_slot wp max_blocks (s1\<lparr>ps_out := []\<rparr>))"

text \<open>The library form returns at once when the caller offers no room; the drop counter is
  the caller's, and updated only where the caller passed one (\<open>counting\<close>).\<close>

definition shm_reader_poll_blocks ::
  "bool \<Rightarrow> (u64 \<Rightarrow> 'b option) \<Rightarrow> u64 \<Rightarrow> u32 \<Rightarrow> nat \<Rightarrow> 'b poll_state \<Rightarrow> 'b poll_state" where
  "shm_reader_poll_blocks counting read_slot wp depth max_blocks s =
     (if max_blocks = 0 then s\<lparr>ps_out := []\<rparr>
      else let s' = shm_poll read_slot wp depth max_blocks s
           in if counting then s' else s'\<lparr>ps_dropped := ps_dropped s\<rparr>)"

section \<open>Attaching to the region\<close>

text \<open>
  \<open>map_ok t\<close> says whether the t-th \<open>shm_open\<close>/\<open>mmap\<close> attempt succeeds, \<open>obs t\<close> is the mapped
  region at the t-th validity check; after at most 100 waiting checks one more decides.
\<close>

definition wait_for_region :: "(nat \<Rightarrow> bool) \<Rightarrow> (nat \<Rightarrow> shm_region) \<Rightarrow> nat option" where
  "wait_for_region map_ok obs =
     (case find map_ok [0..<100] of
        None \<Rightarrow> None
      | Some _ \<Rightarrow>
          let k = (case find (\<lambda>t. motor_shm_region_valid (obs t)) [0..<100] of
                     Some t \<Rightarrow> Suc t | None \<Rightarrow> 100)
          in if motor_shm_region_valid (obs k) then Some k else None)"

definition shm_reader_open ::
  "bool \<Rightarrow> (nat \<Rightarrow> bool) \<Rightarrow> (nat \<Rightarrow> shm_region) \<Rightarrow> 'b poll_state option" where
  "shm_reader_open alloc_ok map_ok obs =
     (if \<not> alloc_ok then None
      else case wait_for_region map_ok obs of
             None \<Rightarrow> None
           | Some k \<Rightarrow> Some \<lparr>ps_read_pos = motor_ring_write_pos (sr_ring (obs k)),
                             ps_dropped = 0, ps_out = []\<rparr>)"

definition shm_connect ::
  "bool \<Rightarrow> (nat \<Rightarrow> bool) \<Rightarrow> (nat \<Rightarrow> shm_region) \<Rightarrow> 'b poll_state option" where
  "shm_connect alloc_ok map_ok obs =
     (if \<not> alloc_ok then None
      else map_option (\<lambda>_. \<lparr>ps_read_pos = 0, ps_dropped = 0, ps_out = []\<rparr>)
             (wait_for_region map_ok obs))"

section \<open>Accounting\<close>

lemma poll_loop_accounting:
  "length (ps_out s) \<le> length (ps_out (poll_loop read_slot wp max_blocks s)) \<and>
   ps_read_pos (poll_loop read_slot wp max_blocks s) - ps_read_pos s =
     of_nat (length (ps_out (poll_loop read_slot wp max_blocks s)) - length (ps_out s)) +
     (ps_dropped (poll_loop read_slot wp max_blocks s) - ps_dropped s)"
proof (induction read_slot wp max_blocks s rule: poll_loop.induct)
  case (1 read_slot wp max_blocks s)
  show ?case
  proof (cases "ps_read_pos s < wp \<and> length (ps_out s) < max_blocks")
    case True
    let ?s = "poll_step read_slot s"
    let ?e = "poll_loop read_slot wp max_blocks ?s"
    have IH: "length (ps_out ?s) \<le> length (ps_out ?e)"
      "ps_read_pos ?e - ps_read_pos ?s =
         of_nat (length (ps_out ?e) - length (ps_out ?s)) + (ps_dropped ?e - ps_dropped ?s)"
      using "1.IH" [OF True] by simp_all
    have "ps_read_pos ?e - ps_read_pos s = ps_read_pos ?e - ps_read_pos ?s + 1"
      by (simp add: poll_step_read_pos)
    moreover have "length (ps_out s) \<le> length (ps_out ?s)"
      by (simp add: poll_step_def Let_def split: option.split)
    moreover have "of_nat (length (ps_out ?e) - length (ps_out ?s)) + (ps_dropped ?e - ps_dropped ?s) + 1 =
        (of_nat (length (ps_out ?e) - length (ps_out s)) + (ps_dropped ?e - ps_dropped s) :: u64)"
      using IH(1) by (cases "read_slot (ps_read_pos s)") (simp_all add: poll_step_def Let_def of_nat_diff)
    ultimately show ?thesis
      using True IH by (simp add: poll_loop.simps [of read_slot wp max_blocks s])
  next
    case False
    then show ?thesis by (simp add: poll_loop_stop)
  qed
qed

lemma poll_loop_room:
  "length (ps_out s) \<le> max_blocks \<Longrightarrow> length (ps_out (poll_loop read_slot wp max_blocks s)) \<le> max_blocks"
proof (induction read_slot wp max_blocks s rule: poll_loop.induct)
  case (1 read_slot wp max_blocks s)
  show ?case
  proof (cases "ps_read_pos s < wp \<and> length (ps_out s) < max_blocks")
    case True
    then have "length (ps_out (poll_step read_slot s)) \<le> max_blocks"
      by (simp add: poll_step_def Let_def split: option.split)
    then show ?thesis
      using True "1.IH" by (simp add: poll_loop.simps [of read_slot wp max_blocks s])
  next
    case False
    then show ?thesis
      using "1.prems" by (simp add: poll_loop_stop)
  qed
qed

text \<open>
  C3. No block is lost silently: whatever the producer does meanwhile and whichever slot
  reads fail, every position a poll moves its cursor over is either delivered or added to
  the drop counter (in 64-bit arithmetic), and a poll never delivers more blocks than the
  caller has room for.
\<close>

theorem poll_accounting:
  "ps_read_pos (shm_poll read_slot wp depth max_blocks s) - ps_read_pos s =
     of_nat (length (ps_out (shm_poll read_slot wp depth max_blocks s))) +
     (ps_dropped (shm_poll read_slot wp depth max_blocks s) - ps_dropped s) \<and>
   length (ps_out (shm_poll read_slot wp depth max_blocks s)) \<le> max_blocks"
proof -
  define s1 where "s1 = (if wp - ps_read_pos s > ucast depth
                then s\<lparr>ps_dropped := ps_dropped s + (wp - ps_read_pos s - ucast depth),
                       ps_read_pos := wp - ucast depth\<rparr>
                else s)\<lparr>ps_out := []\<rparr>"
  let ?e = "poll_loop read_slot wp max_blocks s1"
  have e: "shm_poll read_slot wp depth max_blocks s = ?e"
    by (simp add: shm_poll_def s1_def Let_def)
  have skip: "ps_read_pos s1 - ps_read_pos s = ps_dropped s1 - ps_dropped s"
    by (simp add: s1_def)
  have out: "ps_out s1 = []"
    by (simp add: s1_def)
  have "ps_read_pos ?e - ps_read_pos s =
      (ps_read_pos ?e - ps_read_pos s1) + (ps_read_pos s1 - ps_read_pos s)"
    by simp
  also have "\<dots> = of_nat (length (ps_out ?e)) + (ps_dropped ?e - ps_dropped s1) + (ps_dropped s1 - ps_dropped s)"
    using poll_loop_accounting [of s1 read_slot wp max_blocks] out skip by simp
  finally show ?thesis
    using poll_loop_room [of s1 max_blocks read_slot wp] out by (simp add: e)
qed

section \<open>Delivery\<close>

text \<open>With every slot readable, the loop delivers consecutive positions while there is room.\<close>

lemma poll_loop_delivers:
  assumes "\<And>p. unat (ps_read_pos s) \<le> p \<Longrightarrow> p < unat wp \<Longrightarrow> read_slot (of_nat p) = Some (f p)"
    and "ps_read_pos s \<le> wp" "length (ps_out s) + (unat wp - unat (ps_read_pos s)) \<le> max_blocks"
  shows "poll_loop read_slot wp max_blocks s =
     s\<lparr>ps_read_pos := wp, ps_out := ps_out s @ map f [unat (ps_read_pos s)..<unat wp]\<rparr>"
  using assms
proof (induction read_slot wp max_blocks s rule: poll_loop.induct)
  case (1 read_slot wp max_blocks s)
  show ?case
  proof (cases "ps_read_pos s < wp")
    case True
    then have lt: "unat (ps_read_pos s) < unat wp" and room: "length (ps_out s) < max_blocks"
      using "1.prems"(3) by (auto simp: word_less_nat_alt)
    have read: "read_slot (ps_read_pos s) = Some (f (unat (ps_read_pos s)))"
      using "1.prems"(1) [OF order_refl lt] by simp
    have step: "poll_step read_slot s =
        s\<lparr>ps_read_pos := ps_read_pos s + 1, ps_out := ps_out s @ [f (unat (ps_read_pos s))]\<rparr>"
      by (simp add: poll_step_def read)
    have next_pos: "unat (ps_read_pos s + 1) = Suc (unat (ps_read_pos s))"
      using True by (rule unat_Suc_less)
    have le: "ps_read_pos s + 1 \<le> wp"
      using lt next_pos by (simp add: word_le_nat_alt)
    have "poll_loop read_slot wp max_blocks (poll_step read_slot s) =
        (poll_step read_slot s)\<lparr>ps_read_pos := wp, ps_out := ps_out (poll_step read_slot s) @
           map f [unat (ps_read_pos (poll_step read_slot s))..<unat wp]\<rparr>"
      using "1.prems" True room le next_pos lt by (intro "1.IH") (simp_all add: step)
    moreover have "[unat (ps_read_pos s)..<unat wp] =
        unat (ps_read_pos s) # [Suc (unat (ps_read_pos s))..<unat wp]"
      using lt by (simp add: upt_conv_Cons)
    ultimately show ?thesis
      using True room next_pos by (simp add: poll_loop_go step)
  next
    case False
    then have "ps_read_pos s = wp"
      using "1.prems"(2) by simp
    then show ?thesis
      by (simp add: poll_loop_stop)
  qed
qed

text \<open>
  C2. End to end over the ring: a consumer that is up to date, then polls once (with room
  for 16 blocks) after the producer has published any sequence of blocks, receives exactly
  the last 16 of them (all of them if there were fewer), in publishing order and intact;
  its cursor reaches the write position and the drop counter grows by exactly the number
  of older blocks.
\<close>

theorem poll_delivers_latest:
  assumes "ring_wf r" "\<forall>b \<in> set bs. wire_block_ok b"
    "unat (br_write_pos r) + length bs < 2 ^ 64" "16 \<le> max_blocks"
    "ps_read_pos s = br_write_pos r"
  shows "let r' = fold ring_publish bs r;
             s' = shm_poll (\<lambda>pos. ring_get r' (unat pos)) (motor_ring_write_pos r') (br_depth r') max_blocks s
         in ps_out s' = map wire_block_body (drop (length bs - 16) bs) \<and>
            ps_read_pos s' = br_write_pos r' \<and>
            ps_dropped s' = ps_dropped s + of_nat (length bs - 16)"
proof -
  define r' where "r' = fold ring_publish bs r"
  let ?wp = "br_write_pos r'" and ?w0 = "unat (br_write_pos r)"
  let ?read = "\<lambda>pos. ring_get r' (unat pos)"
  have r': "ring_wf r'" "unat ?wp = ?w0 + length bs"
    using motor_ring.fold_put [OF assms(1-3)] by (simp_all add: r'_def)
  have depth: "(ucast (br_depth r') :: u64) = 16"
    using r'(1) by (simp add: ring_wf_def)
  have gap: "unat (?wp - br_write_pos r) = length bs"
    using r'(2) by (simp add: unat_sub_if' word_le_nat_alt)
  have gap_gt: "?wp - br_write_pos r > 16 \<longleftrightarrow> length bs > 16"
    by (simp add: word_less_nat_alt gap)
  define q where "q = (if length bs > 16 then ?wp - 16 else br_write_pos r)"
  have q: "unat q = ?w0 + (length bs - 16)"
    using r'(2) by (auto simp: q_def unat_sub_if' word_le_nat_alt)
  define s1 where "s1 = s\<lparr>ps_dropped := ps_dropped s + of_nat (length bs - 16), ps_read_pos := q, ps_out := []\<rparr>"
  have gap_word: "?wp - br_write_pos r = of_nat (length bs)"
    using arg_cong [OF gap, of "of_nat :: nat \<Rightarrow> u64"] by simp
  have skip: "?wp - br_write_pos r - 16 = of_nat (length bs - 16)" if "length bs > 16"
    unfolding gap_word using that by (simp add: of_nat_diff)
  have cursor: "s\<lparr>ps_read_pos := br_write_pos r, ps_out := []\<rparr> = s\<lparr>ps_out := []\<rparr>"
    using assms(5) by simp
  have poll: "shm_poll ?read ?wp (br_depth r') max_blocks s = poll_loop ?read ?wp max_blocks s1"
    using gap_gt skip assms(5)
    by (cases "length bs > 16") (simp_all add: shm_poll_def Let_def depth q_def s1_def cursor)
  have "ring_get r' p = Some (wire_block_body (bs ! (p - ?w0)))" if "unat q \<le> p" "p < unat ?wp" for p
    unfolding r'_def using assms(1-3) q that r'(2) by (intro motor_ring.history) auto
  then have "poll_loop ?read ?wp max_blocks s1 = s1\<lparr>ps_read_pos := ?wp,
      ps_out := ps_out s1 @ map (\<lambda>p. wire_block_body (bs ! (p - ?w0))) [unat (ps_read_pos s1)..<unat ?wp]\<rparr>"
    using q r'(2) assms(4) unat_u64_less [of ?wp]
    by (intro poll_loop_delivers) (auto simp: s1_def word_le_nat_alt unat_of_nat)
  moreover have "map (\<lambda>p. wire_block_body (bs ! (p - ?w0))) [unat q..<unat ?wp] =
      map wire_block_body (drop (length bs - 16) bs)"
    using q r'(2) by (intro nth_equalityI) (simp_all add: add.commute)
  ultimately show ?thesis
    unfolding r'_def [symmetric] Let_def motor_ring_write_pos_def poll by (simp add: s1_def)
qed

definition sample_blocks :: "wire_block list" where
  "sample_blocks = [(sample_header 1, [zero_row]), (sample_header 2, [zero_row])]"

lemma sample_blocks_simps:
  "length sample_blocks = 2" "\<forall>b \<in> set sample_blocks. wire_block_ok b"
  "map wire_block_body sample_blocks = [(1, 1000, 1, 0, [zero_row]), (2, 1000, 1, 0, [zero_row])]"
  by (simp_all add: sample_blocks_def sample_header_def wire_block_ok_def wire_block_body_def clamp_rows_def)

theorem poll_delivers_latest_witness:
  "let r' = fold ring_publish sample_blocks zero_ring;
       s' = shm_poll (\<lambda>pos. ring_get r' (unat pos)) (motor_ring_write_pos r') (br_depth r') 16
              \<lparr>ps_read_pos = 0, ps_dropped = 0, ps_out = []\<rparr>
   in ps_out s' = [(1, 1000, 1, 0, [zero_row]), (2, 1000, 1, 0, [zero_row])] \<and>
      ps_read_pos s' = br_write_pos r' \<and> ps_dropped s' = 0"
proof -
  have pos: "br_write_pos zero_ring = 0"
    by (simp add: zero_ring_def)
  show ?thesis
    using poll_delivers_latest [of zero_ring sample_blocks 16 "\<lparr>ps_read_pos = 0, ps_dropped = 0, ps_out = []\<rparr>"]
    by (simp add: Let_def zero_ring_wf sample_blocks_simps pos)
qed

section \<open>After a producer restart\<close>

text \<open>
  A restarted producer re-initialises the region, so the write position starts again from
  0 while the consumer keeps its cursor: the distance wraps, the cursor is moved to
  write position - 16 (a huge word while fewer than 16 blocks are published), and nothing is
  delivered until the write position passes 16.
\<close>

text \<open>
  A poll whose cursor is ahead of the write position (the producer has restarted) and
  that finds fewer than 16 blocks published delivers nothing although those blocks are all
  readable, and leaves the cursor ahead of the write position again.
\<close>

theorem poll_after_producer_restart:
  assumes "wp < ps_read_pos s" "wp < 16" "ps_read_pos s < 2 ^ 63"
  shows "let s' = shm_poll read_slot wp 16 max_blocks s
         in ps_out s' = [] \<and> wp < ps_read_pos s' \<and> ps_read_pos s' = wp - 16 \<and>
            ps_dropped s' = ps_dropped s + (wp - ps_read_pos s - 16)"
proof -
  have p: "unat (ps_read_pos s) < 2 ^ 63"
    using assms(3) by (simp add: word_less_nat_alt)
  have w: "unat wp < 16" "unat wp < unat (ps_read_pos s)"
    using assms(1,2) by (simp_all add: word_less_nat_alt)
  have gt: "wp - ps_read_pos s > 16"
    using p w by (simp add: word_less_nat_alt unat_sub_if')
  have ahead: "wp < wp - 16"
    using w by (simp add: word_less_nat_alt unat_sub_if')
  define s1 where "s1 = s\<lparr>ps_dropped := ps_dropped s + (wp - ps_read_pos s - 16),
      ps_read_pos := wp - 16, ps_out := []\<rparr>"
  have "poll_loop read_slot wp max_blocks s1 = s1"
    using less_not_sym [OF ahead] by (intro poll_loop_stop) (simp add: s1_def)
  then have "shm_poll read_slot wp 16 max_blocks s = s1"
    using gt by (simp add: shm_poll_def Let_def s1_def)
  then show ?thesis
    using ahead by (simp add: s1_def)
qed

theorem poll_after_producer_restart_witness:
  "let s' = shm_poll (\<lambda>_. Some ()) 3 16 16 \<lparr>ps_read_pos = 1000, ps_dropped = 0, ps_out = []\<rparr>
   in ps_out s' = [] \<and> ps_read_pos s' = - 13 \<and> ps_dropped s' = - 1013"
  using poll_after_producer_restart [of 3 "\<lparr>ps_read_pos = 1000, ps_dropped = 0, ps_out = []\<rparr>"
      "\<lambda>_. Some ()" 16]
  by (simp add: Let_def)

end
