(* ===== verification/RowQueue.thy ===== *)
theory RowQueue
  imports MotorShm
begin

text \<open>
  The single-producer single-consumer row queue of src/src/motor_recorder/recorder.c
  (\<open>queue_alloc\<close>, \<open>queue_push\<close>, \<open>queue_pop\<close>): first as operations on the queue, with the
  contract of a bounded FIFO as a locale, then as the loads and stores of the reader and
  writer threads in every interleaving. The acquire/release pairs of the source order the
  slot access with the index it is guarded by, which is what a step of the relation
  does one after the other.
\<close>

section \<open>The queue\<close>

record csv_row =
  cr_ts :: u64
  cr_row :: motor_row

record row_queue =
  rq_buf :: "csv_row list"
  rq_head :: u32
  rq_tail :: u32
  rq_mask :: u32

definition zero_csv_row :: csv_row where
  "zero_csv_row = \<lparr>cr_ts = 0, cr_row = zero_row\<rparr>"

text \<open>\<open>calloc\<close> may fail for the queue or for its buffer.\<close>

definition queue_alloc :: "bool \<Rightarrow> bool \<Rightarrow> nat \<Rightarrow> row_queue option" where
  "queue_alloc queue_ok buf_ok power_of_two =
     (let cap = push_bit power_of_two 1 :: u32
      in if \<not> queue_ok then None
         else if \<not> buf_ok then None
         else Some \<lparr>rq_buf = replicate (unat cap) zero_csv_row, rq_head = 0, rq_tail = 0,
                    rq_mask = cap - 1\<rparr>)"

definition queue_push :: "csv_row \<Rightarrow> row_queue \<Rightarrow> row_queue option" where
  "queue_push r q =
     (let h = rq_head q; t = rq_tail q; nxt = (h + 1) AND rq_mask q
      in if nxt = t then None
         else Some (q\<lparr>rq_buf := (rq_buf q)[unat h := r], rq_head := nxt\<rparr>))"

definition queue_pop :: "row_queue \<Rightarrow> (csv_row \<times> row_queue) option" where
  "queue_pop q =
     (let h = rq_head q; t = rq_tail q
      in if h = t then None
         else Some (rq_buf q ! unat t, q\<lparr>rq_tail := (t + 1) AND rq_mask q\<rparr>))"

section \<open>The contract of a bounded FIFO\<close>

datatype 'a queue_op = Push 'a | Pop

text \<open>A run of the operations: the final queue, the elements accepted and the elements handed out.\<close>

primrec fifo_run :: 
  "('a \<Rightarrow> 'q \<Rightarrow> 'q option) \<Rightarrow> ('q \<Rightarrow> ('a \<times> 'q) option) \<Rightarrow> 'a queue_op list \<Rightarrow> 'q \<Rightarrow> 'q \<times> 'a list \<times> 'a list" where
  "fifo_run enq deq [] q = (q, [], [])"
| "fifo_run enq deq (x # xs) q =
     (case x of
        Push a \<Rightarrow> (case enq a q of
            None \<Rightarrow> fifo_run enq deq xs q
          | Some q' \<Rightarrow> (case fifo_run enq deq xs q' of (e, ins, outs) \<Rightarrow> (e, a # ins, outs)))
      | Pop \<Rightarrow> (case deq q of
            None \<Rightarrow> fifo_run enq deq xs q
          | Some (a, q') \<Rightarrow> (case fifo_run enq deq xs q' of (e, ins, outs) \<Rightarrow> (e, ins, a # outs))))"

locale bounded_fifo =
  fixes enq :: "'a \<Rightarrow> 'q \<Rightarrow> 'q option"
    and deq :: "'q \<Rightarrow> ('a \<times> 'q) option"
    and contents :: "'q \<Rightarrow> 'a list"
    and cap :: "'q \<Rightarrow> nat"
    and ok :: "'q \<Rightarrow> bool"
  assumes enq_room: "ok q \<Longrightarrow> length (contents q) < cap q \<Longrightarrow>
      \<exists>q'. enq x q = Some q' \<and> ok q' \<and> cap q' = cap q \<and> contents q' = contents q @ [x]"
    and enq_full: "ok q \<Longrightarrow> \<not> length (contents q) < cap q \<Longrightarrow> enq x q = None"
    and deq_empty: "ok q \<Longrightarrow> contents q = [] \<Longrightarrow> deq q = None"
    and deq_some: "ok q \<Longrightarrow> contents q = x # xs \<Longrightarrow>
      \<exists>q'. deq q = Some (x, q') \<and> ok q' \<and> cap q' = cap q \<and> contents q' = xs"
begin

lemma run_fifo:
  "ok q \<Longrightarrow> fifo_run enq deq ops q = (e, ins, outs) \<Longrightarrow>
   ok e \<and> cap e = cap q \<and> contents q @ ins = outs @ contents e"
proof (induction ops arbitrary: q e ins outs)
  case Nil
  then show ?case by simp
next
  case (Cons x ops)
  show ?case
  proof (cases x)
    case (Push a)
    show ?thesis
    proof (cases "length (contents q) < cap q")
      case True
      then obtain q' where q': "enq a q = Some q'" "ok q'" "cap q' = cap q" "contents q' = contents q @ [a]"
        using enq_room Cons.prems(1) by blast
      then obtain ins' where "fifo_run enq deq ops q' = (e, ins', outs)" "ins = a # ins'"
        using Cons.prems(2) Push by (auto split: prod.splits)
      then show ?thesis
        using Cons.IH [of q' e ins' outs] q' by simp
    next
      case False
      then show ?thesis
        using Cons.IH [of q] Cons.prems Push enq_full [of q a] by simp
    qed
  next
    case Pop
    show ?thesis
    proof (cases "contents q")
      case Nil
      then show ?thesis
        using Cons.IH [of q e ins outs] Cons.prems Pop deq_empty [of q] by simp
    next
      case (Cons a rest)
      then obtain q' where q': "deq q = Some (a, q')" "ok q'" "cap q' = cap q" "contents q' = rest"
        using deq_some Cons.prems(1) by blast
      then obtain outs' where "fifo_run enq deq ops q' = (e, ins, outs')" "outs = a # outs'"
        using Cons.prems(2) Pop by (auto split: prod.splits)
      then show ?thesis
        using Cons.IH [of q' e ins outs'] q' Cons by simp
    qed
  qed
qed

end

section \<open>The ring implements it\<close>

definition queue_wf :: "nat \<Rightarrow> row_queue \<Rightarrow> bool" where
  "queue_wf k q \<longleftrightarrow> 0 < k \<and> k < 32 \<and> length (rq_buf q) = 2 ^ k \<and> rq_mask q = 2 ^ k - 1 \<and>
     unat (rq_head q) < 2 ^ k \<and> unat (rq_tail q) < 2 ^ k"

definition queue_count :: "nat \<Rightarrow> row_queue \<Rightarrow> nat" where
  "queue_count k q = (unat (rq_head q) + 2 ^ k - unat (rq_tail q)) mod 2 ^ k"

definition queue_contents :: "nat \<Rightarrow> row_queue \<Rightarrow> csv_row list" where
  "queue_contents k q = map (\<lambda>i. rq_buf q ! ((unat (rq_tail q) + i) mod 2 ^ k)) [0..<queue_count k q]"

lemma queue_count_less: "queue_count k q < 2 ^ k"
  by (simp add: queue_count_def)

lemma length_queue_contents [simp]: "length (queue_contents k q) = queue_count k q"
  by (simp add: queue_contents_def)

lemma queue_next:
  assumes "k < 32" "unat (h :: u32) < 2 ^ k"
  shows "unat ((h + 1) AND (2 ^ k - 1)) = Suc (unat h) mod 2 ^ k"
proof -
  have "unat ((h + 1) AND (2 ^ k - 1)) = take_bit k (unat (h + 1))"
  proof -
    have "(h + 1) AND (2 ^ k - 1) = take_bit k (h + 1)"
      by (simp only: take_bit_eq_mask mask_eq_exp_minus_1)
    then show ?thesis
      by (simp only: unsigned_take_bit_eq)
  qed
  moreover have "(2 :: nat) ^ k \<le> 2 ^ 31"
    using assms(1) by (intro power_increasing) simp_all
  then have "unat (h + 1) = Suc (unat h)"
    using assms(2) by (simp add: unat_word_ariths)
  ultimately show ?thesis
    by (simp only: take_bit_eq_mod)
qed

text \<open>Distances on a ring of \<open>N\<close> slots.\<close>

definition ring_dist :: "nat \<Rightarrow> nat \<Rightarrow> nat \<Rightarrow> nat" where
  "ring_dist N h t = (h + N - t) mod N"

lemma ring_dist_if:
  assumes "h < N" "t < N"
  shows "ring_dist N h t = (if t \<le> h then h - t else h + N - t)"
proof (cases "t \<le> h")
  case True
  then have "h + N - t = (h - t) + N" by simp
  then show ?thesis
    using True assms by (simp only: ring_dist_def mod_add_self2) simp
next
  case False
  then show ?thesis
    using assms by (simp add: ring_dist_def)
qed

lemma ring_succ: "h < N \<Longrightarrow> Suc h mod N = (if Suc h = N then 0 else Suc h)" for h N :: nat
  by auto

lemma ring_offset:
  assumes "t < N" "i < N"
  shows "(t + i) mod N = (if t + i < N then t + i else t + i - N :: nat)"
  using assms by (simp add: le_mod_geq)

lemma ring_full: "h < N \<Longrightarrow> t < N \<Longrightarrow> Suc h mod N = t \<longleftrightarrow> ring_dist N h t = N - 1"
  unfolding ring_dist_if ring_succ by (cases "t \<le> h") auto

lemma ring_dist_push:
  "h < N \<Longrightarrow> t < N \<Longrightarrow> ring_dist N h t < N - 1 \<Longrightarrow> ring_dist N (Suc h mod N) t = Suc (ring_dist N h t)"
  by (cases "Suc h = N"; cases "t \<le> h") (auto simp: ring_dist_if)

lemma ring_dist_pop:
  "h < N \<Longrightarrow> t < N \<Longrightarrow> h \<noteq> t \<Longrightarrow> ring_dist N h t = Suc (ring_dist N h (Suc t mod N))"
  by (cases "Suc t = N"; cases "t \<le> h") (simp_all add: ring_dist_if)

lemma ring_dist_end: "h < N \<Longrightarrow> t < N \<Longrightarrow> (t + ring_dist N h t) mod N = h"
  by (cases "t \<le> h") (simp_all add: ring_dist_if)

lemma ring_live_slot: "h < N \<Longrightarrow> t < N \<Longrightarrow> i < ring_dist N h t \<Longrightarrow> (t + i) mod N \<noteq> h"
  by (cases "t \<le> h") (auto simp: ring_dist_if ring_offset split: if_splits)

lemma queue_bounds:
  "queue_wf k q \<Longrightarrow> unat (rq_head q) < 2 ^ k" "queue_wf k q \<Longrightarrow> unat (rq_tail q) < 2 ^ k"
  "queue_wf k q \<Longrightarrow> length (rq_buf q) = 2 ^ k"
  by (simp_all add: queue_wf_def)

lemma queue_wf_next:
  assumes "queue_wf k q"
  shows "unat ((rq_head q + 1) AND rq_mask q) = Suc (unat (rq_head q)) mod 2 ^ k"
    and "unat ((rq_tail q + 1) AND rq_mask q) = Suc (unat (rq_tail q)) mod 2 ^ k"
  using assms queue_next [of k "rq_head q"] queue_next [of k "rq_tail q"] by (simp_all add: queue_wf_def)

lemma queue_count_dist: "queue_count k q = ring_dist (2 ^ k) (unat (rq_head q)) (unat (rq_tail q))"
  by (simp add: queue_count_def ring_dist_def)

lemma queue_push_full:
  assumes "queue_wf k q"
  shows "(rq_head q + 1) AND rq_mask q = rq_tail q \<longleftrightarrow> queue_count k q = 2 ^ k - 1"
proof -
  have "(rq_head q + 1) AND rq_mask q = rq_tail q \<longleftrightarrow>
      Suc (unat (rq_head q)) mod 2 ^ k = unat (rq_tail q)"
    by (simp only: word_unat_eq_iff queue_wf_next [OF assms])
  then show ?thesis
    by (simp only: ring_full [OF queue_bounds(1) [OF assms] queue_bounds(2) [OF assms]] queue_count_dist)
qed

text \<open>The effect of each of the three stores of the queue on its contents.\<close>

lemma store_free_slot:
  assumes "queue_wf k q"
  shows "queue_wf k (q\<lparr>rq_buf := (rq_buf q)[unat (rq_head q) := r]\<rparr>)"
    and "queue_contents k (q\<lparr>rq_buf := (rq_buf q)[unat (rq_head q) := r]\<rparr>) = queue_contents k q"
proof -
  note b = queue_bounds [OF assms]
  have "unat (rq_head q) \<noteq> (unat (rq_tail q) + i) mod 2 ^ k" if "i < queue_count k q" for i
    using that ring_live_slot [OF b(1,2), of i] by (auto simp: queue_count_dist)
  then show "queue_contents k (q\<lparr>rq_buf := (rq_buf q)[unat (rq_head q) := r]\<rparr>) = queue_contents k q"
    by (simp add: queue_contents_def queue_count_def)
  show "queue_wf k (q\<lparr>rq_buf := (rq_buf q)[unat (rq_head q) := r]\<rparr>)"
    using assms by (simp add: queue_wf_def)
qed

lemma advance_head:
  assumes "queue_wf k q" "queue_count k q < 2 ^ k - 1"
  shows "queue_wf k (q\<lparr>rq_head := (rq_head q + 1) AND rq_mask q\<rparr>)"
    and "queue_contents k (q\<lparr>rq_head := (rq_head q + 1) AND rq_mask q\<rparr>) =
           queue_contents k q @ [rq_buf q ! unat (rq_head q)]"
proof -
  let ?h = "unat (rq_head q)" and ?t = "unat (rq_tail q)"
  define q' where "q' = q\<lparr>rq_head := (rq_head q + 1) AND rq_mask q\<rparr>"
  note b = queue_bounds [OF assms(1)]
  have h': "unat (rq_head q') = Suc ?h mod 2 ^ k" "rq_tail q' = rq_tail q" "rq_buf q' = rq_buf q"
    using queue_wf_next [OF assms(1)] by (simp_all add: q'_def)
  have count: "queue_count k q' = Suc (queue_count k q)"
    using assms(2) ring_dist_push [OF b(1,2)] by (simp only: queue_count_dist h')
  have "(?t + queue_count k q) mod 2 ^ k = ?h"
    using ring_dist_end [OF b(1,2)] by (simp only: queue_count_dist)
  then have "queue_contents k q' = queue_contents k q @ [rq_buf q ! ?h]"
    by (simp add: queue_contents_def count h')
  then show "queue_contents k (q\<lparr>rq_head := (rq_head q + 1) AND rq_mask q\<rparr>) =
      queue_contents k q @ [rq_buf q ! ?h]"
    by (simp only: q'_def)
  have "queue_wf k q'"
    using assms(1) h' by (simp add: queue_wf_def) (simp add: q'_def)
  then show "queue_wf k (q\<lparr>rq_head := (rq_head q + 1) AND rq_mask q\<rparr>)"
    by (simp only: q'_def)
qed

lemma advance_tail:
  assumes "queue_wf k q" "queue_count k q \<noteq> 0"
  shows "queue_wf k (q\<lparr>rq_tail := (rq_tail q + 1) AND rq_mask q\<rparr>)"
    and "queue_contents k q =
           rq_buf q ! unat (rq_tail q) # queue_contents k (q\<lparr>rq_tail := (rq_tail q + 1) AND rq_mask q\<rparr>)"
proof -
  let ?h = "unat (rq_head q)" and ?t = "unat (rq_tail q)"
  define q' where "q' = q\<lparr>rq_tail := (rq_tail q + 1) AND rq_mask q\<rparr>"
  note b = queue_bounds [OF assms(1)]
  have t': "unat (rq_tail q') = Suc ?t mod 2 ^ k" "rq_head q' = rq_head q" "rq_buf q' = rq_buf q"
    using queue_wf_next [OF assms(1)] by (simp_all add: q'_def)
  have "?h \<noteq> ?t"
    using assms(2) b(1) by (auto simp: queue_count_dist ring_dist_def)
  then have count: "queue_count k q = Suc (queue_count k q')"
    using ring_dist_pop [OF b(1,2)] by (simp add: queue_count_dist t')
  have shift: "(?t + Suc i) mod 2 ^ k = (unat (rq_tail q') + i) mod 2 ^ k" for i
    by (simp add: t' mod_add_left_eq)
  have upt: "[0..<queue_count k q] = 0 # map Suc [0..<queue_count k q']"
    by (simp add: count upt_conv_Cons map_Suc_upt del: upt_Suc)
  have "queue_contents k q = rq_buf q ! ?t # queue_contents k q'"
    unfolding queue_contents_def upt using b(2) by (simp add: comp_def shift t'(3) del: upt_Suc add_Suc_right)
  then show "queue_contents k q =
      rq_buf q ! ?t # queue_contents k (q\<lparr>rq_tail := (rq_tail q + 1) AND rq_mask q\<rparr>)"
    by (simp only: q'_def)
  have "queue_wf k q'"
    using assms(1) t' by (simp add: queue_wf_def) (simp add: q'_def)
  then show "queue_wf k (q\<lparr>rq_tail := (rq_tail q + 1) AND rq_mask q\<rparr>)"
    by (simp only: q'_def)
qed

lemma queue_empty_iff:
  "queue_wf k q \<Longrightarrow> queue_count k q = 0 \<longleftrightarrow> rq_head q = rq_tail q"
  using queue_bounds(1,2) [of k q]
  by (auto simp: queue_count_dist ring_dist_if word_unat_eq_iff split: if_splits)

lemma queue_push_contents:
  assumes "queue_wf k q" "queue_count k q < 2 ^ k - 1"
  shows "\<exists>q'. queue_push r q = Some q' \<and> queue_wf k q' \<and> queue_contents k q' = queue_contents k q @ [r]"
proof -
  define q1 where "q1 = q\<lparr>rq_buf := (rq_buf q)[unat (rq_head q) := r]\<rparr>"
  have q1: "queue_wf k q1" "queue_contents k q1 = queue_contents k q" "queue_count k q1 = queue_count k q"
    "rq_buf q1 ! unat (rq_head q1) = r"
    using store_free_slot [OF assms(1), of r] queue_bounds [OF assms(1)]
    by (simp_all add: q1_def queue_count_def)
  have "queue_push r q = Some (q1\<lparr>rq_head := (rq_head q1 + 1) AND rq_mask q1\<rparr>)"
    using queue_push_full [OF assms(1)] assms(2) by (simp add: queue_push_def q1_def Let_def)
  then show ?thesis
    using advance_head [of k q1] q1 assms(2) by simp
qed

lemma queue_pop_contents:
  assumes "queue_wf k q" "queue_contents k q = r # rs"
  shows "\<exists>q'. queue_pop q = Some (r, q') \<and> queue_wf k q' \<and> queue_contents k q' = rs"
proof -
  have "queue_count k q \<noteq> 0"
    using arg_cong [OF assms(2), of length] by simp
  then show ?thesis
    using advance_tail [OF assms(1)] assms queue_empty_iff [OF assms(1)]
    by (simp add: queue_pop_def Let_def)
qed

interpretation row_fifo: bounded_fifo queue_push queue_pop "queue_contents k" "\<lambda>_. 2 ^ k - 1" "queue_wf k"
  for k
proof unfold_locales
  fix q r rs
  assume wf: "queue_wf k q"
  show "length (queue_contents k q) < 2 ^ k - 1 \<Longrightarrow>
      \<exists>q'. queue_push r q = Some q' \<and> queue_wf k q' \<and> (2 :: nat) ^ k - 1 = 2 ^ k - 1 \<and>
        queue_contents k q' = queue_contents k q @ [r]"
    using queue_push_contents [OF wf, of r] by simp
  show "queue_push r q = None" if "\<not> length (queue_contents k q) < 2 ^ k - 1"
  proof -
    have "queue_count k q = 2 ^ k - 1"
      using that queue_count_less [of k q] by simp
    then show ?thesis
      using queue_push_full [OF wf] by (simp add: queue_push_def)
  qed
  show "queue_pop q = None" if "queue_contents k q = []"
  proof -
    have "queue_count k q = 0"
      using arg_cong [OF that, of length] by simp
    then show ?thesis
      using queue_empty_iff [OF wf] by (simp add: queue_pop_def)
  qed
  show "queue_contents k q = r # rs \<Longrightarrow>
      \<exists>q'. queue_pop q = Some (r, q') \<and> queue_wf k q' \<and> (2 :: nat) ^ k - 1 = 2 ^ k - 1 \<and>
        queue_contents k q' = rs"
    using queue_pop_contents [OF wf] by simp
qed

lemma queue_alloc_wf:
  assumes "queue_alloc queue_ok buf_ok k = Some q" "0 < k" "k < 32"
  shows "queue_wf k q \<and> queue_contents k q = []"
proof -
  have cap: "unat (2 ^ k :: u32) = 2 ^ k"
  proof -
    have "(2 ^ k :: u32) = of_nat (2 ^ k)"
      by simp
    moreover have "(2 :: nat) ^ k < 2 ^ 32"
      using assms(3) by (rule power_strict_increasing) simp
    ultimately show ?thesis
      by (simp only: unat_of_nat) simp
  qed
  show ?thesis
    using assms cap by (auto simp: queue_alloc_def queue_wf_def queue_contents_def queue_count_def Let_def
        push_bit_eq_mult split: if_splits)
qed

lemma queue_fifo:
  assumes "queue_alloc True True k = Some q" "0 < k" "k < 32"
    "fifo_run queue_push queue_pop ops q = (e, ins, outs)"
  shows "ins = outs @ queue_contents k e \<and> length (queue_contents k e) \<le> 2 ^ k - 1"
  using queue_alloc_wf [OF assms(1-3)] row_fifo.run_fifo [OF _ assms(4), of k] queue_count_less [of k e]
  by simp

section \<open>The reader and writer threads\<close>

text \<open>
  Where each thread is inside \<open>queue_push\<close> and \<open>queue_pop\<close>: between its loads and the slot
  access, or between the slot access and the index store that publishes it. \<open>sp_accepted\<close>
  and \<open>sp_handed\<close> record the rows of the calls that returned true.
\<close>

datatype push_pc = PushIdle | PushLoaded csv_row | PushWritten csv_row
datatype pop_pc = PopIdle | PopLoaded | PopCopied csv_row

record spsc =
  sp_queue :: row_queue
  sp_push :: push_pc
  sp_pop :: pop_pc
  sp_accepted :: "csv_row list"
  sp_handed :: "csv_row list"

inductive spsc_step :: "spsc \<Rightarrow> spsc \<Rightarrow> bool" where
  push_load: "sp_push s = PushIdle \<Longrightarrow> q = sp_queue s \<Longrightarrow> (rq_head q + 1) AND rq_mask q \<noteq> rq_tail q \<Longrightarrow>
    spsc_step s (s\<lparr>sp_push := PushLoaded r\<rparr>)"
| push_write: "sp_push s = PushLoaded r \<Longrightarrow> q = sp_queue s \<Longrightarrow>
    spsc_step s (s\<lparr>sp_queue := q\<lparr>rq_buf := (rq_buf q)[unat (rq_head q) := r]\<rparr>, sp_push := PushWritten r\<rparr>)"
| push_commit: "sp_push s = PushWritten r \<Longrightarrow> q = sp_queue s \<Longrightarrow>
    spsc_step s (s\<lparr>sp_queue := q\<lparr>rq_head := (rq_head q + 1) AND rq_mask q\<rparr>, sp_push := PushIdle,
                   sp_accepted := sp_accepted s @ [r]\<rparr>)"
| pop_load: "sp_pop s = PopIdle \<Longrightarrow> q = sp_queue s \<Longrightarrow> rq_head q \<noteq> rq_tail q \<Longrightarrow>
    spsc_step s (s\<lparr>sp_pop := PopLoaded\<rparr>)"
| pop_copy: "sp_pop s = PopLoaded \<Longrightarrow> q = sp_queue s \<Longrightarrow>
    spsc_step s (s\<lparr>sp_pop := PopCopied (rq_buf q ! unat (rq_tail q))\<rparr>)"
| pop_commit: "sp_pop s = PopCopied r \<Longrightarrow> q = sp_queue s \<Longrightarrow>
    spsc_step s (s\<lparr>sp_queue := q\<lparr>rq_tail := (rq_tail q + 1) AND rq_mask q\<rparr>, sp_pop := PopIdle,
                   sp_handed := sp_handed s @ [r]\<rparr>)"

definition spsc_init :: "row_queue \<Rightarrow> spsc" where
  "spsc_init q = \<lparr>sp_queue = q, sp_push = PushIdle, sp_pop = PopIdle, sp_accepted = [], sp_handed = []\<rparr>"

inductive spsc_reach :: "row_queue \<Rightarrow> spsc \<Rightarrow> bool" for q where
  spsc_start: "spsc_reach q (spsc_init q)"
| spsc_next: "spsc_reach q s \<Longrightarrow> spsc_step s t \<Longrightarrow> spsc_reach q t"

inductive_cases spsc_stepE: "spsc_step s t"

fun push_inv :: "nat \<Rightarrow> row_queue \<Rightarrow> push_pc \<Rightarrow> bool" where
  "push_inv k q PushIdle \<longleftrightarrow> True"
| "push_inv k q (PushLoaded r) \<longleftrightarrow> queue_count k q < 2 ^ k - 1"
| "push_inv k q (PushWritten r) \<longleftrightarrow> queue_count k q < 2 ^ k - 1 \<and> rq_buf q ! unat (rq_head q) = r"

fun pop_inv :: "nat \<Rightarrow> row_queue \<Rightarrow> pop_pc \<Rightarrow> bool" where
  "pop_inv k q PopIdle \<longleftrightarrow> True"
| "pop_inv k q PopLoaded \<longleftrightarrow> queue_contents k q \<noteq> []"
| "pop_inv k q (PopCopied r) \<longleftrightarrow> (\<exists>rs. queue_contents k q = r # rs)"

definition spsc_inv :: "nat \<Rightarrow> spsc \<Rightarrow> bool" where
  "spsc_inv k s \<longleftrightarrow> queue_wf k (sp_queue s) \<and> push_inv k (sp_queue s) (sp_push s) \<and>
     pop_inv k (sp_queue s) (sp_pop s) \<and>
     sp_accepted s = sp_handed s @ queue_contents k (sp_queue s)"


lemma spsc_push_write_inv:
  assumes "spsc_inv k s" "sp_push s = PushLoaded r"
  shows "spsc_inv k (s\<lparr>sp_queue := (sp_queue s)\<lparr>rq_buf := (rq_buf (sp_queue s))[unat (rq_head (sp_queue s)) := r]\<rparr>,
           sp_push := PushWritten r\<rparr>)"
proof -
  let ?q = "sp_queue s"
  let ?q' = "?q\<lparr>rq_buf := (rq_buf ?q)[unat (rq_head ?q) := r]\<rparr>"
  have wf: "queue_wf k ?q"
    using assms(1) by (simp add: spsc_inv_def)
  have "queue_wf k ?q'" "queue_contents k ?q' = queue_contents k ?q"
    using store_free_slot [OF wf] by simp_all
  moreover from this(2) have "pop_inv k ?q' (sp_pop s) = pop_inv k ?q (sp_pop s)"
    by (cases "sp_pop s") simp_all
  moreover have "queue_count k ?q' = queue_count k ?q"
    by (simp add: queue_count_def)
  ultimately show ?thesis
    using assms queue_bounds [OF wf] by (simp add: spsc_inv_def)
qed

lemma spsc_push_commit_inv:
  assumes "spsc_inv k s" "sp_push s = PushWritten r"
  shows "spsc_inv k (s\<lparr>sp_queue := (sp_queue s)\<lparr>rq_head := (rq_head (sp_queue s) + 1) AND rq_mask (sp_queue s)\<rparr>,
           sp_push := PushIdle, sp_accepted := sp_accepted s @ [r]\<rparr>)"
proof -
  let ?q = "sp_queue s"
  let ?q' = "?q\<lparr>rq_head := (rq_head ?q + 1) AND rq_mask ?q\<rparr>"
  have wf: "queue_wf k ?q" "queue_count k ?q < 2 ^ k - 1" "rq_buf ?q ! unat (rq_head ?q) = r"
    using assms by (simp_all add: spsc_inv_def)
  have q': "queue_wf k ?q'" "queue_contents k ?q' = queue_contents k ?q @ [r]"
    using advance_head [OF wf(1,2)] wf(3) by simp_all
  moreover from q'(2) have "pop_inv k ?q (sp_pop s) \<Longrightarrow> pop_inv k ?q' (sp_pop s)"
    by (cases "sp_pop s") auto
  ultimately show ?thesis
    using assms by (simp add: spsc_inv_def)
qed

lemma spsc_pop_commit_inv:
  assumes "spsc_inv k s" "sp_pop s = PopCopied r"
  shows "spsc_inv k (s\<lparr>sp_queue := (sp_queue s)\<lparr>rq_tail := (rq_tail (sp_queue s) + 1) AND rq_mask (sp_queue s)\<rparr>,
           sp_pop := PopIdle, sp_handed := sp_handed s @ [r]\<rparr>)"
proof -
  let ?q = "sp_queue s"
  let ?q' = "?q\<lparr>rq_tail := (rq_tail ?q + 1) AND rq_mask ?q\<rparr>"
  obtain rs where wf: "queue_wf k ?q" "queue_contents k ?q = r # rs"
    using assms by (auto simp: spsc_inv_def)
  have len: "queue_count k ?q = Suc (length rs)"
    using arg_cong [OF wf(2), of length] by simp
  then have q': "queue_wf k ?q'" "queue_contents k ?q' = rs"
    using advance_tail [OF wf(1)] wf(2) by simp_all
  have "queue_count k ?q' < queue_count k ?q"
    using arg_cong [OF q'(2), of length] len by simp
  then have "push_inv k ?q (sp_push s) \<Longrightarrow> push_inv k ?q' (sp_push s)"
    by (cases "sp_push s") auto
  then show ?thesis
    using assms q' wf by (simp add: spsc_inv_def)
qed

lemma spsc_step_inv:
  assumes "spsc_step s t" "spsc_inv k s"
  shows "spsc_inv k t"
  using assms(1)
proof (cases rule: spsc_step.cases)
  case (push_load q r)
  have wf: "queue_wf k (sp_queue s)"
    using assms(2) by (simp add: spsc_inv_def)
  have "queue_count k (sp_queue s) \<noteq> 2 ^ k - 1"
    using push_load queue_push_full [OF wf] by simp
  then have "queue_count k (sp_queue s) < 2 ^ k - 1"
    using queue_count_less [of k "sp_queue s"] by linarith
  then show ?thesis
    using push_load assms(2) by (simp add: spsc_inv_def)
next
  case (pop_load q)
  have wf: "queue_wf k (sp_queue s)"
    using assms(2) by (simp add: spsc_inv_def)
  have "queue_contents k (sp_queue s) \<noteq> []"
    using pop_load queue_empty_iff [OF wf] length_queue_contents [of k "sp_queue s"] by force
  then show ?thesis
    using pop_load assms(2) by (simp add: spsc_inv_def)
next
  case (pop_copy q)
  have wf: "queue_wf k (sp_queue s)" "queue_contents k (sp_queue s) \<noteq> []"
    using assms(2) pop_copy by (simp_all add: spsc_inv_def)
  then have "queue_count k (sp_queue s) \<noteq> 0"
    by (simp flip: length_queue_contents)
  then show ?thesis
    using pop_copy assms(2) advance_tail(2) [OF wf(1)] by (simp add: spsc_inv_def)
qed (simp_all add: assms spsc_push_write_inv spsc_push_commit_inv spsc_pop_commit_inv)

lemma spsc_reach_inv:
  assumes "queue_wf k q" "queue_contents k q = []" "spsc_reach q s"
  shows "spsc_inv k s"
  using assms(3)
proof (induction rule: spsc_reach.induct)
  case spsc_start
  then show ?case
    using assms(1,2) by (simp add: spsc_inv_def spsc_init_def)
next
  case (spsc_next s t)
  then show ?case
    by (simp add: spsc_step_inv)
qed

text \<open>
  C9. The recorder's two threads share the row queue correctly under every interleaving of
  their loads and stores: the rows accepted by \<open>queue_push\<close> are exactly those already
  handed out by \<open>queue_pop\<close>, in order, followed by those still queued; never more than
  \<open>2 ^ k - 1\<close> are queued, and a row the writer thread has copied but not yet released is the
  oldest one.
\<close>

theorem spsc_fifo:
  assumes "queue_alloc True True k = Some q" "0 < k" "k < 32" "spsc_reach q s"
  shows "sp_accepted s = sp_handed s @ queue_contents k (sp_queue s) \<and>
    length (queue_contents k (sp_queue s)) \<le> 2 ^ k - 1 \<and>
    (\<forall>r. sp_pop s = PopCopied r \<longrightarrow> sp_accepted s ! length (sp_handed s) = r)"
proof -
  have inv: "spsc_inv k s"
    using queue_alloc_wf [OF assms(1-3)] spsc_reach_inv [OF _ _ assms(4)] by blast
  then have "\<forall>r. sp_pop s = PopCopied r \<longrightarrow> sp_accepted s ! length (sp_handed s) = r"
    by (auto simp: spsc_inv_def)
  then show ?thesis
    using inv queue_count_less [of k "sp_queue s"] by (simp add: spsc_inv_def)
qed

definition sample_queue :: row_queue where
  "sample_queue = \<lparr>rq_buf = [zero_csv_row, zero_csv_row, zero_csv_row, zero_csv_row],
     rq_head = 0, rq_tail = 0, rq_mask = 3\<rparr>"

definition sample_csv :: csv_row where
  "sample_csv = zero_csv_row\<lparr>cr_ts := 5\<rparr>"

definition sample_spsc :: spsc where
  "sample_spsc = \<lparr>sp_queue = sample_queue\<lparr>rq_buf := [sample_csv, zero_csv_row, zero_csv_row, zero_csv_row],
     rq_head := 1\<rparr>, sp_push = PushIdle, sp_pop = PopCopied sample_csv, sp_accepted = [sample_csv], sp_handed = []\<rparr>"

lemma sample_alloc: "queue_alloc True True 2 = Some sample_queue"
  by (simp add: queue_alloc_def sample_queue_def Let_def) (simp add: numeral_eq_Suc)

lemma sample_spsc_reach: "spsc_reach sample_queue sample_spsc"
proof -
  let ?s0 = "spsc_init sample_queue"
  let ?s1 = "?s0\<lparr>sp_push := PushLoaded sample_csv\<rparr>"
  let ?s2 = "?s1\<lparr>sp_queue := sample_queue\<lparr>rq_buf := [sample_csv, zero_csv_row, zero_csv_row, zero_csv_row]\<rparr>,
      sp_push := PushWritten sample_csv\<rparr>"
  let ?s3 = "sample_spsc\<lparr>sp_pop := PopIdle\<rparr>"
  have "spsc_step ?s0 ?s1"
    by (rule push_load [OF _ refl]) (simp_all add: spsc_init_def sample_queue_def)
  moreover have "spsc_step ?s1 ?s2"
    using push_write [of ?s1 sample_csv, OF _ refl] by (simp add: spsc_init_def sample_queue_def)
  moreover have "spsc_step ?s2 ?s3"
    using push_commit [of ?s2 sample_csv, OF _ refl]
    by (simp add: spsc_init_def sample_queue_def sample_spsc_def)
  moreover have "spsc_step ?s3 (?s3\<lparr>sp_pop := PopLoaded\<rparr>)"
    by (rule pop_load [OF _ refl]) (simp_all add: sample_queue_def sample_spsc_def)
  moreover have "spsc_step (?s3\<lparr>sp_pop := PopLoaded\<rparr>) sample_spsc"
    using pop_copy [of "?s3\<lparr>sp_pop := PopLoaded\<rparr>", OF _ refl]
    by (simp add: sample_queue_def sample_spsc_def)
  ultimately show ?thesis
    by (meson spsc_start spsc_next)
qed

theorem spsc_fifo_witness:
  "sp_pop sample_spsc = PopCopied sample_csv \<and> sp_accepted sample_spsc ! length (sp_handed sample_spsc) = sample_csv"
proof -
  have "sp_pop sample_spsc = PopCopied sample_csv"
    by (simp add: sample_spsc_def)
  then show ?thesis
    using spsc_fifo [OF sample_alloc _ _ sample_spsc_reach] by auto
qed

end
