(* ===== verification/FrameCrc.thy ===== *)
theory FrameCrc
  imports MotorWire
begin

text \<open>
  The checksum of data and command frames: \<open>frame_crc_compute\<close> of
  src/src/giga_spi_8adc/motor_controller.c, CRC-32/MPEG-2 bit by bit. The bit step is linear
  over XOR and injective, which gives the two facts the link relies on: a frame with
  its checksum appended most significant byte first leaves residue zero, and two frames
  that differ only inside four consecutive bytes never have the same checksum.
\<close>

definition crc_bit :: "u32 \<Rightarrow> u32" where
  "crc_bit crc = (if crc AND 0x80000000 \<noteq> 0 then push_bit 1 crc XOR 0x04C11DB7 else push_bit 1 crc)"

definition crc_byte :: "u32 \<Rightarrow> u8 \<Rightarrow> u32" where
  "crc_byte crc d = (crc_bit ^^ 8) (crc XOR push_bit 24 (ucast d))"

definition frame_crc_compute :: "u8 list \<Rightarrow> u32" where
  "frame_crc_compute data = foldl crc_byte 0xFFFFFFFF data"

lemma frame_crc_append: "frame_crc_compute (xs @ ys) = foldl crc_byte (frame_crc_compute xs) ys"
  by (simp add: frame_crc_compute_def)

subsection \<open>The bit step is linear and injective\<close>

lemma msb_mask: "(x AND 0x80000000 \<noteq> 0) = bit (x :: u32) 31"
  using and_exp_eq_0_iff_not_bit [of x 31] by simp

lemma bit_crc_bit:
  "bit (crc_bit x) n \<longleftrightarrow>
     n < 32 \<and> ((0 < n \<and> bit x (n - 1)) \<noteq> (bit x 31 \<and> bit (0x04C11DB7 :: u32) n))"
proof -
  have "bit (push_bit 1 x) n \<longleftrightarrow> n < 32 \<and> 0 < n \<and> bit x (n - 1)"
    by (auto simp only: bit_push_bit_iff possible_bit_word len_num1 len_bit0 len_num0)
  moreover have "\<not> bit (0x04C11DB7 :: u32) n" if "\<not> n < 32"
    using that bit_imp_le_length [of "0x04C11DB7 :: u32" n] by auto
  ultimately show ?thesis
    by (cases "bit x 31") (auto simp only: crc_bit_def msb_mask bit_xor_iff if_True if_False simp_thms)
qed

lemma crc_bit_xor: "crc_bit (x XOR y) = crc_bit x XOR crc_bit y"
  by (intro bit_word_eqI) (auto simp: bit_crc_bit bit_xor_iff)

lemma crc_bit_0 [simp]: "crc_bit 0 = 0"
  by (intro bit_word_eqI) (simp add: bit_crc_bit)

lemma crc_bit_eq_0: "crc_bit x = 0 \<longleftrightarrow> x = 0"
proof
  assume z: "crc_bit x = 0"
  then have z: "\<not> bit (crc_bit x) n" for n by simp
  have top: "\<not> bit x 31"
    using z [of 0] by (simp add: bit_crc_bit)
  show "x = 0"
  proof (intro bit_word_eqI)
    fix n assume "n < LENGTH(32)"
    then show "bit x n = bit (0 :: u32) n"
      using top z [of "Suc n"] by (cases "n = 31") (auto simp: bit_crc_bit)
  qed
qed simp

lemma crc_bits_xor: "(crc_bit ^^ n) (x XOR y) = (crc_bit ^^ n) x XOR (crc_bit ^^ n) y"
  by (induction n) (simp_all add: crc_bit_xor)

lemma crc_bits_eq_0: "(crc_bit ^^ n) x = 0 \<longleftrightarrow> x = 0"
  by (induction n) (simp_all add: crc_bit_eq_0)

lemma xor_eq_0_word: "(x XOR y = 0) = (x = (y :: 'a::len word))"
proof
  assume "x XOR y = 0"
  then have "x XOR (y XOR y) = y" by (simp only: xor.assoc [symmetric] xor.left_neutral)
  then show "x = y" by simp
qed simp

lemma xor_left_cancel: "(a XOR b = a XOR c) = (b = (c :: 'a::len word))"
proof
  assume "a XOR b = a XOR c"
  then have "a XOR (a XOR b) = a XOR (a XOR c)" by simp
  then show "b = c" by (simp add: xor.assoc [symmetric])
qed simp

lemma crc_bits_inject: "(crc_bit ^^ n) x = (crc_bit ^^ n) y \<longleftrightarrow> x = y"
  using crc_bits_eq_0 [of n "x XOR y"] by (simp add: crc_bits_xor xor_eq_0_word)

lemma crc_bytes_inject: "foldl crc_byte c zs = foldl crc_byte d zs \<longleftrightarrow> c = d"
proof (induction zs arbitrary: c d)
  case Nil
  then show ?case by simp
next
  case (Cons z zs)
  have "c XOR push_bit 24 (ucast z) = d XOR push_bit 24 (ucast z) \<longleftrightarrow> c = d"
    using xor_left_cancel [of "push_bit 24 (ucast z)" c d] by (simp only: xor.commute)
  then show ?case
    by (simp only: foldl_Cons Cons.IH) (simp only: crc_byte_def crc_bits_inject)
qed

subsection \<open>Four bytes at a time\<close>

text \<open>While the top bits are clear, the bit steps are a plain shift.\<close>

lemma crc_bits_shift: "(\<forall>i. bit x i \<longrightarrow> i + n < 32) \<Longrightarrow> (crc_bit ^^ n) x = push_bit n x"
proof (induction n)
  case 0
  then show ?case by simp
next
  case (Suc n)
  then have IH: "(crc_bit ^^ n) x = push_bit n x" by fastforce
  show ?case
  proof (intro bit_word_eqI)
    fix k assume k: "k < LENGTH(32)"
    have "\<not> bit x (31 - n)"
      using Suc.prems by fastforce
    then show "bit ((crc_bit ^^ Suc n) x) k = bit (push_bit (Suc n) x) k"
      using k Suc.prems by (cases k) (auto simp: IH bit_crc_bit bit_push_bit_iff simp del: push_bit_Suc)
  qed
qed

lemma crc_byte_push:
  "k + 8 \<le> 24 \<Longrightarrow> (crc_bit ^^ 8) (push_bit k (ucast (b :: u8))) = push_bit (k + 8) (ucast b)"
  by (subst crc_bits_shift)
     (auto simp: bit_push_bit_iff bit_ucast_iff push_bit_push_bit add.commute
       dest: bit_imp_le_length)

definition be_word :: "u8 \<Rightarrow> u8 \<Rightarrow> u8 \<Rightarrow> u8 \<Rightarrow> u32" where
  "be_word a b c d = push_bit 24 (ucast a) XOR push_bit 16 (ucast b) XOR
     push_bit 8 (ucast c) XOR ucast d"

lemma crc_four_bytes: "foldl crc_byte s [a, b, c, d] = (crc_bit ^^ 32) (s XOR be_word a b c d)"
proof -
  have e: "(32::nat) = 8 + (8 + (8 + 8))" by simp
  have d0: "(crc_bit ^^ 8) (ucast d) = push_bit 8 (ucast d)"
    and d1: "(crc_bit ^^ 8) (push_bit 8 (ucast d)) = push_bit 16 (ucast d)"
    and d2: "(crc_bit ^^ 8) (push_bit 16 (ucast d)) = push_bit 24 (ucast d)"
    for d :: u8
    using crc_byte_push [of 0 d] crc_byte_push [of 8 d] crc_byte_push [of 16 d] by simp_all
  show ?thesis
    unfolding e funpow_add comp_def be_word_def foldl_Cons foldl_Nil crc_byte_def
    by (simp only: crc_bits_xor d0 d1 d2 xor.assoc)
qed

lemma bit_be_word:
  "bit (be_word a b c d) k \<longleftrightarrow> k < 32 \<and>
     (if k < 8 then bit d k else if k < 16 then bit c (k - 8)
      else if k < 24 then bit b (k - 16) else bit a (k - 24))"
  by (auto simp: be_word_def bit_xor_iff bit_push_bit_iff bit_ucast_iff
      dest: bit_imp_le_length)

lemma be_word_inject:
  "be_word a b c d = be_word a' b' c' d' \<longleftrightarrow> a = a' \<and> b = b' \<and> c = c' \<and> d = d'"
proof
  assume e: "be_word a b c d = be_word a' b' c' d'"
  have "bit a i = bit a' i \<and> bit b i = bit b' i \<and> bit c i = bit c' i \<and> bit d i = bit d' i"
    if "i < 8" for i
    using that arg_cong [OF e, of "\<lambda>w. bit w i"] arg_cong [OF e, of "\<lambda>w. bit w (i + 8)"]
      arg_cong [OF e, of "\<lambda>w. bit w (i + 16)"] arg_cong [OF e, of "\<lambda>w. bit w (i + 24)"]
    by (simp add: bit_be_word)
  then show "a = a' \<and> b = b' \<and> c = c' \<and> d = d'"
    by (intro conjI; intro bit_word_eqI) auto
qed simp

lemma crc_burst:
  assumes "length ys = 4" "length ys' = 4" "ys \<noteq> ys'"
  shows "frame_crc_compute (xs @ ys @ zs) \<noteq> frame_crc_compute (xs @ ys' @ zs)"
proof -
  obtain a b c d where y: "ys = [a, b, c, d]"
    using assms(1) by (auto simp: numeral_eq_Suc length_Suc_conv)
  obtain a' b' c' d' where y': "ys' = [a', b', c', d']"
    using assms(2) by (auto simp: numeral_eq_Suc length_Suc_conv)
  have ne: "be_word a b c d \<noteq> be_word a' b' c' d'"
    using assms(3) by (simp add: y y' be_word_inject)
  let ?s = "frame_crc_compute xs"
  have "?s XOR be_word a b c d \<noteq> ?s XOR be_word a' b' c' d'"
    using ne by (simp only: xor_left_cancel not_False_eq_True)
  then have "foldl crc_byte ?s ys \<noteq> foldl crc_byte ?s ys'"
    by (simp only: y y' crc_four_bytes crc_bits_inject not_False_eq_True)
  then show ?thesis
    by (simp only: frame_crc_append foldl_append crc_bytes_inject not_False_eq_True)
qed

text \<open>
  C4. The frame checksum detects every corruption confined to four consecutive bytes
  (which covers every burst of up to 25 bits and any damage to a single byte), wherever in
  the frame it lies: the corrupted bytes never have the checksum of the original ones.
\<close>

theorem crc_detects_burst:
  assumes "length ys = 4" "length ys' = 4" "ys \<noteq> ys'"
  shows "frame_crc_compute (xs @ ys @ zs) \<noteq> frame_crc_compute (xs @ ys' @ zs)"
  using assms by (rule crc_burst)

theorem crc_detects_burst_witness:
  "frame_crc_compute ([1, 2] @ [3, 4, 5, 6] @ [7]) \<noteq> frame_crc_compute ([1, 2] @ [3, 4, 0, 6] @ [7])"
  by (rule crc_detects_burst) simp_all

text \<open>The checksum appended most significant byte first leaves the register at zero.\<close>

lemma crc_residue:
  "frame_crc_compute (xs @ [a, b, c, d]) = 0 \<longleftrightarrow> frame_crc_compute xs = be_word a b c d"
  by (simp only: frame_crc_append crc_four_bytes crc_bits_eq_0 xor_eq_0_word)

end
