(* ===== verification/CmdTx.thy ===== *)
theory CmdTx
  imports FrameCrc
begin

text \<open>
  The command transmitter of src/src/giga_spi_8adc/motor_controller.c: the state \<open>g_cmd\<close>
  with \<open>cmd_init\<close>, \<open>cmd_build_set_config\<close>, \<open>cmd_queue_set_config\<close>, \<open>cmd_fill_tx\<close>,
  \<open>cmd_count_attempt\<close>, \<open>cmd_refresh_after_reinit\<close> and \<open>cmd_observe\<close>. Only the main loop
  touches this state, so each function is a function from state to state; messages on
  \<open>stderr\<close> are left out.
\<close>

section \<open>State\<close>

record controller_stats =
  st_frames_ok :: u64
  st_seq_drops :: u64
  st_crc_err :: u64
  st_magic_err :: u64
  st_version_err :: u64
  st_size_err :: u64
  st_duplicates :: u64
  st_resets :: u64
  st_timeouts :: u64
  st_spi_err :: u64
  st_cfg_reloads :: u64
  st_cfg_acks_ok :: u64
  st_cfg_nacks :: u64

definition zero_stats :: controller_stats where
  "zero_stats = \<lparr>st_frames_ok = 0, st_seq_drops = 0, st_crc_err = 0, st_magic_err = 0, st_version_err = 0,
     st_size_err = 0, st_duplicates = 0, st_resets = 0, st_timeouts = 0, st_spi_err = 0,
     st_cfg_reloads = 0, st_cfg_acks_ok = 0, st_cfg_nacks = 0\<rparr>"

abbreviation (input) CMD_MAX_RETRIES :: u16 where "CMD_MAX_RETRIES \<equiv> 32"

datatype cmd_state = CMD_IDLE | CMD_PENDING

record g_cmd =
  gc_state :: cmd_state
  gc_seq :: u16
  gc_retries_left :: u16
  gc_frame :: "u8 list"
  gc_payload :: config_payload

definition zero_payload :: config_payload where
  "zero_payload = \<lparr>cp_block_rows = 0, cp_reserved0 = 0, cp_source = 0, cp_run_state = 0,
     cp_sample_rate_hz = 0, cp_imu_rate_hz = 0, cp_reserved = replicate 12 0\<rparr>"

definition cmd_init :: g_cmd where
  "cmd_init = \<lparr>gc_state = CMD_IDLE, gc_seq = 0, gc_retries_left = 0,
     gc_frame = replicate MOTOR_CMD_FRAME_BYTES 0, gc_payload = zero_payload\<rparr>"

section \<open>Operations\<close>

definition set_config_frame :: "u16 \<Rightarrow> config_payload \<Rightarrow> u8 list" where
  "set_config_frame seq p =
     (let h = \<lparr>ch_magic = MOTOR_CMD_MAGIC, ch_cmd = MOTOR_CMD_SET_CONFIG,
               ch_schema_version = MOTOR_CONFIG_SCHEMA_VERSION, ch_cmd_seq = seq, ch_pad = 0\<rparr>;
          body = p\<lparr>cp_reserved := replicate 12 0\<rparr>;
          covered = cmd_header_bytes h @ payload_bytes body;
          crc = frame_crc_compute covered
      in covered @ le_bytes sizeof_frame_crc crc)"

definition cmd_build_set_config :: "config_payload \<Rightarrow> g_cmd \<Rightarrow> g_cmd" where
  "cmd_build_set_config p g =
     (let seq = gc_seq g + 1 in g\<lparr>gc_seq := seq, gc_frame := set_config_frame seq p\<rparr>)"

definition cmd_queue_set_config :: "config_payload \<Rightarrow> g_cmd \<Rightarrow> g_cmd" where
  "cmd_queue_set_config p g =
     (cmd_build_set_config p (g\<lparr>gc_payload := p\<rparr>))
       \<lparr>gc_state := CMD_PENDING, gc_retries_left := CMD_MAX_RETRIES\<rparr>"

definition cmd_fill_tx :: "g_cmd \<Rightarrow> nat \<Rightarrow> u8 list" where
  "cmd_fill_tx g tx_len =
     (let tx = replicate tx_len 0
      in if gc_state g = CMD_PENDING then overwrite tx (gc_frame g) else tx)"

definition cmd_count_attempt :: "g_cmd \<Rightarrow> g_cmd" where
  "cmd_count_attempt g =
     (if gc_state g = CMD_PENDING \<and> gc_retries_left g > 0
      then g\<lparr>gc_retries_left := gc_retries_left g - 1\<rparr> else g)"

definition cmd_refresh_after_reinit :: "g_cmd \<Rightarrow> g_cmd" where
  "cmd_refresh_after_reinit g =
     (if gc_state g = CMD_PENDING then g\<lparr>gc_retries_left := CMD_MAX_RETRIES\<rparr> else g)"

text \<open>The result pairs the returned flag with the three objects it may write.\<close>

definition cmd_observe ::
  "frame_header \<Rightarrow> g_cmd \<Rightarrow> config_payload \<Rightarrow> controller_stats \<Rightarrow>
   bool \<times> g_cmd \<times> config_payload \<times> controller_stats" where
  "cmd_observe h g active_stm st =
     (if gc_state g \<noteq> CMD_PENDING then (False, g, active_stm, st)
      else if fh_reserved h \<noteq> gc_seq g then
        (if gc_retries_left g = 0
         then (False, g\<lparr>gc_state := CMD_IDLE\<rparr>, active_stm, st\<lparr>st_cfg_nacks := st_cfg_nacks st + 1\<rparr>)
         else (False, g, active_stm, st))
      else if fh_flags h AND MOTOR_FLAG_ACK_OK \<noteq> 0 then
        (True, g\<lparr>gc_state := CMD_IDLE\<rparr>, gc_payload g, st\<lparr>st_cfg_acks_ok := st_cfg_acks_ok st + 1\<rparr>)
      else if fh_flags h AND MOTOR_FLAG_ACK_NACK \<noteq> 0 then
        (False, g\<lparr>gc_state := CMD_IDLE\<rparr>, active_stm, st\<lparr>st_cfg_nacks := st_cfg_nacks st + 1\<rparr>)
      else (False, g, active_stm, st))"

section \<open>The frame on the wire\<close>

text \<open>What the firmware reads out of the transmit buffer, by the layout of motor_wire.h.\<close>

definition rx_cmd_header :: "u8 list \<Rightarrow> cmd_header" where
  "rx_cmd_header buf = cmd_header_of_bytes (slice 0 sizeof_cmd_header buf)"

definition rx_cmd_payload :: "u8 list \<Rightarrow> config_payload" where
  "rx_cmd_payload buf = payload_of_bytes (slice sizeof_cmd_header sizeof_config_payload buf)"

definition rx_cmd_crc_ok :: "u8 list \<Rightarrow> bool" where
  "rx_cmd_crc_ok buf \<longleftrightarrow>
     (let covered = sizeof_cmd_header + sizeof_config_payload
      in of_le_bytes (slice covered sizeof_frame_crc buf) = frame_crc_compute (take covered buf))"


lemma length_set_config_frame [simp]: "length (set_config_frame seq p) = MOTOR_CMD_FRAME_BYTES"
  by (simp add: set_config_frame_def Let_def payload_wf_def MOTOR_CMD_FRAME_BYTES_def)

lemma rx_set_config_frame:
  "rx_cmd_header (set_config_frame seq p @ xs) =
     \<lparr>ch_magic = MOTOR_CMD_MAGIC, ch_cmd = MOTOR_CMD_SET_CONFIG,
       ch_schema_version = MOTOR_CONFIG_SCHEMA_VERSION, ch_cmd_seq = seq, ch_pad = 0\<rparr>"
  "rx_cmd_payload (set_config_frame seq p @ xs) = p\<lparr>cp_reserved := replicate 12 0\<rparr>"
  "rx_cmd_crc_ok (set_config_frame seq p @ xs)"
proof -
  let ?h = "\<lparr>ch_magic = MOTOR_CMD_MAGIC, ch_cmd = MOTOR_CMD_SET_CONFIG,
       ch_schema_version = MOTOR_CONFIG_SCHEMA_VERSION, ch_cmd_seq = seq, ch_pad = 0\<rparr>"
  let ?p = "p\<lparr>cp_reserved := replicate 12 0\<rparr>"
  let ?cov = "cmd_header_bytes ?h @ payload_bytes ?p"
  have wf: "payload_wf ?p"
    by (simp add: payload_wf_def)
  have frame: "set_config_frame seq p @ xs = ?cov @ le_bytes 4 (frame_crc_compute ?cov) @ xs"
    by (simp add: set_config_frame_def Let_def)
  show "rx_cmd_header (set_config_frame seq p @ xs) = ?h"
    using cmd_header_of_bytes_bytes [of ?h "[]"]
    unfolding frame rx_cmd_header_def by (simp add: slice_def)
  show "rx_cmd_payload (set_config_frame seq p @ xs) = ?p"
    using payload_of_bytes_payload_bytes [OF wf, of "[]"] length_payload_bytes [OF wf]
    unfolding frame rx_cmd_payload_def by (simp add: slice_def)
  show "rx_cmd_crc_ok (set_config_frame seq p @ xs)"
    using length_payload_bytes [OF wf]
    unfolding frame rx_cmd_crc_ok_def Let_def by (simp add: slice_def)
qed

text \<open>
  A queued configuration reaches the wire exactly: whatever state the transmitter was
  in, the buffer clocked out after \<open>cmd_queue_set_config\<close> holds a SET_CONFIG header with
  the next sequence number, the payload with its reserved bytes zeroed, a checksum that
  the receiver finds correct, and zeros behind them.
\<close>

theorem queued_config_on_wire:
  "let tx = cmd_fill_tx (cmd_queue_set_config p g) MOTOR_MAX_FRAME_BYTES
   in length tx = MOTOR_MAX_FRAME_BYTES \<and>
      rx_cmd_header tx = \<lparr>ch_magic = MOTOR_CMD_MAGIC, ch_cmd = MOTOR_CMD_SET_CONFIG,
        ch_schema_version = MOTOR_CONFIG_SCHEMA_VERSION, ch_cmd_seq = gc_seq g + 1, ch_pad = 0\<rparr> \<and>
      rx_cmd_payload tx = p\<lparr>cp_reserved := replicate 12 0\<rparr> \<and>
      rx_cmd_crc_ok tx \<and>
      drop MOTOR_CMD_FRAME_BYTES tx = replicate (MOTOR_MAX_FRAME_BYTES - MOTOR_CMD_FRAME_BYTES) 0"
proof -
  have tx: "cmd_fill_tx (cmd_queue_set_config p g) MOTOR_MAX_FRAME_BYTES =
      set_config_frame (gc_seq g + 1) p @ replicate (MOTOR_MAX_FRAME_BYTES - MOTOR_CMD_FRAME_BYTES) 0"
    by (simp add: cmd_fill_tx_def cmd_queue_set_config_def cmd_build_set_config_def Let_def overwrite_def)
  have "MOTOR_CMD_FRAME_BYTES \<le> MOTOR_MAX_FRAME_BYTES"
    by (simp add: MOTOR_CMD_FRAME_BYTES_def MOTOR_MAX_FRAME_BYTES_def)
  then show ?thesis
    unfolding tx Let_def by (simp add: rx_set_config_frame)
qed

section \<open>Runs of the transmitter\<close>

text \<open>The calls the main loop makes on the transmitter, in any order.\<close>

datatype cmd_event =
    EvQueue config_payload
  | EvAttempt
  | EvReinit
  | EvObserve frame_header

record cmd_link =
  cl_cmd :: g_cmd
  cl_active :: config_payload
  cl_stats :: controller_stats

fun cmd_event_step :: "cmd_event \<Rightarrow> cmd_link \<Rightarrow> cmd_link" where
  "cmd_event_step (EvQueue p) l = l\<lparr>cl_cmd := cmd_queue_set_config p (cl_cmd l)\<rparr>"
| "cmd_event_step EvAttempt l = l\<lparr>cl_cmd := cmd_count_attempt (cl_cmd l)\<rparr>"
| "cmd_event_step EvReinit l = l\<lparr>cl_cmd := cmd_refresh_after_reinit (cl_cmd l)\<rparr>"
| "cmd_event_step (EvObserve h) l =
     (case cmd_observe h (cl_cmd l) (cl_active l) (cl_stats l) of
        (_, g, a, st) \<Rightarrow> \<lparr>cl_cmd = g, cl_active = a, cl_stats = st\<rparr>)"

definition cmd_run :: "cmd_event list \<Rightarrow> cmd_link \<Rightarrow> cmd_link" where
  "cmd_run evs l = fold cmd_event_step evs l"

definition link_start :: cmd_link where
  "link_start = \<lparr>cl_cmd = cmd_init, cl_active = zero_payload, cl_stats = zero_stats\<rparr>"

fun queued :: "cmd_event list \<Rightarrow> config_payload list" where
  "queued [] = []"
| "queued (EvQueue p # evs) = p # queued evs"
| "queued (_ # evs) = queued evs"

lemma queued_append [simp]: "queued (xs @ ys) = queued xs @ queued ys"
  by (induction xs rule: queued.induct) simp_all

lemma cmd_run_snoc: "cmd_run (evs @ [e]) l = cmd_event_step e (cmd_run evs l)"
  by (simp add: cmd_run_def)

text \<open>The call \<open>cmd_observe\<close> ends or keeps the command; it never changes the frame.\<close>

lemma cmd_observe_cmd:
  "cmd_observe h g a st = (r, g', a', st') \<Longrightarrow> g' = g \<or> g' = g\<lparr>gc_state := CMD_IDLE\<rparr>"
  by (auto simp: cmd_observe_def split: if_splits)

lemma cmd_observe_active:
  "cmd_observe h g a st = (r, g', a', st') \<Longrightarrow>
   a' = a \<or> a' = gc_payload g \<and> gc_state g = CMD_PENDING \<and> fh_reserved h = gc_seq g \<and>
     fh_flags h AND MOTOR_FLAG_ACK_OK \<noteq> 0"
  by (auto simp: cmd_observe_def split: if_splits)

definition cmd_inv :: "config_payload list \<Rightarrow> g_cmd \<Rightarrow> bool" where
  "cmd_inv ps g \<longleftrightarrow> gc_seq g = of_nat (length ps) \<and> gc_retries_left g \<le> CMD_MAX_RETRIES \<and>
     (ps \<noteq> [] \<longrightarrow> gc_payload g = last ps \<and> gc_frame g = set_config_frame (gc_seq g) (last ps)) \<and>
     (ps = [] \<longrightarrow> gc_state g = CMD_IDLE)"

lemma cmd_inv_step:
  assumes "cmd_inv ps (cl_cmd l)"
  shows "cmd_inv (ps @ queued [e]) (cl_cmd (cmd_event_step e l))"
proof (cases e)
  case (EvQueue p)
  then show ?thesis
    using assms by (simp add: cmd_inv_def cmd_queue_set_config_def cmd_build_set_config_def Let_def)
next
  case EvAttempt
  moreover have "r - 1 \<le> 32" if "r \<le> 32" "r > 0" for r :: u16
    using that by (simp add: word_le_nat_alt word_less_nat_alt unat_sub_if')
  ultimately show ?thesis
    using assms by (auto simp: cmd_inv_def cmd_count_attempt_def)
next
  case EvReinit
  then show ?thesis
    using assms by (auto simp: cmd_inv_def cmd_refresh_after_reinit_def)
next
  case (EvObserve h)
  obtain r g a st where o: "cmd_observe h (cl_cmd l) (cl_active l) (cl_stats l) = (r, g, a, st)"
    by (cases "cmd_observe h (cl_cmd l) (cl_active l) (cl_stats l)")
  then show ?thesis
    using assms EvObserve cmd_observe_cmd [OF o] by (auto simp: cmd_inv_def)
qed

lemma cmd_inv_run: "cmd_inv (queued evs) (cl_cmd (cmd_run evs link_start))"
proof (induction evs rule: rev_induct)
  case Nil
  then show ?case
    by (simp add: cmd_run_def link_start_def cmd_inv_def cmd_init_def)
next
  case (snoc e evs)
  then show ?case
    using cmd_inv_step [of "queued evs"] by (simp add: cmd_run_snoc)
qed

text \<open>
  At most one command is in flight and it is always the last one queued: in every state
  the loop can reach, a pending transmitter sends byte for byte the frame of the last
  queued payload with its sequence number, over however many exchanges and bus restarts
  it stays pending, and its retry budget never exceeds 32.
\<close>

theorem pending_command_is_last_queued:
  assumes "gc_state (cl_cmd (cmd_run evs link_start)) = CMD_PENDING"
  shows "queued evs \<noteq> [] \<and>
    cmd_fill_tx (cl_cmd (cmd_run evs link_start)) MOTOR_MAX_FRAME_BYTES =
      set_config_frame (of_nat (length (queued evs))) (last (queued evs)) @
      replicate (MOTOR_MAX_FRAME_BYTES - MOTOR_CMD_FRAME_BYTES) 0 \<and>
    gc_retries_left (cl_cmd (cmd_run evs link_start)) \<le> CMD_MAX_RETRIES"
  using assms cmd_inv_run [of evs]
  by (auto simp: cmd_inv_def cmd_fill_tx_def overwrite_def Let_def)

theorem pending_command_is_last_queued_witness:
  "let evs = [EvQueue zero_payload, EvAttempt, EvReinit]
   in cmd_fill_tx (cl_cmd (cmd_run evs link_start)) MOTOR_MAX_FRAME_BYTES =
        set_config_frame 1 zero_payload @ replicate (MOTOR_MAX_FRAME_BYTES - MOTOR_CMD_FRAME_BYTES) 0"
proof -
  let ?evs = "[EvQueue zero_payload, EvAttempt, EvReinit]"
  have "gc_state (cl_cmd (cmd_run ?evs link_start)) = CMD_PENDING"
    by (simp add: cmd_run_def cmd_queue_set_config_def cmd_build_set_config_def cmd_count_attempt_def
        cmd_refresh_after_reinit_def Let_def)
  then show ?thesis
    using pending_command_is_last_queued [of ?evs] by (simp add: Let_def)
qed


text \<open>An acknowledgement of the last command queued in \<open>evs\<close>.\<close>

definition acked :: "cmd_event list \<Rightarrow> config_payload \<Rightarrow> bool" where
  "acked evs p \<longleftrightarrow>
     (\<exists>pre h post. evs = pre @ EvObserve h # post \<and> queued pre \<noteq> [] \<and> p = last (queued pre) \<and>
        fh_reserved h = of_nat (length (queued pre)) \<and> fh_flags h AND MOTOR_FLAG_ACK_OK \<noteq> 0)"

lemma acked_snoc: "acked evs p \<Longrightarrow> acked (evs @ [e]) p"
  unfolding acked_def by force

lemma cmd_event_active:
  assumes "cl_active (cmd_event_step e l) \<noteq> cl_active l"
  shows "\<exists>h. e = EvObserve h \<and> cl_active (cmd_event_step e l) = gc_payload (cl_cmd l) \<and>
    gc_state (cl_cmd l) = CMD_PENDING \<and> fh_reserved h = gc_seq (cl_cmd l) \<and>
    fh_flags h AND MOTOR_FLAG_ACK_OK \<noteq> 0"
proof (cases e)
  case (EvObserve h)
  obtain r g a st where o: "cmd_observe h (cl_cmd l) (cl_active l) (cl_stats l) = (r, g, a, st)"
    by (cases "cmd_observe h (cl_cmd l) (cl_active l) (cl_stats l)")
  then show ?thesis
    using assms EvObserve cmd_observe_active [OF o] by auto
qed (use assms in simp_all)

text \<open>
  C10. The controller never believes in a configuration the firmware did not acknowledge: the
  payload it holds as active is the initial unknown one or the last payload queued before
  a header whose echoed sequence number is that command's and which carries ACK_OK.
\<close>

theorem active_only_after_ack:
  "cl_active (cmd_run evs link_start) = zero_payload \<or> acked evs (cl_active (cmd_run evs link_start))"
proof (induction evs rule: rev_induct)
  case Nil
  then show ?case
    by (simp add: cmd_run_def link_start_def)
next
  case (snoc e evs)
  let ?l = "cmd_run evs link_start"
  show ?case
  proof (cases "cl_active (cmd_event_step e ?l) = cl_active ?l")
    case True
    then show ?thesis
      using snoc acked_snoc by (auto simp: cmd_run_snoc)
  next
    case False
    then obtain h where h: "e = EvObserve h" "cl_active (cmd_event_step e ?l) = gc_payload (cl_cmd ?l)"
        "gc_state (cl_cmd ?l) = CMD_PENDING" "fh_reserved h = gc_seq (cl_cmd ?l)"
        "fh_flags h AND MOTOR_FLAG_ACK_OK \<noteq> 0"
      using cmd_event_active [OF False] by blast
    have inv: "cmd_inv (queued evs) (cl_cmd ?l)"
      by (rule cmd_inv_run)
    then have q: "queued evs \<noteq> []"
      using h(3) by (auto simp: cmd_inv_def)
    have "acked (evs @ [e]) (gc_payload (cl_cmd ?l))"
      unfolding acked_def
      using h inv q by (intro exI [of _ evs] exI [of _ h] exI [of _ "[]"]) (auto simp: cmd_inv_def)
    then show ?thesis
      using h(2) by (simp add: cmd_run_snoc)
  qed
qed

section \<open>Giving up\<close>

text \<open>One completed SPI exchange whose frame passed validation: the attempt is counted,
  then the header is inspected.\<close>

definition exchange :: "frame_header \<Rightarrow> cmd_link \<Rightarrow> cmd_link" where
  "exchange h l = cmd_event_step (EvObserve h) (cmd_event_step EvAttempt l)"

lemma exchange_foreign_more:
  assumes "gc_state (cl_cmd l) = CMD_PENDING" "fh_reserved h \<noteq> gc_seq (cl_cmd l)"
    "unat (gc_retries_left (cl_cmd l)) = Suc (Suc n)"
  shows "exchange h l = l\<lparr>cl_cmd := (cl_cmd l)\<lparr>gc_retries_left := of_nat (Suc n)\<rparr>\<rparr>"
proof -
  let ?r = "gc_retries_left (cl_cmd l)"
  have "?r \<noteq> 0" "?r > 0"
    using assms(3) by (auto simp: word_gt_0)
  then have r: "unat (?r - 1) = Suc n"
    using assms(3) by (simp add: unat_sub_if' word_le_nat_alt)
  moreover have "of_nat (unat (?r - 1)) = ?r - 1"
    by simp
  ultimately have "?r - 1 = of_nat (Suc n)" "?r - 1 \<noteq> 0"
    by (metis, auto)
  then show ?thesis
    using assms \<open>?r > 0\<close> by (simp add: exchange_def cmd_count_attempt_def cmd_observe_def)
qed

lemma exchange_foreign_last:
  assumes "gc_state (cl_cmd l) = CMD_PENDING" "fh_reserved h \<noteq> gc_seq (cl_cmd l)"
    "unat (gc_retries_left (cl_cmd l)) = 1"
  shows "gc_state (cl_cmd (exchange h l)) = CMD_IDLE \<and> cl_active (exchange h l) = cl_active l \<and>
    st_cfg_nacks (cl_stats (exchange h l)) = st_cfg_nacks (cl_stats l) + 1"
proof -
  have "gc_retries_left (cl_cmd l) = 1"
    using assms(3) by (simp add: word_unat_eq_iff)
  then show ?thesis
    using assms by (simp add: exchange_def cmd_count_attempt_def cmd_observe_def)
qed

lemma foreign_exchanges:
  assumes "gc_state (cl_cmd l) = CMD_PENDING" "\<forall>h \<in> set hs. fh_reserved h \<noteq> gc_seq (cl_cmd l)"
    "length hs < unat (gc_retries_left (cl_cmd l))"
  shows "fold exchange hs l =
    l\<lparr>cl_cmd := (cl_cmd l)\<lparr>gc_retries_left := of_nat (unat (gc_retries_left (cl_cmd l)) - length hs)\<rparr>\<rparr>"
  using assms
proof (induction hs arbitrary: l)
  case Nil
  then show ?case by simp
next
  case (Cons h hs)
  obtain n where n: "unat (gc_retries_left (cl_cmd l)) = Suc (Suc n)"
    using Cons.prems(3) by (cases "unat (gc_retries_left (cl_cmd l))"; cases "unat (gc_retries_left (cl_cmd l)) - 1") auto
  then have "Suc n < 2 ^ 16"
    using unat_u16_less [of "gc_retries_left (cl_cmd l)"] by simp
  then have m: "unat (of_nat (Suc n) :: u16) = Suc n"
    by (simp only: unat_of_nat) simp
  let ?l = "l\<lparr>cl_cmd := (cl_cmd l)\<lparr>gc_retries_left := of_nat (Suc n)\<rparr>\<rparr>"
  have step: "exchange h l = ?l"
    using Cons.prems by (intro exchange_foreign_more n) simp_all
  have "fold exchange hs ?l = ?l\<lparr>cl_cmd := (cl_cmd ?l)
      \<lparr>gc_retries_left := of_nat (unat (gc_retries_left (cl_cmd ?l)) - length hs)\<rparr>\<rparr>"
    using Cons.prems m n by (intro Cons.IH) (simp_all del: of_nat_Suc)
  then show ?case
    using m n by (simp add: step del: of_nat_Suc)
qed


definition foreign_header :: frame_header where
  "foreign_header = \<lparr>fh_magic = MOTOR_FRAME_MAGIC, fh_seq = 1, fh_timestamp = 0,
     fh_version = MOTOR_CONTRACT_VERSION, fh_flags = 0, fh_n_rows = 1, fh_reserved = 9\<rparr>"


end
