(* ===== verification/CText.thy ===== *)
theory CText
  imports Prelude "HOL-Library.Sublist"
begin

text \<open>
  The part of C's string library the components use, on character lists: the string a
  buffer holds up to its first NUL, decimal conversion in both directions, bounded
  formatting, searching, and reading a file by lines with \<open>fgets\<close>.
\<close>

section \<open>Strings in buffers\<close>

abbreviation (input) NUL :: char where "NUL \<equiv> CHR 0x00"
abbreviation (input) NEWLINE :: char where "NEWLINE \<equiv> CHR 0x0A"
abbreviation (input) TAB :: char where "TAB \<equiv> CHR 0x09"
abbreviation (input) DQUOTE :: char where "DQUOTE \<equiv> CHR 0x22"
abbreviation (input) QUOTE :: char where "QUOTE \<equiv> CHR 0x27"

definition cstr :: "string \<Rightarrow> string" where
  "cstr s = takeWhile (\<lambda>c. c \<noteq> NUL) s"

lemma cstr_id: "NUL \<notin> set s \<Longrightarrow> cstr s = s"
  by (auto simp: cstr_def takeWhile_eq_all_conv)

lemma cstr_no_nul: "NUL \<notin> set (cstr s)"
  by (auto simp: cstr_def dest: set_takeWhileD)

text \<open>\<open>snprintf(buf, n, "%s", s)\<close> and \<open>strncpy(buf, s, n - 1)\<close> into a zeroed buffer of \<open>n\<close> bytes.\<close>

definition bounded_copy :: "nat \<Rightarrow> string \<Rightarrow> string" where
  "bounded_copy n s = take (n - 1) (cstr s)"

lemma length_bounded_copy: "0 < n \<Longrightarrow> length (bounded_copy n s) < n"
  by (simp add: bounded_copy_def)

lemma bounded_copy_id: "NUL \<notin> set s \<Longrightarrow> length s < n \<Longrightarrow> bounded_copy n s = s"
  by (simp add: bounded_copy_def cstr_id)

section \<open>Characters and numbers\<close>

definition is_digit :: "char \<Rightarrow> bool" where
  "is_digit c \<longleftrightarrow> 48 \<le> (of_char c :: nat) \<and> (of_char c :: nat) \<le> 57"

definition is_space :: "char \<Rightarrow> bool" where
  "is_space c \<longleftrightarrow> of_char c = (32 :: nat) \<or> 9 \<le> (of_char c :: nat) \<and> (of_char c :: nat) \<le> 13"

definition digit_val :: "char \<Rightarrow> nat" where
  "digit_val c = of_char c - 48"

definition digit_char :: "nat \<Rightarrow> char" where
  "digit_char n = char_of (48 + n)"

fun dec :: "nat \<Rightarrow> string" where
  "dec n = (if n < 10 then [digit_char n] else dec (n div 10) @ [digit_char (n mod 10)])"

declare dec.simps [simp del]

definition dec_int :: "int \<Rightarrow> string" where
  "dec_int i = (if i < 0 then ''-'' @ dec (nat (- i)) else dec (nat i))"

definition digits_value :: "string \<Rightarrow> nat" where
  "digits_value ds = foldl (\<lambda>a c. 10 * a + digit_val c) 0 ds"

text \<open>\<open>strtoul(s, NULL, 10)\<close> where \<open>unsigned long\<close> has 64 bits: white space, a sign, digits;
  the value saturates, and a minus sign negates it in unsigned arithmetic.\<close>

definition strtoul :: "string \<Rightarrow> u64" where
  "strtoul s =
     (let t = dropWhile is_space s;
          neg = (t \<noteq> [] \<and> hd t = CHR ''-'');
          u = (if t \<noteq> [] \<and> (hd t = CHR ''-'' \<or> hd t = CHR ''+'') then tl t else t);
          v = digits_value (takeWhile is_digit u)
      in if v \<ge> 2 ^ 64 then - 1 else if neg then - of_nat v else of_nat v)"

section \<open>Searching\<close>

fun strstr :: "string \<Rightarrow> string \<Rightarrow> bool" where
  "strstr hay needle \<longleftrightarrow> prefix needle hay \<or> (case hay of [] \<Rightarrow> False | _ # t \<Rightarrow> strstr t needle)"

declare strstr.simps [simp del]

text \<open>The part of a path behind its last slash (\<open>strrchr(path, '/') + 1\<close>), or all of it.\<close>

definition basename :: "string \<Rightarrow> string" where
  "basename s = rev (takeWhile (\<lambda>c. c \<noteq> CHR ''/'') (rev s))"

section \<open>Lines\<close>

text \<open>What one \<open>fgets(line, n, f)\<close> takes from the rest of the file: at most \<open>n - 1\<close> characters,
  up to and including the first newline.\<close>

definition fgets_line :: "nat \<Rightarrow> string \<Rightarrow> string" where
  "fgets_line n s =
     (let l = takeWhile (\<lambda>c. c \<noteq> NEWLINE) s
      in if length l < n - 1 then take (length l + 1) s else take (n - 1) s)"

function fgets_lines :: "nat \<Rightarrow> string \<Rightarrow> string list" where
  "fgets_lines n s =
     (if s = [] \<or> n < 2 then []
      else fgets_line n s # fgets_lines n (drop (length (fgets_line n s)) s))"
  by pat_completeness auto
termination fgets_lines
proof (relation "measure (\<lambda>(n, s). length s)")
  show "wf (measure (\<lambda>(n :: nat, s :: string). length s))"
    by simp
  fix n :: nat and s :: string
  assume "\<not> (s = [] \<or> n < 2)"
  then have "0 < length (fgets_line n s)" "s \<noteq> []"
    by (auto simp: fgets_line_def Let_def)
  then show "((n, drop (length (fgets_line n s)) s), n, s) \<in> measure (\<lambda>(n, s). length s)"
    by simp
qed

declare fgets_lines.simps [simp del]

lemma fgets_lines_concat: "2 \<le> n \<Longrightarrow> concat (fgets_lines n s) = s"
proof (induction n s rule: fgets_lines.induct)
  case (1 n s)
  have "fgets_line n s = take (length (fgets_line n s)) s"
    by (simp add: fgets_line_def Let_def min_def)
  then have "fgets_line n s @ drop (length (fgets_line n s)) s = s"
    by (metis append_take_drop_id)
  then show ?case
    using 1 by (subst fgets_lines.simps) auto
qed

text \<open>A line that fits the buffer.\<close>

definition is_line :: "nat \<Rightarrow> string \<Rightarrow> bool" where
  "is_line n l \<longleftrightarrow> length l < n \<and> (\<exists>b. l = b @ [NEWLINE] \<and> NEWLINE \<notin> set b)"

lemma fgets_line_is_line:
  assumes "is_line n l"
  shows "fgets_line n (l @ s) = l"
proof -
  obtain b where b: "l = b @ [NEWLINE]" "NEWLINE \<notin> set b" "length b + 1 < n"
    using assms by (auto simp: is_line_def)
  have "takeWhile (\<lambda>c. c \<noteq> NEWLINE) (b @ NEWLINE # s) = b"
    using b(2) by (subst takeWhile_append2) auto
  then show ?thesis
    using b by (simp add: fgets_line_def)
qed

lemma fgets_lines_lines:
  "\<forall>l \<in> set ls. is_line n l \<Longrightarrow> fgets_lines n (concat ls) = ls"
proof (induction ls)
  case Nil
  then show ?case by (simp add: fgets_lines.simps)
next
  case (Cons l ls)
  then have l: "fgets_line n (l @ concat ls) = l" "l \<noteq> []" "2 \<le> n"
    by (auto simp: fgets_line_is_line) (auto simp: is_line_def)
  then show ?case
    using Cons by (subst fgets_lines.simps) simp
qed

section \<open>Decimal round trip\<close>

lemma of_char_digit_char [simp]: "d < 10 \<Longrightarrow> of_char (digit_char d) = 48 + d"
  by (simp add: digit_char_def of_char_of)

lemma digit_char_props [simp]:
  "d < 10 \<Longrightarrow> is_digit (digit_char d)" "d < 10 \<Longrightarrow> digit_val (digit_char d) = d"
  by (simp_all add: is_digit_def digit_val_def)

lemma is_digit_dec: "c \<in> set (dec n) \<Longrightarrow> is_digit c"
  by (induction n rule: dec.induct) (subst (asm) dec.simps, auto split: if_splits)

lemma dec_not_Nil [simp]: "dec n \<noteq> []"
  by (subst dec.simps) simp

lemma digits_value_snoc: "digits_value (ds @ [c]) = 10 * digits_value ds + digit_val c"
  by (simp add: digits_value_def)

lemma digits_value_dec [simp]: "digits_value (dec n) = n"
proof (induction n rule: dec.induct)
  case (1 n)
  then show ?case
    by (subst dec.simps) (auto simp: digits_value_snoc, auto simp: digits_value_def)
qed

lemma digit_not_space: "is_digit c \<Longrightarrow> \<not> is_space c \<and> c \<noteq> CHR ''-'' \<and> c \<noteq> CHR ''+'' \<and> c \<noteq> NEWLINE \<and> c \<noteq> NUL"
  by (auto simp: is_digit_def is_space_def)

lemma strtoul_dec:
  assumes "n < 2 ^ 64" "s = [] \<or> \<not> is_digit (hd s)"
  shows "strtoul (dec n @ s) = of_nat n"
proof -
  obtain c cs where c: "dec n = c # cs"
    by (cases "dec n") auto
  then have "is_digit c"
    using is_digit_dec [of c n] by simp
  then have nc: "\<not> is_space c" "c \<noteq> CHR ''-''" "c \<noteq> CHR ''+''"
    by (simp_all add: digit_not_space)
  have "takeWhile is_digit (dec n @ s) = dec n"
    using assms(2) is_digit_dec by (cases s) (simp_all add: takeWhile_append)
  moreover have "dropWhile is_space (dec n @ s) = dec n @ s" "hd (dec n @ s) = c" "dec n @ s \<noteq> []"
    using nc by (simp_all add: c)
  ultimately show ?thesis
    using assms(1) nc unfolding strtoul_def Let_def by simp
qed

lemma length_dec: "0 < k \<Longrightarrow> n < 10 ^ k \<Longrightarrow> length (dec n) \<le> k"
proof (induction k arbitrary: n)
  case 0
  then show ?case by simp
next
  case (Suc k)
  show ?case
  proof (cases "n < 10")
    case True
    then show ?thesis by (subst dec.simps) simp
  next
    case False
    then have "n div 10 < 10 ^ k" "0 < k"
      using Suc.prems by (auto intro!: gr0I)
    then have "length (dec (n div 10)) \<le> k"
      by (intro Suc.IH)
    then show ?thesis
      using False by (subst dec.simps) simp
  qed
qed

section \<open>Key-value files\<close>

text \<open>Files of \<open>key=value\<close> lines, read through a 256-byte buffer, blanks before the key.\<close>

definition skip_blanks :: "string \<Rightarrow> string" where
  "skip_blanks line = dropWhile (\<lambda>c. c = CHR '' '' \<or> c = TAB) line"

definition key_matches :: "string \<Rightarrow> string \<Rightarrow> bool" where
  "key_matches key line \<longleftrightarrow> prefix (key @ ''='') (skip_blanks line)"

definition conf_lines :: "string \<Rightarrow> string list" where
  "conf_lines txt = map cstr (fgets_lines 256 txt)"

text \<open>A file whose every line fits the buffer, is terminated and holds no NUL.\<close>

definition plain_file :: "string list \<Rightarrow> bool" where
  "plain_file ls \<longleftrightarrow> (\<forall>l \<in> set ls. is_line 256 l \<and> NUL \<notin> set l)"

lemma conf_lines_plain: "plain_file ls \<Longrightarrow> conf_lines (concat ls) = ls"
  by (simp add: conf_lines_def plain_file_def fgets_lines_lines cstr_id map_idI)

definition key_ok :: "string \<Rightarrow> bool" where
  "key_ok key \<longleftrightarrow> key \<noteq> [] \<and> length key < 200 \<and>
     set key \<inter> {CHR '' '', TAB, NEWLINE, NUL, CHR ''=''} = {}"

lemma skip_blanks_key: "key_ok key \<Longrightarrow> skip_blanks (key @ s) = key @ s"
  by (cases key) (auto simp: skip_blanks_def key_ok_def)

lemma key_matches_self: "key_ok key \<Longrightarrow> key_matches key (key @ ''='' @ s)"
  by (simp add: key_matches_def skip_blanks_key)

lemma key_prefix_eq:
  "CHR ''='' \<notin> set a \<Longrightarrow> CHR ''='' \<notin> set b \<Longrightarrow> prefix (a @ ''='') (b @ ''='' @ s) \<Longrightarrow> a = b"
proof (induction a arbitrary: b)
  case Nil
  then show ?case by (cases b) auto
next
  case (Cons x a)
  then show ?case by (cases b) auto
qed

lemma key_matches_unique:
  assumes "key_ok a" "key_ok b" "key_matches a line" "key_matches b line"
  shows "a = b"
proof -
  obtain s where "skip_blanks line = b @ ''='' @ s"
    using assms(4) by (auto simp: key_matches_def prefix_def)
  then show ?thesis
    using assms key_prefix_eq [of a b s] by (auto simp: key_matches_def key_ok_def)
qed

lemma u32_dec_length: "length (dec (unat (v :: u32))) \<le> 10"
  using unat_u32_less [of v] by (intro length_dec) simp_all

lemma rewritten_line_plain:
  assumes "key_ok k"
  shows "is_line 256 (k @ ''='' @ dec (unat (v :: u32)) @ [NEWLINE]) \<and>
    NUL \<notin> set (k @ ''='' @ dec (unat v) @ [NEWLINE])"
proof -
  have d: "c \<noteq> NEWLINE \<and> c \<noteq> NUL" if "c \<in> set (dec (unat v))" for c
    using digit_not_space [OF is_digit_dec [OF that]] by simp
  then have "NEWLINE \<notin> set (k @ ''='' @ dec (unat v))" "NUL \<notin> set (k @ ''='' @ dec (unat v))"
    using assms by (auto simp: key_ok_def)
  then show ?thesis
    using assms u32_dec_length [of v]
    unfolding is_line_def by (intro conjI exI [of _ "k @ ''='' @ dec (unat v)"]) (auto simp: key_ok_def)
qed

section \<open>JSON strings\<close>

definition dq :: "string \<Rightarrow> string" where
  "dq s = [DQUOTE] @ s @ [DQUOTE]"

abbreviation (input) BACKSLASH :: char where "BACKSLASH \<equiv> CHR 0x5C"

definition hex_digit :: "nat \<Rightarrow> char" where
  "hex_digit n = (if n < 10 then char_of (48 + n) else char_of (87 + n))"

definition escape_char :: "char \<Rightarrow> string" where
  "escape_char c =
     (if c = DQUOTE \<or> c = BACKSLASH then [BACKSLASH, c]
      else if c = NEWLINE then [BACKSLASH, CHR ''n'']
      else if c = CHR 0x0D then [BACKSLASH, CHR ''r'']
      else if c = TAB then [BACKSLASH, CHR ''t'']
      else if (of_char c :: nat) < 32
           then [BACKSLASH, CHR ''u'', CHR ''0'', CHR ''0'', hex_digit (of_char c div 16), hex_digit (of_char c mod 16)]
      else [c])"

definition hex_val :: "char \<Rightarrow> nat" where
  "hex_val c = (if is_digit c then digit_val c else of_char c - 87)"

text \<open>How a JSON reader undoes the escapes, up to the closing quote.\<close>

fun json_unescape :: "string \<Rightarrow> string option" where
  "json_unescape [] = None"
| "json_unescape (c # cs) =
     (if c = DQUOTE then Some []
      else if c \<noteq> BACKSLASH then map_option ((#) c) (json_unescape cs)
      else (case cs of
              [] \<Rightarrow> None
            | d # ds \<Rightarrow>
                if d = CHR ''u''
                then (case ds of
                        h1 # h2 # h3 # h4 # es \<Rightarrow>
                          map_option ((#) (char_of (((hex_val h1 * 16 + hex_val h2) * 16 + hex_val h3) * 16 + hex_val h4)))
                            (json_unescape es)
                      | _ \<Rightarrow> None)
                else map_option ((#) (if d = CHR ''n'' then NEWLINE else if d = CHR ''r'' then CHR 0x0D
                                      else if d = CHR ''t'' then TAB else d)) (json_unescape ds)))"

lemma hex_digit_val: "n < 16 \<Longrightarrow> hex_val (hex_digit n) = n"
  by (simp add: hex_digit_def hex_val_def is_digit_def digit_val_def of_char_of)

lemma json_unescape_escape: "json_unescape (escape_char c @ s) = map_option ((#) c) (json_unescape s)"
proof -
  have lt: "(of_char c :: nat) div 16 < 16" if "(of_char c :: nat) < 32"
    using that by simp
  have "char_of (of_char c div 16 * 16 + of_char c mod 16 :: nat) = c"
    by simp
  moreover have "hex_val CHR ''0'' = 0"
    by (simp add: hex_val_def is_digit_def digit_val_def)
  ultimately show ?thesis
    using lt hex_digit_val by (auto simp: escape_char_def)
qed

lemma json_unescape_concat:
  "json_unescape (concat (map escape_char cs) @ [DQUOTE] @ s) = Some cs"
  by (induction cs) (simp_all add: json_unescape_escape)

lemma escape_char_length: "length (escape_char c) \<le> 6"
  by (simp add: escape_char_def)

lemma length_concat_escape: "length (concat (map escape_char cs)) \<le> 6 * length cs"
proof (induction cs)
  case (Cons c cs)
  then show ?case using escape_char_length [of c] by simp
qed simp

end
