(* ===== verification/MotorConfig.thy ===== *)
theory MotorConfig
  imports Complex_Main CmdTx CText
begin

text \<open>
  The JSON configuration loader of src/src/giga_spi_8adc/config.c: \<open>CONFIG_DEFAULTS\<close>, the
  field readers \<open>j_int\<close>, \<open>j_uint\<close>, \<open>j_float\<close>, \<open>j_source\<close>, \<open>j_run_state\<close>, the loader
  \<open>config_load_file\<close>, the three comparison functions and the SIGHUP flag. The file is an
  input (what each call on it returned) and the parser is a parameter that maps
  the text to a value (theory JsonConfig puts the parser of cJSON.c in its place); looking a member up
  is the vendored \<open>get_object_item\<close>. A C cast of a double that does not fit the integer type is
  undefined behaviour, and so is the message for a text that does not parse: it prints the text from the
  error position on, from the buffer freed just before. Both are a separate outcome of the model.
\<close>

section \<open>JSON values\<close>

text \<open>A number as \<open>valuedouble\<close> holds it: every finite double is a rational number;
  \<open>strtod\<close> turns larger literals into an infinity (of the given sign: True is negative).\<close>

datatype double = Finite rat | Infinite bool

datatype json =
    JNull
  | JBool bool
  | JNumber double
  | JString string
  | JArray "json list"
  | JObject "(string \<times> json) list"

fun get_item :: "json \<Rightarrow> string \<Rightarrow> json option" where
  "get_item (JObject ms) name = map_of ms name"
| "get_item _ _ = None"

fun double_less :: "double \<Rightarrow> double \<Rightarrow> bool" where
  "double_less (Finite x) (Finite y) \<longleftrightarrow> x < y"
| "double_less (Finite x) (Infinite neg) \<longleftrightarrow> \<not> neg"
| "double_less (Infinite neg) (Finite y) \<longleftrightarrow> neg"
| "double_less (Infinite a) (Infinite b) \<longleftrightarrow> a \<and> \<not> b"

definition trunc :: "rat \<Rightarrow> int" where
  "trunc x = (if x < 0 then - \<lfloor>- x\<rfloor> else \<lfloor>x\<rfloor>)"

text \<open>\<open>(int)d\<close> and \<open>(uint32_t)d\<close>: defined when the truncated value fits.\<close>

fun cast_int :: "double \<Rightarrow> int option" where
  "cast_int (Finite x) = (if - (2 ^ 31) \<le> trunc x \<and> trunc x < 2 ^ 31 then Some (trunc x) else None)"
| "cast_int (Infinite _) = None"

fun cast_uint :: "double \<Rightarrow> u32 option" where
  "cast_uint (Finite x) = (if 0 \<le> trunc x \<and> trunc x < 2 ^ 32 then Some (of_int (trunc x)) else None)"
| "cast_uint (Infinite _) = None"

text \<open>\<open>(float)d\<close>: round to nearest, ties to even, with 24 bits of precision, subnormals below
  \<open>2 ^ -126\<close> and infinities from \<open>2 ^ 128\<close>.\<close>

definition pow2 :: "int \<Rightarrow> rat" where
  "pow2 e = (if e \<ge> 0 then 2 ^ nat e else 1 / 2 ^ nat (- e))"

definition round_half_even :: "rat \<Rightarrow> int" where
  "round_half_even x =
     (let f = \<lfloor>x\<rfloor>; d = x - of_int f
      in if d < 1 / 2 then f else if d > 1 / 2 then f + 1 else if even f then f else f + 1)"

fun cast_float :: "double \<Rightarrow> double" where
  "cast_float (Finite x) =
     (case find (\<lambda>e. \<bar>x\<bar> < pow2 (e + 1)) [-126..127] of
        None \<Rightarrow> Infinite (x < 0)
      | Some e \<Rightarrow>
          let q = pow2 (e - 23); r = of_int (round_half_even (x / q)) * q
          in if \<bar>r\<bar> < pow2 128 then Finite r else Infinite (x < 0))"
| "cast_float (Infinite s) = Infinite s"

section \<open>Configuration\<close>

record pi_config =
  pi_spi_bus :: int
  pi_spi_dev :: int
  pi_spi_mode :: int
  pi_spi_clock_hz :: u32
  pi_spi_cpha :: int
  pi_spi_word_width :: int
  pi_spi_idle_insert :: int
  pi_rt_priority :: int
  pi_dataready_pin :: int
  pi_current_scale :: double
  pi_current_offset :: double
  pi_vib_scale :: double
  pi_vib_offset :: double
  pi_rpm_scale :: double
  pi_rpm_offset :: double

record full_config =
  fc_pi :: pi_config
  fc_stm :: config_payload

definition CONFIG_DEFAULTS :: full_config where
  "CONFIG_DEFAULTS = \<lparr>
     fc_pi = \<lparr>pi_spi_bus = 0, pi_spi_dev = 0, pi_spi_mode = 0, pi_spi_clock_hz = 4000000,
       pi_spi_cpha = 0, pi_spi_word_width = 8, pi_spi_idle_insert = 0, pi_rt_priority = 30,
       pi_dataready_pin = 17, pi_current_scale = Finite 1, pi_current_offset = Finite 0,
       pi_vib_scale = Finite 1, pi_vib_offset = Finite 0, pi_rpm_scale = Finite 1,
       pi_rpm_offset = Finite 0\<rparr>,
     fc_stm = \<lparr>cp_block_rows = 200, cp_reserved0 = 0, cp_source = MOTOR_SOURCE_ADC,
       cp_run_state = MOTOR_RUN_RUN, cp_sample_rate_hz = 20000, cp_imu_rate_hz = 1000,
       cp_reserved = replicate 12 0\<rparr>\<rparr>"

definition config_stm_differs :: "config_payload \<Rightarrow> config_payload \<Rightarrow> bool" where
  "config_stm_differs a b \<longleftrightarrow> payload_bytes a \<noteq> payload_bytes b"

definition config_spi_wire_differs :: "pi_config \<Rightarrow> pi_config \<Rightarrow> bool" where
  "config_spi_wire_differs a b \<longleftrightarrow>
     pi_spi_bus a \<noteq> pi_spi_bus b \<or> pi_spi_dev a \<noteq> pi_spi_dev b \<or> pi_spi_mode a \<noteq> pi_spi_mode b \<or>
     pi_spi_clock_hz a \<noteq> pi_spi_clock_hz b \<or> pi_spi_cpha a \<noteq> pi_spi_cpha b \<or>
     pi_spi_word_width a \<noteq> pi_spi_word_width b \<or> pi_spi_idle_insert a \<noteq> pi_spi_idle_insert b"

definition config_pi_hw_differs :: "pi_config \<Rightarrow> pi_config \<Rightarrow> bool" where
  "config_pi_hw_differs a b \<longleftrightarrow> config_spi_wire_differs a b \<or> pi_dataready_pin a \<noteq> pi_dataready_pin b"

text \<open>The SIGHUP flag: the handler sets it, the poll returns and clears it.\<close>

definition on_sighup :: "bool \<Rightarrow> bool" where
  "on_sighup g_reload = True"

definition config_reload_requested :: "bool \<Rightarrow> bool \<times> bool" where
  "config_reload_requested g_reload = (if g_reload then (True, False) else (False, False))"

section \<open>Field readers\<close>

datatype 'a outcome = Ok 'a | Bad | Undefined

fun and_then :: "'a outcome \<Rightarrow> ('a \<Rightarrow> 'b outcome) \<Rightarrow> 'b outcome" where
  "and_then (Ok x) f = f x"
| "and_then Bad f = Bad"
| "and_then Undefined f = Undefined"

definition j_int :: "json \<Rightarrow> string \<Rightarrow> int \<Rightarrow> int \<Rightarrow> bool \<Rightarrow> int \<Rightarrow> int outcome" where
  "j_int obj name lo hi required dst =
     (case get_item obj name of
        None \<Rightarrow> if required then Bad else Ok dst
      | Some (JNumber d) \<Rightarrow>
          (case cast_int d of
             None \<Rightarrow> Undefined
           | Some v \<Rightarrow> if v < lo \<or> v > hi then Bad else Ok v)
      | Some _ \<Rightarrow> Bad)"

definition j_uint :: "json \<Rightarrow> string \<Rightarrow> u32 \<Rightarrow> u32 \<Rightarrow> bool \<Rightarrow> u32 \<Rightarrow> u32 outcome" where
  "j_uint obj name lo hi required dst =
     (case get_item obj name of
        None \<Rightarrow> if required then Bad else Ok dst
      | Some (JNumber d) \<Rightarrow>
          if double_less d (Finite 0) then Bad
          else (case cast_uint d of
             None \<Rightarrow> Undefined
           | Some v \<Rightarrow> if v < lo \<or> v > hi then Bad else Ok v)
      | Some _ \<Rightarrow> Bad)"

definition j_float :: "json \<Rightarrow> string \<Rightarrow> double \<Rightarrow> double \<Rightarrow> bool \<Rightarrow> double \<Rightarrow> double outcome" where
  "j_float obj name lo hi required dst =
     (case get_item obj name of
        None \<Rightarrow> if required then Bad else Ok dst
      | Some (JNumber d) \<Rightarrow>
          let v = cast_float d
          in if double_less v lo \<or> double_less hi v then Bad else Ok v
      | Some _ \<Rightarrow> Bad)"

definition j_source :: "json \<Rightarrow> u16 \<Rightarrow> u16 outcome" where
  "j_source obj dst =
     (case get_item obj ''source'' of
        None \<Rightarrow> Ok dst
      | Some (JString s) \<Rightarrow>
          if s = ''adc'' then Ok MOTOR_SOURCE_ADC
          else if s = ''synth'' then Bad
          else Bad
      | Some (JNumber d) \<Rightarrow>
          (case cast_int d of
             None \<Rightarrow> Undefined
           | Some v \<Rightarrow> if v \<noteq> 1 then Bad else Ok (of_int v))
      | Some _ \<Rightarrow> Bad)"

definition j_run_state :: "json \<Rightarrow> u16 \<Rightarrow> u16 outcome" where
  "j_run_state obj dst =
     (case get_item obj ''run_state'' of
        None \<Rightarrow> Ok dst
      | Some (JString s) \<Rightarrow>
          if s = ''run'' then Ok MOTOR_RUN_RUN
          else if s = ''stop'' then Ok MOTOR_RUN_STOP
          else Bad
      | Some (JNumber d) \<Rightarrow>
          (case cast_int d of
             None \<Rightarrow> Undefined
           | Some v \<Rightarrow> if v \<noteq> 0 \<and> v \<noteq> 1 then Bad else Ok (of_int v))
      | Some _ \<Rightarrow> Bad)"


section \<open>The loader\<close>

abbreviation (input) FLOAT_LO :: double where "FLOAT_LO \<equiv> Finite (- 1000000)"
abbreviation (input) FLOAT_HI :: double where "FLOAT_HI \<equiv> Finite 1000000"

definition load_scaling :: "json \<Rightarrow> pi_config \<Rightarrow> pi_config outcome" where
  "load_scaling sc p =
     and_then (j_float sc ''current_scale'' FLOAT_LO FLOAT_HI False (pi_current_scale p)) (\<lambda>v. let p = p\<lparr>pi_current_scale := v\<rparr> in
     and_then (j_float sc ''current_offset'' FLOAT_LO FLOAT_HI False (pi_current_offset p)) (\<lambda>v. let p = p\<lparr>pi_current_offset := v\<rparr> in
     and_then (j_float sc ''vib_scale'' FLOAT_LO FLOAT_HI False (pi_vib_scale p)) (\<lambda>v. let p = p\<lparr>pi_vib_scale := v\<rparr> in
     and_then (j_float sc ''vib_offset'' FLOAT_LO FLOAT_HI False (pi_vib_offset p)) (\<lambda>v. let p = p\<lparr>pi_vib_offset := v\<rparr> in
     and_then (j_float sc ''rpm_scale'' FLOAT_LO FLOAT_HI False (pi_rpm_scale p)) (\<lambda>v. let p = p\<lparr>pi_rpm_scale := v\<rparr> in
     and_then (j_float sc ''rpm_offset'' FLOAT_LO FLOAT_HI False (pi_rpm_offset p)) (\<lambda>v. Ok (p\<lparr>pi_rpm_offset := v\<rparr>)))))))"

definition load_pi :: "json \<Rightarrow> pi_config \<Rightarrow> pi_config outcome" where
  "load_pi obj p =
     and_then (j_int obj ''spi_bus'' 0 7 False (pi_spi_bus p)) (\<lambda>v. let p = p\<lparr>pi_spi_bus := v\<rparr> in
     and_then (j_int obj ''spi_dev'' 0 7 False (pi_spi_dev p)) (\<lambda>v. let p = p\<lparr>pi_spi_dev := v\<rparr> in
     and_then (j_int obj ''spi_mode'' 0 3 False (pi_spi_mode p)) (\<lambda>v. let p = p\<lparr>pi_spi_mode := v\<rparr> in
     and_then (j_uint obj ''spi_clock_hz'' 100000 50000000 False (pi_spi_clock_hz p)) (\<lambda>v. let p = p\<lparr>pi_spi_clock_hz := v\<rparr> in
     and_then (j_int obj ''spi_cpha'' 0 1 False (pi_spi_cpha p)) (\<lambda>v. let p = p\<lparr>pi_spi_cpha := v\<rparr> in
     and_then (j_int obj ''spi_word_width'' 8 32 False (pi_spi_word_width p)) (\<lambda>v. let p = p\<lparr>pi_spi_word_width := v\<rparr> in
     and_then (j_int obj ''spi_idle_insert'' 0 1 False (pi_spi_idle_insert p)) (\<lambda>v. let p = p\<lparr>pi_spi_idle_insert := v\<rparr> in
     and_then (j_int obj ''rt_priority'' 1 63 False (pi_rt_priority p)) (\<lambda>v. let p = p\<lparr>pi_rt_priority := v\<rparr> in
     and_then (j_int obj ''dataready_pin'' 0 27 False (pi_dataready_pin p)) (\<lambda>v. let p = p\<lparr>pi_dataready_pin := v\<rparr> in
     if pi_spi_word_width p \<noteq> 8 \<and> pi_spi_word_width p \<noteq> 16 \<and> pi_spi_word_width p \<noteq> 32 then Bad
     else case get_item obj ''scaling'' of
            Some (JObject ms) \<Rightarrow> load_scaling (JObject ms) p
          | _ \<Rightarrow> Ok p)))))))))"

definition load_stm :: "json \<Rightarrow> config_payload \<Rightarrow> config_payload outcome" where
  "load_stm obj c =
     and_then (j_uint obj ''block_rows'' 1 (ucast MOTOR_MAX_ROWS_PER_BLOCK) False (ucast (cp_block_rows c))) (\<lambda>br. let c = c\<lparr>cp_block_rows := ucast br\<rparr> in
     and_then (j_source obj (cp_source c)) (\<lambda>v. let c = c\<lparr>cp_source := v\<rparr> in
     and_then (j_run_state obj (cp_run_state c)) (\<lambda>v. let c = c\<lparr>cp_run_state := v\<rparr> in
     and_then (j_uint obj ''sample_rate_hz'' 0 100000 False (cp_sample_rate_hz c)) (\<lambda>v. let c = c\<lparr>cp_sample_rate_hz := v\<rparr> in
     if cp_sample_rate_hz c \<noteq> 0 \<and> cp_sample_rate_hz c < 100 then Bad else
     and_then (j_uint obj ''imu_rate_hz'' 0 1000 False (cp_imu_rate_hz c)) (\<lambda>v. let c = c\<lparr>cp_imu_rate_hz := v\<rparr> in
     if cp_imu_rate_hz c \<noteq> 0 \<and> cp_imu_rate_hz c < 10 then Bad else Ok c)))))"

definition load_root :: "json \<Rightarrow> full_config outcome" where
  "load_root obj =
     and_then (case get_item obj ''pi'' of
                 Some (JObject ms) \<Rightarrow> load_pi (JObject ms) (fc_pi CONFIG_DEFAULTS)
               | _ \<Rightarrow> Ok (fc_pi CONFIG_DEFAULTS)) (\<lambda>p.
     and_then (case get_item obj ''stm'' of
                 Some (JObject ms) \<Rightarrow> load_stm (JObject ms) (fc_stm CONFIG_DEFAULTS)
               | _ \<Rightarrow> Ok (fc_stm CONFIG_DEFAULTS)) (\<lambda>c.
     Ok \<lparr>fc_pi = p, fc_stm = c\<lparr>cp_reserved := replicate 12 0\<rparr>\<rparr>))"

text \<open>
  The file: whether \<open>open\<close>, \<open>fstat\<close> and \<open>malloc\<close> succeed, the size \<open>fstat\<close> reports, and what
  the successive \<open>read\<close> calls return (an empty chunk is end of file or an error). A read
  never returns more than it was asked for.
\<close>

record config_file =
  cf_open_ok :: bool
  cf_fstat_ok :: bool
  cf_size :: int
  cf_malloc_ok :: bool
  cf_chunks :: "string list"

fun slurp :: "nat \<Rightarrow> string list \<Rightarrow> string \<Rightarrow> string" where
  "slurp wanted [] got = got"
| "slurp wanted (c # cs) got =
     (if length got < wanted \<and> c \<noteq> [] then slurp wanted cs (got @ take (wanted - length got) c) else got)"

definition config_load_file :: "(string \<Rightarrow> json option) \<Rightarrow> config_file \<Rightarrow> full_config outcome" where
  "config_load_file cJSON_Parse f =
     (if \<not> cf_open_ok f then Bad
      else if \<not> cf_fstat_ok f \<or> cf_size f \<le> 0 \<or> cf_size f > 2 ^ 20 then Bad
      else if \<not> cf_malloc_ok f then Bad
      else let buf = slurp (nat (cf_size f)) (cf_chunks f) []
           in if length buf \<noteq> nat (cf_size f) then Bad
              else case cJSON_Parse (cstr buf) of
                     None \<Rightarrow> Undefined
                   | Some obj \<Rightarrow> load_root obj)"

section \<open>Every accepted configuration is in range\<close>

lemma and_then_Ok: "and_then m f = Ok y \<longleftrightarrow> (\<exists>x. m = Ok x \<and> f x = Ok y)"
  by (cases m) simp_all

definition scale_ok :: "double \<Rightarrow> bool" where
  "scale_ok d \<longleftrightarrow> \<not> double_less d FLOAT_LO \<and> \<not> double_less FLOAT_HI d"

definition pi_hw_ok :: "pi_config \<Rightarrow> bool" where
  "pi_hw_ok p \<longleftrightarrow>
     0 \<le> pi_spi_bus p \<and> pi_spi_bus p \<le> 7 \<and> 0 \<le> pi_spi_dev p \<and> pi_spi_dev p \<le> 7 \<and>
     0 \<le> pi_spi_mode p \<and> pi_spi_mode p \<le> 3 \<and>
     100000 \<le> pi_spi_clock_hz p \<and> pi_spi_clock_hz p \<le> 50000000 \<and>
     0 \<le> pi_spi_cpha p \<and> pi_spi_cpha p \<le> 1 \<and>
     (pi_spi_word_width p = 8 \<or> pi_spi_word_width p = 16 \<or> pi_spi_word_width p = 32) \<and>
     0 \<le> pi_spi_idle_insert p \<and> pi_spi_idle_insert p \<le> 1 \<and>
     1 \<le> pi_rt_priority p \<and> pi_rt_priority p \<le> 63 \<and>
     0 \<le> pi_dataready_pin p \<and> pi_dataready_pin p \<le> 27"

definition pi_scaling_ok :: "pi_config \<Rightarrow> bool" where
  "pi_scaling_ok p \<longleftrightarrow> scale_ok (pi_current_scale p) \<and> scale_ok (pi_current_offset p) \<and>
     scale_ok (pi_vib_scale p) \<and> scale_ok (pi_vib_offset p) \<and>
     scale_ok (pi_rpm_scale p) \<and> scale_ok (pi_rpm_offset p)"

definition stm_ok :: "config_payload \<Rightarrow> bool" where
  "stm_ok c \<longleftrightarrow> 1 \<le> cp_block_rows c \<and> cp_block_rows c \<le> MOTOR_MAX_ROWS_PER_BLOCK \<and>
     cp_reserved0 c = 0 \<and> cp_source c = MOTOR_SOURCE_ADC \<and> cp_run_state c \<le> 1 \<and>
     (cp_sample_rate_hz c = 0 \<or> 100 \<le> cp_sample_rate_hz c \<and> cp_sample_rate_hz c \<le> 100000) \<and>
     (cp_imu_rate_hz c = 0 \<or> 10 \<le> cp_imu_rate_hz c \<and> cp_imu_rate_hz c \<le> 1000)"

definition config_ok :: "full_config \<Rightarrow> bool" where
  "config_ok c \<longleftrightarrow> pi_hw_ok (fc_pi c) \<and> pi_scaling_ok (fc_pi c) \<and> stm_ok (fc_stm c) \<and>
     cp_reserved (fc_stm c) = replicate 12 0"

lemma j_int_range: "j_int obj name lo hi req dst = Ok v \<Longrightarrow> v = dst \<or> lo \<le> v \<and> v \<le> hi"
  by (auto simp: j_int_def split: option.splits json.splits if_splits)

lemma j_uint_range: "j_uint obj name lo hi req dst = Ok v \<Longrightarrow> v = dst \<or> lo \<le> v \<and> v \<le> hi"
  by (auto simp: j_uint_def split: option.splits json.splits if_splits)

lemma j_float_range:
  "j_float obj name lo hi req dst = Ok v \<Longrightarrow> v = dst \<or> \<not> double_less v lo \<and> \<not> double_less hi v"
  by (auto simp: j_float_def Let_def split: option.splits json.splits if_splits)

lemma j_source_range: "j_source obj dst = Ok v \<Longrightarrow> v = dst \<or> v = MOTOR_SOURCE_ADC"
  by (auto simp: j_source_def split: option.splits json.splits if_splits)

lemma j_run_state_range: "j_run_state obj dst = Ok v \<Longrightarrow> v = dst \<or> v \<le> 1"
  by (auto simp: j_run_state_def split: option.splits json.splits if_splits)

lemma j_scale: "j_float obj name FLOAT_LO FLOAT_HI req dst = Ok v \<Longrightarrow> scale_ok dst \<Longrightarrow> scale_ok v"
  using j_float_range unfolding scale_ok_def by blast

lemma load_scaling_ok:
  assumes "load_scaling sc p = Ok q" "pi_hw_ok p" "pi_scaling_ok p"
  shows "pi_hw_ok q \<and> pi_scaling_ok q"
  using assms
  by (auto simp: load_scaling_def and_then_Ok Let_def pi_scaling_ok_def pi_hw_ok_def dest!: j_scale)


lemma j_int_in: "j_int obj name lo hi req dst = Ok v \<Longrightarrow> lo \<le> dst \<Longrightarrow> dst \<le> hi \<Longrightarrow> lo \<le> v \<and> v \<le> hi"
  using j_int_range by fastforce

lemma j_uint_in: "j_uint obj name lo hi req dst = Ok v \<Longrightarrow> lo \<le> dst \<Longrightarrow> dst \<le> hi \<Longrightarrow> lo \<le> v \<and> v \<le> hi"
  using j_uint_range by fastforce

lemma load_pi_ok:
  assumes "load_pi obj p = Ok q" "pi_hw_ok p" "pi_scaling_ok p"
  shows "pi_hw_ok q \<and> pi_scaling_ok q"
proof -
  note r = assms(2) [unfolded pi_hw_ok_def]
  obtain v1 v2 v3 v4 v5 v6 v7 v8 v9 where
    v: "j_int obj ''spi_bus'' 0 7 False (pi_spi_bus p) = Ok v1"
    "j_int obj ''spi_dev'' 0 7 False (pi_spi_dev p) = Ok v2"
    "j_int obj ''spi_mode'' 0 3 False (pi_spi_mode p) = Ok v3"
    "j_uint obj ''spi_clock_hz'' 100000 50000000 False (pi_spi_clock_hz p) = Ok v4"
    "j_int obj ''spi_cpha'' 0 1 False (pi_spi_cpha p) = Ok v5"
    "j_int obj ''spi_word_width'' 8 32 False (pi_spi_word_width p) = Ok v6"
    "j_int obj ''spi_idle_insert'' 0 1 False (pi_spi_idle_insert p) = Ok v7"
    "j_int obj ''rt_priority'' 1 63 False (pi_rt_priority p) = Ok v8"
    "j_int obj ''dataready_pin'' 0 27 False (pi_dataready_pin p) = Ok v9"
    "v6 = 8 \<or> v6 = 16 \<or> v6 = 32"
    and rest: "(case get_item obj ''scaling'' of
       Some (JObject ms) \<Rightarrow> load_scaling (JObject ms) (p\<lparr>pi_spi_bus := v1, pi_spi_dev := v2, pi_spi_mode := v3,
         pi_spi_clock_hz := v4, pi_spi_cpha := v5, pi_spi_word_width := v6, pi_spi_idle_insert := v7,
         pi_rt_priority := v8, pi_dataready_pin := v9\<rparr>)
     | _ \<Rightarrow> Ok (p\<lparr>pi_spi_bus := v1, pi_spi_dev := v2, pi_spi_mode := v3,
         pi_spi_clock_hz := v4, pi_spi_cpha := v5, pi_spi_word_width := v6, pi_spi_idle_insert := v7,
         pi_rt_priority := v8, pi_dataready_pin := v9\<rparr>)) = Ok q"
    using assms(1) by (auto simp: load_pi_def and_then_Ok Let_def split: if_splits)
  let ?p = "p\<lparr>pi_spi_bus := v1, pi_spi_dev := v2, pi_spi_mode := v3,
         pi_spi_clock_hz := v4, pi_spi_cpha := v5, pi_spi_word_width := v6, pi_spi_idle_insert := v7,
         pi_rt_priority := v8, pi_dataready_pin := v9\<rparr>"
  have "0 \<le> v1 \<and> v1 \<le> 7" "0 \<le> v2 \<and> v2 \<le> 7" "0 \<le> v3 \<and> v3 \<le> 3" "100000 \<le> v4 \<and> v4 \<le> 50000000"
    "0 \<le> v5 \<and> v5 \<le> 1" "0 \<le> v7 \<and> v7 \<le> 1" "1 \<le> v8 \<and> v8 \<le> 63" "0 \<le> v9 \<and> v9 \<le> 27"
    using r by (intro j_int_in [OF v(1)] j_int_in [OF v(2)] j_int_in [OF v(3)] j_uint_in [OF v(4)]
        j_int_in [OF v(5)] j_int_in [OF v(7)] j_int_in [OF v(8)] j_int_in [OF v(9)]; simp)+
  then have "pi_hw_ok ?p"
    using v(10) by (simp add: pi_hw_ok_def)
  moreover have "pi_scaling_ok ?p"
    using assms(3) by (simp add: pi_scaling_ok_def)
  ultimately show ?thesis
    using rest load_scaling_ok by (auto split: option.splits json.splits)
qed

lemma load_stm_ok:
  assumes "load_stm obj c = Ok d" "stm_ok c"
  shows "stm_ok d"
proof -
  note r = assms(2) [unfolded stm_ok_def]
  obtain br src rs sr ir where
    v: "j_uint obj ''block_rows'' 1 (ucast MOTOR_MAX_ROWS_PER_BLOCK) False (ucast (cp_block_rows c)) = Ok br"
    "j_source obj (cp_source c) = Ok src" "j_run_state obj (cp_run_state c) = Ok rs"
    "j_uint obj ''sample_rate_hz'' 0 100000 False (cp_sample_rate_hz c) = Ok sr"
    "j_uint obj ''imu_rate_hz'' 0 1000 False (cp_imu_rate_hz c) = Ok ir"
    "sr = 0 \<or> 100 \<le> sr" "ir = 0 \<or> 10 \<le> ir"
    and d: "d = c\<lparr>cp_block_rows := ucast br, cp_source := src, cp_run_state := rs,
      cp_sample_rate_hz := sr, cp_imu_rate_hz := ir\<rparr>"
    using assms(1) by (auto simp: load_stm_def and_then_Ok Let_def not_less split: if_splits)
  have "1 \<le> br \<and> br \<le> ucast MOTOR_MAX_ROWS_PER_BLOCK"
    using r by (intro j_uint_in [OF v(1)]) (simp_all add: word_le_nat_alt)
  then have "1 \<le> (ucast br :: u16)" "(ucast br :: u16) \<le> MOTOR_MAX_ROWS_PER_BLOCK"
    by (simp_all add: word_le_nat_alt unsigned_ucast_eq take_bit_nat_eq_self)
  moreover have "src = MOTOR_SOURCE_ADC" "rs \<le> 1"
    using j_source_range [OF v(2)] j_run_state_range [OF v(3)] r by auto
  moreover have "sr \<le> 100000" "ir \<le> 1000"
    using j_uint_range [OF v(4)] j_uint_range [OF v(5)] r by auto
  ultimately show ?thesis
    using v(6,7) r by (simp add: stm_ok_def d)
qed

lemma defaults_ok: "config_ok CONFIG_DEFAULTS"
  by (simp add: config_ok_def CONFIG_DEFAULTS_def pi_hw_ok_def pi_scaling_ok_def stm_ok_def scale_ok_def)

lemma accepted_config_ok:
  assumes "config_load_file cJSON_Parse f = Ok c"
  shows "config_ok c"
proof -
  obtain obj where "load_root obj = Ok c"
    using assms by (auto simp: config_load_file_def Let_def split: if_splits option.splits)
  then obtain p d where c: "c = \<lparr>fc_pi = p, fc_stm = d\<lparr>cp_reserved := replicate 12 0\<rparr>\<rparr>"
    and p: "(case get_item obj ''pi'' of
         Some (JObject ms) \<Rightarrow> load_pi (JObject ms) (fc_pi CONFIG_DEFAULTS)
       | _ \<Rightarrow> Ok (fc_pi CONFIG_DEFAULTS)) = Ok p"
    and d: "(case get_item obj ''stm'' of
         Some (JObject ms) \<Rightarrow> load_stm (JObject ms) (fc_stm CONFIG_DEFAULTS)
       | _ \<Rightarrow> Ok (fc_stm CONFIG_DEFAULTS)) = Ok d"
    by (auto simp: load_root_def and_then_Ok)
  have "pi_hw_ok p \<and> pi_scaling_ok p"
    using p defaults_ok load_pi_ok unfolding config_ok_def by (auto split: option.splits json.splits)
  moreover have "stm_ok d"
    using d defaults_ok load_stm_ok unfolding config_ok_def by (auto split: option.splits json.splits)
  ultimately show ?thesis
    by (simp add: c config_ok_def stm_ok_def pi_scaling_ok_def)
qed

text \<open>
  C12. Whatever the file and whatever JSON the parser makes of it, a configuration that
  \<open>config_load_file\<close> accepts has every field in range, and its reserved bytes are zero, as the
  command protocol requires.
\<close>

theorem config_load_in_range:
  assumes "config_load_file cJSON_Parse f = Ok c"
  shows "config_ok c"
  using assms by (rule accepted_config_ok)

definition empty_config_file :: config_file where
  "empty_config_file = \<lparr>cf_open_ok = True, cf_fstat_ok = True, cf_size = 2, cf_malloc_ok = True,
     cf_chunks = [''{'', ''}'']\<rparr>"

definition sample_parse :: "string \<Rightarrow> json option" where
  "sample_parse s = (if s = ''{}'' then Some (JObject []) else None)"

theorem config_load_in_range_witness:
  "config_load_file sample_parse empty_config_file = Ok CONFIG_DEFAULTS \<and> config_ok CONFIG_DEFAULTS"
proof -
  have "config_load_file sample_parse empty_config_file = Ok CONFIG_DEFAULTS"
    by (simp add: config_load_file_def empty_config_file_def sample_parse_def cstr_def load_root_def
        CONFIG_DEFAULTS_def)
  then show ?thesis
    using config_load_in_range by blast
qed

section \<open>Every configuration in range can be written and is loaded exactly\<close>

definition pi_json :: "pi_config \<Rightarrow> json" where
  "pi_json p = JObject [
     (''spi_bus'', JNumber (Finite (of_int (pi_spi_bus p)))),
     (''spi_dev'', JNumber (Finite (of_int (pi_spi_dev p)))),
     (''spi_mode'', JNumber (Finite (of_int (pi_spi_mode p)))),
     (''spi_clock_hz'', JNumber (Finite (of_nat (unat (pi_spi_clock_hz p))))),
     (''spi_cpha'', JNumber (Finite (of_int (pi_spi_cpha p)))),
     (''spi_word_width'', JNumber (Finite (of_int (pi_spi_word_width p)))),
     (''spi_idle_insert'', JNumber (Finite (of_int (pi_spi_idle_insert p)))),
     (''rt_priority'', JNumber (Finite (of_int (pi_rt_priority p)))),
     (''dataready_pin'', JNumber (Finite (of_int (pi_dataready_pin p)))),
     (''scaling'', JObject [
        (''current_scale'', JNumber (pi_current_scale p)),
        (''current_offset'', JNumber (pi_current_offset p)),
        (''vib_scale'', JNumber (pi_vib_scale p)),
        (''vib_offset'', JNumber (pi_vib_offset p)),
        (''rpm_scale'', JNumber (pi_rpm_scale p)),
        (''rpm_offset'', JNumber (pi_rpm_offset p))])]"

definition stm_json :: "config_payload \<Rightarrow> json" where
  "stm_json c = JObject [
     (''block_rows'', JNumber (Finite (of_nat (unat (cp_block_rows c))))),
     (''source'', JString ''adc''),
     (''run_state'', JString (if cp_run_state c = MOTOR_RUN_RUN then ''run'' else ''stop'')),
     (''sample_rate_hz'', JNumber (Finite (of_nat (unat (cp_sample_rate_hz c))))),
     (''imu_rate_hz'', JNumber (Finite (of_nat (unat (cp_imu_rate_hz c)))))]"

definition config_json :: "full_config \<Rightarrow> json" where
  "config_json c = JObject [(''pi'', pi_json (fc_pi c)), (''stm'', stm_json (fc_stm c))]"

text \<open>The scaling constants are floats: rounding to single precision leaves them alone.\<close>

definition scaling_is_float :: "pi_config \<Rightarrow> bool" where
  "scaling_is_float p \<longleftrightarrow>
     (\<forall>d \<in> {pi_current_scale p, pi_current_offset p, pi_vib_scale p, pi_vib_offset p,
             pi_rpm_scale p, pi_rpm_offset p}. cast_float d = d)"

lemma trunc_of_int [simp]: "trunc (of_int i) = i"
  by (simp add: trunc_def)

lemma j_int_member:
  "get_item obj name = Some (JNumber (Finite (of_int v))) \<Longrightarrow> lo \<le> v \<Longrightarrow> v \<le> hi \<Longrightarrow>
   - (2 ^ 31) \<le> lo \<Longrightarrow> hi < 2 ^ 31 \<Longrightarrow> j_int obj name lo hi req dst = Ok v"
  by (simp add: j_int_def)

lemma cast_uint_unsigned: "cast_uint (Finite (unsigned (w :: u32))) = Some w"
proof -
  have u: "(unsigned w :: rat) = of_int (uint w)"
    by simp
  have "0 \<le> uint w" "uint w < 2 ^ 32"
    using unsigned_less [of w, where 'a = int] by simp_all
  then show ?thesis
    by (simp only: u cast_uint.simps trunc_of_int) simp
qed

lemma unsigned_rat_nonneg: "\<not> (unsigned (w :: u32) :: rat) < 0"
proof -
  have "(unsigned w :: rat) = of_nat (unat w)"
    by simp
  then show ?thesis
    by (metis not_less of_nat_0_le_iff)
qed

lemma j_uint_member:
  "get_item obj name = Some (JNumber (Finite (of_nat (unat v)))) \<Longrightarrow> lo \<le> v \<Longrightarrow> v \<le> hi \<Longrightarrow>
   j_uint obj name lo hi req dst = Ok v"
  by (auto simp: j_uint_def cast_uint_unsigned unsigned_rat_nonneg simp del: cast_uint.simps)

lemma j_float_member:
  "get_item obj name = Some (JNumber d) \<Longrightarrow> cast_float d = d \<Longrightarrow> scale_ok d \<Longrightarrow>
   j_float obj name FLOAT_LO FLOAT_HI req dst = Ok d"
  by (simp add: j_float_def scale_ok_def)

lemma load_pi_json:
  assumes "pi_hw_ok p" "pi_scaling_ok p" "scaling_is_float p"
  shows "load_pi (pi_json p) q = Ok p"
proof -
  note r = assms(1) [unfolded pi_hw_ok_def] assms(2) [unfolded pi_scaling_ok_def]
    assms(3) [unfolded scaling_is_float_def]
  note m = j_int_member [where v = "pi_spi_bus p"] j_int_member [where v = "pi_spi_dev p"]
    j_int_member [where v = "pi_spi_mode p"] j_int_member [where v = "pi_spi_cpha p"]
    j_int_member [where v = "pi_spi_word_width p"] j_int_member [where v = "pi_spi_idle_insert p"]
    j_int_member [where v = "pi_rt_priority p"] j_int_member [where v = "pi_dataready_pin p"]
    j_uint_member [where v = "pi_spi_clock_hz p"]
  have width: "8 \<le> pi_spi_word_width p" "pi_spi_word_width p \<le> 32"
    using r(1) by auto
  have w3: "\<not> (pi_spi_word_width p \<noteq> 8 \<and> pi_spi_word_width p \<noteq> 16 \<and> pi_spi_word_width p \<noteq> 32)"
    using r(1) by blast
  show ?thesis
    using r width w3 by (simp add: load_pi_def load_scaling_def pi_json_def m j_float_member Let_def)
qed

lemma load_stm_json:
  assumes "stm_ok c"
  shows "\<exists>d. load_stm (stm_json c) q = Ok d \<and> d = c\<lparr>cp_reserved0 := cp_reserved0 q, cp_reserved := cp_reserved q\<rparr>"
proof -
  note r = assms [unfolded stm_ok_def]
  let ?br = "ucast (cp_block_rows c) :: u32"
  have br: "1 \<le> ?br" "?br \<le> ucast MOTOR_MAX_ROWS_PER_BLOCK" "(ucast ?br :: u16) = cp_block_rows c"
    using r by (simp_all add: word_le_nat_alt ucast_u32_u16)
  have "j_uint (stm_json c) ''block_rows'' 1 (ucast MOTOR_MAX_ROWS_PER_BLOCK) False (ucast (cp_block_rows q)) = Ok ?br"
    using br(1,2) by (intro j_uint_member) (simp_all add: stm_json_def)
  then have rows: "j_uint (stm_json c) ''block_rows'' 1 200 False (ucast (cp_block_rows q)) = Ok ?br"
    by simp
  have src: "j_source (stm_json c) (cp_source q) = Ok (cp_source c)"
    using r by (simp add: j_source_def stm_json_def)
  have "cp_run_state c = 0 \<or> cp_run_state c = 1"
    using r by (auto simp: word_le_nat_alt word_unat_eq_iff)
  then have rs: "j_run_state (stm_json c) (cp_run_state q) = Ok (cp_run_state c)"
    by (auto simp: j_run_state_def stm_json_def)
  have sr: "j_uint (stm_json c) ''sample_rate_hz'' 0 100000 False (cp_sample_rate_hz q) = Ok (cp_sample_rate_hz c)"
    using r by (intro j_uint_member) (auto simp: stm_json_def)
  have ir: "j_uint (stm_json c) ''imu_rate_hz'' 0 1000 False (cp_imu_rate_hz q) = Ok (cp_imu_rate_hz c)"
    using r by (intro j_uint_member) (auto simp: stm_json_def)
  have "load_stm (stm_json c) q = Ok (q\<lparr>cp_block_rows := cp_block_rows c, cp_source := cp_source c,
      cp_run_state := cp_run_state c, cp_sample_rate_hz := cp_sample_rate_hz c, cp_imu_rate_hz := cp_imu_rate_hz c\<rparr>)"
    using r br(3) by (simp add: load_stm_def rows src rs sr ir Let_def not_less) auto
  then show ?thesis
    by (intro exI conjI, assumption) (rule config_payload.equality, simp_all)
qed


lemma slurp_all:
  "\<forall>c \<in> set cs. c \<noteq> [] \<Longrightarrow> length got + length (concat cs) = n \<Longrightarrow> slurp n cs got = got @ concat cs"
proof (induction cs arbitrary: got)
  case Nil
  then show ?case by simp
next
  case (Cons c cs)
  then have "length got < n" "take (n - length got) c = c"
    by auto
  then show ?case
    using Cons by simp
qed

lemma load_config_json:
  assumes "config_ok c" "scaling_is_float (fc_pi c)"
  shows "load_root (config_json c) = Ok c"
proof -
  have "load_pi (pi_json (fc_pi c)) (fc_pi CONFIG_DEFAULTS) = Ok (fc_pi c)"
    using assms by (intro load_pi_json) (simp_all add: config_ok_def)
  moreover obtain d where "load_stm (stm_json (fc_stm c)) (fc_stm CONFIG_DEFAULTS) = Ok d"
      "d = (fc_stm c)\<lparr>cp_reserved0 := cp_reserved0 (fc_stm CONFIG_DEFAULTS), cp_reserved := cp_reserved (fc_stm CONFIG_DEFAULTS)\<rparr>"
    using load_stm_json [of "fc_stm c"] assms(1) unfolding config_ok_def by blast
  moreover have "cp_reserved0 (fc_stm c) = 0" "cp_reserved (fc_stm c) = replicate 12 0"
    using assms(1) by (simp_all add: config_ok_def stm_ok_def)
  moreover have "cp_reserved0 (fc_stm CONFIG_DEFAULTS) = 0"
    by (simp add: CONFIG_DEFAULTS_def)
  ultimately show ?thesis
    by (simp add: load_root_def config_json_def pi_json_def stm_json_def)
qed

text \<open>
  Nothing in range is refused or altered: a file of at most one megabyte that the
  parser reads as the JSON form of an in-range configuration whose scaling constants are
  floats is loaded as exactly that configuration, in however many chunks the reads
  return it.
\<close>

theorem config_load_roundtrip:
  assumes "config_ok c" "scaling_is_float (fc_pi c)"
    "concat chunks = txt" "\<forall>k \<in> set chunks. k \<noteq> []" "txt \<noteq> []" "length txt \<le> 2 ^ 20"
    "cJSON_Parse (cstr txt) = Some (config_json c)"
  shows "config_load_file cJSON_Parse \<lparr>cf_open_ok = True, cf_fstat_ok = True, cf_size = int (length txt),
     cf_malloc_ok = True, cf_chunks = chunks\<rparr> = Ok c"
proof -
  have "slurp (length txt) chunks [] = txt"
    using slurp_all [of chunks "[]" "length txt"] assms(3,4) by simp
  moreover have "int (length txt) > 0" "\<not> int (length txt) > 2 ^ 20"
    using assms(5,6) by simp_all
  ultimately show ?thesis
    using assms(7) load_config_json [OF assms(1,2)] by (simp add: config_load_file_def)
qed

lemma cast_float_0: "cast_float (Finite 0) = Finite 0"
proof -
  have f: "find (\<lambda>e. \<bar>0 :: rat\<bar> < pow2 (e + 1)) [-126..127] = Some (- 126)"
    by (subst upto_rec1) (simp_all add: pow2_def)
  show ?thesis
    by (simp only: cast_float.simps f) (simp add: round_half_even_def Let_def pow2_def)
qed

lemma find_upto_skip:
  "(\<And>i. a \<le> i \<Longrightarrow> i < b \<Longrightarrow> \<not> P i) \<Longrightarrow> a \<le> b \<Longrightarrow> b \<le> c \<Longrightarrow> P b \<Longrightarrow> find P [a..c] = Some b"
proof (induction "nat (b - a)" arbitrary: a)
  case 0
  then have "a = b" by simp
  then show ?case
    using 0 by (simp add: upto_rec1 [of b c])
next
  case (Suc n)
  then have "a < b" "\<not> P a" "find P [a + 1..c] = Some b"
    by auto
  then show ?case
    using Suc.prems by (simp add: upto_rec1 [of a c])
qed

lemma cast_float_1: "cast_float (Finite 1) = Finite 1"
proof -
  have f: "find (\<lambda>e. \<bar>1 :: rat\<bar> < pow2 (e + 1)) [-126..127] = Some 0"
  proof (rule find_upto_skip)
    fix i :: int
    assume "i < 0"
    have "(1 :: rat) \<le> 2 ^ nat (- i - 1)"
      by simp
    then show "\<not> \<bar>1 :: rat\<bar> < pow2 (i + 1)"
      using \<open>i < 0\<close> by (cases "i = - 1") (auto simp: pow2_def not_less)
  qed (simp_all add: pow2_def)
  show ?thesis
    by (simp only: cast_float.simps f) (simp add: round_half_even_def Let_def pow2_def)
qed

theorem config_load_roundtrip_witness:
  "config_load_file (\<lambda>_. Some (config_json CONFIG_DEFAULTS)) \<lparr>cf_open_ok = True, cf_fstat_ok = True,
     cf_size = int (length ''{}''), cf_malloc_ok = True, cf_chunks = [''{'', ''}'']\<rparr> = Ok CONFIG_DEFAULTS"
  by (rule config_load_roundtrip [OF defaults_ok])
     (simp_all add: scaling_is_float_def CONFIG_DEFAULTS_def cast_float_0 cast_float_1 del: cast_float.simps)

text \<open>
  A number too large for the target type is not rejected as out of range: the cast that
  precedes the range check has undefined behaviour, so the result of loading a SPI section
  whose first integer field is \<open>2 ^ 31\<close> or more is undefined.
\<close>

theorem oversized_integer_undefined:
  assumes "get_item obj ''pi'' = Some (JObject ms)"
    "map_of ms ''spi_bus'' = Some (JNumber (Finite x))" "2 ^ 31 \<le> x"
  shows "load_root obj = Undefined"
proof -
  have "\<not> x < 0" "(2 ^ 31 :: int) \<le> \<lfloor>x\<rfloor>"
    using assms(3) by (simp_all add: le_floor_iff)
  then have "\<not> (- (2 ^ 31) \<le> trunc x \<and> trunc x < 2 ^ 31)"
    by (simp add: trunc_def)
  then have "cast_int (Finite x) = None"
    by (simp only: cast_int.simps if_False)
  then show ?thesis
    using assms(1,2) by (simp add: load_root_def load_pi_def j_int_def del: cast_int.simps)
qed

theorem oversized_integer_undefined_witness:
  "load_root (JObject [(''pi'', JObject [(''spi_bus'', JNumber (Finite 4294967296))])]) = Undefined"
  by (rule oversized_integer_undefined [where x = 4294967296
        and ms = "[(''spi_bus'', JNumber (Finite 4294967296))]"]) simp_all

end
