(* ===== verification/SpiConf.thy ===== *)
theory SpiConf
  imports MotorConfig
begin

text \<open>
  Keeping the SPI driver's configuration file in step with the loaded configuration:
  \<open>read_current_kv\<close>, \<open>rewrite_spi_conf\<close>, \<open>bounce_spi_dwc\<close> and \<open>spi_apply_conf\<close> of
  src/src/giga_spi_8adc/config.c. The file is its text (None while it cannot be opened);
  lines are read through the 256-byte buffer the source uses. The results of the system
  calls that can fail are inputs.
\<close>

section \<open>Reading and rewriting\<close>

type_synonym spi_kv = "string \<times> u32"

definition read_current_kv :: "string option \<Rightarrow> string \<Rightarrow> u32 option" where
  "read_current_kv conf key =
     (case conf of
        None \<Rightarrow> None
      | Some txt \<Rightarrow>
          (case find (key_matches key) (conf_lines txt) of
             None \<Rightarrow> None
           | Some line \<Rightarrow> Some (ucast (strtoul (drop (length key + 1) (skip_blanks line))))))"

definition rewrite_line :: "spi_kv list \<Rightarrow> string \<Rightarrow> string" where
  "rewrite_line kv line =
     (case find (\<lambda>(key, val). key_matches key line) kv of
        Some (key, val) \<Rightarrow> key @ ''='' @ dec (unat val) @ [NEWLINE]
      | None \<Rightarrow> line)"

text \<open>Which of the file operations succeed.\<close>

record conf_io =
  ci_mkstemp_ok :: bool
  ci_fdopen_ok :: bool
  ci_close_ok :: bool
  ci_rename_ok :: bool

text \<open>At most 16 keys are used. Keys that no line has are only warned about.\<close>

definition rewrite_spi_conf :: "conf_io \<Rightarrow> spi_kv list \<Rightarrow> string option \<Rightarrow> bool \<times> string option" where
  "rewrite_spi_conf io kv conf =
     (case conf of
        None \<Rightarrow> (False, conf)
      | Some txt \<Rightarrow>
          if \<not> ci_mkstemp_ok io then (False, conf)
          else if \<not> ci_fdopen_ok io then (False, conf)
          else let out = concat (map (rewrite_line (take 16 kv)) (conf_lines txt))
               in if \<not> ci_close_ok io then (False, conf)
                  else if \<not> ci_rename_ok io then (False, conf)
                  else (True, Some out))"

text \<open>The driver: how often it was restarted, and whether the respawn command returned 0.\<close>

definition bounce_spi_dwc :: "int \<Rightarrow> nat \<Rightarrow> bool \<times> nat" where
  "bounce_spi_dwc rc bounces = (rc = 0, Suc bounces)"

record spi_driver =
  sd_conf :: "string option"
  sd_bounces :: nat

definition spi_want :: "pi_config \<Rightarrow> spi_kv list" where
  "spi_want p = [(''clock_rate'', pi_spi_clock_hz p), (''cpha'', of_int (pi_spi_cpha p)),
     (''word_width'', of_int (pi_spi_word_width p)), (''idle_insert'', of_int (pi_spi_idle_insert p))]"

definition kv_differs :: "string option \<Rightarrow> spi_kv \<Rightarrow> bool" where
  "kv_differs conf kv =
     (case read_current_kv conf (fst kv) of
        None \<Rightarrow> True
      | Some cur \<Rightarrow> cur \<noteq> snd kv)"

definition spi_apply_conf :: "conf_io \<Rightarrow> int \<Rightarrow> pi_config \<Rightarrow> spi_driver \<Rightarrow> bool \<times> spi_driver" where
  "spi_apply_conf io respawn_rc p d =
     (if \<not> list_ex (kv_differs (sd_conf d)) (spi_want p) then (True, d)
      else case rewrite_spi_conf io (spi_want p) (sd_conf d) of
             (False, conf) \<Rightarrow> (False, d\<lparr>sd_conf := conf\<rparr>)
           | (True, conf) \<Rightarrow>
               (case bounce_spi_dwc respawn_rc (sd_bounces d) of
                  (ok, n) \<Rightarrow> (ok, d\<lparr>sd_conf := conf, sd_bounces := n\<rparr>)))"

section \<open>A rewritten file reads back as written\<close>

definition kv_ok :: "spi_kv list \<Rightarrow> bool" where
  "kv_ok kv \<longleftrightarrow> (\<forall>k \<in> set kv. key_ok (fst k)) \<and> distinct (map fst kv)"

lemma rewrite_line_cases:
  assumes "kv_ok kv"
  shows "(\<exists>(k, v) \<in> set kv. key_matches k l \<and> rewrite_line kv l = k @ ''='' @ dec (unat v) @ [NEWLINE]) \<or>
    (\<forall>k \<in> set kv. \<not> key_matches (fst k) l) \<and> rewrite_line kv l = l"
proof (cases "find (\<lambda>(key, val). key_matches key l) kv")
  case None
  then have "rewrite_line kv l = l" "\<forall>k \<in> set kv. \<not> key_matches (fst k) l"
    by (simp add: rewrite_line_def) (use None in \<open>auto simp: find_None_iff\<close>)
  then show ?thesis by blast
next
  case (Some kvp)
  then have "case kvp of (k, v) \<Rightarrow> key_matches k l" "kvp \<in> set kv"
    using find_Some_conv [OF Some] by auto
  then show ?thesis
    using Some by (auto simp: rewrite_line_def)
qed

lemma rewrite_plain:
  assumes "kv_ok kv" "plain_file ls"
  shows "plain_file (map (rewrite_line kv) ls)"
proof -
  have "is_line 256 (rewrite_line kv l) \<and> NUL \<notin> set (rewrite_line kv l)" if "l \<in> set ls" for l
    using rewrite_line_cases [OF assms(1), of l]
  proof
    assume "\<exists>(k, v) \<in> set kv. key_matches k l \<and> rewrite_line kv l = k @ ''='' @ dec (unat v) @ [NEWLINE]"
    then obtain k v where "(k, v) \<in> set kv" "rewrite_line kv l = k @ ''='' @ dec (unat v) @ [NEWLINE]"
      by auto
    moreover from this(1) have "key_ok k"
      using assms(1) by (auto simp: kv_ok_def)
    ultimately show ?thesis
      using rewritten_line_plain [of k v] by simp
  next
    assume "(\<forall>k \<in> set kv. \<not> key_matches (fst k) l) \<and> rewrite_line kv l = l"
    then show ?thesis
      using assms(2) that by (simp add: plain_file_def)
  qed
  then show ?thesis
    by (simp add: plain_file_def)
qed

lemma rewrite_line_value:
  assumes "kv_ok kv" "(k, v) \<in> set kv"
  shows "key_matches k (rewrite_line kv l) \<longleftrightarrow> key_matches k l"
    and "key_matches k l \<Longrightarrow> rewrite_line kv l = k @ ''='' @ dec (unat v) @ [NEWLINE]"
proof -
  have k: "key_ok k"
    using assms by (auto simp: kv_ok_def)
  have eq: "v' = v" if "(k, v') \<in> set kv" for v'
    using that assms by (auto simp: kv_ok_def dest: eq_key_imp_eq_value)
  have uniq: "k' = k" if "(k', v') \<in> set kv" "key_matches k' l'" "key_matches k l'" for k' v' l'
    using that assms(1) k by (intro key_matches_unique) (auto simp: kv_ok_def)
  have self: "key_matches k' (k' @ ''='' @ s)" if "(k', v') \<in> set kv" for k' v' s
    using that assms(1) by (intro key_matches_self) (auto simp: kv_ok_def)
  show "rewrite_line kv l = k @ ''='' @ dec (unat v) @ [NEWLINE]" if km: "key_matches k l"
  proof -
    have "\<not> (\<forall>k \<in> set kv. \<not> key_matches (fst k) l)"
      using assms(2) km by force
    then obtain k' v' where k': "(k', v') \<in> set kv" "key_matches k' l"
      "rewrite_line kv l = k' @ ''='' @ dec (unat v') @ [NEWLINE]"
      using rewrite_line_cases [OF assms(1), of l] by auto
    then have "k' = k"
      using uniq [OF k'(1,2) km] by simp
    then show ?thesis
      using k' eq by auto
  qed
  show "key_matches k (rewrite_line kv l) \<longleftrightarrow> key_matches k l"
    using rewrite_line_cases [OF assms(1), of l]
  proof
    assume "\<exists>(k, v) \<in> set kv. key_matches k l \<and> rewrite_line kv l = k @ ''='' @ dec (unat v) @ [NEWLINE]"
    then obtain k' v' where k': "(k', v') \<in> set kv" "key_matches k' l"
      "rewrite_line kv l = k' @ ''='' @ dec (unat v') @ [NEWLINE]"
      by auto
    then have "key_matches k' (rewrite_line kv l)"
      using self by simp
    then show ?thesis
      using uniq [OF k'(1)] k'(2) by blast
  qed simp
qed

lemma read_after_rewrite:
  assumes "kv_ok kv" "plain_file ls" "(k, v) \<in> set kv" "\<exists>l \<in> set ls. key_matches k l"
  shows "read_current_kv (Some (concat (map (rewrite_line kv) ls))) k = Some v"
proof -
  have k: "key_ok k"
    using assms by (auto simp: kv_ok_def)
  have lines: "conf_lines (concat (map (rewrite_line kv) ls)) = map (rewrite_line kv) ls"
    by (rule conf_lines_plain) (rule rewrite_plain [OF assms(1,2)])
  obtain line where line: "find (key_matches k) (map (rewrite_line kv) ls) = Some line"
    using assms(4) rewrite_line_value(1) [OF assms(1,3)]
    by (cases "find (key_matches k) (map (rewrite_line kv) ls)") (auto simp: find_None_iff)
  then obtain l where "line = rewrite_line kv l" "key_matches k line"
    using find_Some_conv [OF line] by auto
  then have shape: "line = k @ ''='' @ dec (unat v) @ [NEWLINE]"
    using rewrite_line_value [OF assms(1,3), of l] by simp
  have "strtoul (dec (unat v) @ [NEWLINE]) = of_nat (unat v)"
    using unat_u32_less [of v] by (intro strtoul_dec) (simp_all add: is_digit_def)
  moreover have "drop (length k + 1) (skip_blanks line) = dec (unat v) @ [NEWLINE]"
    using skip_blanks_key [OF k] by (simp add: shape)
  moreover have "(ucast (of_nat (unat v) :: u64) :: u32) = v"
    by (rule bit_word_eqI) (simp add: bit_ucast_iff)
  ultimately show ?thesis
    by (simp only: read_current_kv_def lines line option.case)
qed

text \<open>
  Applying an SPI configuration takes effect exactly once: on a driver file that has a
  line for each of the four keys (every line plain and within the buffer), a successful
  \<open>spi_apply_conf\<close> leaves a file from which every key reads back as the configured value,
  restarts the driver at most once, and applying the same configuration again changes
  nothing and does not restart the driver, whatever the system calls would return.
\<close>

theorem spi_apply_idempotent:
  assumes "sd_conf d = Some (concat ls)" "plain_file ls"
    "\<forall>k \<in> set (map fst (spi_want p)). \<exists>l \<in> set ls. key_matches k l"
    "spi_apply_conf io rc p d = (True, d')"
  shows "(\<forall>(k, v) \<in> set (spi_want p). read_current_kv (sd_conf d') k = Some v) \<and>
    sd_bounces d' \<le> sd_bounces d + 1 \<and> spi_apply_conf io' rc' p d' = (True, d')"
proof -
  have kv: "kv_ok (spi_want p)" "take 16 (spi_want p) = spi_want p"
    by (simp_all add: kv_ok_def key_ok_def spi_want_def)
  have reads: "\<forall>(k, v) \<in> set (spi_want p). read_current_kv (sd_conf d') k = Some v"
  proof (cases "list_ex (kv_differs (sd_conf d)) (spi_want p)")
    case True
    then have "sd_conf d' = Some (concat (map (rewrite_line (spi_want p)) ls))"
      using assms(1,2,4) by (auto simp: spi_apply_conf_def rewrite_spi_conf_def kv(2) conf_lines_plain
          Let_def split: if_splits prod.splits bool.splits)
    moreover have "\<exists>l \<in> set ls. key_matches k l" if "(k, v) \<in> set (spi_want p)" for k v
      using assms(3) that by force
    ultimately show ?thesis
      using read_after_rewrite [OF kv(1) assms(2)] by auto
  next
    case False
    then show ?thesis
      using assms(4) by (auto simp: spi_apply_conf_def kv_differs_def list_ex_iff split: option.splits)
  qed
  then have "\<not> list_ex (kv_differs (sd_conf d')) (spi_want p)"
    by (auto simp: kv_differs_def list_ex_iff)
  moreover have "sd_bounces d' \<le> sd_bounces d + 1"
    using assms(4) by (auto simp: spi_apply_conf_def bounce_spi_dwc_def split: if_splits prod.splits bool.splits)
  ultimately show ?thesis
    using reads by (simp add: spi_apply_conf_def)
qed


definition sample_conf :: "string list" where
  "sample_conf = [''clock_rate=1'' @ [NEWLINE], ''cpha=0'' @ [NEWLINE], ''word_width=8'' @ [NEWLINE],
     ''idle_insert=0'' @ [NEWLINE]]"

definition good_io :: conf_io where
  "good_io = \<lparr>ci_mkstemp_ok = True, ci_fdopen_ok = True, ci_close_ok = True, ci_rename_ok = True\<rparr>"

lemma sample_conf_plain: "plain_file sample_conf"
  unfolding plain_file_def sample_conf_def is_line_def by auto

lemma sample_conf_applied:
  "\<exists>d'. spi_apply_conf good_io 0 (fc_pi CONFIG_DEFAULTS) \<lparr>sd_conf = Some (concat sample_conf), sd_bounces = 0\<rparr> =
     (True, d') \<and> sd_bounces d' = 1"
proof -
  have "read_current_kv (Some (concat sample_conf)) ''clock_rate'' = Some 1"
    unfolding read_current_kv_def conf_lines_plain [OF sample_conf_plain] option.case
    by (simp add: sample_conf_def key_matches_def skip_blanks_def strtoul_def is_space_def is_digit_def
        digits_value_def digit_val_def)
  then have "kv_differs (Some (concat sample_conf)) (''clock_rate'', 4000000)"
    by (simp add: kv_differs_def)
  then show ?thesis
    by (simp add: spi_apply_conf_def spi_want_def CONFIG_DEFAULTS_def rewrite_spi_conf_def good_io_def
        bounce_spi_dwc_def Let_def)
qed

theorem spi_apply_idempotent_witness:
  "\<exists>d'. spi_apply_conf good_io 0 (fc_pi CONFIG_DEFAULTS) \<lparr>sd_conf = Some (concat sample_conf), sd_bounces = 0\<rparr> =
      (True, d') \<and> read_current_kv (sd_conf d') ''clock_rate'' = Some 4000000 \<and>
      spi_apply_conf good_io 1 (fc_pi CONFIG_DEFAULTS) d' = (True, d')"
proof -
  let ?d = "\<lparr>sd_conf = Some (concat sample_conf), sd_bounces = 0\<rparr>"
  let ?p = "fc_pi CONFIG_DEFAULTS"
  obtain d' where d': "spi_apply_conf good_io 0 ?p ?d = (True, d')"
    using sample_conf_applied by blast
  have "\<forall>k \<in> set (map fst (spi_want ?p)). \<exists>l \<in> set sample_conf. key_matches k l"
    by (simp add: spi_want_def sample_conf_def key_matches_def skip_blanks_def)
  then have "(\<forall>(k, v) \<in> set (spi_want ?p). read_current_kv (sd_conf d') k = Some v) \<and>
      sd_bounces d' \<le> sd_bounces ?d + 1 \<and> spi_apply_conf good_io 1 ?p d' = (True, d')"
    by (intro spi_apply_idempotent [OF _ sample_conf_plain _ d']) simp_all
  then show ?thesis
    using d' by (auto simp: spi_want_def CONFIG_DEFAULTS_def)
qed

end
