(* ===== verification/MotorController.thy ===== *)
theory MotorController
  imports MotorShm SpiConf
begin

text \<open>
  The acquisition daemon src/src/giga_spi_8adc/motor_controller.c: SPI link, data-ready
  line, config-file watcher, reload driver, frame processing, one iteration of the main
  loop and the start-up sequence, as functions on an explicit state. What the system
  returns (clock, \<open>stat\<close>, GPIO and SPI calls, the received bytes) is an input of each
  step. \<open>handle_reload\<close> gets the result of \<open>config_load_file\<close>: Some configuration or None
  where it returned -1; a load with undefined behaviour has no continuation.
\<close>

section \<open>Resources\<close>

definition shm_setup :: "bool \<Rightarrow> bool \<Rightarrow> bool \<Rightarrow> shm_region \<Rightarrow> shm_region option" where
  "shm_setup open_ok truncate_ok mmap_ok r =
     (if \<not> open_ok then None
      else if \<not> truncate_ok then None
      else if \<not> mmap_ok then None
      else Some (motor_shm_region_init r))"

record spi_link =
  sl_bus :: int
  sl_dev :: int
  sl_configured :: bool

definition open_spi :: "bool \<Rightarrow> pi_config \<Rightarrow> spi_link \<Rightarrow> bool \<times> spi_link" where
  "open_spi configure_ok p s =
     (if \<not> configure_ok then (False, s\<lparr>sl_configured := False\<rparr>)
      else (True, s\<lparr>sl_bus := pi_spi_bus p, sl_dev := pi_spi_dev p, sl_configured := True\<rparr>))"

text \<open>\<open>close_spi\<close> cleans up the device that was configured, if one was.\<close>

definition close_spi :: "spi_link \<Rightarrow> spi_link \<times> (int \<times> int) option" where
  "close_spi s =
     (if sl_configured s then (s\<lparr>sl_configured := False\<rparr>, Some (sl_bus s, sl_dev s)) else (s, None))"

record dataready =
  dr_pin :: int
  dr_chid :: int
  dr_coid :: int
  dr_poll_ns :: u64

definition dataready_teardown :: "dataready \<Rightarrow> dataready" where
  "dataready_teardown d = d\<lparr>dr_coid := - 1, dr_chid := - 1\<rparr>"

text \<open>What the GPIO calls of one arming return; the pull and the level only affect messages.\<close>

record gpio_results =
  gr_setup_ok :: bool
  gr_add_ok :: bool

definition dataready_arm_pin :: "gpio_results \<Rightarrow> pi_config \<Rightarrow> dataready \<Rightarrow> bool \<times> dataready" where
  "dataready_arm_pin io p d =
     (let d = d\<lparr>dr_pin := pi_dataready_pin p\<rparr>
      in if \<not> gr_setup_ok io then (False, d)
         else if \<not> gr_add_ok io then (False, d)
         else (True, d))"

definition dataready_setup :: "int \<Rightarrow> int \<Rightarrow> gpio_results \<Rightarrow> pi_config \<Rightarrow> bool \<times> dataready" where
  "dataready_setup chid coid io p =
     (let d = \<lparr>dr_pin = pi_dataready_pin p, dr_chid = chid, dr_coid = - 1, dr_poll_ns = 2000000\<rparr>
      in if chid = - 1 then (False, dataready_teardown d)
         else let d = d\<lparr>dr_coid := coid\<rparr>
              in if coid = - 1 then (False, dataready_teardown d)
                 else case dataready_arm_pin io p d of
                        (True, d) \<Rightarrow> (True, d)
                      | (False, d) \<Rightarrow> (False, dataready_teardown d))"

definition dataready_repoint :: "gpio_results \<Rightarrow> pi_config \<Rightarrow> dataready \<Rightarrow> bool \<times> dataready" where
  "dataready_repoint io p d = dataready_arm_pin io p d"

text \<open>\<open>MsgReceivePulse\<close> returns a pulse, times out, or fails; \<open>level\<close> is what
  \<open>rpi_gpio_input\<close> reads afterwards (None when the call fails).\<close>

datatype receive_result = Pulse | Timeout | Failed bool

datatype wait_result = WR_OK | WR_TIMEOUT | WR_ERROR bool

definition dataready_read_level :: "bool option \<Rightarrow> bool" where
  "dataready_read_level level = (case level of None \<Rightarrow> False | Some high \<Rightarrow> high)"

definition dataready_wait :: "receive_result \<Rightarrow> bool option \<Rightarrow> wait_result" where
  "dataready_wait rc level =
     (case rc of
        Failed eintr \<Rightarrow> WR_ERROR eintr
      | _ \<Rightarrow> if dataready_read_level level then WR_OK else WR_TIMEOUT)"

section \<open>The config-file watcher\<close>

type_synonym file_stat = "((int \<times> int) \<times> int) option"

record cfg_watch =
  cw_enabled :: bool
  cw_last_stat_sec :: int
  cw_mtime :: "int \<times> int"
  cw_size :: int
  cw_have_baseline :: bool
  cw_trigger_on_first :: bool

definition cfg_watch_sync :: "file_stat \<Rightarrow> cfg_watch \<Rightarrow> cfg_watch" where
  "cfg_watch_sync st w =
     (if \<not> cw_enabled w then w
      else case st of
             Some (mt, sz) \<Rightarrow> w\<lparr>cw_mtime := mt, cw_size := sz, cw_have_baseline := True\<rparr>
           | None \<Rightarrow> w)"

definition cfg_watch_fired :: "file_stat \<Rightarrow> int \<Rightarrow> cfg_watch \<Rightarrow> bool \<times> cfg_watch" where
  "cfg_watch_fired st now_sec w =
     (if \<not> cw_enabled w then (False, w)
      else if now_sec = cw_last_stat_sec w then (False, w)
      else let w = w\<lparr>cw_last_stat_sec := now_sec\<rparr>
           in case st of
                None \<Rightarrow> (False, w)
              | Some (mt, sz) \<Rightarrow>
                  if \<not> cw_have_baseline w then
                    (let w = w\<lparr>cw_mtime := mt, cw_size := sz, cw_have_baseline := True\<rparr>
                     in if cw_trigger_on_first w then (True, w\<lparr>cw_trigger_on_first := False\<rparr>) else (False, w))
                  else if mt \<noteq> cw_mtime w \<or> sz \<noteq> cw_size w then
                    (True, w\<lparr>cw_mtime := mt, cw_size := sz\<rparr>)
                  else (False, w))"

section \<open>The controller\<close>

record controller =
  mc_cfg :: full_config
  mc_driver :: spi_driver
  mc_spi :: spi_link
  mc_dr :: dataready
  mc_watch :: cfg_watch
  mc_cmd :: g_cmd
  mc_active :: config_payload
  mc_stats :: controller_stats
  mc_have_last :: bool
  mc_last_seq :: u32
  mc_region :: shm_region
  mc_reload :: bool
  mc_rt_priority :: "int option"

text \<open>Results of the calls a reload makes: rewriting and restarting the driver, the tries at
  reopening the bus, and arming the pin.\<close>

record reload_io =
  ri_sched_ok :: bool
  ri_conf :: conf_io
  ri_respawn_rc :: int
  ri_open :: "nat \<Rightarrow> bool"
  ri_gpio :: gpio_results

text \<open>Up to five tries; each one that fails leaves the link unconfigured.\<close>

definition reopen_spi :: "(nat \<Rightarrow> bool) \<Rightarrow> pi_config \<Rightarrow> spi_link \<Rightarrow> spi_link" where
  "reopen_spi opens p s = snd (open_spi (list_ex opens [0..<5]) p s)"

text \<open>The SCHED_FIFO priority of the thread (None until one was set).\<close>

definition pi_apply_live :: "bool \<Rightarrow> pi_config \<Rightarrow> pi_config \<Rightarrow> int option \<Rightarrow> int option" where
  "pi_apply_live sched_ok p prev current =
     (if pi_rt_priority p \<noteq> pi_rt_priority prev
      then (if \<not> sched_ok then current else Some (pi_rt_priority p))
      else current)"

definition handle_reload :: "reload_io \<Rightarrow> full_config option \<Rightarrow> controller \<Rightarrow> bool \<times> controller" where
  "handle_reload io loaded s =
     (case loaded of
        None \<Rightarrow> (False, s)
      | Some new \<Rightarrow>
          let spi_changed = config_spi_wire_differs (fc_pi new) (fc_pi (mc_cfg s));
              pin_changed = (pi_dataready_pin (fc_pi new) \<noteq> pi_dataready_pin (fc_pi (mc_cfg s)));
              s = s\<lparr>mc_rt_priority := pi_apply_live (ri_sched_ok io) (fc_pi new) (fc_pi (mc_cfg s)) (mc_rt_priority s)\<rparr>;
              s1 = (if spi_changed
                    then s\<lparr>mc_driver := snd (spi_apply_conf (ri_conf io) (ri_respawn_rc io) (fc_pi new) (mc_driver s)),
                           mc_spi := reopen_spi (ri_open io) (fc_pi new) (fst (close_spi (mc_spi s))),
                           mc_have_last := False,
                           mc_cmd := cmd_refresh_after_reinit (mc_cmd s)\<rparr>
                    else s);
              s2 = (if pin_changed
                    then s1\<lparr>mc_dr := snd (dataready_repoint (ri_gpio io) (fc_pi new) (mc_dr s1))\<rparr>
                    else s1);
              s3 = s2\<lparr>mc_cfg := (mc_cfg s2)\<lparr>fc_pi := fc_pi new\<rparr>\<rparr>;
              s4 = (if config_stm_differs (fc_stm new) (fc_stm (mc_cfg s3))
                    then s3\<lparr>mc_cfg := (mc_cfg s3)\<lparr>fc_stm := fc_stm new\<rparr>,
                            mc_cmd := cmd_queue_set_config (fc_stm new) (mc_cmd s3)\<rparr>
                    else s3)
          in (True, s4\<lparr>mc_stats := (mc_stats s4)\<lparr>st_cfg_reloads := st_cfg_reloads (mc_stats s4) + 1\<rparr>\<rparr>))"

section \<open>Processing a received frame\<close>

definition count_magic_err :: "controller_stats \<Rightarrow> controller_stats" where
  "count_magic_err st = st\<lparr>st_magic_err := st_magic_err st + 1\<rparr>"
definition count_version_err :: "controller_stats \<Rightarrow> controller_stats" where
  "count_version_err st = st\<lparr>st_version_err := st_version_err st + 1\<rparr>"
definition count_size_err :: "controller_stats \<Rightarrow> controller_stats" where
  "count_size_err st = st\<lparr>st_size_err := st_size_err st + 1\<rparr>"
definition count_crc_err :: "controller_stats \<Rightarrow> controller_stats" where
  "count_crc_err st = st\<lparr>st_crc_err := st_crc_err st + 1\<rparr>"

text \<open>The four checks before the checksum, with the counter a failing one increments.\<close>

definition frame_header_check ::
  "frame_header \<Rightarrow> config_payload \<Rightarrow> nat \<Rightarrow> (controller_stats \<Rightarrow> controller_stats) option" where
  "frame_header_check h active_stm xfer_bytes =
     (if fh_magic h \<noteq> MOTOR_FRAME_MAGIC then Some count_magic_err
      else if fh_version h \<noteq> MOTOR_CONTRACT_VERSION then Some count_version_err
      else if fh_n_rows h = 0 \<or> fh_n_rows h > MOTOR_MAX_ROWS_PER_BLOCK then Some count_size_err
      else if cp_block_rows active_stm \<noteq> 0 \<and> fh_n_rows h \<noteq> cp_block_rows active_stm \<and>
              fh_flags h AND MOTOR_FLAG_CONFIG_APPLIED = 0 then Some count_size_err
      else if sizeof_frame_header + unat (fh_n_rows h) * sizeof_motor_row + sizeof_frame_crc > xfer_bytes
           then Some count_size_err
      else None)"

text \<open>Whether the frame is to be published, and the new baseline and counters.\<close>

definition sequence_account ::
  "u32 \<Rightarrow> bool \<times> u32 \<times> controller_stats \<Rightarrow> bool \<times> bool \<times> u32 \<times> controller_stats" where
  "sequence_account seq v =
     (case v of (have_last, last_seq, st) \<Rightarrow>
        if \<not> have_last then (True, True, seq, st)
        else let diff = sint (seq - last_seq)
             in if diff = 0 then (False, True, last_seq, st\<lparr>st_duplicates := st_duplicates st + 1\<rparr>)
                else if diff = 1 then (True, True, seq, st)
                else if diff > 1 then
                  (True, True, seq, st\<lparr>st_seq_drops := st_seq_drops st + of_int (diff - 1)\<rparr>)
                else (True, True, seq, st\<lparr>st_resets := st_resets st + 1\<rparr>))"

definition publish_frame :: "frame_header \<Rightarrow> motor_row list \<Rightarrow> shm_region \<Rightarrow> shm_region" where
  "publish_frame h rows r =
     r\<lparr>sr_snapshot := motor_snapshot_publish (sr_snapshot r) (rows ! (unat (fh_n_rows h) - 1))
                        (fh_seq h) (fh_timestamp h) (fh_flags h),
       sr_ring := motor_ring_publish (sr_ring r) h rows\<rparr>"

definition process_frame :: "u8 list \<Rightarrow> controller \<Rightarrow> controller" where
  "process_frame rx s =
     (let h = header_of_bytes (slice 0 sizeof_frame_header rx)
      in case frame_header_check h (mc_active s) (length rx) of
           Some count \<Rightarrow> s\<lparr>mc_stats := count (mc_stats s)\<rparr>
         | None \<Rightarrow>
             let covered = sizeof_frame_header + unat (fh_n_rows h) * sizeof_motor_row;
                 rx_crc = of_le_bytes (slice covered sizeof_frame_crc rx)
             in if frame_crc_compute (take covered rx) \<noteq> rx_crc
                then s\<lparr>mc_stats := count_crc_err (mc_stats s)\<rparr>
                else case cmd_observe h (mc_cmd s) (mc_active s) (mc_stats s) of
                  (_, g, a, st) \<Rightarrow>
                    (case sequence_account (fh_seq h) (mc_have_last s, mc_last_seq s, st) of
                      (publish, have_last, last_seq, st) \<Rightarrow>
                        let s = s\<lparr>mc_cmd := g, mc_active := a, mc_stats := st,
                                  mc_have_last := have_last, mc_last_seq := last_seq\<rparr>
                        in if publish
                           then s\<lparr>mc_region := publish_frame h
                                    (rows_of_bytes (unat (fh_n_rows h)) (drop sizeof_frame_header rx)) (mc_region s),
                                  mc_stats := st\<lparr>st_frames_ok := st_frames_ok st + 1\<rparr>\<rparr>
                           else s))"


section \<open>One iteration of the main loop\<close>

datatype spi_result = SPI_SUCCESS "u8 list" | SPI_FAILED bool

record iteration_input =
  in_sighup :: bool
  in_now_sec :: int
  in_stat :: file_stat
  in_loaded :: "full_config option"
  in_reload_io :: reload_io
  in_stat_after :: file_stat
  in_receive :: receive_result
  in_level :: "bool option"
  in_spi :: spi_result

definition reload_phase :: "iteration_input \<Rightarrow> controller \<Rightarrow> controller" where
  "reload_phase i s =
     (let (requested, flag) = config_reload_requested (if in_sighup i then on_sighup (mc_reload s) else mc_reload s);
          (fired, w) = cfg_watch_fired (in_stat i) (in_now_sec i) (mc_watch s);
          s = s\<lparr>mc_reload := flag, mc_watch := w\<rparr>
      in if requested \<or> fired
         then (case handle_reload (in_reload_io i) (in_loaded i) s of
                 (True, s) \<Rightarrow> s\<lparr>mc_watch := cfg_watch_sync (in_stat_after i) (mc_watch s)\<rparr>
               | (False, s) \<Rightarrow> s)
         else s)"

definition count_timeout :: "controller_stats \<Rightarrow> controller_stats" where
  "count_timeout st = st\<lparr>st_timeouts := st_timeouts st + 1\<rparr>"
definition count_spi_err :: "controller_stats \<Rightarrow> controller_stats" where
  "count_spi_err st = st\<lparr>st_spi_err := st_spi_err st + 1\<rparr>"

text \<open>The exchange: a frame is processed only when the transfer succeeded, and only then is
  an attempt counted for the command in the transmit buffer.\<close>

definition receive_frame :: "u8 list \<Rightarrow> controller \<Rightarrow> controller" where
  "receive_frame rx s = process_frame rx (s\<lparr>mc_cmd := cmd_count_attempt (mc_cmd s)\<rparr>)"

definition exchange_phase :: "iteration_input \<Rightarrow> controller \<Rightarrow> controller" where
  "exchange_phase i s =
     (case dataready_wait (in_receive i) (in_level i) of
        WR_TIMEOUT \<Rightarrow> s\<lparr>mc_stats := count_timeout (mc_stats s)\<rparr>
      | WR_ERROR eintr \<Rightarrow> if eintr then s else s\<lparr>mc_stats := count_timeout (mc_stats s)\<rparr>
      | WR_OK \<Rightarrow>
          (case in_spi i of
             SPI_FAILED eintr \<Rightarrow> if eintr then s else s\<lparr>mc_stats := count_spi_err (mc_stats s)\<rparr>
           | SPI_SUCCESS rx \<Rightarrow> receive_frame rx s))"

definition loop_iteration :: "iteration_input \<Rightarrow> controller \<Rightarrow> u8 list \<times> controller" where
  "loop_iteration i s =
     (let s = reload_phase i s; tx = cmd_fill_tx (mc_cmd s) MOTOR_MAX_FRAME_BYTES
      in (tx, exchange_phase i s))"

section \<open>Start-up\<close>

datatype parsed_args = RunWith string bool | ExitWith int

fun parse_args :: "string list \<Rightarrow> string \<Rightarrow> bool \<Rightarrow> parsed_args" where
  "parse_args [] cfg_path watch_enabled = RunWith cfg_path watch_enabled"
| "parse_args (a # as) cfg_path watch_enabled =
     (if a = ''-w'' \<or> a = ''--watch'' then parse_args as cfg_path True
      else if a = ''-h'' \<or> a = ''--help'' then ExitWith 0
      else if take 1 a = ''-'' then ExitWith 2
      else parse_args as a watch_enabled)"

record startup_input =
  su_sched_ok :: bool
  su_loaded :: "full_config option"
  su_shm_open_ok :: bool
  su_shm_truncate_ok :: bool
  su_shm_mmap_ok :: bool
  su_region :: shm_region
  su_driver :: spi_driver
  su_conf_io :: conf_io
  su_respawn_rc :: int
  su_open_ok :: bool
  su_chid :: int
  su_coid :: int
  su_gpio :: gpio_results
  su_stat :: file_stat

datatype startup_result = Started controller | StartupFailed

definition controller_start :: "bool \<Rightarrow> startup_input \<Rightarrow> startup_result" where
  "controller_start watch_enabled u =
     (let cfg = (case su_loaded u of Some c \<Rightarrow> c | None \<Rightarrow> CONFIG_DEFAULTS)
      in case shm_setup (su_shm_open_ok u) (su_shm_truncate_ok u) (su_shm_mmap_ok u) (su_region u) of
           None \<Rightarrow> StartupFailed
         | Some region \<Rightarrow>
             let driver = snd (spi_apply_conf (su_conf_io u) (su_respawn_rc u) (fc_pi cfg) (su_driver u))
             in case open_spi (su_open_ok u) (fc_pi cfg) \<lparr>sl_bus = 0, sl_dev = 0, sl_configured = False\<rparr> of
                  (False, _) \<Rightarrow> StartupFailed
                | (True, spi) \<Rightarrow>
                    (case dataready_setup (su_chid u) (su_coid u) (su_gpio u) (fc_pi cfg) of
                       (False, _) \<Rightarrow> StartupFailed
                     | (True, dr) \<Rightarrow>
                         let w0 = \<lparr>cw_enabled = watch_enabled, cw_last_stat_sec = 0, cw_mtime = (0, 0),
                                   cw_size = 0, cw_have_baseline = False, cw_trigger_on_first = False\<rparr>;
                             w = (if \<not> watch_enabled then w0
                                  else if su_loaded u \<noteq> None then cfg_watch_sync (su_stat u) w0
                                  else w0\<lparr>cw_trigger_on_first := True\<rparr>)
                         in Started \<lparr>mc_cfg = cfg, mc_driver = driver, mc_spi = spi, mc_dr = dr, mc_watch = w,
                              mc_cmd = cmd_queue_set_config (fc_stm cfg) cmd_init, mc_active = zero_payload,
                              mc_stats = zero_stats, mc_have_last = False, mc_last_seq = 0,
                              mc_region = region, mc_reload = False,
                              mc_rt_priority = (if su_sched_ok u then Some (pi_rt_priority (fc_pi cfg)) else None)\<rparr>))"

definition controller_shutdown :: "controller \<Rightarrow> controller" where
  "controller_shutdown s = s\<lparr>mc_dr := dataready_teardown (mc_dr s), mc_spi := fst (close_spi (mc_spi s))\<rparr>"

section \<open>From the wire to shared memory\<close>

text \<open>The frame the firmware sends for a header and rows.\<close>

definition wire_frame :: "frame_header \<Rightarrow> motor_row list \<Rightarrow> u8 list" where
  "wire_frame h rows =
     (let body = header_bytes h @ concat (map row_bytes rows)
      in body @ le_bytes 4 (frame_crc_compute body))"

definition frame_ok :: "frame_header \<Rightarrow> motor_row list \<Rightarrow> bool" where
  "frame_ok h rows \<longleftrightarrow> fh_magic h = MOTOR_FRAME_MAGIC \<and> fh_version h = MOTOR_CONTRACT_VERSION \<and>
     unat (fh_n_rows h) = length rows \<and> rows \<noteq> [] \<and> length rows \<le> 200 \<and> (\<forall>r \<in> set rows. row_wf r)"

lemma length_rows_bytes: "\<forall>r \<in> set rows. row_wf r \<Longrightarrow> length (concat (map row_bytes rows)) = 24 * length rows"
  by (induction rows) simp_all

lemma frame_header_check_ok:
  assumes "frame_ok h rows" "24 + length rows * 24 + 4 \<le> n"
    "cp_block_rows a = 0 \<or> fh_n_rows h = cp_block_rows a \<or> fh_flags h AND MOTOR_FLAG_CONFIG_APPLIED \<noteq> 0"
  shows "frame_header_check h a n = None"
proof -
  have "fh_n_rows h \<noteq> 0"
    using assms(1) by (auto simp: frame_ok_def)
  moreover have "\<not> fh_n_rows h > 200"
    using assms(1) by (simp add: frame_ok_def word_less_nat_alt)
  ultimately show ?thesis
    using assms by (auto simp: frame_header_check_def frame_ok_def)
qed

lemma wire_frame_parse:
  assumes "frame_ok h rows"
  shows "header_of_bytes (slice 0 24 (wire_frame h rows @ pad)) = h"
    and "frame_crc_compute (take (24 + length rows * 24) (wire_frame h rows @ pad)) =
           of_le_bytes (slice (24 + length rows * 24) 4 (wire_frame h rows @ pad))"
    and "rows_of_bytes (length rows) (drop 24 (wire_frame h rows @ pad)) = rows"
proof -
  have wf: "\<forall>r \<in> set rows. row_wf r"
    using assms by (simp add: frame_ok_def)
  let ?body = "header_bytes h @ concat (map row_bytes rows)"
  let ?crc = "le_bytes 4 (frame_crc_compute ?body)"
  have frame: "wire_frame h rows @ pad = ?body @ ?crc @ pad"
    by (simp add: wire_frame_def)
  have len: "length ?body = 24 + length rows * 24"
    using length_rows_bytes [OF wf] by simp
  show "header_of_bytes (slice 0 24 (wire_frame h rows @ pad)) = h"
    using header_of_bytes_header_bytes [of h "[]"] unfolding frame by (simp add: slice_def)
  show "frame_crc_compute (take (24 + length rows * 24) (wire_frame h rows @ pad)) =
      of_le_bytes (slice (24 + length rows * 24) 4 (wire_frame h rows @ pad))"
    unfolding frame len [symmetric] slice_def by simp
  show "rows_of_bytes (length rows) (drop 24 (wire_frame h rows @ pad)) = rows"
    using rows_of_bytes_concat [OF wf, of "?crc @ pad"] unfolding frame by simp
qed

lemma wire_frame_length:
  "frame_ok h rows \<Longrightarrow> length (wire_frame h rows) = 24 + length rows * 24 + 4"
  by (simp add: wire_frame_def frame_ok_def length_rows_bytes)


lemma cmd_observe_frame_counters:
  "cmd_observe h g a st = (r, g', a', st') \<Longrightarrow>
   st_frames_ok st' = st_frames_ok st \<and> st_duplicates st' = st_duplicates st \<and> st_crc_err st' = st_crc_err st \<and>
   st_magic_err st' = st_magic_err st \<and> st_version_err st' = st_version_err st \<and> st_size_err st' = st_size_err st"
  by (auto simp: cmd_observe_def split: if_splits)

lemma sint_0_iff: "sint w = 0 \<longleftrightarrow> w = (0 :: u32)"
  using signed_word_eqI [of w 0] by auto

lemma sequence_account_publish:
  "sequence_account seq (hl, ls, st) = (publish, hl', ls', st') \<Longrightarrow>
   publish = (\<not> hl \<or> seq \<noteq> ls) \<and> hl' \<and> ls' = seq"
  using sint_0_iff [of "seq - ls"]
  by (auto simp: sequence_account_def Let_def split: if_splits)

lemma sequence_account_counters:
  "sequence_account seq (hl, ls, st) = (publish, hl', ls', st') \<Longrightarrow>
   st_frames_ok st' = st_frames_ok st \<and> st_crc_err st' = st_crc_err st \<and>
   st_magic_err st' = st_magic_err st \<and> st_version_err st' = st_version_err st \<and> st_size_err st' = st_size_err st \<and>
   st_duplicates st' = st_duplicates st + (if publish then 0 else 1)"
  by (auto simp: sequence_account_def Let_def split: if_splits)

text \<open>The three ways a frame ends: refused by a check, a duplicate, or published.\<close>

lemma process_frame_cases:
  fixes rx s
  defines "h \<equiv> header_of_bytes (slice 0 24 rx)"
  obtains (refused) count where "process_frame rx s = s\<lparr>mc_stats := count (mc_stats s)\<rparr>"
      "count \<in> {count_magic_err, count_version_err, count_size_err, count_crc_err}"
  | (accepted) r g a st publish hl ls st' where
      "frame_header_check h (mc_active s) (length rx) = None"
      "cmd_observe h (mc_cmd s) (mc_active s) (mc_stats s) = (r, g, a, st)"
      "sequence_account (fh_seq h) (mc_have_last s, mc_last_seq s, st) = (publish, hl, ls, st')"
      "process_frame rx s = s\<lparr>mc_cmd := g, mc_active := a, mc_have_last := hl, mc_last_seq := ls,
         mc_stats := (if publish then st'\<lparr>st_frames_ok := st_frames_ok st' + 1\<rparr> else st'),
         mc_region := (if publish
           then publish_frame h (rows_of_bytes (unat (fh_n_rows h)) (drop 24 rx)) (mc_region s)
           else mc_region s)\<rparr>"
proof (cases "frame_header_check h (mc_active s) (length rx)")
  case (Some count)
  then have "count \<in> {count_magic_err, count_version_err, count_size_err, count_crc_err}"
    by (auto simp: frame_header_check_def split: if_splits)
  then show ?thesis
    using Some by (intro refused) (simp_all add: process_frame_def Let_def flip: h_def)
next
  case None
  let ?covered = "24 + unat (fh_n_rows h) * 24"
  show ?thesis
  proof (cases "frame_crc_compute (take ?covered rx) = of_le_bytes (slice ?covered 4 rx)")
    case False
    then show ?thesis
      using None by (intro refused [of count_crc_err]) (simp_all add: process_frame_def Let_def flip: h_def)
  next
    case True
    obtain r g a st where o: "cmd_observe h (mc_cmd s) (mc_active s) (mc_stats s) = (r, g, a, st)"
      by (cases "cmd_observe h (mc_cmd s) (mc_active s) (mc_stats s)")
    obtain publish hl ls st' where q:
      "sequence_account (fh_seq h) (mc_have_last s, mc_last_seq s, st) = (publish, hl, ls, st')"
      by (cases "sequence_account (fh_seq h) (mc_have_last s, mc_last_seq s, st)")
    show ?thesis
      by (rule accepted [OF None o q])
        (simp add: process_frame_def Let_def None True o q flip: h_def)
  qed
qed

definition frames_seen :: "controller_stats \<Rightarrow> u64" where
  "frames_seen st = st_frames_ok st + st_duplicates st + st_crc_err st + st_magic_err st +
     st_version_err st + st_size_err st"

text \<open>
  C7. Every received buffer, whatever its bytes, is accounted for exactly once: it raises
  exactly one of the six frame counters (published, duplicate, checksum, magic, version,
  size) by one, and shared memory changes only in the case that counts it as published.
\<close>

theorem frame_accounted_once:
  "frames_seen (mc_stats (process_frame rx s)) = frames_seen (mc_stats s) + 1 \<and>
   (mc_region (process_frame rx s) = mc_region s \<or>
    st_frames_ok (mc_stats (process_frame rx s)) = st_frames_ok (mc_stats s) + 1)"
proof (cases rule: process_frame_cases [of rx s])
  case (refused count)
  then show ?thesis
    by (auto simp: frames_seen_def count_magic_err_def count_version_err_def count_size_err_def count_crc_err_def)
next
  case (accepted r g a st publish hl ls st')
  then show ?thesis
    using cmd_observe_frame_counters [OF accepted(2)] sequence_account_counters [OF accepted(3)]
    by (auto simp: frames_seen_def)
qed

lemma publish_frame_effect:
  assumes "frame_ok h rows" "ring_wf (sr_ring r)" "ss_seqlock (sr_snapshot r) AND 1 = 0"
    and r': "r' = publish_frame h rows r"
  shows "motor_snapshot_read (still_snapshot (sr_snapshot r')) = Some (last rows, fh_seq h, fh_timestamp h, fh_flags h)"
    and "ring_get (sr_ring r') (unat (br_write_pos (sr_ring r))) =
           Some (fh_seq h, fh_timestamp h, fh_n_rows h, fh_flags h, rows)"
    and "br_write_pos (sr_ring r') = br_write_pos (sr_ring r) + 1"
    and "ring_wf (sr_ring r')" and "ss_seqlock (sr_snapshot r') AND 1 = 0"
proof -
  have n: "length rows = unat (fh_n_rows h)" "rows \<noteq> []" "length rows \<le> 200"
    using assms(1) by (simp_all add: frame_ok_def)
  then have clamp: "clamp_rows (fh_n_rows h) = fh_n_rows h"
    by (simp add: clamp_rows_def word_less_nat_alt)
  have good: "wire_block_ok (h, rows)"
    using n by (simp add: wire_block_ok_def clamp)
  have ring: "sr_ring r' = ring_publish (h, rows) (sr_ring r)"
    by (simp add: r' publish_frame_def ring_publish_def)
  have "rows ! (unat (fh_n_rows h) - 1) = last rows"
    using n by (metis last_conv_nth)
  then have snap: "sr_snapshot r' = motor_snapshot_publish (sr_snapshot r) (last rows) (fh_seq h) (fh_timestamp h) (fh_flags h)"
    by (simp add: r' publish_frame_def)
  have body: "wire_block_body (h, rows) = (fh_seq h, fh_timestamp h, fh_n_rows h, fh_flags h, rows)"
    using n(1) by (simp add: wire_block_body_def clamp)
  have "motor_snapshot_read (still_snapshot (motor_snapshot_publish (sr_snapshot r) (last rows) (fh_seq h)
      (fh_timestamp h) (fh_flags h))) = Some (last rows, fh_seq h, fh_timestamp h, fh_flags h)"
    by (rule read_after_publish) (rule assms(3))
  then show "motor_snapshot_read (still_snapshot (sr_snapshot r')) =
      Some (last rows, fh_seq h, fh_timestamp h, fh_flags h)"
    by (simp only: snap)
  show "ring_get (sr_ring r') (unat (br_write_pos (sr_ring r))) =
      Some (fh_seq h, fh_timestamp h, fh_n_rows h, fh_flags h, rows)"
    unfolding ring body [symmetric] using unat_u64_less by (rule motor_ring.get_new [OF assms(2) good])
  show "br_write_pos (sr_ring r') = br_write_pos (sr_ring r) + 1"
    by (simp add: ring ring_publish_write_pos)
  show "ring_wf (sr_ring r')"
    unfolding ring by (rule ring_publish_wf [OF assms(2) good])
  show "ss_seqlock (sr_snapshot r') AND 1 = 0"
    using assms(3) by (simp add: snap seq_plus_2_even)
qed


lemma process_wire_frame:
  assumes "frame_ok h rows"
    "cp_block_rows (mc_active s) = 0 \<or> fh_n_rows h = cp_block_rows (mc_active s) \<or>
     fh_flags h AND MOTOR_FLAG_CONFIG_APPLIED \<noteq> 0"
    "\<not> mc_have_last s \<or> fh_seq h \<noteq> mc_last_seq s"
  shows "mc_region (process_frame (wire_frame h rows @ pad) s) = publish_frame h rows (mc_region s) \<and>
    st_frames_ok (mc_stats (process_frame (wire_frame h rows @ pad) s)) = st_frames_ok (mc_stats s) + 1 \<and>
    mc_last_seq (process_frame (wire_frame h rows @ pad) s) = fh_seq h \<and>
    mc_have_last (process_frame (wire_frame h rows @ pad) s)"
proof -
  let ?rx = "wire_frame h rows @ pad"
  note parse = wire_frame_parse [OF assms(1), of pad]
  have n: "unat (fh_n_rows h) = length rows"
    using assms(1) by (simp add: frame_ok_def)
  have check: "frame_header_check h (mc_active s) (length ?rx) = None"
    using wire_frame_length [OF assms(1)] by (intro frame_header_check_ok [OF assms(1) _ assms(2)]) simp
  obtain r g a st where o: "cmd_observe h (mc_cmd s) (mc_active s) (mc_stats s) = (r, g, a, st)"
    by (cases "cmd_observe h (mc_cmd s) (mc_active s) (mc_stats s)")
  obtain publish hl ls st' where q:
    "sequence_account (fh_seq h) (mc_have_last s, mc_last_seq s, st) = (publish, hl, ls, st')"
    by (cases "sequence_account (fh_seq h) (mc_have_last s, mc_last_seq s, st)")
  have p: "publish" "hl" "ls = fh_seq h"
    using sequence_account_publish [OF q] assms(3) by auto
  have "st_frames_ok st' = st_frames_ok (mc_stats s)"
    using cmd_observe_frame_counters [OF o] sequence_account_counters [OF q] by simp
  then show ?thesis
    by (simp add: process_frame_def Let_def parse n check o q p del: length_append take_append drop_append)
qed

text \<open>
  C5. End to end from the SPI buffer to the consumers: a well-formed frame (right magic and
  version, 1 to 200 rows, the expected row count unless it announces a new configuration)
  with a new sequence number is published exactly as sent, whatever bytes follow it in
  the buffer: the snapshot reads back its last row and the ring slot at the old write
  position reads back its header fields and all its rows.
\<close>

theorem good_frame_published:
  assumes "frame_ok h rows"
    "cp_block_rows (mc_active s) = 0 \<or> fh_n_rows h = cp_block_rows (mc_active s) \<or>
     fh_flags h AND MOTOR_FLAG_CONFIG_APPLIED \<noteq> 0"
    "\<not> mc_have_last s \<or> fh_seq h \<noteq> mc_last_seq s"
    "ring_wf (sr_ring (mc_region s))" "ss_seqlock (sr_snapshot (mc_region s)) AND 1 = 0"
  shows "let r = mc_region s; r' = mc_region (process_frame (wire_frame h rows @ pad) s)
    in motor_snapshot_read (still_snapshot (sr_snapshot r')) = Some (last rows, fh_seq h, fh_timestamp h, fh_flags h) \<and>
       ring_get (sr_ring r') (unat (br_write_pos (sr_ring r))) =
         Some (fh_seq h, fh_timestamp h, fh_n_rows h, fh_flags h, rows) \<and>
       br_write_pos (sr_ring r') = br_write_pos (sr_ring r) + 1"
  using publish_frame_effect [OF assms(1,4,5) refl] process_wire_frame [OF assms(1-3), of pad]
  by (simp add: Let_def)

definition sample_region :: shm_region where
  "sample_region = \<lparr>sr_magic = MOTOR_SHM_MAGIC, sr_version = MOTOR_CONTRACT_VERSION, sr_row_size = 24,
     sr_reserved = 0, sr_snapshot = zero_snapshot, sr_ring = zero_ring\<rparr>"

definition sample_controller :: controller where
  "sample_controller = \<lparr>mc_cfg = CONFIG_DEFAULTS, mc_driver = \<lparr>sd_conf = None, sd_bounces = 0\<rparr>,
     mc_spi = \<lparr>sl_bus = 0, sl_dev = 0, sl_configured = True\<rparr>,
     mc_dr = \<lparr>dr_pin = 17, dr_chid = 1, dr_coid = 2, dr_poll_ns = 2000000\<rparr>,
     mc_watch = \<lparr>cw_enabled = False, cw_last_stat_sec = 0, cw_mtime = (0, 0), cw_size = 0,
       cw_have_baseline = False, cw_trigger_on_first = False\<rparr>,
     mc_cmd = cmd_queue_set_config (fc_stm CONFIG_DEFAULTS) cmd_init, mc_active = zero_payload,
     mc_stats = zero_stats, mc_have_last = False, mc_last_seq = 0, mc_region = sample_region,
     mc_reload = False, mc_rt_priority = Some 30\<rparr>"

lemma sample_frame_ok: "frame_ok (sample_header 7) [zero_row]"
  by (simp add: frame_ok_def sample_header_def row_wf_def zero_row_def)

lemma sample_region_ok: "ring_wf (sr_ring sample_region)" "ss_seqlock (sr_snapshot sample_region) AND 1 = 0"
  by (simp_all add: sample_region_def zero_ring_wf) (simp add: zero_snapshot_def)

theorem good_frame_published_witness:
  "ring_get (sr_ring (mc_region (process_frame (wire_frame (sample_header 7) [zero_row] @ replicate 4776 0)
     sample_controller))) 0 = Some (7, 1000, 1, 0, [zero_row])"
proof -
  have s: "cp_block_rows (mc_active sample_controller) = 0" "\<not> mc_have_last sample_controller"
    "mc_region sample_controller = sample_region" "br_write_pos (sr_ring sample_region) = 0"
    by (simp_all add: sample_controller_def zero_payload_def sample_region_def zero_ring_def)
  show ?thesis
    using good_frame_published [OF sample_frame_ok, of sample_controller "replicate 4776 0"] s sample_region_ok
    by (simp add: Let_def sample_header_def)
qed

text \<open>
  C8. Line noise never reaches the consumers: if four consecutive bytes of the rows or the
  checksum of a well-formed frame are received altered in any way, nothing is published,
  the command state is untouched and only the checksum counter grows.
\<close>

theorem corrupted_frame_rejected:
  assumes "frame_ok h rows"
    "cp_block_rows (mc_active s) = 0 \<or> fh_n_rows h = cp_block_rows (mc_active s) \<or>
     fh_flags h AND MOTOR_FLAG_CONFIG_APPLIED \<noteq> 0"
    "take (24 + length rows * 24) (wire_frame h rows) = xs @ ys @ zs" "24 \<le> length xs"
    "length ys = 4" "length ys' = 4" "ys' \<noteq> ys"
  shows "process_frame (xs @ ys' @ zs @ drop (24 + length rows * 24) (wire_frame h rows) @ pad) s =
    s\<lparr>mc_stats := count_crc_err (mc_stats s)\<rparr>"
proof -
  let ?n = "24 + length rows * 24"
  define crc where "crc = drop ?n (wire_frame h rows)"
  let ?rx = "xs @ ys' @ zs @ crc @ pad"
  note len = wire_frame_length [OF assms(1)]
  have body: "length (xs @ ys @ zs) = ?n"
    using arg_cong [OF assms(3), of length] len by simp
  have whole: "wire_frame h rows = (xs @ ys @ zs) @ crc"
    unfolding assms(3) [symmetric] crc_def by (rule append_take_drop_id [symmetric])
  have n: "unat (fh_n_rows h) = length rows"
    using assms(1) by (simp add: frame_ok_def)
  have "slice 0 24 ?rx = slice 0 24 (wire_frame h rows @ pad)"
    unfolding whole using assms(4) by (simp add: slice_def)
  then have hdr: "header_of_bytes (slice 0 24 ?rx) = h"
    using wire_frame_parse(1) [OF assms(1)] by simp
  have check: "frame_header_check h (mc_active s) (length ?rx) = None"
    using body len assms(5,6) unfolding whole by (intro frame_header_check_ok [OF assms(1) _ assms(2)]) simp
  have "of_le_bytes (slice ?n 4 ?rx) = (of_le_bytes (slice ?n 4 (wire_frame h rows @ pad)) :: u32)"
    unfolding whole using body assms(5,6) by (simp add: slice_def)
  also have "\<dots> = frame_crc_compute (xs @ ys @ zs)"
    using wire_frame_parse(2) [OF assms(1), of pad] unfolding whole using body by simp
  finally have rx_crc: "of_le_bytes (slice ?n 4 ?rx) = frame_crc_compute (xs @ ys @ zs)" .
  have "take ?n ?rx = xs @ ys' @ zs"
    using body assms(5,6) by simp
  moreover have "frame_crc_compute (xs @ ys' @ zs) \<noteq> frame_crc_compute (xs @ ys @ zs)"
    using assms(5-7) by (intro crc_burst) simp_all
  ultimately show ?thesis
    using hdr check rx_crc unfolding crc_def [symmetric] by (simp add: process_frame_def Let_def n del: length_append)
qed


lemma zero_row_bytes: "row_bytes zero_row = replicate 24 0"
  by (simp add: row_bytes_def zero_row_def le_bytes_def numeral_eq_Suc)

theorem corrupted_frame_rejected_witness:
  "process_frame (header_bytes (sample_header 7) @ [1, 0, 0, 0] @ replicate 20 0 @
     drop 48 (wire_frame (sample_header 7) [zero_row])) sample_controller =
   sample_controller\<lparr>mc_stats := count_crc_err zero_stats\<rparr>"
proof -
  have "take (24 + length [zero_row] * 24) (wire_frame (sample_header 7) [zero_row]) =
      header_bytes (sample_header 7) @ [0, 0, 0, 0] @ replicate 20 0"
    by (simp add: wire_frame_def Let_def zero_row_bytes) (simp add: numeral_eq_Suc)
  then have "process_frame (header_bytes (sample_header 7) @ [1, 0, 0, 0] @ replicate 20 0 @
      drop (24 + length [zero_row] * 24) (wire_frame (sample_header 7) [zero_row]) @ []) sample_controller =
    sample_controller\<lparr>mc_stats := count_crc_err (mc_stats sample_controller)\<rparr>"
    by (intro corrupted_frame_rejected [OF sample_frame_ok, where ys = "[0, 0, 0, 0]"])
       (simp_all add: sample_controller_def zero_payload_def)
  then show ?thesis
    by (simp add: sample_controller_def)
qed

section \<open>A lost transition frame\<close>

lemma receive_size_mismatch:
  assumes "h = header_of_bytes (slice 0 24 rx)" "cp_block_rows (mc_active s) \<noteq> 0"
    "fh_n_rows h \<noteq> cp_block_rows (mc_active s)" "fh_flags h AND MOTOR_FLAG_CONFIG_APPLIED = 0"
  shows "\<exists>count. receive_frame rx s = s\<lparr>mc_cmd := cmd_count_attempt (mc_cmd s), mc_stats := count (mc_stats s)\<rparr>"
proof -
  have "frame_header_check h (mc_active s) (length rx) \<noteq> None"
    using assms(2-4) by (simp add: frame_header_check_def)
  then obtain count where "frame_header_check h (mc_active s) (length rx) = Some count"
    by auto
  then show ?thesis
    by (intro exI [of _ count]) (simp add: receive_frame_def process_frame_def assms(1))
qed

lemma count_attempt_frame [simp]:
  "gc_state (cmd_count_attempt g) = gc_state g" "gc_frame (cmd_count_attempt g) = gc_frame g"
  "gc_seq (cmd_count_attempt g) = gc_seq g" "gc_payload (cmd_count_attempt g) = gc_payload g"
  by (simp_all add: cmd_count_attempt_def)

lemma count_attempt_tx [simp]: "cmd_fill_tx (cmd_count_attempt g) n = cmd_fill_tx g n"
  by (cases "gc_state g") (simp_all add: cmd_fill_tx_def)

text \<open>
  Losing the one frame that announces a new block size stalls the link for good: once a
  block size is locked in, then over any number of received frames that have another row
  count and do not carry CONFIG_APPLIED, nothing is published and the acknowledged
  configuration never changes; a pending command stays pending and keeps being sent,
  far beyond its retry budget, because the row count is checked before the
  acknowledgement and the budget are looked at.
\<close>

theorem lost_transition_starves:
  assumes "cp_block_rows (mc_active s) \<noteq> 0"
    "\<forall>rx \<in> set rxs. fh_n_rows (header_of_bytes (slice 0 24 rx)) \<noteq> cp_block_rows (mc_active s) \<and>
       fh_flags (header_of_bytes (slice 0 24 rx)) AND MOTOR_FLAG_CONFIG_APPLIED = 0"
  shows "mc_region (fold receive_frame rxs s) = mc_region s \<and>
    mc_active (fold receive_frame rxs s) = mc_active s \<and>
    gc_state (mc_cmd (fold receive_frame rxs s)) = gc_state (mc_cmd s) \<and>
    cmd_fill_tx (mc_cmd (fold receive_frame rxs s)) n = cmd_fill_tx (mc_cmd s) n"
  using assms
proof (induction rxs arbitrary: s)
  case Nil
  then show ?case by simp
next
  case (Cons rx rxs)
  obtain count where r: "receive_frame rx s =
      s\<lparr>mc_cmd := cmd_count_attempt (mc_cmd s), mc_stats := count (mc_stats s)\<rparr>"
    using receive_size_mismatch [OF refl, of s rx] Cons.prems by auto
  then show ?case
    using Cons.IH [of "receive_frame rx s"] Cons.prems by simp
qed

theorem lost_transition_starves_witness:
  "let s = sample_controller\<lparr>mc_active := fc_stm CONFIG_DEFAULTS\<rparr>;
       rxs = replicate 1000 (wire_frame (sample_header 7) [zero_row])
   in mc_region (fold receive_frame rxs s) = sample_region \<and>
      gc_state (mc_cmd (fold receive_frame rxs s)) = CMD_PENDING"
proof -
  let ?s = "sample_controller\<lparr>mc_active := fc_stm CONFIG_DEFAULTS\<rparr>"
  let ?rxs = "replicate 1000 (wire_frame (sample_header 7) [zero_row])"
  have "header_of_bytes (slice 0 24 (wire_frame (sample_header 7) [zero_row])) = sample_header 7"
    using wire_frame_parse(1) [OF sample_frame_ok, of "[]"] by simp
  then have "mc_region (fold receive_frame ?rxs ?s) = mc_region ?s \<and>
      mc_active (fold receive_frame ?rxs ?s) = mc_active ?s \<and>
      gc_state (mc_cmd (fold receive_frame ?rxs ?s)) = gc_state (mc_cmd ?s) \<and>
      cmd_fill_tx (mc_cmd (fold receive_frame ?rxs ?s)) 0 = cmd_fill_tx (mc_cmd ?s) 0"
    by (intro lost_transition_starves) (simp_all add: CONFIG_DEFAULTS_def sample_header_def)
  moreover have "gc_state (mc_cmd ?s) = CMD_PENDING" "mc_region ?s = sample_region"
    by (simp_all add: sample_controller_def cmd_queue_set_config_def)
  ultimately show ?thesis
    by (simp add: Let_def)
qed


section \<open>Reloading\<close>

lemma reopen_spi_configured: "sl_configured (reopen_spi opens p s) \<longleftrightarrow> (\<exists>k < 5. opens k)"
  by (auto simp: reopen_spi_def open_spi_def list_ex_iff)

lemma reload_result:
  assumes "payload_wf (fc_stm new)" "payload_wf (fc_stm (mc_cfg s))"
  shows "fst (handle_reload io (Some new) s)"
    and "mc_cfg (snd (handle_reload io (Some new) s)) = new"
    and "mc_region (snd (handle_reload io (Some new) s)) = mc_region s"
proof -
  have stm: "config_stm_differs (fc_stm new) (fc_stm (mc_cfg s)) \<longleftrightarrow> fc_stm new \<noteq> fc_stm (mc_cfg s)"
    using payload_bytes_inject [OF assms] by (auto simp: config_stm_differs_def)
  show "fst (handle_reload io (Some new) s)" "mc_cfg (snd (handle_reload io (Some new) s)) = new"
    "mc_region (snd (handle_reload io (Some new) s)) = mc_region s"
    by (simp_all add: handle_reload_def Let_def stm)
qed


definition sample_reload_io :: reload_io where
  "sample_reload_io = \<lparr>ri_sched_ok = True, ri_conf = good_io, ri_respawn_rc = 0, ri_open = (\<lambda>k. k = 2),
     ri_gpio = \<lparr>gr_setup_ok = True, gr_add_ok = True\<rparr>\<rparr>"

definition faster_config :: full_config where
  "faster_config = CONFIG_DEFAULTS\<lparr>fc_pi := (fc_pi CONFIG_DEFAULTS)\<lparr>pi_spi_clock_hz := 8000000\<rparr>\<rparr>"


text \<open>
  A configuration the firmware refused is not offered again: once the command ended (by
  NACK or by running out of retries), reloading a file whose firmware part is the one
  already recorded, any number of times, leaves the transmitter idle and the
  acknowledged configuration as it was.
\<close>

theorem refused_config_not_resent:
  assumes "gc_state (mc_cmd s) = CMD_IDLE" "fc_stm new = fc_stm (mc_cfg s)"
  shows "let s' = fold (\<lambda>io s. snd (handle_reload io (Some new) s)) ios s
    in gc_state (mc_cmd s') = CMD_IDLE \<and> mc_active s' = mc_active s \<and> fc_stm (mc_cfg s') = fc_stm new"
  using assms
proof (induction ios arbitrary: s)
  case Nil
  then show ?case by simp
next
  case (Cons io ios)
  let ?s = "snd (handle_reload io (Some new) s)"
  have "gc_state (mc_cmd ?s) = CMD_IDLE" "fc_stm new = fc_stm (mc_cfg ?s)" "mc_active ?s = mc_active s"
    using Cons.prems
    by (auto simp: handle_reload_def Let_def config_stm_differs_def cmd_refresh_after_reinit_def)
  then show ?case
    using Cons.IH [of ?s] by (simp add: Let_def)
qed

theorem refused_config_not_resent_witness:
  "let s = sample_controller\<lparr>mc_cmd := cmd_init\<rparr>;
       s' = fold (\<lambda>io s. snd (handle_reload io (Some faster_config) s)) [sample_reload_io, sample_reload_io] s
   in gc_state (mc_cmd s') = CMD_IDLE \<and> mc_active s' = zero_payload"
proof -
  have "gc_state (mc_cmd (sample_controller\<lparr>mc_cmd := cmd_init\<rparr>)) = CMD_IDLE"
    "fc_stm faster_config = fc_stm (mc_cfg (sample_controller\<lparr>mc_cmd := cmd_init\<rparr>))"
    "mc_active (sample_controller\<lparr>mc_cmd := cmd_init\<rparr>) = zero_payload"
    by (simp_all add: cmd_init_def faster_config_def sample_controller_def)
  then show ?thesis
    using refused_config_not_resent [of "sample_controller\<lparr>mc_cmd := cmd_init\<rparr>" faster_config
        "[sample_reload_io, sample_reload_io]"] by (simp add: Let_def)
qed

text \<open>
  A failed pin move does not keep the old pin: when arming the new data-ready pin
  fails, \<open>dataready_repoint\<close> reports failure but the pin that every later level read uses is
  already the new one, on which no edge is subscribed.
\<close>

theorem failed_repoint_moves_pin:
  assumes "\<not> gr_setup_ok io \<or> \<not> gr_add_ok io"
  shows "dataready_repoint io p d = (False, d\<lparr>dr_pin := pi_dataready_pin p\<rparr>)"
  using assms by (auto simp: dataready_repoint_def dataready_arm_pin_def Let_def)

theorem failed_repoint_moves_pin_witness:
  "dr_pin (snd (dataready_repoint \<lparr>gr_setup_ok = False, gr_add_ok = True\<rparr> (fc_pi CONFIG_DEFAULTS)
     \<lparr>dr_pin = 4, dr_chid = 1, dr_coid = 2, dr_poll_ns = 2000000\<rparr>)) = 17"
  using failed_repoint_moves_pin [of "\<lparr>gr_setup_ok = False, gr_add_ok = True\<rparr>" "fc_pi CONFIG_DEFAULTS"
      "\<lparr>dr_pin = 4, dr_chid = 1, dr_coid = 2, dr_poll_ns = 2000000\<rparr>"]
  by (simp add: CONFIG_DEFAULTS_def)

section \<open>Invariant of the daemon\<close>

definition cmd_consistent :: "g_cmd \<Rightarrow> bool" where
  "cmd_consistent g \<longleftrightarrow> gc_retries_left g \<le> CMD_MAX_RETRIES \<and>
     (gc_state g = CMD_PENDING \<longrightarrow> gc_frame g = set_config_frame (gc_seq g) (gc_payload g))"

definition region_inv :: "shm_region \<Rightarrow> bool" where
  "region_inv r \<longleftrightarrow> motor_shm_region_valid r \<and> ring_wf (sr_ring r) \<and> ss_seqlock (sr_snapshot r) AND 1 = 0"

definition controller_inv :: "controller \<Rightarrow> bool" where
  "controller_inv s \<longleftrightarrow> region_inv (mc_region s) \<and> cmd_consistent (mc_cmd s) \<and> config_ok (mc_cfg s)"

lemma controller_inv_frame [simp]:
  "controller_inv (s\<lparr>mc_stats := st\<rparr>) = controller_inv s"
  "controller_inv (s\<lparr>mc_watch := w\<rparr>) = controller_inv s"
  "controller_inv (s\<lparr>mc_reload := b\<rparr>) = controller_inv s"
  "controller_inv (s\<lparr>mc_dr := d\<rparr>) = controller_inv s"
  "controller_inv (s\<lparr>mc_rt_priority := rt\<rparr>) = controller_inv s"
  "controller_inv (s\<lparr>mc_spi := l\<rparr>) = controller_inv s"
  "controller_inv (s\<lparr>mc_driver := v\<rparr>) = controller_inv s"
  "controller_inv (s\<lparr>mc_have_last := h\<rparr>) = controller_inv s"
  "controller_inv (s\<lparr>mc_last_seq := q\<rparr>) = controller_inv s"
  "controller_inv (s\<lparr>mc_active := a\<rparr>) = controller_inv s"
  by (simp_all add: controller_inv_def)

lemma controller_inv_cmd:
  "controller_inv s \<Longrightarrow> cmd_consistent g \<Longrightarrow> controller_inv (s\<lparr>mc_cmd := g\<rparr>)"
  by (simp add: controller_inv_def)

lemma cmd_consistent_ops:
  "cmd_consistent (cmd_queue_set_config p g)"
  "cmd_consistent g \<Longrightarrow> cmd_consistent (cmd_refresh_after_reinit g)"
  "cmd_consistent g \<Longrightarrow> cmd_consistent (cmd_count_attempt g)"
proof -
  show "cmd_consistent (cmd_queue_set_config p g)"
    by (simp add: cmd_consistent_def cmd_queue_set_config_def cmd_build_set_config_def Let_def)
  show "cmd_consistent g \<Longrightarrow> cmd_consistent (cmd_refresh_after_reinit g)"
    by (simp add: cmd_consistent_def cmd_refresh_after_reinit_def)
  have "r - 1 \<le> 32" if "r \<le> 32" "r > 0" for r :: u16
    using that by (simp add: word_le_nat_alt word_less_nat_alt unat_sub_if')
  then show "cmd_consistent g \<Longrightarrow> cmd_consistent (cmd_count_attempt g)"
    by (simp add: cmd_consistent_def cmd_count_attempt_def)
qed

lemma cmd_consistent_observe:
  "cmd_observe h g a st = (r, g', a', st') \<Longrightarrow> cmd_consistent g \<Longrightarrow> cmd_consistent g'"
  using cmd_observe_cmd [of h g a st r g' a' st'] by (auto simp: cmd_consistent_def)

lemma region_inv_publish:
  assumes "region_inv r" "fh_n_rows h \<le> 200" "length rows = unat (fh_n_rows h)"
  shows "region_inv (publish_frame h rows r)"
proof -
  have "wire_block_ok (h, rows)"
    using assms(2,3) by (simp add: wire_block_ok_def clamp_rows_def leD)
  then have "ring_wf (motor_ring_publish (sr_ring r) h rows)"
    using ring_publish_wf [of "sr_ring r" "(h, rows)"] assms(1) by (simp add: region_inv_def ring_publish_def)
  then show ?thesis
    using assms(1) by (simp add: region_inv_def publish_frame_def motor_shm_region_valid_def seq_plus_2_even)
qed

lemma frame_header_check_rows: "frame_header_check h a n = None \<Longrightarrow> fh_n_rows h \<le> 200"
  by (simp add: frame_header_check_def not_less split: if_splits)

lemma process_frame_inv:
  assumes "controller_inv s"
  shows "controller_inv (process_frame rx s)"
proof (cases rule: process_frame_cases [of rx s])
  case (refused count)
  then show ?thesis
    using assms by simp
next
  case (accepted r g a st publish hl ls st')
  have g: "cmd_consistent g"
    using cmd_consistent_observe [OF accepted(2)] assms by (simp add: controller_inv_def)
  have "region_inv (publish_frame (header_of_bytes (slice 0 24 rx))
      (rows_of_bytes (unat (fh_n_rows (header_of_bytes (slice 0 24 rx)))) (drop 24 rx)) (mc_region s))"
    using assms frame_header_check_rows [OF accepted(1)]
    by (intro region_inv_publish) (simp_all add: controller_inv_def rows_of_bytes_def)
  then show ?thesis
    using accepted(4) assms g by (simp add: controller_inv_def)
qed

lemma handle_reload_inv:
  assumes "controller_inv s" "\<forall>c. loaded = Some c \<longrightarrow> config_ok c"
  shows "controller_inv (snd (handle_reload io loaded s))"
proof (cases loaded)
  case None
  then show ?thesis
    using assms by (simp add: handle_reload_def)
next
  case (Some new)
  then have new: "config_ok new"
    using assms(2) by simp
  let ?s = "snd (handle_reload io loaded s)"
  have cmd: "cmd_consistent (mc_cmd ?s)"
    using assms(1) by (simp add: Some handle_reload_def Let_def cmd_consistent_ops controller_inv_def)
  have "payload_wf (fc_stm new)" "payload_wf (fc_stm (mc_cfg s))"
    using new assms(1) by (simp_all add: config_ok_def controller_inv_def payload_wf_def)
  then have "mc_cfg ?s = new" "mc_region ?s = mc_region s"
    using reload_result [of new s io] by (simp_all add: Some)
  then show ?thesis
    using cmd new assms(1) by (simp add: controller_inv_def)
qed

lemma reload_phase_inv:
  assumes "controller_inv s" "\<forall>c. in_loaded i = Some c \<longrightarrow> config_ok c"
  shows "controller_inv (reload_phase i s)"
proof -
  have "controller_inv t'" if "handle_reload (in_reload_io i) (in_loaded i) t = (ok, t')" "controller_inv t" for t ok t'
    using handle_reload_inv [OF that(2) assms(2), of "in_reload_io i"] that(1) by simp
  then show ?thesis
    using assms(1) by (auto simp: reload_phase_def Let_def split: prod.splits bool.splits)
qed

lemma exchange_phase_inv: "controller_inv s \<Longrightarrow> controller_inv (exchange_phase i s)"
proof -
  assume s: "controller_inv s"
  then have "controller_inv (receive_frame rx s)" for rx
    unfolding receive_frame_def
    by (intro process_frame_inv controller_inv_cmd cmd_consistent_ops(3)) (simp_all add: controller_inv_def)
  then show ?thesis
    using s by (simp add: exchange_phase_def split: wait_result.split spi_result.split)
qed

definition controller_run :: "iteration_input list \<Rightarrow> controller \<Rightarrow> controller" where
  "controller_run is s = fold (\<lambda>i s. snd (loop_iteration i s)) is s"

text \<open>The region's arrays have their declared lengths, whatever an earlier producer left in them.\<close>

definition region_shape :: "shm_region \<Rightarrow> bool" where
  "region_shape r \<longleftrightarrow> length (br_slots (sr_ring r)) = 16 \<and> (\<forall>b \<in> set (br_slots (sr_ring r)). length (sb_rows b) = 200)"

lemma controller_start_inv:
  assumes "controller_start w u = Started s" "region_shape (su_region u)"
    "\<forall>c. su_loaded u = Some c \<longrightarrow> config_ok c"
  shows "controller_inv s"
proof -
  let ?r = "motor_shm_region_init (su_region u)"
  have "region_inv ?r"
    using assms(2) by (auto simp: region_inv_def region_shape_def motor_shm_region_init_def
        motor_shm_region_valid_def ring_wf_def)
  moreover have "mc_region s = ?r" "\<exists>p. mc_cmd s = cmd_queue_set_config p cmd_init"
    "mc_cfg s = (case su_loaded u of Some c \<Rightarrow> c | None \<Rightarrow> CONFIG_DEFAULTS)"
    using assms(1) by (auto simp: controller_start_def Let_def shm_setup_def
        split: if_splits option.splits prod.splits bool.splits)
  ultimately show ?thesis
    using assms(3) defaults_ok cmd_consistent_ops(1) by (auto simp: controller_inv_def split: option.splits)
qed



definition sample_startup :: startup_input where
  "sample_startup = \<lparr>su_sched_ok = True, su_loaded = None, su_shm_open_ok = True, su_shm_truncate_ok = True, su_shm_mmap_ok = True,
     su_region = sample_region, su_driver = \<lparr>sd_conf = None, sd_bounces = 0\<rparr>, su_conf_io = good_io,
     su_respawn_rc = 0, su_open_ok = True, su_chid = 1, su_coid = 2,
     su_gpio = \<lparr>gr_setup_ok = True, gr_add_ok = True\<rparr>, su_stat = None\<rparr>"

definition sample_input :: iteration_input where
  "sample_input = \<lparr>in_sighup = True, in_now_sec = 1, in_stat = None, in_loaded = Some faster_config,
     in_reload_io = sample_reload_io, in_stat_after = None, in_receive = Pulse, in_level = Some True,
     in_spi = SPI_SUCCESS (wire_frame (sample_header 7) [zero_row])\<rparr>"

lemma sample_started: "\<exists>s. controller_start False sample_startup = Started s"
  by (simp add: controller_start_def sample_startup_def shm_setup_def open_spi_def dataready_setup_def
      dataready_arm_pin_def Let_def)

lemma faster_config_ok: "config_ok faster_config"
  using defaults_ok
  by (simp add: config_ok_def faster_config_def CONFIG_DEFAULTS_def pi_hw_ok_def pi_scaling_ok_def)


end
