(* ===== verification/RecorderPipe.thy ===== *)
theory RecorderPipe
  imports RowQueue ShmReader CText
begin

text \<open>
  The recording pipeline of src/src/motor_recorder/recorder.c: the reader thread takes blocks
  from the ring and pushes their rows into the row queue, the writer thread pops them,
  formats them into a 4096-byte buffer (\<open>row_buf_add\<close>) and writes the CSV file
  (\<open>row_buf_flush\<close>). The block the recorder is built against carries a timestamp for each
  row; its header is not in this repository, so a block is the rows with their stamps.
\<close>

section \<open>The CSV line of a row\<close>

definition csv_line :: "csv_row \<Rightarrow> string" where
  "csv_line r =
     (let row = cr_row r; s16 = \<lambda>w :: u16. dec_int (sint w); u = \<lambda>w :: u16. dec (unat w)
      in dec (unat (cr_ts r)) @ concat (map (\<lambda>i. '','' @ u (row_current row ! i)) [0..<8]) @
         '','' @ s16 (row_vib_x row) @ '','' @ s16 (row_vib_y row) @ '','' @ s16 (row_vib_z row) @
         '','' @ u (row_rpm row) @ [NEWLINE])"

definition csv_header :: string where
  "csv_header = ''timestamp,current_0,current_1,current_2,current_3,current_4,current_5,current_6,current_7,vib_x,vib_y,vib_z,rpm'' @ [NEWLINE]"

section \<open>The row buffer\<close>

abbreviation (input) ROW_BUF_SIZE :: nat where "ROW_BUF_SIZE \<equiv> 4096"

record row_buf =
  rb_data :: string
  rb_len :: nat

definition row_buf_init :: row_buf where
  "row_buf_init = \<lparr>rb_data = replicate ROW_BUF_SIZE NUL, rb_len = 0\<rparr>"

text \<open>
  \<open>snprintf\<close> stores at most the room that is left, with a NUL, but returns the full length,
  which is added to \<open>len\<close>; a \<open>len\<close> beyond the buffer would make the next call write out of
  bounds (None).
\<close>

definition row_buf_add :: "csv_row \<Rightarrow> row_buf \<Rightarrow> row_buf option" where
  "row_buf_add r b =
     (if rb_len b > ROW_BUF_SIZE then None
      else let line = csv_line r; room = ROW_BUF_SIZE - rb_len b;
               stored = (if room = 0 then [] else take (room - 1) line @ [NUL])
           in Some \<lparr>rb_data = take (rb_len b) (rb_data b) @ stored @ drop (rb_len b + length stored) (rb_data b),
                    rb_len = rb_len b + length line\<rparr>)"

text \<open>\<open>fwrite\<close> of \<open>len\<close> bytes: out of bounds when \<open>len\<close> exceeds the buffer.\<close>

definition row_buf_flush :: "string \<Rightarrow> row_buf \<Rightarrow> (string \<times> row_buf) option" where
  "row_buf_flush file b =
     (if rb_len b > 0
      then (if rb_len b > ROW_BUF_SIZE then None
            else Some (file @ take (rb_len b) (rb_data b), b\<lparr>rb_len := 0\<rparr>))
      else Some (file, b))"

section \<open>The writer thread\<close>

record writer =
  wr_buf :: row_buf
  wr_file :: string
  wr_rows :: u64

definition writer_turn :: "csv_row option \<Rightarrow> writer \<Rightarrow> writer option" where
  "writer_turn popped w =
     (case popped of
        Some cr \<Rightarrow>
          (case row_buf_add cr (wr_buf w) of
             None \<Rightarrow> None
           | Some b \<Rightarrow>
               let w = w\<lparr>wr_rows := wr_rows w + 1\<rparr>
               in if rb_len b \<ge> ROW_BUF_SIZE div 2
                  then (case row_buf_flush (wr_file w) b of
                          None \<Rightarrow> None
                        | Some (f, b) \<Rightarrow> Some (w\<lparr>wr_file := f, wr_buf := b\<rparr>))
                  else Some (w\<lparr>wr_buf := b\<rparr>))
      | None \<Rightarrow>
          if rb_len (wr_buf w) > 0
          then (case row_buf_flush (wr_file w) (wr_buf w) of
                  None \<Rightarrow> None
                | Some (f, b) \<Rightarrow> Some (w\<lparr>wr_file := f, wr_buf := b\<rparr>))
          else Some w)"

definition writer_end :: "writer \<Rightarrow> writer option" where
  "writer_end w =
     (if rb_len (wr_buf w) > 0
      then (case row_buf_flush (wr_file w) (wr_buf w) of
              None \<Rightarrow> None
            | Some (f, b) \<Rightarrow> Some (w\<lparr>wr_file := f, wr_buf := b\<rparr>))
      else Some w)"

definition writer_start :: "string \<Rightarrow> writer" where
  "writer_start file = \<lparr>wr_buf = row_buf_init, wr_file = file, wr_rows = 0\<rparr>"

section \<open>The reader thread\<close>

record reader =
  rd_first_ts :: u64
  rd_last_ts :: u64
  rd_first_seen :: bool
  rd_dropped :: u64
  rd_total_rows :: u64
  rd_last_wp :: u64
  rd_stalled_ms :: u64

definition reader_start :: reader where
  "reader_start = \<lparr>rd_first_ts = 0, rd_last_ts = 0, rd_first_seen = False, rd_dropped = 0,
     rd_total_rows = 0, rd_last_wp = 0, rd_stalled_ms = 0\<rparr>"

abbreviation (input) POLL_TIMEOUT_MS :: u64 where "POLL_TIMEOUT_MS \<equiv> 5"

definition reader_stall_check :: "u64 \<Rightarrow> reader \<Rightarrow> reader" where
  "reader_stall_check wp rd =
     (if wp \<noteq> rd_last_wp rd then rd\<lparr>rd_last_wp := wp, rd_stalled_ms := 0\<rparr>
      else rd\<lparr>rd_stalled_ms := rd_stalled_ms rd + POLL_TIMEOUT_MS\<rparr>)"

definition reader_begin_block :: "nat \<Rightarrow> reader \<Rightarrow> reader" where
  "reader_begin_block n rd = rd\<lparr>rd_total_rows := rd_total_rows rd + of_nat n\<rparr>"

definition reader_row :: "csv_row \<Rightarrow> reader \<times> row_queue \<Rightarrow> reader \<times> row_queue" where
  "reader_row cr s =
     (case s of (rd, q) \<Rightarrow>
        let ts = cr_ts cr;
            rd = (if \<not> rd_first_seen rd then rd\<lparr>rd_first_ts := ts, rd_first_seen := True\<rparr> else rd);
            rd = rd\<lparr>rd_last_ts := ts\<rparr>
        in case queue_push cr q of
             None \<Rightarrow> (rd\<lparr>rd_dropped := rd_dropped rd + 1\<rparr>, q)
           | Some q \<Rightarrow> (rd, q))"

text \<open>One wake-up of the reader: the blocks a poll returned, and the write position.\<close>

definition reader_iteration :: "csv_row list list \<Rightarrow> u64 \<Rightarrow> reader \<times> row_queue \<Rightarrow> reader \<times> row_queue" where
  "reader_iteration blocks wp s =
     fold (\<lambda>b (rd, q). fold reader_row b (reader_begin_block (length b) rd, q)) blocks
       (reader_stall_check wp (fst s), snd s)"

section \<open>Line lengths\<close>

lemma length_dec_u16: "length (dec (unat (w :: u16))) \<le> 5"
  using unat_u16_less [of w] by (intro length_dec) simp_all

lemma length_dec_u64: "length (dec (unat (w :: u64))) \<le> 20"
  using unat_u64_less [of w] by (intro length_dec) simp_all

lemma length_dec_s16: "length (dec_int (sint (w :: u16))) \<le> 6"
proof -
  have "- (2 ^ 15) \<le> sint w" "sint w < 2 ^ 15"
    using sint_ge [of w] sint_lt [of w] by simp_all
  then have "nat (sint w) < 10 ^ 5" "nat (- sint w) < 10 ^ 5"
    by simp_all
  then have "length (dec (nat (sint w))) \<le> 5" "length (dec (nat (- sint w))) \<le> 5"
    by (auto intro: length_dec)
  then show ?thesis
    by (simp add: dec_int_def)
qed

lemma csv_line_length: "0 < length (csv_line r) \<and> length (csv_line r) \<le> 200"
proof -
  have "length (concat (map (\<lambda>i. '','' @ dec (unat (row_current (cr_row r) ! i))) xs)) \<le> 6 * length xs" for xs
  proof (induction xs)
    case (Cons i xs)
    then show ?case
      using length_dec_u16 [of "row_current (cr_row r) ! i"] by simp
  qed simp
  from this [of "[0..<8]"] have "length (concat (map (\<lambda>i. '','' @ dec (unat (row_current (cr_row r) ! i))) [0..<8])) \<le> 48"
    by simp
  then show ?thesis
    using length_dec_u64 [of "cr_ts r"] length_dec_u16 [of "row_rpm (cr_row r)"]
      length_dec_s16 [of "row_vib_x (cr_row r)"] length_dec_s16 [of "row_vib_y (cr_row r)"]
      length_dec_s16 [of "row_vib_z (cr_row r)"]
    unfolding csv_line_def Let_def length_append by simp
qed


section \<open>What the writer writes\<close>

definition writer_ok :: "writer \<Rightarrow> bool" where
  "writer_ok w \<longleftrightarrow> length (rb_data (wr_buf w)) = ROW_BUF_SIZE \<and> rb_len (wr_buf w) < ROW_BUF_SIZE div 2"

definition writer_text :: "writer \<Rightarrow> string" where
  "writer_text w = wr_file w @ take (rb_len (wr_buf w)) (rb_data (wr_buf w))"

lemma row_buf_add_ok:
  assumes "length (rb_data b) = ROW_BUF_SIZE" "rb_len b < ROW_BUF_SIZE div 2"
  shows "\<exists>b'. row_buf_add r b = Some b' \<and> length (rb_data b') = ROW_BUF_SIZE \<and>
    rb_len b' = rb_len b + length (csv_line r) \<and> rb_len b' \<le> ROW_BUF_SIZE \<and>
    take (rb_len b') (rb_data b') = take (rb_len b) (rb_data b) @ csv_line r"
proof -
  have m: "min (length (csv_line r)) (4095 - rb_len b) = length (csv_line r)"
    using assms csv_line_length [of r] by (intro min_absorb1) linarith
  show ?thesis
    using assms csv_line_length [of r] by (simp add: row_buf_add_def Let_def m)
qed

lemma row_buf_flush_ok:
  assumes "rb_len b \<le> ROW_BUF_SIZE"
  shows "row_buf_flush f b = Some (f @ take (rb_len b) (rb_data b), b\<lparr>rb_len := 0\<rparr>)"
  using assms by (simp add: row_buf_flush_def)

lemma writer_turn_some:
  assumes "writer_ok w"
  shows "\<exists>w'. writer_turn (Some r) w = Some w' \<and> writer_ok w' \<and>
    writer_text w' = writer_text w @ csv_line r \<and> wr_rows w' = wr_rows w + 1"
proof -
  obtain b where b: "row_buf_add r (wr_buf w) = Some b" "length (rb_data b) = ROW_BUF_SIZE"
    "rb_len b \<le> ROW_BUF_SIZE"
    "take (rb_len b) (rb_data b) = take (rb_len (wr_buf w)) (rb_data (wr_buf w)) @ csv_line r"
    using row_buf_add_ok [of "wr_buf w" r] assms by (auto simp: writer_ok_def)
  then show ?thesis
    by (simp add: writer_turn_def Let_def row_buf_flush_ok writer_ok_def writer_text_def not_le)
qed

lemma writer_turn_none:
  assumes "writer_ok w"
  shows "\<exists>w'. writer_turn None w = Some w' \<and> writer_ok w' \<and> writer_text w' = writer_text w \<and> wr_rows w' = wr_rows w"
  using assms by (simp add: writer_turn_def row_buf_flush_ok writer_ok_def writer_text_def)

lemma writer_end_text:
  "writer_ok w \<Longrightarrow> \<exists>w'. writer_end w = Some w' \<and> wr_file w' = writer_text w \<and> wr_rows w' = wr_rows w"
  by (simp add: writer_end_def row_buf_flush_ok writer_ok_def writer_text_def)

section \<open>The pipeline\<close>

text \<open>
  The two threads share the queue (theory RowQueue shows that its operations behave as
  single steps): the reader starts a block, handles one of its rows, or the writer takes
  a turn. The state is None once memory outside the row buffer was touched.
\<close>

datatype pipe_event = BeginBlock nat | Row csv_row | WriterTurn

record pipe =
  pp_reader :: reader
  pp_queue :: row_queue
  pp_writer :: writer

definition pipe_step :: "pipe_event \<Rightarrow> pipe \<Rightarrow> pipe option" where
  "pipe_step e s =
     (case e of
        BeginBlock n \<Rightarrow> Some (s\<lparr>pp_reader := reader_begin_block n (pp_reader s)\<rparr>)
      | Row r \<Rightarrow>
          (case reader_row r (pp_reader s, pp_queue s) of
             (rd, q) \<Rightarrow> Some (s\<lparr>pp_reader := rd, pp_queue := q\<rparr>))
      | WriterTurn \<Rightarrow>
          (case queue_pop (pp_queue s) of
             None \<Rightarrow> map_option (\<lambda>w. s\<lparr>pp_writer := w\<rparr>) (writer_turn None (pp_writer s))
           | Some (r, q) \<Rightarrow>
               map_option (\<lambda>w. s\<lparr>pp_queue := q, pp_writer := w\<rparr>) (writer_turn (Some r) (pp_writer s))))"

abbreviation pipe_run :: "pipe_event list \<Rightarrow> pipe \<Rightarrow> pipe option" where
  "pipe_run \<equiv> run_steps pipe_step"

definition pipe_start :: "row_queue \<Rightarrow> pipe" where
  "pipe_start q = \<lparr>pp_reader = reader_start, pp_queue = q, pp_writer = writer_start csv_header\<rparr>"

text \<open>The rows the reader handled and the rows its blocks announced.\<close>

fun rows_of :: "pipe_event list \<Rightarrow> csv_row list" where
  "rows_of [] = []"
| "rows_of (Row r # es) = r # rows_of es"
| "rows_of (_ # es) = rows_of es"

fun announced :: "pipe_event list \<Rightarrow> nat" where
  "announced [] = 0"
| "announced (BeginBlock n # es) = n + announced es"
| "announced (_ # es) = announced es"

lemma rows_of_append [simp]: "rows_of (xs @ ys) = rows_of xs @ rows_of ys"
  by (induction xs rule: rows_of.induct) simp_all

lemma announced_append [simp]: "announced (xs @ ys) = announced xs + announced ys"
  by (induction xs rule: announced.induct) simp_all

definition pipe_inv :: "nat \<Rightarrow> csv_row list \<Rightarrow> pipe_event list \<Rightarrow> pipe \<Rightarrow> bool" where
  "pipe_inv k written es s \<longleftrightarrow> queue_wf k (pp_queue s) \<and> writer_ok (pp_writer s) \<and>
     writer_text (pp_writer s) = csv_header @ concat (map csv_line written) \<and>
     wr_rows (pp_writer s) = of_nat (length written) \<and>
     subseq (written @ queue_contents k (pp_queue s)) (rows_of es) \<and>
     rd_dropped (pp_reader s) + of_nat (length (written @ queue_contents k (pp_queue s))) =
       of_nat (length (rows_of es)) \<and>
     rd_total_rows (pp_reader s) = of_nat (announced es)"

lemma reader_row_result:
  assumes "queue_wf k q" "reader_row r (rd, q) = (rd', q')"
  shows "queue_wf k q' \<and> rd_total_rows rd' = rd_total_rows rd \<and>
    (queue_contents k q' = queue_contents k q @ [r] \<and> rd_dropped rd' = rd_dropped rd \<or>
     q' = q \<and> rd_dropped rd' = rd_dropped rd + 1)"
proof (cases "queue_count k q < 2 ^ k - 1")
  case True
  then obtain q1 where "queue_push r q = Some q1" "queue_wf k q1" "queue_contents k q1 = queue_contents k q @ [r]"
    using queue_push_contents [OF assms(1)] by blast
  then show ?thesis
    using assms(2) by (cases "rd_first_seen rd") (auto simp: reader_row_def Let_def)
next
  case False
  then have "queue_push r q = None"
    using row_fifo.enq_full [OF assms(1)] by simp
  then show ?thesis
    using assms by (cases "rd_first_seen rd") (auto simp: reader_row_def Let_def)
qed

lemma pipe_step_inv:
  assumes "pipe_inv k written es s"
  shows "\<exists>s' written'. pipe_step e s = Some s' \<and> pipe_inv k written' (es @ [e]) s'"
proof (cases e)
  case (BeginBlock n)
  then show ?thesis
    using assms by (intro exI [of _ "s\<lparr>pp_reader := reader_begin_block n (pp_reader s)\<rparr>"] exI [of _ written])
      (simp add: pipe_step_def pipe_inv_def reader_begin_block_def)
next
  case (Row r)
  obtain rd q where rq: "reader_row r (pp_reader s, pp_queue s) = (rd, q)"
    by (cases "reader_row r (pp_reader s, pp_queue s)")
  have wf: "queue_wf k (pp_queue s)"
    using assms by (simp add: pipe_inv_def)
  note res = reader_row_result [OF wf rq]
  have sub: "subseq (written @ queue_contents k (pp_queue s)) (rows_of es)"
    and drop: "rd_dropped (pp_reader s) + of_nat (length (written @ queue_contents k (pp_queue s))) =
      of_nat (length (rows_of es))"
    using assms unfolding pipe_inv_def by blast+
  from res have "subseq (written @ queue_contents k q) (rows_of es @ [r]) \<and>
      rd_dropped rd + of_nat (length (written @ queue_contents k q)) = of_nat (length (rows_of es @ [r]))"
  proof (elim conjE disjE)
    assume q: "queue_contents k q = queue_contents k (pp_queue s) @ [r]" "rd_dropped rd = rd_dropped (pp_reader s)"
    have "subseq ((written @ queue_contents k (pp_queue s)) @ [r]) (rows_of es @ [r])"
      using sub by (intro list_emb_append_mono) simp_all
    then show ?thesis
      using drop arg_cong [OF q(1), of length] by (simp add: q algebra_simps)
  next
    assume q: "q = pp_queue s" "rd_dropped rd = rd_dropped (pp_reader s) + 1"
    then show ?thesis
      using drop list_emb_append_mono [OF sub list_emb_Nil, of "[r]"] by (simp add: algebra_simps)
  qed
  then show ?thesis
    using assms Row rq res
    by (intro exI [of _ "s\<lparr>pp_reader := rd, pp_queue := q\<rparr>"] exI [of _ written])
       (simp add: pipe_step_def pipe_inv_def)
next
  case WriterTurn
  have wf: "queue_wf k (pp_queue s)" and w: "writer_ok (pp_writer s)"
    using assms by (simp_all add: pipe_inv_def)
  show ?thesis
  proof (cases "queue_contents k (pp_queue s)")
    case Nil
    then have "queue_pop (pp_queue s) = None"
      using row_fifo.deq_empty [OF wf] by simp
    moreover obtain w' where "writer_turn None (pp_writer s) = Some w'" "writer_ok w'"
      "writer_text w' = writer_text (pp_writer s)" "wr_rows w' = wr_rows (pp_writer s)"
      using writer_turn_none [OF w] by blast
    ultimately show ?thesis
      using assms WriterTurn by (intro exI [of _ "s\<lparr>pp_writer := w'\<rparr>"] exI [of _ written])
        (simp add: pipe_step_def pipe_inv_def)
  next
    case (Cons r rs)
    then obtain q where q: "queue_pop (pp_queue s) = Some (r, q)" "queue_wf k q" "queue_contents k q = rs"
      using queue_pop_contents [OF wf] by blast
    obtain w' where "writer_turn (Some r) (pp_writer s) = Some w'" "writer_ok w'"
      "writer_text w' = writer_text (pp_writer s) @ csv_line r" "wr_rows w' = wr_rows (pp_writer s) + 1"
      using writer_turn_some [OF w] by blast
    then show ?thesis
      using assms WriterTurn q Cons
        arg_cong [OF Cons, of length] arg_cong [OF q(3), of length]
      by (intro exI [of _ "s\<lparr>pp_queue := q, pp_writer := w'\<rparr>"] exI [of _ "written @ [r]"])
        (simp add: pipe_step_def pipe_inv_def)
  qed
qed

interpretation pipes: total_steps pipe_step "\<lambda>es s. \<exists>written. pipe_inv k written es s" for k
  by unfold_locales (use pipe_step_inv in blast)

lemma pipe_start_inv:
  assumes "queue_alloc True True k = Some q" "0 < k" "k < 32"
  shows "pipe_inv k [] [] (pipe_start q)"
  using queue_alloc_wf [OF assms]
  by (simp add: pipe_inv_def pipe_start_def reader_start_def writer_start_def writer_ok_def writer_text_def
      row_buf_init_def flip: length_queue_contents)



end
