(* ===== verification/MqttClient.thy ===== *)
theory MqttClient
  imports RecorderPipe
begin

text \<open>
  The recorder's MQTT client, src/src/motor_recorder/mqtt_client.c: connection callbacks and
  the formatting of every message it publishes. libmosquitto is outside the repository:
  whether its calls succeed is an input, and a published message is an entry of the
  output list.
\<close>

section \<open>State\<close>

datatype rec_state = REC_STATE_IDLE | REC_STATE_RECORDING | REC_STATE_STOPPED | REC_STATE_DOWNLOADING

datatype topic = STATUS_TOPIC | CMD_TOPIC | DATA_TOPIC | DOWNLOAD_TOPIC

record mqtt_client =
  mq_mosq :: bool
  mq_state :: rec_state
  mq_status_msg :: string
  mq_last_data_ts :: u64
  mq_connected :: bool
  mq_reconnect_enabled :: bool
  mq_subscribed :: bool
  mq_published :: "(topic \<times> string) list"

definition publish :: "topic \<Rightarrow> string \<Rightarrow> mqtt_client \<Rightarrow> mqtt_client" where
  "publish t payload m = m\<lparr>mq_published := mq_published m @ [(t, payload)]\<rparr>"

definition mqtt_client_init :: "bool \<Rightarrow> bool \<times> mqtt_client" where
  "mqtt_client_init new_ok =
     (let m = \<lparr>mq_mosq = new_ok, mq_state = REC_STATE_IDLE, mq_status_msg = [], mq_last_data_ts = 0,
               mq_connected = False, mq_reconnect_enabled = False, mq_subscribed = False, mq_published = []\<rparr>
      in if \<not> new_ok then (False, m)
         else (True, m\<lparr>mq_state := REC_STATE_IDLE, mq_status_msg := ''idle'', mq_last_data_ts := 0,
                       mq_connected := False, mq_reconnect_enabled := True\<rparr>))"

text \<open>The result of the asynchronous connect is ignored; the network thread connects.\<close>

definition mqtt_client_connect :: "bool \<Rightarrow> bool \<Rightarrow> mqtt_client \<Rightarrow> bool" where
  "mqtt_client_connect async_ok loop_start_ok m = loop_start_ok"

definition mqtt_client_subscribe :: "bool \<Rightarrow> mqtt_client \<Rightarrow> bool \<times> mqtt_client" where
  "mqtt_client_subscribe ok m = (if ok then (True, m\<lparr>mq_subscribed := True\<rparr>) else (False, m))"

definition mqtt_client_disconnect :: "mqtt_client \<Rightarrow> mqtt_client" where
  "mqtt_client_disconnect m =
     (let m = m\<lparr>mq_reconnect_enabled := False, mq_connected := False\<rparr>
      in if mq_mosq m then m\<lparr>mq_mosq := False\<rparr> else m)"

section \<open>Messages\<close>

definition state_name :: "rec_state \<Rightarrow> string" where
  "state_name st =
     (if st = REC_STATE_IDLE then ''idle'' else if st = REC_STATE_RECORDING then ''recording'' else ''stopped'')"

definition status_json :: "rec_state \<Rightarrow> string \<Rightarrow> string" where
  "status_json st msg =
     ''{'' @ dq ''state'' @ '':'' @ dq (state_name st) @ '','' @ dq ''msg'' @ '':'' @ dq msg @ ''}''"

definition on_connect :: "bool \<Rightarrow> mqtt_client \<Rightarrow> mqtt_client" where
  "on_connect rc_ok m =
     (if rc_ok
      then let m = m\<lparr>mq_connected := True, mq_subscribed := True\<rparr>;
               s = status_json (mq_state m) (mq_status_msg m)
           in if length s < 512 then publish STATUS_TOPIC s m else m
      else m\<lparr>mq_connected := False\<rparr>)"

definition on_disconnect :: "mqtt_client \<Rightarrow> mqtt_client" where
  "on_disconnect m = m\<lparr>mq_connected := False\<rparr>"

text \<open>
  \<open>snprintf(status_msg, 256, msg)\<close> uses the message as the format: a percent sign that is not
  doubled asks for an argument that was not passed (None).
\<close>

fun format_no_args :: "string \<Rightarrow> string option" where
  "format_no_args [] = Some []"
| "format_no_args (c # cs) =
     (if c = CHR ''%''
      then (case cs of
              [] \<Rightarrow> None
            | d # ds \<Rightarrow> if d = CHR ''%'' then map_option ((#) d) (format_no_args ds) else None)
      else map_option ((#) c) (format_no_args cs))"

definition mqtt_client_publish_status :: "rec_state \<Rightarrow> string \<Rightarrow> mqtt_client \<Rightarrow> mqtt_client option" where
  "mqtt_client_publish_status st msg m =
     (case format_no_args msg of
        None \<Rightarrow> None
      | Some f \<Rightarrow>
          let m = m\<lparr>mq_state := st, mq_status_msg := take 255 f\<rparr>;
              s = status_json st msg
          in Some (if length s < 512 then publish STATUS_TOPIC s m else m))"

definition mqtt_client_publish_row :: "csv_row \<Rightarrow> mqtt_client \<Rightarrow> mqtt_client" where
  "mqtt_client_publish_row r m =
     (let s = csv_line r; m = (if length s < 512 then publish DATA_TOPIC s m else m)
      in m\<lparr>mq_last_data_ts := cr_ts r\<rparr>)"

definition clamp_percent :: "int \<Rightarrow> int" where
  "clamp_percent p = (let p = (if p < 0 then 0 else p) in if p > 100 then 100 else p)"

definition progress_json :: "int \<Rightarrow> string" where
  "progress_json p = ''{'' @ dq ''state'' @ '':'' @ dq ''uploading'' @ '','' @ dq ''progress'' @ '':'' @ dec_int p @ ''}''"

definition mqtt_client_publish_upload_progress :: "int \<Rightarrow> mqtt_client \<Rightarrow> mqtt_client" where
  "mqtt_client_publish_upload_progress percent m =
     (let s = progress_json (clamp_percent percent)
      in if length s < 256 then publish STATUS_TOPIC s m else m)"

definition stop_json :: "string \<Rightarrow> string \<Rightarrow> u64 \<Rightarrow> u64 \<Rightarrow> u64 \<Rightarrow> u64 \<Rightarrow> u64 \<Rightarrow> string" where
  "stop_json file url span_us rows drops block_drops stalled_ms =
     ''{'' @ dq ''state'' @ '':'' @ dq ''stopped'' @ '','' @ dq ''msg'' @ '':'' @ dq ''Recording complete'' @ '','' @
     dq ''file'' @ '':'' @ dq file @ '','' @ dq ''url'' @ '':'' @ dq url @ '','' @
     dq ''span_us'' @ '':'' @ dec (unat span_us) @ '','' @ dq ''rows'' @ '':'' @ dec (unat rows) @ '','' @
     dq ''drops'' @ '':'' @ dec (unat drops) @ '','' @ dq ''block_drops'' @ '':'' @ dec (unat block_drops) @ '','' @
     dq ''stalled_ms'' @ '':'' @ dec (unat stalled_ms) @ ''}''"

definition mqtt_client_publish_stop_metadata ::
  "string \<Rightarrow> string \<Rightarrow> u64 \<Rightarrow> u64 \<Rightarrow> u64 \<Rightarrow> u64 \<Rightarrow> u64 \<Rightarrow> mqtt_client \<Rightarrow> mqtt_client" where
  "mqtt_client_publish_stop_metadata file url span_us rows drops block_drops stalled_ms m =
     (let m = m\<lparr>mq_state := REC_STATE_STOPPED, mq_status_msg := bounded_copy 256 file\<rparr>;
          s = stop_json file url span_us rows drops block_drops stalled_ms
      in if length s < 1536 then publish STATUS_TOPIC s m else m)"

definition mqtt_client_publish_raw :: "topic \<Rightarrow> string \<Rightarrow> mqtt_client \<Rightarrow> mqtt_client" where
  "mqtt_client_publish_raw t payload m = (if \<not> mq_mosq m then m else publish t payload m)"

text \<open>Kept for compatibility: a no-op.\<close>

definition mqtt_client_loop :: "mqtt_client \<Rightarrow> mqtt_client" where
  "mqtt_client_loop m = m"

section \<open>File chunks\<close>

definition chunk_prefix :: "nat \<Rightarrow> nat \<Rightarrow> string" where
  "chunk_prefix idx n =
     ''{'' @ dq ''chunk'' @ '':'' @ dec idx @ '','' @ dq ''total'' @ '':'' @ dec n @ '','' @ dq ''data'' @ '':'' @ [DQUOTE]"

fun chunk_loop :: "string \<Rightarrow> string \<Rightarrow> string" where
  "chunk_loop [] buf = buf"
| "chunk_loop (c # cs) buf = (if length buf < 8192 - 6 then chunk_loop cs (buf @ escape_char c) else buf)"

text \<open>Where the buffer is full the code publishes two bytes more than it wrote (None).\<close>

definition chunk_json :: "nat \<Rightarrow> nat \<Rightarrow> string \<Rightarrow> string option" where
  "chunk_json idx n chunk_data =
     (let buf = chunk_loop chunk_data (chunk_prefix idx n)
      in if length buf < 8192 - 3 then Some (buf @ [DQUOTE] @ ''}'') else None)"

definition mqtt_client_publish_chunk :: "nat \<Rightarrow> nat \<Rightarrow> string \<Rightarrow> mqtt_client \<Rightarrow> mqtt_client option" where
  "mqtt_client_publish_chunk idx n chunk_data m =
     map_option (\<lambda>s. publish DOWNLOAD_TOPIC s m) (chunk_json idx n chunk_data)"

section \<open>A chunk decodes to its bytes\<close>

lemma chunk_loop_all:
  "length buf + 6 * length cs \<le> 8192 - 6 \<Longrightarrow> chunk_loop cs buf = buf @ concat (map escape_char cs)"
proof (induction cs arbitrary: buf)
  case Nil
  then show ?case by simp
next
  case (Cons c cs)
  then show ?case
    using escape_char_length [of c] by simp
qed

lemma length_chunk_prefix: "idx < 10 ^ 10 \<Longrightarrow> n < 10 ^ 10 \<Longrightarrow> length (chunk_prefix idx n) \<le> 60"
  using length_dec [of 10 idx] length_dec [of 10 n] by (simp add: chunk_prefix_def dq_def)

lemma chunk_json_decodes:
  assumes "length cs \<le> 1024" "idx < 10 ^ 10" "n < 10 ^ 10"
  shows "\<exists>body. chunk_json idx n cs = Some (chunk_prefix idx n @ body) \<and> json_unescape body = Some cs"
proof -
  have "chunk_loop cs (chunk_prefix idx n) = chunk_prefix idx n @ concat (map escape_char cs)"
    using assms(1) length_chunk_prefix [OF assms(2,3)] by (intro chunk_loop_all) simp
  moreover have "length (chunk_prefix idx n @ concat (map escape_char cs)) < 8192 - 3"
    using assms(1) length_chunk_prefix [OF assms(2,3)] length_concat_escape [of cs] by simp
  ultimately show ?thesis
    using json_unescape_concat [of cs "''}''"] by (simp add: chunk_json_def Let_def)
qed

end
