(* ===== verification/RecorderCmd.thy ===== *)
theory RecorderCmd
  imports MqttClient
begin

text \<open>
  The commands of src/src/motor_recorder/recorder.c: starting and stopping a recording, the
  auto-stop timer, listing, deleting, uploading and downloading files, and the command
  parser \<open>handle_command\<close>. The files are a map from paths to contents; results of system
  calls are inputs. A step is None where the code has undefined behaviour (a name of 200
  bytes or more overflows \<open>name_buf\<close>, a message used as a format string).
\<close>

section \<open>State\<close>

record session =
  sn_pipe :: pipe
  sn_read_pos :: u64
  sn_dropped_blocks :: u64

record recorder =
  rc_save_dir :: string
  rc_recording :: bool
  rc_csv_filename :: string
  rc_session :: "session option"
  rc_auto_stop_time :: u64
  rc_auto_stop_active :: bool
  rc_uploading :: bool
  rc_has_stop_data :: bool
  rc_stop_span_us :: u64
  rc_stop_total_rows :: u64
  rc_stop_drops :: u64
  rc_stop_block_drops :: u64
  rc_stop_stalled_ms :: u64
  rc_files :: "string \<Rightarrow> string option"
  rc_mqtt :: mqtt_client

definition open_csv :: "bool \<Rightarrow> string \<Rightarrow> (string \<Rightarrow> string option) \<Rightarrow> (string \<Rightarrow> string option) option" where
  "open_csv fopen_ok path fs = (if \<not> fopen_ok then None else Some (fs(path \<mapsto> csv_header)))"

text \<open>\<open>stamp\<close> is the local time as year, month, day, underscore, hours, minutes, seconds.\<close>

definition generate_filename :: "string \<Rightarrow> string \<Rightarrow> string" where
  "generate_filename save_dir stamp = bounded_copy 1024 (save_dir @ ''/motor_'' @ stamp @ ''.csv'')"

definition recorder_cleanup :: "recorder \<Rightarrow> recorder" where
  "recorder_cleanup s = s\<lparr>rc_session := None\<rparr>"

text \<open>Results of the calls a start makes; \<open>sr_region\<close> is the region \<open>shm_connect\<close> attached to.\<close>

record start_results =
  sr_fopen_ok :: bool
  sr_queue_ok :: bool
  sr_queue_buf_ok :: bool
  sr_attached :: "(u64 \<times> u32) option"
  sr_threads_ok :: bool

definition start_recording_internal :: "start_results \<Rightarrow> string \<Rightarrow> recorder \<Rightarrow> recorder option" where
  "start_recording_internal io filename s =
     (let s = s\<lparr>rc_csv_filename := bounded_copy 1024 filename\<rparr>
      in case open_csv (sr_fopen_ok io) filename (rc_files s) of
           None \<Rightarrow> Some (s\<lparr>rc_csv_filename := []\<rparr>)
         | Some fs \<Rightarrow>
             let s = s\<lparr>rc_files := fs\<rparr>
             in case queue_alloc (sr_queue_ok io) (sr_queue_buf_ok io) 18 of
                  None \<Rightarrow> Some (s\<lparr>rc_csv_filename := []\<rparr>)
                | Some q \<Rightarrow>
                    (case sr_attached io of
                       None \<Rightarrow> Some (s\<lparr>rc_csv_filename := []\<rparr>)
                     | Some (wp, depth) \<Rightarrow>
                         if \<not> sr_threads_ok io then Some (recorder_cleanup s)
                         else let s = s\<lparr>rc_session := Some \<lparr>sn_pipe = pipe_start q,
                                          sn_read_pos = (if wp \<ge> ucast depth then wp - ucast depth else 0),
                                          sn_dropped_blocks = 0\<rparr>,
                                        rc_recording := True\<rparr>
                              in map_option (\<lambda>m. s\<lparr>rc_mqtt := m\<rparr>)
                                   (mqtt_client_publish_status REC_STATE_RECORDING filename (rc_mqtt s))))"

text \<open>
  \<open>stop_recording\<close> runs when both threads have ended: \<open>sn_pipe\<close> is then the state they left
  behind, whose writer is closed by \<open>writer_end\<close>.
\<close>

definition stop_recording :: "recorder \<Rightarrow> recorder option" where
  "stop_recording s =
     (if \<not> rc_recording s then Some s
      else let s = s\<lparr>rc_recording := False, rc_auto_stop_active := False\<rparr>
      in case rc_session s of
           None \<Rightarrow> None
         | Some sn \<Rightarrow>
             (case writer_end (pp_writer (sn_pipe sn)) of
                None \<Rightarrow> None
              | Some w \<Rightarrow>
                  let rd = pp_reader (sn_pipe sn);
                      s = s\<lparr>rc_stop_span_us := (if rd_first_seen rd \<and> rd_last_ts rd > rd_first_ts rd
                                              then rd_last_ts rd - rd_first_ts rd else 0),
                            rc_stop_total_rows := wr_rows w,
                            rc_stop_drops := rd_dropped rd,
                            rc_stop_stalled_ms := rd_stalled_ms rd,
                            rc_stop_block_drops := sn_dropped_blocks sn,
                            rc_has_stop_data := True,
                            rc_files := (rc_files s)(rc_csv_filename s \<mapsto> wr_file w)\<rparr>;
                      s = recorder_cleanup s
                  in Some (s\<lparr>rc_mqtt := mqtt_client_publish_stop_metadata (rc_csv_filename s) []
                                (rc_stop_span_us s) (rc_stop_total_rows s) (rc_stop_drops s)
                                (rc_stop_block_drops s) (rc_stop_stalled_ms s) (rc_mqtt s)\<rparr>)))"

text \<open>One tick of the main thread.\<close>

definition recorder_tick :: "u64 \<Rightarrow> recorder \<Rightarrow> recorder option" where
  "recorder_tick now s =
     (if rc_auto_stop_active s \<and> rc_recording s \<and> now \<ge> rc_auto_stop_time s then stop_recording s else Some s)"

section \<open>Files\<close>

text \<open>Reading a file in blocks of 1024 bytes and publishing each with its index.\<close>

function file_chunks :: "string \<Rightarrow> string list" where
  "file_chunks content = (if content = [] then [] else take 1024 content # file_chunks (drop 1024 content))"
  by pat_completeness auto
termination file_chunks by (relation "measure length") simp_all

declare file_chunks.simps [simp del]

fun publish_chunks :: "nat \<Rightarrow> nat \<Rightarrow> string list \<Rightarrow> mqtt_client \<Rightarrow> mqtt_client option" where
  "publish_chunks idx n [] m = Some m"
| "publish_chunks idx n (c # cs) m =
     (case mqtt_client_publish_chunk idx n c m of
        None \<Rightarrow> None
      | Some m \<Rightarrow> publish_chunks (idx + 1) n cs m)"

definition send_file_chunks :: "string \<Rightarrow> recorder \<Rightarrow> recorder option" where
  "send_file_chunks filepath s =
     (case rc_files s filepath of
        None \<Rightarrow> Some s
      | Some content \<Rightarrow>
          let file_size = length content; total_chunks = (file_size + 1024 - 1) div 1024
          in map_option (\<lambda>m. s\<lparr>rc_mqtt := m\<rparr>) (publish_chunks 0 total_chunks (file_chunks content) (rc_mqtt s)))"

text \<open>
  The listing: directory entries with their sizes. \<open>text\<close> is the buffer up to \<open>pos\<close>, \<open>rest\<close>
  what a cut-off entry left behind it.
\<close>

definition list_entry :: "string \<Rightarrow> int \<Rightarrow> string" where
  "list_entry name fsize = ''{'' @ dq ''name'' @ '':'' @ dq name @ '','' @ dq ''size'' @ '':'' @ dec_int fsize @ ''}''"

definition list_step :: "string \<times> int \<Rightarrow> bool \<times> string \<times> string \<Rightarrow> bool \<times> string \<times> string" where
  "list_step e st =
     (case (e, st) of ((name, fsize), (first, text, rest)) \<Rightarrow>
        if strstr name ''.csv'' then
          let text = (if \<not> first \<and> length text < 4096 - 64 then text @ '','' else text);
              entry = list_entry name fsize
          in if length text + length entry < 4096 then (False, text @ entry, [])
             else (first, text, take (4096 - length text - 1) entry)
        else (first, text, rest))"

definition list_json :: "(string \<times> int) list \<Rightarrow> string" where
  "list_json entries =
     (case fold list_step entries
             (True, ''{'' @ dq ''state'' @ '':'' @ dq ''file_list'' @ '','' @ dq ''files'' @ '':['', []) of
        (_, text, rest) \<Rightarrow> if length text < 4096 - 3 then text @ '']}'' else text @ rest)"

definition handle_list_command :: "(string \<times> int) list option \<Rightarrow> recorder \<Rightarrow> recorder" where
  "handle_list_command dir s =
     (case dir of
        None \<Rightarrow> s\<lparr>rc_mqtt := mqtt_client_publish_raw STATUS_TOPIC (list_json []) (rc_mqtt s)\<rparr>
      | Some entries \<Rightarrow> s\<lparr>rc_mqtt := mqtt_client_publish_raw STATUS_TOPIC (list_json entries) (rc_mqtt s)\<rparr>)"

definition delete_json :: "string \<Rightarrow> bool \<Rightarrow> string" where
  "delete_json filename ok =
     bounded_copy 512 (''{'' @ dq ''state'' @ '':'' @ dq ''delete_result'' @ '','' @ dq ''file'' @ '':'' @ dq filename @
       '','' @ dq ''success'' @ '':'' @ (if ok then ''true'' else ''false'') @ ''}'')"

definition handle_delete_command :: "bool \<Rightarrow> string \<Rightarrow> recorder \<Rightarrow> recorder" where
  "handle_delete_command remove_ok filename s =
     (let fullpath = bounded_copy 1024 (rc_save_dir s @ ''/'' @ filename)
      in if rc_files s fullpath = None
         then s\<lparr>rc_mqtt := mqtt_client_publish_raw STATUS_TOPIC (delete_json filename False) (rc_mqtt s)\<rparr>
         else if remove_ok
         then s\<lparr>rc_files := (rc_files s)(fullpath := None),
                rc_mqtt := mqtt_client_publish_raw STATUS_TOPIC (delete_json filename True) (rc_mqtt s)\<rparr>
         else s\<lparr>rc_mqtt := mqtt_client_publish_raw STATUS_TOPIC (delete_json filename False) (rc_mqtt s)\<rparr>)"

section \<open>Uploading\<close>

text \<open>
  One round of waiting for \<open>scp\<close>: what \<open>waitpid\<close> said, the time, and the remote size a query
  would return. The status variable is only set when the child was reaped; after the
  three-minute limit or a failed \<open>waitpid\<close> its value is indeterminate (\<open>stale\<close>: whether it
  happens to read as exit code 0). The query runs only once \<open>ssh_stat_cmd\<close> was built,
  which the code never does: \<open>ssh_ready\<close> is its constant flag.
\<close>

datatype wait_status = StillRunning | Reaped bool | WaitFailed

record upload_round =
  ur_wait :: wait_status
  ur_now :: int
  ur_remote_size :: int

record upload_progress =
  up_last_pct :: int
  up_last_time :: int
  up_sent :: int

definition upload_query :: "bool \<Rightarrow> int \<Rightarrow> upload_round \<Rightarrow> upload_progress \<times> mqtt_client \<Rightarrow> upload_progress \<times> mqtt_client" where
  "upload_query ssh_ready local_size r pm =
     (case pm of (p, m) \<Rightarrow>
        let elapsed = ur_now r - up_last_time p
        in if (elapsed \<ge> 10 \<and> up_last_pct p < 100 \<or> elapsed \<ge> 30 \<and> up_sent p = 0) \<and> ssh_ready \<and>
              ur_remote_size r > 0 \<and> local_size > 0
           then let pct = min 100 (ur_remote_size r * 100 div local_size)
                in if pct > up_last_pct p
                   then (\<lparr>up_last_pct = pct, up_last_time = ur_now r, up_sent = up_sent p + 1\<rparr>,
                         mqtt_client_publish_upload_progress pct m)
                   else (p, m)
           else (p, m))"

fun upload_wait :: "bool \<Rightarrow> bool \<Rightarrow> int \<Rightarrow> int \<Rightarrow> upload_round list \<Rightarrow> upload_progress \<times> mqtt_client \<Rightarrow> (bool \<times> mqtt_client) option" where
  "upload_wait ssh_ready stale local_size start [] pm = None"
| "upload_wait ssh_ready stale local_size start (r # rs) pm =
     (case ur_wait r of
        Reaped exit_0 \<Rightarrow> Some (exit_0, snd pm)
      | WaitFailed \<Rightarrow> Some (stale, snd pm)
      | StillRunning \<Rightarrow>
          let pm = upload_query ssh_ready local_size r pm
          in if ur_now r - start > 180 then Some (stale, snd pm)
             else upload_wait ssh_ready stale local_size start rs (fst pm, mqtt_client_loop (snd pm)))"

definition error_json :: "string \<Rightarrow> string" where
  "error_json msg = ''{'' @ dq ''state'' @ '':'' @ dq ''error'' @ '','' @ dq ''msg'' @ '':'' @ dq msg @ ''}''"

definition publish_error :: "string \<Rightarrow> recorder \<Rightarrow> recorder" where
  "publish_error msg s = s\<lparr>rc_mqtt := mqtt_client_publish_raw STATUS_TOPIC (error_json msg) (rc_mqtt s)\<rparr>"

text \<open>The command is None while the upload has not ended within the given rounds.\<close>

definition handle_upload :: "bool \<Rightarrow> int \<Rightarrow> upload_round list \<Rightarrow> string \<Rightarrow> recorder \<Rightarrow> recorder option" where
  "handle_upload stale start rounds arg s =
     (if rc_uploading s then Some (publish_error ''Upload already in progress'' s)
      else if arg = [] \<and> rc_csv_filename s = [] then Some (publish_error ''No file to upload'' s)
      else let upload_path = (if arg \<noteq> []
                 then (if CHR ''/'' \<in> set arg then bounded_copy 1024 arg
                       else bounded_copy 1024 (rc_save_dir s @ ''/'' @ arg))
                 else rc_csv_filename s)
      in case rc_files s upload_path of
           None \<Rightarrow> Some (publish_error ''File not found'' s)
         | Some content \<Rightarrow>
             let remote_dir = bounded_copy 2048 (''/home/maxmaster/uploads/'' @ basename upload_path);
                 remote_path = bounded_copy 4096 (''maxmaster@139.185.38.211'' @ '':'' @ remote_dir);
                 p0 = \<lparr>up_last_pct = - 1, up_last_time = start, up_sent = 0\<rparr>
             in case upload_wait False stale (int (length content)) start rounds (p0, rc_mqtt s) of
                  None \<Rightarrow> None
                | Some (ok, m) \<Rightarrow>
                    let s = s\<lparr>rc_mqtt := m\<rparr>
                    in if \<not> ok then Some ((publish_error ''SCP upload failed'' s)\<lparr>rc_uploading := False\<rparr>)
                       else Some (s\<lparr>rc_mqtt := mqtt_client_publish_stop_metadata upload_path remote_path
                                      (rc_stop_span_us s) (rc_stop_total_rows s) (rc_stop_drops s)
                                      (rc_stop_block_drops s) (rc_stop_stalled_ms s)
                                      (mqtt_client_publish_upload_progress 100 (rc_mqtt s)),
                                    rc_uploading := False\<rparr>))"


section \<open>The command parser\<close>

definition skip_spaces :: "string \<Rightarrow> string" where
  "skip_spaces s = dropWhile (\<lambda>c. c = CHR '' '') s"

text \<open>\<open>sscanf(arg, "%255s%n", ...)\<close>: the word and what follows it, or None without a word.\<close>

definition scan_word :: "string \<Rightarrow> (string \<times> string) option" where
  "scan_word s =
     (let t = dropWhile is_space s; w = take 255 (takeWhile (\<lambda>c. \<not> is_space c) t)
      in if w = [] then None else Some (w, drop (length w) t))"

text \<open>The file name and duration of a start command; a word of 200 or more characters
  overflows \<open>name_buf\<close>.\<close>

definition start_arguments :: "string \<Rightarrow> string \<Rightarrow> string \<Rightarrow> (string \<times> u64) option" where
  "start_arguments save_dir stamp arg =
     (if arg = [] then Some (generate_filename save_dir stamp, 0)
      else case scan_word arg of
             None \<Rightarrow> Some (generate_filename save_dir stamp, 0)
           | Some (w, rest) \<Rightarrow>
               if length w \<ge> 200 then None
               else if is_digit (hd w) then Some (generate_filename save_dir stamp, strtoul w)
               else let t = skip_spaces rest
                    in Some (bounded_copy 1024 (save_dir @ ''/'' @ w @ ''.csv''),
                             if t \<noteq> [] \<and> is_digit (hd t) then strtoul t else 0))"

record command_input =
  ci_stamp :: string
  ci_start :: start_results
  ci_now_ms :: u64
  ci_upload_stale :: bool
  ci_upload_start :: int
  ci_upload_rounds :: "upload_round list"
  ci_dir :: "(string \<times> int) list option"
  ci_remove_ok :: bool

definition handle_start :: "command_input \<Rightarrow> string \<Rightarrow> recorder \<Rightarrow> recorder option" where
  "handle_start i arg s =
     (if rc_recording s then Some s
      else case start_arguments (rc_save_dir s) (ci_stamp i) arg of
             None \<Rightarrow> None
           | Some (filename, duration_sec) \<Rightarrow>
               (case start_recording_internal (ci_start i) filename s of
                  None \<Rightarrow> None
                | Some s \<Rightarrow>
                    Some (if duration_sec > 0
                          then s\<lparr>rc_auto_stop_time := ci_now_ms i + duration_sec * 1000, rc_auto_stop_active := True\<rparr>
                          else s)))"

definition handle_download :: "string \<Rightarrow> recorder \<Rightarrow> recorder option" where
  "handle_download arg s =
     (let arg = (if arg = [] \<and> rc_csv_filename s \<noteq> [] then rc_csv_filename s else arg)
      in if arg = [] then Some s
         else let filepath = (if CHR ''/'' \<in> set arg then bounded_copy 2048 arg
                              else bounded_copy 2048 (rc_save_dir s @ ''/'' @ arg))
              in if rc_files s filepath = None then Some s else send_file_chunks filepath s)"

definition handle_command :: "command_input \<Rightarrow> string \<Rightarrow> recorder \<Rightarrow> recorder option" where
  "handle_command i cmd s =
     (if prefix ''start'' cmd then handle_start i (skip_spaces (drop 5 cmd)) s
      else if cmd = ''stop'' then stop_recording s
      else if prefix ''upload'' cmd
        then handle_upload (ci_upload_stale i) (ci_upload_start i) (ci_upload_rounds i) (skip_spaces (drop 6 cmd)) s
      else if cmd = ''list'' then Some (handle_list_command (ci_dir i) s)
      else if prefix ''download'' cmd then handle_download (skip_spaces (drop 8 cmd)) s
      else if prefix ''delete'' cmd
        then (let arg = skip_spaces (drop 6 cmd)
              in Some (if arg = [] then s else handle_delete_command (ci_remove_ok i) arg s))
      else Some s)"

section \<open>Invariant\<close>

text \<open>Resources are held exactly while recording, names fit their buffers, and the recording's
  queue and writer are in the state their theories prove.\<close>

definition session_ok :: "session \<Rightarrow> bool" where
  "session_ok sn \<longleftrightarrow> (\<exists>written es. pipe_inv 18 written es (sn_pipe sn))"

definition recorder_inv :: "recorder \<Rightarrow> bool" where
  "recorder_inv s \<longleftrightarrow> (rc_recording s \<longleftrightarrow> rc_session s \<noteq> None) \<and>
     (\<forall>sn. rc_session s = Some sn \<longrightarrow> session_ok sn) \<and>
     length (rc_csv_filename s) < 1024 \<and> \<not> rc_uploading s"

lemma recorder_inv_frame [simp]:
  "recorder_inv (s\<lparr>rc_mqtt := m\<rparr>) = recorder_inv s"
  "recorder_inv (s\<lparr>rc_files := fs\<rparr>) = recorder_inv s"
  "recorder_inv (s\<lparr>rc_auto_stop_time := a\<rparr>) = recorder_inv s"
  "recorder_inv (s\<lparr>rc_auto_stop_active := b\<rparr>) = recorder_inv s"
  by (simp_all add: recorder_inv_def)

lemma publish_error_inv [simp]: "recorder_inv (publish_error msg s) = recorder_inv s"
  by (simp add: publish_error_def)

lemma session_start_ok:
  "queue_alloc a b 18 = Some q \<Longrightarrow> sn_pipe sn = pipe_start q \<Longrightarrow> session_ok sn"
  using pipe_start_inv [of 18 q] unfolding session_ok_def
  by (auto simp: queue_alloc_def Let_def split: if_splits)

lemma start_recording_inv:
  assumes "recorder_inv s" "\<not> rc_recording s" "start_recording_internal io filename s = Some t"
  shows "recorder_inv t"
proof -
  have none: "rc_session s = None" "\<not> rc_uploading s"
    using assms(1,2) by (simp_all add: recorder_inv_def)
  have len: "length (bounded_copy 1024 filename) < 1024"
    by (rule length_bounded_copy) simp
  show ?thesis
    using assms(2,3) none len session_start_ok
    by (auto simp: start_recording_internal_def recorder_inv_def Let_def recorder_cleanup_def
        split: option.splits prod.splits if_splits)
qed

lemma stop_recording_inv:
  assumes "recorder_inv s"
  shows "\<exists>t. stop_recording s = Some t \<and> recorder_inv t \<and> \<not> rc_recording t"
proof (cases "rc_recording s")
  case False
  then show ?thesis
    using assms by (simp add: stop_recording_def)
next
  case True
  then obtain sn where sn: "rc_session s = Some sn" "session_ok sn"
    using assms by (auto simp: recorder_inv_def)
  then obtain w where "writer_end (pp_writer (sn_pipe sn)) = Some w"
    using writer_end_text by (auto simp: session_ok_def pipe_inv_def)
  then show ?thesis
    using True sn assms by (simp add: stop_recording_def Let_def recorder_inv_def recorder_cleanup_def)
qed

lemma handle_command_inv:
  assumes "recorder_inv s" "handle_command i cmd s = Some t"
  shows "recorder_inv t"
proof -
  have start: "recorder_inv t" if "handle_start i arg s = Some t" for arg
    using that assms(1) start_recording_inv [OF assms(1)]
    by (auto simp: handle_start_def split: if_splits option.splits prod.splits)
  have stop: "recorder_inv t" if "stop_recording s = Some t"
    using that stop_recording_inv [OF assms(1)] by auto
  have upload: "recorder_inv t" if "handle_upload stale st rounds arg s = Some t" for stale st rounds arg
    using that assms(1)
    by (auto simp: handle_upload_def Let_def recorder_inv_def publish_error_def split: if_splits option.splits prod.splits)
  have download: "recorder_inv t" if "handle_download arg s = Some t" for arg
    using that assms(1)
    by (auto simp: handle_download_def send_file_chunks_def Let_def split: if_splits option.splits)
  have list: "recorder_inv (handle_list_command d s)" for d
    using assms(1) by (simp add: handle_list_command_def split: option.split)
  have delete: "recorder_inv (handle_delete_command ok arg s)" for ok arg
    using assms(1) by (simp add: handle_delete_command_def Let_def)
  show ?thesis
    using assms start stop upload download list delete
    by (auto simp: handle_command_def Let_def split: if_splits)
qed


section \<open>Runs\<close>

text \<open>What can happen to the recorder: a command arrives, the main thread ticks, or the two
  threads of a recording make progress.\<close>

datatype recorder_event = Command command_input string | Tick u64 | Threads "pipe_event list"

definition threads_progress :: "pipe_event list \<Rightarrow> recorder \<Rightarrow> recorder option" where
  "threads_progress es s =
     (case rc_session s of
        None \<Rightarrow> Some s
      | Some sn \<Rightarrow>
          map_option (\<lambda>p. s\<lparr>rc_session := Some (sn\<lparr>sn_pipe := p\<rparr>)\<rparr>) (pipe_run es (sn_pipe sn)))"

definition recorder_step :: "recorder_event \<Rightarrow> recorder \<Rightarrow> recorder option" where
  "recorder_step e s =
     (case e of
        Command i cmd \<Rightarrow> handle_command i cmd s
      | Tick now \<Rightarrow> recorder_tick now s
      | Threads es \<Rightarrow> threads_progress es s)"

abbreviation recorder_run :: "recorder_event list \<Rightarrow> recorder \<Rightarrow> recorder option" where
  "recorder_run \<equiv> run_steps recorder_step"

definition recorder_start :: "string \<Rightarrow> recorder" where
  "recorder_start save_dir = \<lparr>rc_save_dir = save_dir, rc_recording = False, rc_csv_filename = [],
     rc_session = None, rc_auto_stop_time = 0, rc_auto_stop_active = False, rc_uploading = False,
     rc_has_stop_data = False, rc_stop_span_us = 0, rc_stop_total_rows = 0, rc_stop_drops = 0,
     rc_stop_block_drops = 0, rc_stop_stalled_ms = 0, rc_files = Map.empty,
     rc_mqtt = snd (mqtt_client_init True)\<rparr>"

lemma recorder_step_inv:
  assumes "recorder_inv s" "recorder_step e s = Some t"
  shows "recorder_inv t"
proof (cases e)
  case (Command i cmd)
  then show ?thesis
    using assms handle_command_inv by (simp add: recorder_step_def)
next
  case (Tick now)
  then show ?thesis
    using assms stop_recording_inv [OF assms(1)]
    by (auto simp: recorder_step_def recorder_tick_def split: if_splits)
next
  case (Threads es)
  show ?thesis
  proof (cases "rc_session s")
    case None
    then show ?thesis
      using assms Threads by (simp add: recorder_step_def threads_progress_def)
  next
    case (Some sn)
    then obtain written es0 where inv: "pipe_inv 18 written es0 (sn_pipe sn)"
      using assms(1) by (auto simp: recorder_inv_def session_ok_def)
    obtain p where p: "pipe_run es (sn_pipe sn) = Some p" "\<exists>w. pipe_inv 18 w (es0 @ es) p"
      using pipes.run_total [of 18 es0 "sn_pipe sn" es] inv by blast
    then have "session_ok (sn\<lparr>sn_pipe := p\<rparr>)"
      by (auto simp: session_ok_def)
    then show ?thesis
      using assms Threads Some p(1) by (simp add: recorder_step_def threads_progress_def recorder_inv_def) auto
  qed
qed

interpretation recorder_runs: step_invariant recorder_step recorder_inv
  by unfold_locales (rule recorder_step_inv)


definition good_start :: start_results where
  "good_start = \<lparr>sr_fopen_ok = True, sr_queue_ok = True, sr_queue_buf_ok = True, sr_attached = Some (20, 16),
     sr_threads_ok = True\<rparr>"

definition sample_command :: "start_results \<Rightarrow> u64 \<Rightarrow> command_input" where
  "sample_command io now = \<lparr>ci_stamp = ''20250101_000000'', ci_start = io, ci_now_ms = now,
     ci_upload_stale = False, ci_upload_start = 0, ci_upload_rounds = [], ci_dir = None, ci_remove_ok = True\<rparr>"


text \<open>
  A failed start leaves its timer armed: when the CSV file of a timed start cannot be
  opened, nothing records but the auto-stop is active, and it ends a later recording that
  was started without a duration.
\<close>

theorem failed_start_arms_timer:
  assumes "recorder_inv s" "\<not> rc_recording s"
    "start_arguments (rc_save_dir s) (ci_stamp i) arg = Some (filename, d)" "0 < d"
    "\<not> sr_fopen_ok (ci_start i)" "handle_start i arg s = Some s1"
    "start_arguments (rc_save_dir s) (ci_stamp j) arg' = Some (filename', 0)"
    "handle_start j arg' s1 = Some s2" "rc_recording s2" "ci_now_ms i + d * 1000 \<le> now"
  shows "\<not> rc_recording s1 \<and> (\<exists>t. recorder_tick now s2 = Some t \<and> \<not> rc_recording t)"
proof -
  have s1: "s1 = s\<lparr>rc_csv_filename := [], rc_auto_stop_time := ci_now_ms i + d * 1000, rc_auto_stop_active := True\<rparr>"
    using assms(2-6) by (simp add: handle_start_def start_recording_internal_def open_csv_def Let_def)
  have inv1: "recorder_inv s1" "\<not> rc_recording s1"
    using assms(1,2) by (simp_all add: s1 recorder_inv_def)
  have s2: "start_recording_internal (ci_start j) filename' s1 = Some s2"
    using assms(2,7,8) by (auto simp: handle_start_def s1 split: option.splits)
  then have "rc_auto_stop_active s2 = rc_auto_stop_active s1" "rc_auto_stop_time s2 = rc_auto_stop_time s1"
    by (auto simp: start_recording_internal_def Let_def recorder_cleanup_def
        split: option.splits prod.splits if_splits)
  then have "rc_auto_stop_active s2" "rc_auto_stop_time s2 \<le> now"
    using assms(10) by (simp_all add: s1)
  then have "recorder_tick now s2 = stop_recording s2"
    using assms(9) by (simp add: recorder_tick_def)
  then show ?thesis
    using stop_recording_inv [OF start_recording_inv [OF inv1 s2]] inv1(2) by auto
qed

lemma queue_alloc_total: "\<exists>q. queue_alloc True True k = Some q"
  by (simp add: queue_alloc_def Let_def)

theorem failed_start_arms_timer_witness:
  "\<exists>s1 s2 t. handle_start (sample_command (good_start\<lparr>sr_fopen_ok := False\<rparr>) 7) ''5'' (recorder_start ''/tmp'') = Some s1 \<and>
     handle_start (sample_command good_start 100) ''a'' s1 = Some s2 \<and> rc_recording s2 \<and>
     recorder_tick 6000 s2 = Some t \<and> \<not> rc_recording t"
proof -
  let ?s = "recorder_start ''/tmp''"
  let ?i = "sample_command (good_start\<lparr>sr_fopen_ok := False\<rparr>) 7"
  let ?j = "sample_command good_start 100"
  have dir: "rc_save_dir ?s = ''/tmp''" and idle: "recorder_inv ?s" "\<not> rc_recording ?s"
    by (simp_all add: recorder_inv_def recorder_start_def)
  have a: "\<exists>f. start_arguments ''/tmp'' (ci_stamp ?i) ''5'' = Some (f, 5)"
    by (simp add: start_arguments_def scan_word_def is_space_def is_digit_def strtoul_def digits_value_def digit_val_def)
  then obtain f where f: "start_arguments (rc_save_dir ?s) (ci_stamp ?i) ''5'' = Some (f, 5)"
    unfolding dir by blast
  have g: "start_arguments (rc_save_dir ?s) (ci_stamp ?j) ''a'' = Some (''/tmp/a.csv'', 0)"
    unfolding dir
    by (simp add: start_arguments_def scan_word_def is_space_def is_digit_def skip_spaces_def bounded_copy_def cstr_def)
  obtain q where q: "queue_alloc True True 18 = Some q"
    using queue_alloc_total by blast
  obtain s1 where s1: "handle_start ?i ''5'' ?s = Some s1" "\<not> rc_recording s1" "rc_save_dir s1 = ''/tmp''"
    using f idle(2) dir
    by (auto simp: handle_start_def start_recording_internal_def open_csv_def Let_def sample_command_def good_start_def)
  have fmt: "format_no_args ''/tmp/a.csv'' = Some ''/tmp/a.csv''"
    by simp
  obtain s2 where s2: "handle_start ?j ''a'' s1 = Some s2" "rc_recording s2"
    using g s1(2,3) q dir fmt
    by (auto simp: handle_start_def start_recording_internal_def open_csv_def Let_def sample_command_def
        good_start_def mqtt_client_publish_status_def)
  have "\<not> sr_fopen_ok (ci_start ?i)" "(0 :: u64) < 5" "ci_now_ms ?i + 5 * 1000 \<le> 6000"
    by (simp_all add: sample_command_def good_start_def)
  then show ?thesis
    using failed_start_arms_timer [OF idle f _ _ s1(1) g s2] s1 s2 by blast
qed

section \<open>Downloads and listings\<close>

lemma file_chunks_props:
  "concat (file_chunks s) = s \<and> (\<forall>c \<in> set (file_chunks s). length c \<le> 1024) \<and>
   length (file_chunks s) = (length s + 1023) div 1024"
proof (induction s rule: file_chunks.induct)
  case (1 s)
  show ?case
  proof (cases "s = []")
    case True
    then show ?thesis by (simp add: file_chunks.simps)
  next
    case False
    then have "(length s + 1023) div 1024 = Suc ((length s - 1024 + 1023) div 1024)"
      by (cases "length s \<le> 1024") (simp_all add: div_if)
    then show ?thesis
      using 1 [OF False] False by (simp add: file_chunks.simps [of s])
  qed
qed

lemma publish_chunks_messages:
  assumes "\<forall>c \<in> set cs. length c \<le> 1024" "idx + length cs \<le> n" "n < 10 ^ 10"
  shows "\<exists>m' bodies. publish_chunks idx n cs m = Some m' \<and>
    mq_published m' = mq_published m @
      map (\<lambda>k. (DOWNLOAD_TOPIC, chunk_prefix (idx + k) n @ bodies ! k)) [0..<length cs] \<and>
    length bodies = length cs \<and> map json_unescape bodies = map Some cs"
  using assms
proof (induction cs arbitrary: idx m)
  case Nil
  then show ?case by simp
next
  case (Cons c cs)
  then obtain body where body: "chunk_json idx n c = Some (chunk_prefix idx n @ body)" "json_unescape body = Some c"
    using chunk_json_decodes [of c idx n] by auto
  let ?m = "publish DOWNLOAD_TOPIC (chunk_prefix idx n @ body) m"
  obtain m' bodies where rest: "publish_chunks (idx + 1) n cs ?m = Some m'"
    "mq_published m' = mq_published ?m @
       map (\<lambda>k. (DOWNLOAD_TOPIC, chunk_prefix (idx + 1 + k) n @ bodies ! k)) [0..<length cs]"
    "length bodies = length cs" "map json_unescape bodies = map Some cs"
    using Cons.IH [of "idx + 1" ?m] Cons.prems by auto
  have "[0..<length (c # cs)] = 0 # map Suc [0..<length cs]"
    by (simp add: upt_conv_Cons map_Suc_upt del: upt_Suc)
  then show ?case
    using body rest by (intro exI [of _ m'] exI [of _ "body # bodies"])
      (simp add: mqtt_client_publish_chunk_def publish_def del: upt_Suc)
qed

text \<open>
  C19. A downloaded file can be put together again exactly: for a file of up to about ten
  terabytes, the messages published are chunk 0, 1, 2, ... in order, each carrying the
  same total, which is their number; a JSON reader decodes the data of each, and the
  decoded chunks joined are the file, byte for byte.
\<close>

theorem download_reassembles:
  assumes "rc_files s path = Some content" "length content \<le> 10 ^ 12"
  shows "\<exists>t bodies parts. send_file_chunks path s = Some t \<and>
    mq_published (rc_mqtt t) = mq_published (rc_mqtt s) @
      map (\<lambda>k. (DOWNLOAD_TOPIC, chunk_prefix k (length bodies) @ bodies ! k)) [0..<length bodies] \<and>
    map json_unescape bodies = map Some parts \<and> concat parts = content"
proof -
  let ?cs = "file_chunks content"
  note props = file_chunks_props [of content]
  have n: "(length content + 1024 - 1) div 1024 = length ?cs"
    using props by simp
  have "length ?cs < 10 ^ 10"
    using props assms(2) by simp
  then obtain m' bodies where "publish_chunks 0 (length ?cs) ?cs (rc_mqtt s) = Some m'"
    "mq_published m' = mq_published (rc_mqtt s) @
       map (\<lambda>k. (DOWNLOAD_TOPIC, chunk_prefix (0 + k) (length ?cs) @ bodies ! k)) [0..<length ?cs]"
    "length bodies = length ?cs" "map json_unescape bodies = map Some ?cs"
    using publish_chunks_messages [of ?cs 0 "length ?cs" "rc_mqtt s"] props by auto
  then show ?thesis
    using assms(1) n props unfolding send_file_chunks_def
    by (intro exI [of _ "s\<lparr>rc_mqtt := m'\<rparr>"] exI [of _ bodies] exI [of _ ?cs]) (simp add: Let_def)
qed

theorem download_reassembles_witness:
  "\<exists>t bodies parts. send_file_chunks ''f'' ((recorder_start ''/tmp'')\<lparr>rc_files := [''f'' \<mapsto> ''a'' @ [DQUOTE, NEWLINE]]\<rparr>) = Some t \<and>
    mq_published (rc_mqtt t) =
      map (\<lambda>k. (DOWNLOAD_TOPIC, chunk_prefix k (length bodies) @ bodies ! k)) [0..<length bodies] \<and>
    map json_unescape bodies = map Some parts \<and> concat parts = ''a'' @ [DQUOTE, NEWLINE]"
  using download_reassembles [of "(recorder_start ''/tmp'')\<lparr>rc_files := [''f'' \<mapsto> ''a'' @ [DQUOTE, NEWLINE]]\<rparr>" "''f''"
      "''a'' @ [DQUOTE, NEWLINE]"]
  by (simp add: recorder_start_def mqtt_client_init_def Let_def)

end
