(* ===== verification/MqttMinimal.thy ===== *)
theory MqttMinimal
  imports CText
begin

text \<open>
  The hand-written MQTT client of src/src/motor_recorder/mqtt_minimal.c: the send and receive
  loops, the packet builders, the parser of received data and the connection state. Results
  of socket calls are inputs; an operation is None where the code writes beyond one of its
  stack buffers, reads beyond the received bytes, or has used up the given results.
\<close>

section \<open>Partial sends and receives\<close>

text \<open>One \<open>send\<close> or \<open>recv\<close>: it moved some bytes, or it returned at most 0 and \<open>errno\<close> says
  whether to try again.\<close>

datatype io_result = Moved nat | IoFailed bool

fun mqtt_write :: "io_result list \<Rightarrow> u8 list \<Rightarrow> u8 list \<Rightarrow> (bool \<times> u8 list) option" where
  "mqtt_write rs buf sent =
     (if length sent \<ge> length buf then Some (True, sent)
      else case rs of
             [] \<Rightarrow> None
           | Moved n # rs \<Rightarrow> mqtt_write rs buf (sent @ take n (drop (length sent) buf))
           | IoFailed again # rs \<Rightarrow> if again then mqtt_write rs buf sent else Some (False, sent))"

declare mqtt_write.simps [simp del]

datatype recv_result = Got "u8 list" | RecvFailed bool

fun mqtt_read :: "recv_result list \<Rightarrow> nat \<Rightarrow> u8 list \<Rightarrow> u8 list option option" where
  "mqtt_read rs n got =
     (if length got \<ge> n then Some (Some got)
      else case rs of
             [] \<Rightarrow> None
           | Got bs # rs \<Rightarrow> mqtt_read rs n (got @ take (n - length got) bs)
           | RecvFailed again # rs \<Rightarrow> if again then mqtt_read rs n got else Some None)"

declare mqtt_read.simps [simp del]

section \<open>Packets\<close>

definition bytes_of :: "string \<Rightarrow> u8 list" where
  "bytes_of s = map of_char s"

lemma length_bytes_of [simp]: "length (bytes_of s) = length s"
  by (simp add: bytes_of_def)

text \<open>Seven bits a byte, least significant first, the top bit set on all but the last.\<close>

fun remaining_digits :: "nat \<Rightarrow> u8 list" where
  "remaining_digits n =
     (let byte = of_nat (n mod 128)
      in if n div 128 > 0 then (byte OR 0x80) # remaining_digits (n div 128) else [byte])"

declare remaining_digits.simps [simp del]

definition mqtt_write_remaining_length :: "u32 \<Rightarrow> u8 list" where
  "mqtt_write_remaining_length n = remaining_digits (unat n)"

definition mqtt_build_connect :: "string \<Rightarrow> string option \<Rightarrow> string option \<Rightarrow> u8 list" where
  "mqtt_build_connect client_id username password =
     (let credential = (\<lambda>c. case c of None \<Rightarrow> [] | Some s \<Rightarrow> of_nat (length s) # bytes_of s);
          cost = (\<lambda>c. case c of None \<Rightarrow> 0 | Some s \<Rightarrow> length s + 1);
          remaining = 4 + length ''MQTT'' + 1 + 1 + length client_id + cost username + cost password
      in [0x10] @ mqtt_write_remaining_length (of_nat remaining) @ [0, 60 AND 0xFF, drop_bit 8 60 AND 0xFF] @
         [of_nat (length ''MQTT'')] @ bytes_of ''MQTT'' @ [4] @
         [of_nat (length client_id)] @ bytes_of client_id @ [0x02] @
         credential username @ credential password)"

definition mqtt_build_subscribe :: "u16 \<Rightarrow> string \<Rightarrow> u8 list" where
  "mqtt_build_subscribe msg_id topic =
     [0x82] @ mqtt_write_remaining_length (of_nat (length topic + 4)) @
     [ucast (msg_id AND 0xFF), ucast (drop_bit 8 msg_id AND 0xFF)] @
     [of_nat (length topic)] @ bytes_of topic @ [0]"

definition mqtt_build_publish :: "string \<Rightarrow> u8 list \<Rightarrow> u8 list" where
  "mqtt_build_publish topic payload =
     [0x30] @ mqtt_write_remaining_length (of_nat (length topic + length payload + 2)) @
     [ucast (of_nat (length topic) AND 0xFF :: u64), ucast (drop_bit 8 (of_nat (length topic)) AND 0xFF :: u64)] @
     bytes_of topic @ payload"

definition mqtt_build_pingreq :: "u8 list" where
  "mqtt_build_pingreq = [0xC0, 0]"

section \<open>Received data\<close>

fun length_loop :: "u8 list \<Rightarrow> u32 \<Rightarrow> u32 \<Rightarrow> u32" where
  "length_loop [] ml multiplier = ml"
| "length_loop (byte # bs) ml multiplier =
     (let ml = ml + ucast (byte AND 0x7F) * multiplier; multiplier = multiplier * 128
      in if byte AND 0x80 = 0 then ml else length_loop bs ml multiplier)"

definition mqtt_parse_variable_header :: "u8 list \<Rightarrow> (u8 \<times> u8 \<times> u32) option" where
  "mqtt_parse_variable_header buf =
     (if length buf < 2 then None
      else Some (drop_bit 4 (buf ! 0), buf ! 0 AND 0x0F, length_loop (drop 1 buf) 0 1))"

datatype mqtt_state = MQTT_STATE_DISCONNECTED | MQTT_STATE_CONNECTING | MQTT_STATE_CONNECTED | MQTT_STATE_ERROR

record minimal_client =
  mc_state :: mqtt_state
  mc_sock :: bool
  mc_topic_sub :: string
  mc_topic_publish :: string
  mc_ping_timer :: int
  mc_wire :: "u8 list"

text \<open>
  One pass over the received bytes; the switch labels are those of the code. \<open>buf\<close> starts at
  the current position, so the two bytes a CONNACK carries are at 2 and 3 of it.
\<close>

function mqtt_handle_data :: "u8 list \<Rightarrow> minimal_client \<Rightarrow> (bool \<times> minimal_client) option" where
  "mqtt_handle_data buf m =
     (if buf = [] then Some (True, m)
      else case mqtt_parse_variable_header buf of
             None \<Rightarrow> Some (False, m)
           | Some (packet_type, packet_flags, remaining_length) \<Rightarrow>
               if packet_type = 0x20 \<and> remaining_length \<ge> 2 then
                 if length buf < 4 then None
                 else Some (True, m\<lparr>mc_state := if buf ! 3 = 0 then MQTT_STATE_CONNECTED else MQTT_STATE_ERROR\<rparr>)
               else mqtt_handle_data (drop (2 + unat remaining_length) buf)
                      (if packet_type = 0xE0 then m\<lparr>mc_ping_timer := 0\<rparr> else m))"
  by pat_completeness auto
termination mqtt_handle_data
  by (relation "measure (\<lambda>(buf, m). length buf)") auto

declare mqtt_handle_data.simps [simp del]

section \<open>The client's operations\<close>

definition mqtt_minimal_init :: "string option \<Rightarrow> minimal_client" where
  "mqtt_minimal_init subscribe_topic =
     \<lparr>mc_state = MQTT_STATE_DISCONNECTED, mc_sock = False,
      mc_topic_sub = (case subscribe_topic of None \<Rightarrow> [] | Some t \<Rightarrow> bounded_copy 256 t),
      mc_topic_publish = bounded_copy 256 ''guest/rpi5guest1/status'',
      mc_ping_timer = 0, mc_wire = []\<rparr>"

text \<open>Results of the socket calls of a connect: the socket, the address, \<open>connect\<close> (success or
  in progress), and the sends of the CONNECT packet. The wire collects the bytes sent.\<close>

definition mqtt_minimal_connect ::
    "bool \<Rightarrow> bool \<Rightarrow> bool \<Rightarrow> io_result list \<Rightarrow> string option \<Rightarrow> string option \<Rightarrow> minimal_client \<Rightarrow> (bool \<times> minimal_client) option" where
  "mqtt_minimal_connect socket_ok addr_ok connect_ok rs username password m =
     (if \<not> socket_ok \<or> \<not> addr_ok \<or> \<not> connect_ok then Some (False, m\<lparr>mc_sock := False\<rparr>)
      else let conn_buf = mqtt_build_connect ''motor_recorder'' username password
      in if length conn_buf > 256 then None
         else case mqtt_write rs conn_buf [] of
                None \<Rightarrow> None
              | Some (False, sent) \<Rightarrow> Some (False, m\<lparr>mc_sock := False, mc_wire := mc_wire m @ sent\<rparr>)
              | Some (True, sent) \<Rightarrow>
                  Some (True, m\<lparr>mc_sock := True, mc_state := MQTT_STATE_CONNECTING, mc_wire := mc_wire m @ sent\<rparr>))"

definition mqtt_minimal_disconnect :: "minimal_client \<Rightarrow> minimal_client" where
  "mqtt_minimal_disconnect m = m\<lparr>mc_sock := False, mc_state := MQTT_STATE_DISCONNECTED\<rparr>"

text \<open>What \<open>select\<close> and the \<open>recv\<close> after it did.\<close>

datatype poll_result = SelectInterrupted | SelectFailed | NothingReady | RecvError bool | Received "u8 list"

definition mqtt_minimal_poll :: "poll_result \<Rightarrow> minimal_client \<Rightarrow> (bool \<times> minimal_client) option" where
  "mqtt_minimal_poll r m =
     (if mc_state m \<noteq> MQTT_STATE_CONNECTED then Some (True, m)
      else case r of
             SelectInterrupted \<Rightarrow> Some (True, m)
           | SelectFailed \<Rightarrow> Some (False, mqtt_minimal_disconnect m)
           | NothingReady \<Rightarrow> Some (True, m)
           | RecvError again \<Rightarrow> if again then Some (True, m) else Some (False, mqtt_minimal_disconnect m)
           | Received bs \<Rightarrow> map_option (\<lambda>(_, m). (True, m)) (mqtt_handle_data (take 1024 bs) m))"

definition mqtt_minimal_publish :: "io_result list \<Rightarrow> string \<Rightarrow> u8 list \<Rightarrow> minimal_client \<Rightarrow> (bool \<times> minimal_client) option" where
  "mqtt_minimal_publish rs topic payload m =
     (let pub_buf = mqtt_build_publish topic payload
      in if length pub_buf > 1024 then None
         else map_option (\<lambda>(ok, sent). (ok, m\<lparr>mc_wire := mc_wire m @ sent\<rparr>)) (mqtt_write rs pub_buf []))"

text \<open>The size of the output buffer minus one is a \<open>size_t\<close>, so a size of 0 is no limit.\<close>

definition copy_limit :: "nat \<Rightarrow> nat" where
  "copy_limit n = (if n = 0 then 2 ^ 64 - 1 else n - 1)"

definition mqtt_parse_topic :: "nat \<Rightarrow> string \<Rightarrow> string" where
  "mqtt_parse_topic topic_max str = take (copy_limit topic_max) (takeWhile (\<lambda>c. c \<noteq> CHR '' '') (cstr str))"

definition mqtt_parse_command :: "nat \<Rightarrow> string \<Rightarrow> string" where
  "mqtt_parse_command cmd_max str =
     take (copy_limit cmd_max) (takeWhile (\<lambda>c. c \<noteq> CHR '' '' \<and> c \<noteq> NEWLINE) (cstr str))"

section \<open>Sending is complete\<close>

lemma mqtt_write_prefix:
  "sent = take k buf \<Longrightarrow> mqtt_write rs buf sent = Some (ok, out) \<Longrightarrow>
     \<exists>k. out = take k buf \<and> (ok \<longrightarrow> out = buf)"
proof (induction rs buf sent arbitrary: k rule: mqtt_write.induct)
  case (1 rs buf sent)
  note step = "1.prems"(2) [unfolded mqtt_write.simps [of rs buf sent]]
  show ?case
  proof (cases "length sent \<ge> length buf")
    case True
    then show ?thesis
      using step "1.prems"(1) by (auto intro: exI [of _ "length out"])
  next
    case False
    then obtain r rs' where rs: "rs = r # rs'"
      using step by (cases rs) auto
    show ?thesis
    proof (cases r)
      case (Moved n)
      have "sent @ take n (drop (length sent) buf) = take (length sent + n) buf"
        using "1.prems"(1) False by (simp add: take_add min_def)
      then show ?thesis
        using "1.IH"(1) [OF False rs Moved] step False rs Moved by auto
    next
      case (IoFailed again)
      then show ?thesis
        using "1.IH"(2) [OF False rs IoFailed] step False rs "1.prems"(1) by (auto split: if_splits)
    qed
  qed
qed

text \<open>Enough successful sends of at least one byte each finish the packet, retries in between.\<close>

fun moved_calls :: "io_result list \<Rightarrow> nat" where
  "moved_calls [] = 0"
| "moved_calls (Moved n # rs) = (if n = 0 then 0 else 1) + moved_calls rs"
| "moved_calls (IoFailed b # rs) = moved_calls rs"

lemma mqtt_write_finishes:
  "length buf \<le> length sent + moved_calls rs \<Longrightarrow> IoFailed False \<notin> set rs \<Longrightarrow>
     \<exists>out. mqtt_write rs buf sent = Some (True, out)"
proof (induction rs buf sent rule: mqtt_write.induct)
  case (1 rs buf sent)
  show ?case
  proof (cases "length sent \<ge> length buf")
    case True
    then show ?thesis
      by (simp add: mqtt_write.simps [of rs])
  next
    case False
    then obtain r rs' where rs: "rs = r # rs'"
      using "1.prems" by (cases rs) auto
    show ?thesis
    proof (cases r)
      case (Moved n)
      have "length buf \<le> length (sent @ take n (drop (length sent) buf)) + moved_calls rs'"
        using "1.prems"(1) False rs Moved by (auto split: if_splits)
      then show ?thesis
        using "1.IH"(1) [OF False rs Moved] "1.prems"(2) False rs Moved
        by (simp add: mqtt_write.simps [of "Moved n # rs'"])
    next
      case (IoFailed again)
      then show ?thesis
        using "1.IH"(2) [OF False rs IoFailed] "1.prems" False rs
        by (cases again) (auto simp: mqtt_write.simps [of "IoFailed True # rs'"])
    qed
  qed
qed

section \<open>The length field\<close>

lemma digit_mask: "bit (0x7F :: u8) k \<longleftrightarrow> k < 7" "bit (0x80 :: u8) k \<longleftrightarrow> k = 7"
proof -
  have "(0x7F :: u8) = mask 7" "(0x80 :: u8) = push_bit 7 1"
    by (simp_all add: mask_eq_exp_minus_1)
  then show "bit (0x7F :: u8) k \<longleftrightarrow> k < 7" "bit (0x80 :: u8) k \<longleftrightarrow> k = 7"
    by (auto simp only: bit_mask_iff bit_push_bit_iff bit_1_iff) auto
qed

lemma digit_bits:
  assumes "n < 128"
  shows "(of_nat n :: u8) AND 0x80 = 0" "(of_nat n :: u8) AND 0x7F = of_nat n"
    "(of_nat n OR 0x80 :: u8) AND 0x80 \<noteq> 0" "(of_nat n OR 0x80 :: u8) AND 0x7F = of_nat n"
proof -
  have high: "\<not> bit (of_nat n :: u8) k" if "k \<ge> 7" for k
  proof -
    have "take_bit 7 (of_nat n :: u8) = of_nat n"
      using assms by (simp add: take_bit_of_nat take_bit_nat_eq_self)
    then show ?thesis
      using that by (metis bit_take_bit_iff not_less)
  qed
  have low: "k < 7" if "bit (of_nat n :: u8) k" for k
    using high [of k] that by linarith
  show "(of_nat n :: u8) AND 0x80 = 0" "(of_nat n :: u8) AND 0x7F = of_nat n" "(of_nat n OR 0x80 :: u8) AND 0x7F = of_nat n"
    by (rule bit_word_eqI, simp only: bit_and_iff bit_or_iff digit_mask bit_0_eq, use low in auto)+
  have "bit ((of_nat n OR 0x80 :: u8) AND 0x80) 7"
    by (simp only: bit_and_iff bit_or_iff digit_mask) simp
  then show "(of_nat n OR 0x80 :: u8) AND 0x80 \<noteq> 0"
    by (metis bit_0_eq bot_apply bot_bool_def)
qed

lemma ucast_digit: "n < 128 \<Longrightarrow> (ucast (of_nat n :: u8) :: u32) = of_nat n"
  by (simp add: word_unat_eq_iff unsigned_ucast_eq unat_of_nat take_bit_nat_eq_self)

text \<open>The parser's loop reads back what the writer's loop wrote, whatever follows.\<close>

lemma length_loop_digits:
  "length_loop (remaining_digits n @ rest) ml mult = ml + of_nat n * mult"
proof (induction n arbitrary: ml mult rule: remaining_digits.induct)
  case (1 n)
  have split: "(of_nat n :: u32) = of_nat (n mod 128) + of_nat (n div 128) * 128"
    by (metis mod_mult_div_eq mult.commute of_nat_add of_nat_mult of_nat_numeral)
  have d: "n mod 128 < 128"
    by simp
  show ?case
  proof (cases "n div 128 > 0")
    case True
    have "length_loop (remaining_digits (n div 128) @ rest) (ml + of_nat (n mod 128) * mult) (mult * 128)
        = ml + of_nat (n mod 128) * mult + of_nat (n div 128) * (mult * 128)"
      using "1.IH" [OF _ True] by blast
    then show ?thesis
      using True digit_bits(3,4) [OF d] ucast_digit [OF d]
      by (simp add: remaining_digits.simps [of n] Let_def split algebra_simps)
  next
    case False
    then have "n mod 128 = n" by simp
    then show ?thesis
      using False digit_bits(1,2) [OF d] ucast_digit [OF d]
      by (simp add: remaining_digits.simps [of n] Let_def)
  qed
qed

lemma parse_written_header:
  "mqtt_parse_variable_header (h # mqtt_write_remaining_length n @ rest) = Some (drop_bit 4 h, h AND 0x0F, n)"
proof -
  have "mqtt_write_remaining_length n \<noteq> []"
    by (simp add: mqtt_write_remaining_length_def remaining_digits.simps [of "unat n"] Let_def)
  then have "\<not> length (h # mqtt_write_remaining_length n @ rest) < 2"
    by (cases "mqtt_write_remaining_length n") auto
  then show ?thesis
    using length_loop_digits [of "unat n" rest 0 1]
    unfolding mqtt_parse_variable_header_def by (simp add: mqtt_write_remaining_length_def)
qed

section \<open>Publishing\<close>

lemma publish_packet:
  "\<exists>a b. mqtt_build_publish topic payload =
     0x30 # mqtt_write_remaining_length (of_nat (length topic + length payload + 2)) @ ([a, b] @ bytes_of topic @ payload)"
  by (simp add: mqtt_build_publish_def)



section \<open>The connection state\<close>

datatype minimal_event =
    Connect bool bool bool "io_result list" "string option" "string option"
  | Disconnect
  | Poll poll_result
  | Publish "io_result list" string "u8 list"
  | Data "u8 list"

definition minimal_step :: "minimal_event \<Rightarrow> minimal_client \<Rightarrow> minimal_client option" where
  "minimal_step e m =
     (case e of
        Connect a b c rs u p \<Rightarrow> map_option snd (mqtt_minimal_connect a b c rs u p m)
      | Disconnect \<Rightarrow> Some (mqtt_minimal_disconnect m)
      | Poll r \<Rightarrow> map_option snd (mqtt_minimal_poll r m)
      | Publish rs t p \<Rightarrow> map_option snd (mqtt_minimal_publish rs t p m)
      | Data bs \<Rightarrow> map_option snd (mqtt_handle_data bs m))"

abbreviation minimal_run :: "minimal_event list \<Rightarrow> minimal_client \<Rightarrow> minimal_client option" where
  "minimal_run \<equiv> run_steps minimal_step"

lemma packet_type_small:
  "mqtt_parse_variable_header buf = Some (t, f, n) \<Longrightarrow> t \<noteq> 0x20 \<and> t \<noteq> 0xE0"
proof -
  assume "mqtt_parse_variable_header buf = Some (t, f, n)"
  then have "t = drop_bit 4 (buf ! 0)"
    by (auto simp: mqtt_parse_variable_header_def split: if_splits)
  then have "unat t < 16"
    using unsigned_less [of "buf ! 0", where ?'a = nat] by (simp add: unat_drop_bit_eq drop_bit_nat_def take_bit_nat_eq_self)
  then show ?thesis
    by auto
qed

text \<open>Whatever bytes arrive, handling them ends and leaves the client as it was.\<close>

lemma mqtt_handle_data_inert: "\<exists>ok. mqtt_handle_data buf m = Some (ok, m)"
proof (induction buf m rule: mqtt_handle_data.induct)
  case (1 buf m)
  show ?case
  proof (cases "buf = [] \<or> mqtt_parse_variable_header buf = None")
    case True
    then show ?thesis
      by (auto simp: mqtt_handle_data.simps [of buf])
  next
    case False
    then obtain t f n where h: "mqtt_parse_variable_header buf = Some (t, f, n)" "buf \<noteq> []"
      by (metis not_None_eq prod_cases3)
    then show ?thesis
      using 1 [OF h(2) h(1) refl refl] packet_type_small [OF h(1)]
      by (auto simp: mqtt_handle_data.simps [of buf])
  qed
qed

lemma minimal_step_state:
  assumes "minimal_step e m = Some m'" "mc_state m \<noteq> MQTT_STATE_CONNECTED \<and> mc_state m \<noteq> MQTT_STATE_ERROR"
  shows "mc_state m' \<noteq> MQTT_STATE_CONNECTED \<and> mc_state m' \<noteq> MQTT_STATE_ERROR"
proof (cases e)
  case (Data bs)
  then show ?thesis
    using assms mqtt_handle_data_inert [of bs m] by (auto simp: minimal_step_def)
qed (use assms in \<open>auto simp: minimal_step_def mqtt_minimal_connect_def mqtt_minimal_disconnect_def
      mqtt_minimal_poll_def mqtt_minimal_publish_def Let_def split: if_splits option.splits prod.splits bool.splits\<close>)

interpretation minimal: step_invariant minimal_step
    "\<lambda>m. mc_state m \<noteq> MQTT_STATE_CONNECTED \<and> mc_state m \<noteq> MQTT_STATE_ERROR"
  by unfold_locales (rule minimal_step_state)

text \<open>
  The client never becomes connected. From its initial state, over any sequence of
  connects, disconnects, polls, publishes and received data (a broker's CONNACK
  included), the state is never CONNECTED or ERROR, because the packet type is compared
  after it was shifted down to four bits; so a poll never receives anything, and data
  handed to the client changes nothing.
\<close>

theorem minimal_never_connects:
  assumes "minimal_run es (mqtt_minimal_init sub) = Some m"
  shows "mc_state m \<in> {MQTT_STATE_DISCONNECTED, MQTT_STATE_CONNECTING} \<and>
    mqtt_minimal_poll r m = Some (True, m) \<and> (\<exists>ok. mqtt_handle_data buf m = Some (ok, m))"
  using minimal.run_inv [OF _ assms] mqtt_handle_data_inert [of buf m]
  by (cases "mc_state m") (simp_all add: mqtt_minimal_init_def mqtt_minimal_poll_def)

theorem minimal_never_connects_witness:
  "\<exists>m. minimal_run [Connect True True True (replicate 3 (Moved 20)) None None, Data [0x20, 2, 0, 0]] (mqtt_minimal_init None) = Some m \<and>
     mc_state m = MQTT_STATE_CONNECTING \<and> mqtt_minimal_poll (Received [0x20, 2, 0, 0]) m = Some (True, m)"
proof -
  let ?es = "[Connect True True True (replicate 3 (Moved 20)) None None, Data [0x20, 2, 0, 0]]"
  let ?m = "mqtt_minimal_init None"
  have len: "length (mqtt_build_connect ''motor_recorder'' None None) = 27"
    by (simp add: mqtt_build_connect_def mqtt_write_remaining_length_def remaining_digits.simps unat_of_nat)
  have "mqtt_write (replicate 3 (Moved 20)) (mqtt_build_connect ''motor_recorder'' None None) []
      = Some (True, take 20 (mqtt_build_connect ''motor_recorder'' None None) @
          drop 20 (mqtt_build_connect ''motor_recorder'' None None))"
    using len by (simp add: mqtt_write.simps numeral_eq_Suc)
  then obtain m1 where m1: "minimal_step (hd ?es) ?m = Some m1" "mc_state m1 = MQTT_STATE_CONNECTING"
    using len by (simp add: minimal_step_def mqtt_minimal_connect_def)
  moreover from m1(2) have "minimal_step (Data [0x20, 2, 0, 0]) m1 = Some m1"
    using mqtt_handle_data_inert [of "[0x20, 2, 0, 0]" m1] by (auto simp: minimal_step_def)
  ultimately have run: "minimal_run ?es ?m = Some m1"
    by simp
  then show ?thesis
    using minimal_never_connects [OF run] m1(2) by blast
qed

end
