(* ===== verification/FrameBuffer.thy ===== *)
theory FrameBuffer
  imports Prelude
begin

text \<open>
  The framebuffer hand-over of src/src/frame_router: the shared header and buffer layout of
  shm_proto.h, the producer fb_guest.c that captures the display into one of three buffers,
  and the consumer fb_host.c that copies the current buffer to a window. Memory is a
  function from addresses to bytes; the producer and consumer loops are also modelled
  load by load and store by store, as actions that can interleave in any order.
\<close>

section \<open>Layout\<close>

abbreviation (input) SHM_PAGE_SIZE :: u64 where "SHM_PAGE_SIZE \<equiv> 4096"
abbreviation (input) FB_MAGIC :: u32 where "FB_MAGIC \<equiv> 0x46425348"
abbreviation (input) FB_MAX_BUFFERS :: nat where "FB_MAX_BUFFERS \<equiv> 3"
abbreviation (input) FB_INVALID_INDEX :: nat where "FB_INVALID_INDEX \<equiv> 0xFFFFFFFF"
abbreviation (input) FB_MAX_WIDTH :: u32 where "FB_MAX_WIDTH \<equiv> 1920"
abbreviation (input) FB_MAX_HEIGHT :: u32 where "FB_MAX_HEIGHT \<equiv> 1080"
abbreviation (input) FB_BPP :: u32 where "FB_BPP \<equiv> 4"
abbreviation (input) sizeof_fb_shm_header :: nat where "sizeof_fb_shm_header \<equiv> 48"

record fb_shm_header =
  fb_magic :: u32
  fb_width :: u32
  fb_height :: u32
  fb_stride :: u32
  fb_format :: u32
  fb_frame_seq :: u32
  fb_front_index :: u32
  fb_host_reading_index :: u32
  fb_buffer_size :: u32
  fb_buffer_offset :: "u32 list"

definition fb_shm_total_size :: "u32 \<Rightarrow> u32 \<Rightarrow> u32 \<Rightarrow> u64" where
  "fb_shm_total_size width height bytes_per_pixel =
     (let stride = width * bytes_per_pixel;
          buf_sz = stride * height;
          data_sz = of_nat sizeof_fb_shm_header + ucast buf_sz * of_nat FB_MAX_BUFFERS;
          sum = SHM_PAGE_SIZE + data_sz
      in (sum + (SHM_PAGE_SIZE - 1)) AND NOT (SHM_PAGE_SIZE - 1))"

section \<open>Attaching\<close>

datatype attach_error = SignatureMismatch | NoDisplaySize | CreateFailed | MapFailed | CaptureFailed

text \<open>What the Screen library reports: the context, the number of displays, the list of displays
  and the size of the first.\<close>

record screen_query =
  sq_context_ok :: bool
  sq_displays :: int
  sq_list_ok :: bool
  sq_size :: "int \<times> int"

definition screen_query_display_size :: "screen_query \<Rightarrow> (u32 \<times> u32) option" where
  "screen_query_display_size q =
     (if \<not> sq_context_ok q \<or> sq_displays q < 1 \<or> \<not> sq_list_ok q then None
      else if fst (sq_size q) \<le> 0 \<or> snd (sq_size q) \<le> 0 then None
      else let out_width = of_int (fst (sq_size q)); out_height = of_int (snd (sq_size q))
      in if out_width > FB_MAX_WIDTH \<or> out_height > FB_MAX_HEIGHT then None
         else Some (out_width, out_height))"

text \<open>The producer's initialisation of the header, left alone when the magic is already there.\<close>

definition fb_header_attach :: "u32 \<Rightarrow> u32 \<Rightarrow> fb_shm_header \<Rightarrow> fb_shm_header" where
  "fb_header_attach disp_w disp_h hdr =
     (if fb_magic hdr = FB_MAGIC then hdr
      else let stride = disp_w * FB_BPP; buf_sz = stride * disp_h
      in hdr\<lparr>fb_width := disp_w, fb_height := disp_h, fb_stride := stride, fb_format := 1,
             fb_buffer_size := buf_sz,
             fb_buffer_offset := map (\<lambda>i. of_nat sizeof_fb_shm_header + of_nat i * buf_sz) [0..<FB_MAX_BUFFERS],
             fb_frame_seq := 0, fb_front_index := 0, fb_host_reading_index := of_nat FB_INVALID_INDEX,
             fb_magic := FB_MAGIC\<rparr>)"

record guest_shm_factory =
  gf_signature :: u64
  gf_shmem :: u64
  gf_status :: u32

text \<open>Start-up of the producer up to its loop: the display size, the pages asked for, and the header.\<close>

definition fb_guest_start ::
    "(u32 \<times> u32) option \<Rightarrow> screen_query \<Rightarrow> guest_shm_factory \<Rightarrow> bool \<Rightarrow> bool \<Rightarrow> fb_shm_header
       \<Rightarrow> attach_error + (u32 \<times> u32 \<times> u32 \<times> fb_shm_header)" where
  "fb_guest_start test_size q factory map_ok capture_ok hdr =
     (if gf_signature factory \<noteq> 0x4d534732474d5651 then Inl SignatureMismatch
      else case (case test_size of Some wh \<Rightarrow> Some wh | None \<Rightarrow> screen_query_display_size q) of
             None \<Rightarrow> Inl NoDisplaySize
           | Some (disp_w, disp_h) \<Rightarrow>
               let size_pages = ucast (fb_shm_total_size FB_MAX_WIDTH FB_MAX_HEIGHT FB_BPP div SHM_PAGE_SIZE)
               in if gf_status factory \<noteq> 0 then Inl CreateFailed
                  else if \<not> map_ok then Inl MapFailed
                  else let hdr = fb_header_attach disp_w disp_h hdr
                  in if test_size = None \<and> \<not> capture_ok then Inl CaptureFailed
                     else Inr (size_pages, disp_w, disp_h, hdr))"

section \<open>Copying frames\<close>

definition copy_bytes :: "(nat \<Rightarrow> u8) \<Rightarrow> nat \<Rightarrow> (nat \<Rightarrow> u8) \<Rightarrow> nat \<Rightarrow> nat \<Rightarrow> nat \<Rightarrow> u8" where
  "copy_bytes dst d src s n = (\<lambda>a. if d \<le> a \<and> a < d + n then src (s + (a - d)) else dst a)"

fun copy_rows :: "nat \<Rightarrow> nat \<Rightarrow> nat \<times> nat \<Rightarrow> (nat \<Rightarrow> u8) \<Rightarrow> nat \<times> nat \<Rightarrow> (nat \<Rightarrow> u8) \<Rightarrow> nat \<Rightarrow> u8" where
  "copy_rows 0 width (d, dest_stride) dst (s, src_stride) src = dst"
| "copy_rows (Suc y) width (d, dest_stride) dst (s, src_stride) src =
     copy_bytes (copy_rows y width (d, dest_stride) dst (s, src_stride) src)
       (d + y * dest_stride) src (s + y * src_stride) (width * 4)"

definition buffer_start :: "fb_shm_header \<Rightarrow> nat \<Rightarrow> nat" where
  "buffer_start hdr i = unat (fb_buffer_offset hdr ! i)"

definition screen_capture_frame :: "fb_shm_header \<Rightarrow> nat \<Rightarrow> (nat \<Rightarrow> u8) \<Rightarrow> nat \<Rightarrow> (nat \<Rightarrow> u8) \<Rightarrow> nat \<Rightarrow> u8" where
  "screen_capture_frame hdr i capture capture_stride mem =
     copy_rows (unat (fb_height hdr)) (unat (fb_width hdr))
       (buffer_start hdr i, unat (fb_stride hdr)) mem (0, capture_stride) capture"

definition screen_display_frame :: "fb_shm_header \<Rightarrow> nat \<Rightarrow> (nat \<Rightarrow> u8) \<Rightarrow> nat \<Rightarrow> (nat \<Rightarrow> u8) \<Rightarrow> nat \<Rightarrow> u8" where
  "screen_display_frame hdr i mem win_stride win =
     copy_rows (unat (fb_height hdr)) (unat (fb_width hdr))
       (0, win_stride) win (buffer_start hdr i, unat (fb_stride hdr)) mem"

text \<open>The self-test's picture: one pixel, one row, the buffer.\<close>

definition pattern_pixel :: "u32 \<Rightarrow> u32 \<Rightarrow> u32 \<Rightarrow> u8 list" where
  "pattern_pixel x y phase =
     (let v = (if ((x + y + phase) div 8) mod 2 \<noteq> 0 then 0xFF else 0x00)
      in [v, ucast (phase AND 0xFF), 0xFF - v, 0xFF])"

definition fill_test_pattern :: "nat \<Rightarrow> nat \<Rightarrow> nat \<Rightarrow> nat \<Rightarrow> u32 \<Rightarrow> (nat \<Rightarrow> u8) \<Rightarrow> nat \<Rightarrow> u8" where
  "fill_test_pattern dest width height stride phase mem =
     copy_rows height width (dest, stride) mem (0, width * 4)
       (\<lambda>a. pattern_pixel (of_nat ((a mod (width * 4)) div 4)) (of_nat (a div (width * 4))) phase ! (a mod 4))"

section \<open>The loops, access by access\<close>

text \<open>The first buffer that is neither the current one nor the one being read.\<close>

definition pick_back :: "nat \<Rightarrow> nat \<Rightarrow> nat" where
  "pick_back front reading =
     (case find (\<lambda>i. i \<noteq> front \<and> i \<noteq> reading) [0..<FB_MAX_BUFFERS] of None \<Rightarrow> FB_INVALID_INDEX | Some i \<Rightarrow> i)"

type_synonym frame = "u8 list list"

datatype guest_pc =
    GIdle
  | GFrontLoaded nat
  | GPicked nat
  | GWriting nat frame nat
  | GSeqStored nat frame

datatype host_pc =
    HIdle
  | HNewSeq
  | HSeqLoaded
  | HIndexLoaded nat
  | HCopying nat frame

record fb =
  fs_seq :: u32
  fs_front :: nat
  fs_reading :: nat
  fs_buffers :: "frame list"
  fs_guest :: guest_pc
  fs_host :: host_pc
  fs_last_seq :: u32
  fs_published :: "frame list"
  fs_shown :: "frame list"

datatype fb_action =
    GLoadFront | GLoadReading | GCaptureFails | GCapture frame | GStoreRow | GStoreSeq | GStoreFront
  | HCheckSeq | HLoadSeq | HLoadFront | HStoreReading | HLoadRow | HRelease

text \<open>One access of one side; None where that side is not at such an access. Publication is the
  store of \<open>front_index\<close>; a frame is shown when its last row has been copied.\<close>

definition guest_action :: "fb_action \<Rightarrow> fb \<Rightarrow> fb option" where
  "guest_action a s =
     (case fs_guest s of
        GIdle \<Rightarrow> if a = GLoadFront then Some (s\<lparr>fs_guest := GFrontLoaded (fs_front s)\<rparr>) else None
      | GFrontLoaded front \<Rightarrow>
          if a = GLoadReading
          then let back = pick_back front (fs_reading s)
               in Some (s\<lparr>fs_guest := if back = FB_INVALID_INDEX then GIdle else GPicked back\<rparr>)
          else None
      | GPicked b \<Rightarrow>
          (case a of
             GCaptureFails \<Rightarrow> Some (s\<lparr>fs_guest := GIdle\<rparr>)
           | GCapture frame \<Rightarrow>
               if length frame = length (fs_buffers s ! b) then Some (s\<lparr>fs_guest := GWriting b frame 0\<rparr>) else None
           | _ \<Rightarrow> None)
      | GWriting b frame k \<Rightarrow>
          if a = GStoreRow \<and> k < length frame
          then Some (s\<lparr>fs_buffers := (fs_buffers s)[b := (fs_buffers s ! b)[k := frame ! k]],
                       fs_guest := GWriting b frame (k + 1)\<rparr>)
          else if a = GStoreSeq \<and> k = length frame
          then Some (s\<lparr>fs_seq := fs_seq s + 1, fs_guest := GSeqStored b frame\<rparr>)
          else None
      | GSeqStored b frame \<Rightarrow>
          if a = GStoreFront
          then Some (s\<lparr>fs_front := b, fs_published := fs_published s @ [frame], fs_guest := GIdle\<rparr>)
          else None)"

definition host_action :: "fb_action \<Rightarrow> fb \<Rightarrow> fb option" where
  "host_action a s =
     (case fs_host s of
        HIdle \<Rightarrow>
          if a = HCheckSeq then Some (if fs_seq s \<noteq> fs_last_seq s then s\<lparr>fs_host := HNewSeq\<rparr> else s) else None
      | HNewSeq \<Rightarrow> if a = HLoadSeq then Some (s\<lparr>fs_last_seq := fs_seq s, fs_host := HSeqLoaded\<rparr>) else None
      | HSeqLoaded \<Rightarrow> if a = HLoadFront then Some (s\<lparr>fs_host := HIndexLoaded (fs_front s)\<rparr>) else None
      | HIndexLoaded idx \<Rightarrow>
          if a = HStoreReading then Some (s\<lparr>fs_reading := idx, fs_host := HCopying idx []\<rparr>) else None
      | HCopying idx rows \<Rightarrow>
          if a = HLoadRow \<and> length rows < length (fs_buffers s ! idx)
          then Some (s\<lparr>fs_host := HCopying idx (rows @ [fs_buffers s ! idx ! length rows])\<rparr>)
          else if a = HRelease \<and> length rows = length (fs_buffers s ! idx)
          then Some (s\<lparr>fs_reading := FB_INVALID_INDEX, fs_shown := fs_shown s @ [rows], fs_host := HIdle\<rparr>)
          else None)"

definition fb_do :: "fb_action \<Rightarrow> fb \<Rightarrow> fb option" where
  "fb_do a s = (case guest_action a s of Some t \<Rightarrow> Some t | None \<Rightarrow> host_action a s)"

abbreviation fb_run :: "fb_action list \<Rightarrow> fb \<Rightarrow> fb option" where
  "fb_run \<equiv> run_steps fb_do"

text \<open>After the header was initialised: \<open>blank\<close> is what the three buffers held.\<close>

definition fb_start :: "frame list \<Rightarrow> fb" where
  "fb_start blank =
     \<lparr>fs_seq = 0, fs_front = 0, fs_reading = FB_INVALID_INDEX, fs_buffers = blank,
      fs_guest = GIdle, fs_host = HIdle, fs_last_seq = - 1, fs_published = [], fs_shown = []\<rparr>"

section \<open>Which frames are shown\<close>

text \<open>In a prompt run the host announces the buffer it is about to copy within the same
  publication period in which it read \<open>front_index\<close>.\<close>

definition prompt_do :: "fb_action \<Rightarrow> fb \<Rightarrow> fb option" where
  "prompt_do a s = (if a = HStoreReading \<and> fs_host s \<noteq> HIndexLoaded (fs_front s) then None else fb_do a s)"

abbreviation prompt_run :: "fb_action list \<Rightarrow> fb \<Rightarrow> fb option" where
  "prompt_run \<equiv> run_steps prompt_do"

definition guest_target :: "guest_pc \<Rightarrow> nat option" where
  "guest_target pc = (case pc of GPicked b \<Rightarrow> Some b | GWriting b _ _ \<Rightarrow> Some b | GSeqStored b _ \<Rightarrow> Some b | _ \<Rightarrow> None)"

definition guest_ok :: "nat \<Rightarrow> fb \<Rightarrow> bool" where
  "guest_ok h s \<longleftrightarrow>
     (\<forall>b. guest_target (fs_guest s) = Some b \<longrightarrow> b < 3 \<and> b \<noteq> fs_front s) \<and>
     (case fs_guest s of
        GFrontLoaded f \<Rightarrow> f = fs_front s
      | GWriting b frame k \<Rightarrow> k \<le> h \<and> length frame = h \<and> take k (fs_buffers s ! b) = take k frame
      | GSeqStored b frame \<Rightarrow> length frame = h \<and> fs_buffers s ! b = frame
      | _ \<Rightarrow> True)"

definition host_ok :: "frame \<Rightarrow> nat \<Rightarrow> fb \<Rightarrow> bool" where
  "host_ok blank h s \<longleftrightarrow>
     (case fs_host s of
        HCopying idx rows \<Rightarrow> fs_reading s = idx \<and> idx < 3 \<and> guest_target (fs_guest s) \<noteq> Some idx \<and>
          length rows \<le> h \<and> rows = take (length rows) (fs_buffers s ! idx) \<and>
          fs_buffers s ! idx \<in> insert blank (set (fs_published s))
      | _ \<Rightarrow> True)"

definition fb_inv :: "frame \<Rightarrow> nat \<Rightarrow> fb \<Rightarrow> bool" where
  "fb_inv blank h s \<longleftrightarrow>
     length (fs_buffers s) = 3 \<and> (\<forall>b < 3. length (fs_buffers s ! b) = h) \<and> fs_front s < 3 \<and>
     fs_buffers s ! fs_front s \<in> insert blank (set (fs_published s)) \<and>
     guest_ok h s \<and> host_ok blank h s \<and>
     set (fs_shown s) \<subseteq> insert blank (set (fs_published s))"

lemma pick_back_spec: "pick_back f r < 3 \<and> pick_back f r \<noteq> f \<and> pick_back f r \<noteq> r"
  by (simp add: pick_back_def upt_rec numeral_eq_Suc)

lemma take_Suc_update:
  "k < length xs \<Longrightarrow> length xs = length ys \<Longrightarrow> take k xs = take k ys \<Longrightarrow>
     take (Suc k) (xs[k := ys ! k]) = take (Suc k) ys"
  by (simp add: take_Suc_conv_app_nth)

text \<open>The accesses of either side, each with its effect.\<close>

lemma guest_action_cases:
  assumes "guest_action a s = Some t"
  obtains (load) "fs_guest s = GIdle" "t = s\<lparr>fs_guest := GFrontLoaded (fs_front s)\<rparr>"
  | (pick) front where "fs_guest s = GFrontLoaded front" "t = s\<lparr>fs_guest := GPicked (pick_back front (fs_reading s))\<rparr>"
  | (fail) b where "fs_guest s = GPicked b" "t = s\<lparr>fs_guest := GIdle\<rparr>"
  | (capture) b frame where "fs_guest s = GPicked b" "length frame = length (fs_buffers s ! b)"
      "t = s\<lparr>fs_guest := GWriting b frame 0\<rparr>"
  | (row) b frame k where "fs_guest s = GWriting b frame k" "k < length frame"
      "t = s\<lparr>fs_buffers := (fs_buffers s)[b := (fs_buffers s ! b)[k := frame ! k]], fs_guest := GWriting b frame (k + 1)\<rparr>"
  | (seq) b frame where "fs_guest s = GWriting b frame (length frame)"
      "t = s\<lparr>fs_seq := fs_seq s + 1, fs_guest := GSeqStored b frame\<rparr>"
  | (front) b frame where "fs_guest s = GSeqStored b frame"
      "t = s\<lparr>fs_front := b, fs_published := fs_published s @ [frame], fs_guest := GIdle\<rparr>"
proof -
  have "pick_back f r \<noteq> FB_INVALID_INDEX" for f r
    using pick_back_spec [of f r] by auto
  note simps = this guest_action_def Let_def
  show thesis
  proof (cases "fs_guest s")
    case GIdle
    then show thesis using assms load by (simp add: simps split: if_splits)
  next
    case (GFrontLoaded f)
    then show thesis using assms pick by (simp add: simps split: if_splits)
  next
    case (GPicked b)
    then show thesis using assms fail capture by (auto simp: simps split: if_splits fb_action.splits)
  next
    case (GWriting b frame k)
    then show thesis using assms row seq by (simp add: simps split: if_splits)
  next
    case (GSeqStored b frame)
    then show thesis using assms front by (simp add: simps split: if_splits)
  qed
qed

lemma host_action_cases:
  assumes "host_action a s = Some t"
  obtains (idle) "fs_host s = HIdle" "t = s"
  | (new_seq) "fs_host s = HIdle" "t = s\<lparr>fs_host := HNewSeq\<rparr>"
  | (seq) "fs_host s = HNewSeq" "t = s\<lparr>fs_last_seq := fs_seq s, fs_host := HSeqLoaded\<rparr>"
  | (front) "fs_host s = HSeqLoaded" "t = s\<lparr>fs_host := HIndexLoaded (fs_front s)\<rparr>"
  | (announce) idx where "a = HStoreReading" "fs_host s = HIndexLoaded idx"
      "t = s\<lparr>fs_reading := idx, fs_host := HCopying idx []\<rparr>"
  | (row) idx rows where "fs_host s = HCopying idx rows" "length rows < length (fs_buffers s ! idx)"
      "t = s\<lparr>fs_host := HCopying idx (rows @ [fs_buffers s ! idx ! length rows])\<rparr>"
  | (release) idx rows where "fs_host s = HCopying idx rows" "length rows = length (fs_buffers s ! idx)"
      "t = s\<lparr>fs_reading := FB_INVALID_INDEX, fs_shown := fs_shown s @ [rows], fs_host := HIdle\<rparr>"
proof (cases "fs_host s")
  case HIdle
  then show thesis using assms idle new_seq by (simp add: host_action_def split: if_splits)
next
  case HNewSeq
  then show thesis using assms seq by (simp add: host_action_def split: if_splits)
next
  case HSeqLoaded
  then show thesis using assms front by (simp add: host_action_def split: if_splits)
next
  case (HIndexLoaded idx)
  then show thesis using assms announce by (simp add: host_action_def split: if_splits)
next
  case (HCopying idx rows)
  then show thesis using assms row release by (simp add: host_action_def split: if_splits)
qed

lemmas fb_inv_defs = fb_inv_def guest_ok_def host_ok_def guest_target_def

lemma guest_action_inv:
  assumes inv: "fb_inv blank h s" and act: "guest_action a s = Some t"
  shows "fb_inv blank h t"
  using act
proof (cases rule: guest_action_cases)
  case (pick front)
  then show ?thesis
    using inv pick_back_spec [of front "fs_reading s"]
    by (auto simp: fb_inv_defs split: host_pc.splits)
next
  case (row b frame k)
  then have b: "b < 3" "b \<noteq> fs_front s" "length (fs_buffers s ! b) = h" "length frame = h" "length (fs_buffers s) = 3"
      "take k (fs_buffers s ! b) = take k frame" "k < length (fs_buffers s ! b)"
    using inv by (auto simp: fb_inv_defs)
  have "take (Suc k) ((fs_buffers s ! b)[k := frame ! k]) = take (Suc k) frame"
    using b by (intro take_Suc_update) simp_all
  then show ?thesis
    using inv row b by (auto simp: fb_inv_defs nth_list_update split: host_pc.splits)
next
  case (seq b frame)
  then show ?thesis
    using inv by (auto simp: fb_inv_defs split: host_pc.splits)
next
  case (front b frame)
  then show ?thesis
    using inv by (auto simp: fb_inv_defs split: host_pc.splits)
qed (use inv in \<open>auto simp: fb_inv_defs split: host_pc.splits\<close>)

lemma host_action_inv:
  assumes inv: "fb_inv blank h s" and act: "host_action a s = Some t"
    and prompt: "a = HStoreReading \<longrightarrow> fs_host s = HIndexLoaded (fs_front s)"
  shows "fb_inv blank h t"
  using act
proof (cases rule: host_action_cases)
  case (row idx rows)
  then have "rows @ [fs_buffers s ! idx ! length rows] = take (Suc (length rows)) (fs_buffers s ! idx)"
    using inv by (auto simp: fb_inv_defs take_Suc_conv_app_nth)
  then show ?thesis
    using inv row by (auto simp: fb_inv_defs split: guest_pc.splits)
next
  case (release idx rows)
  then have "rows = fs_buffers s ! idx"
    using inv by (auto simp: fb_inv_defs)
  then show ?thesis
    using inv release by (auto simp: fb_inv_defs split: guest_pc.splits)
qed (use inv prompt in \<open>auto simp: fb_inv_defs split: guest_pc.splits\<close>)

interpretation prompt: step_invariant prompt_do "fb_inv blank h" for blank h
  by unfold_locales (auto simp: prompt_do_def fb_do_def split: if_splits option.splits
      intro: guest_action_inv host_action_inv)

lemma fb_start_inv: "length blank = 3 \<Longrightarrow> \<forall>b < 3. length (blank ! b) = h \<Longrightarrow> fb_inv (blank ! 0) h (fb_start blank)"
  by (simp add: fb_inv_defs fb_start_def)

text \<open>
  C21. No torn frame in prompt runs. Over every interleaving of the two sides in which the
  host announces the buffer it copies within the publication period it read the index
  in, each frame shown is, row for row, one the guest published in full (or what the
  first buffer held before anything was published); and the guest always finds a
  buffer to write.
\<close>

theorem prompt_frames_whole:
  assumes "prompt_run as (fb_start blank) = Some t" "length blank = 3" "\<forall>b < 3. length (blank ! b) = h"
  shows "set (fs_shown t) \<subseteq> insert (blank ! 0) (set (fs_published t)) \<and>
    pick_back (fs_front t) (fs_reading t) \<in> {0, 1, 2} - {fs_front t, fs_reading t}"
proof -
  have "pick_back (fs_front t) (fs_reading t) < 3"
    using pick_back_spec by blast
  then have "pick_back (fs_front t) (fs_reading t) \<in> {0, 1, 2}"
    by auto
  then show ?thesis
    using prompt.run_inv [OF fb_start_inv [OF assms(2,3)] assms(1)] pick_back_spec
    unfolding fb_inv_def by blast
qed

text \<open>Schedules: one whole guest publication, one whole host pass.\<close>

definition guest_pass :: "frame \<Rightarrow> fb_action list" where
  "guest_pass f = [GLoadFront, GLoadReading, GCapture f] @ replicate (length f) GStoreRow @ [GStoreSeq, GStoreFront]"

definition host_pass :: "nat \<Rightarrow> fb_action list" where
  "host_pass h = [HCheckSeq, HLoadSeq, HLoadFront, HStoreReading] @ replicate h HLoadRow @ [HRelease]"

lemma pick_back_eval: "pick_back f r = (if f \<noteq> 0 \<and> r \<noteq> 0 then 0 else if f \<noteq> 1 \<and> r \<noteq> 1 then 1 else 2)"
proof -
  have "[0..<FB_MAX_BUFFERS] = [0, 1, 2]"
    by (simp add: upt_rec)
  then show ?thesis
    by (auto simp: pick_back_def)
qed

lemma replicate_2: "replicate 2 x = [x, x]"
  by (simp add: numeral_2_eq_2)

lemmas fb_eval = fb_do_def guest_action_def host_action_def fb_start_def pick_back_eval guest_pass_def host_pass_def
  Let_def replicate_2

abbreviation (input) blank3 :: "frame list" where
  "blank3 \<equiv> [[[0], [0]], [[0], [0]], [[0], [0]]]"

theorem prompt_frames_whole_witness:
  "\<exists>t. prompt_run (guest_pass [[1], [2]] @ host_pass 2) (fb_start blank3) = Some t \<and>
     fs_shown t = [[[1], [2]]] \<and> set (fs_shown t) \<subseteq> insert [[0], [0]] (set (fs_published t))"
proof -
  let ?s = "fb_start blank3"
  have run: "\<exists>t. prompt_run (guest_pass [[1], [2]] @ host_pass 2) ?s = Some t \<and> fs_shown t = [[[1], [2]]]"
    by (simp add: fb_eval prompt_do_def)
  have "length blank3 = 3" "\<forall>b < 3. length (blank3 ! b) = 2" "blank3 ! 0 = [[0], [0]]"
    by (auto simp: less_Suc_eq numeral_3_eq_3)
  then show ?thesis
    using prompt_frames_whole [of _ blank3] run by metis
qed

text \<open>
  A torn frame can be shown. If the guest publishes once and starts its next frame
  between the host's load of the index and its announcement, it may choose the very
  buffer the host then copies: there is an interleaving after which the frame shown has
  one row of one frame and one row of another, and was never published.
\<close>

theorem torn_frame_shown:
  "\<exists>as t. fb_run as (fb_start blank3) = Some t \<and>
     fs_published t = [[[1], [1]], [[2], [2]], [[3], [3]]] \<and> fs_shown t = [[[3], [1]]] \<and>
     \<not> set (fs_shown t) \<subseteq> insert [[0], [0]] (set (fs_published t))"
  by (rule exI [of _ "guest_pass [[1], [1]] @ [HCheckSeq, HLoadSeq, HLoadFront] @ guest_pass [[2], [2]] @
       [GLoadFront, GLoadReading, GCapture [[3], [3]], GStoreRow, HStoreReading, HLoadRow, HLoadRow, HRelease,
        GStoreRow, GStoreSeq, GStoreFront]"])
    (simp add: fb_eval)

text \<open>
  The last frame can stay invisible. The guest stores the sequence number before the
  index, so a host pass in between takes the new number with the old buffer; when the
  guest then stops, the number never changes again, and however often the host checks,
  the frame on show remains the older one.
\<close>

theorem last_frame_missed:
  "\<exists>as t. fb_run as (fb_start blank3) = Some t \<and> fs_published t = [[[1], [1]], [[2], [2]]] \<and>
     last (fs_shown t) = [[1], [1]] \<and> fs_host t = HIdle \<and> fs_guest t = GIdle \<and>
     (\<forall>n. fb_run (replicate n HCheckSeq) t = Some t)"
proof -
  let ?as = "guest_pass [[1], [1]] @ host_pass 2 @
     [GLoadFront, GLoadReading, GCapture [[2], [2]], GStoreRow, GStoreRow, GStoreSeq] @ host_pass 2 @ [GStoreFront]"
  obtain t where t: "fb_run ?as (fb_start blank3) = Some t" "fs_published t = [[[1], [1]], [[2], [2]]]"
    "last (fs_shown t) = [[1], [1]]" "fs_host t = HIdle" "fs_guest t = GIdle" "fs_seq t = fs_last_seq t"
    by (simp add: fb_eval)
  have "fb_do HCheckSeq t = Some t"
    using t(4-6) by (simp add: fb_do_def guest_action_def host_action_def)
  then have "fb_run (replicate n HCheckSeq) t = Some t" for n
    by (induction n) simp_all
  then show ?thesis
    using t by blast
qed

section \<open>Pixels\<close>

lemma copy_rows_inside:
  assumes "y < h" "b < w * 4" "w * 4 \<le> ds"
  shows "copy_rows h w (d, ds) dst (s, ss) src (d + y * ds + b) = src (s + y * ss + b)"
  using assms(1)
proof (induction h)
  case 0
  then show ?case by simp
next
  case (Suc h)
  show ?case
  proof (cases "y = h")
    case True
    then show ?thesis using assms(2) by (simp add: copy_bytes_def)
  next
    case False
    then have "(y + 1) * ds \<le> h * ds"
      using Suc.prems by (intro mult_right_mono) auto
    then have "d + y * ds + b < d + h * ds"
      using assms(2,3) by (simp add: algebra_simps)
    then show ?thesis
      using Suc False by (simp add: copy_bytes_def)
  qed
qed

lemma copy_rows_outside:
  assumes "a < d \<or> d + h * ds \<le> a" "w * 4 \<le> ds"
  shows "copy_rows h w (d, ds) dst (s, ss) src a = dst a"
  using assms
proof (induction h)
  case 0
  then show ?case by simp
next
  case (Suc h)
  then show ?case
    by (auto simp: copy_bytes_def algebra_simps)
qed

text \<open>The fields of a freshly initialised header do not wrap for a display within the limits.\<close>

lemma fresh_header:
  assumes "w \<le> FB_MAX_WIDTH" "h \<le> FB_MAX_HEIGHT" "fb_magic hdr \<noteq> FB_MAGIC" "i < 3"
  defines "hdr' \<equiv> fb_header_attach w h hdr"
  shows "fb_width hdr' = w" "fb_height hdr' = h" "unat (fb_stride hdr') = unat w * 4"
    "unat (fb_buffer_size hdr') = unat w * 4 * unat h"
    "buffer_start hdr' i = 48 + i * (unat w * 4 * unat h)"
proof -
  have wh: "unat w \<le> 1920" "unat h \<le> 1080"
    using assms(1,2) by (simp_all add: word_le_nat_alt)
  have m: "unat w * 4 * unat h \<le> 1920 * 4 * 1080"
    using wh by (intro mult_mono) auto
  have stride: "unat (w * FB_BPP) = unat w * 4"
    using wh by (simp add: unat_word_ariths)
  have size: "unat (w * FB_BPP * h) = unat w * 4 * unat h"
    using m stride by (simp add: unat_word_ariths(2) [of "w * FB_BPP" h])
  have im: "i * (unat w * 4 * unat h) \<le> 2 * (1920 * 4 * 1080)"
    by (rule mult_mono) (use assms(4) m in simp_all)
  have "unat (of_nat i * (w * FB_BPP * h) :: u32) = i * (unat w * 4 * unat h)"
    using assms(4) im by (simp add: unat_word_ariths(2) [of "of_nat i"] size unat_of_nat)
  then have off: "unat (of_nat sizeof_fb_shm_header + of_nat i * (w * FB_BPP * h) :: u32) = 48 + i * (unat w * 4 * unat h)"
    using im by (simp add: unat_word_ariths(1))
  show "fb_width hdr' = w" "fb_height hdr' = h" "unat (fb_stride hdr') = unat w * 4"
    "unat (fb_buffer_size hdr') = unat w * 4 * unat h"
    "buffer_start hdr' i = 48 + i * (unat w * 4 * unat h)"
    using assms(3,4) stride size off
    by (simp_all add: hdr'_def fb_header_attach_def Let_def buffer_start_def)
qed

lemma region_pages: "fb_shm_total_size FB_MAX_WIDTH FB_MAX_HEIGHT FB_BPP = 24891392"
  by (simp add: fb_shm_total_size_def Let_def)

text \<open>
  C22. Every captured pixel reaches the window and nothing else changes. For a display
  within the limits and a fresh header, the three buffers lie behind the header, one
  after the other, inside the pages asked for; capturing into a buffer and displaying
  that buffer gives, at each pixel's byte in the window, the captured byte; and the
  capture leaves the header and the other two buffers alone.
\<close>

theorem pixels_reach_window:
  fixes capture mem :: "nat \<Rightarrow> u8" and capture_stride :: nat
  assumes "w \<le> FB_MAX_WIDTH" "h \<le> FB_MAX_HEIGHT" "fb_magic hdr \<noteq> FB_MAGIC" "i < 3" "unat w * 4 \<le> win_stride"
  defines "hdr' \<equiv> fb_header_attach w h hdr"
  defines "mem' \<equiv> screen_capture_frame hdr' i capture capture_stride mem"
  shows "48 \<le> buffer_start hdr' i \<and>
      buffer_start hdr' i + unat (fb_buffer_size hdr') \<le> unat (fb_shm_total_size FB_MAX_WIDTH FB_MAX_HEIGHT FB_BPP) - 4096 \<and>
      (\<forall>y < unat h. \<forall>b < unat w * 4.
         screen_display_frame hdr' i mem' win_stride win (y * win_stride + b) = capture (y * capture_stride + b)) \<and>
      (\<forall>a < 48. mem' a = mem a) \<and>
      (\<forall>j < 3. j \<noteq> i \<longrightarrow> (\<forall>k < unat (fb_buffer_size hdr'). mem' (buffer_start hdr' j + k) = mem (buffer_start hdr' j + k)))"
proof -
  note hd = fresh_header [OF assms(1-3), folded hdr'_def]
  let ?b = "unat w * 4 * unat h"
  have start: "buffer_start hdr' j = 48 + j * ?b" if "j < 3" for j
    using hd(5) that by simp
  have "?b \<le> 1920 * 4 * 1080"
    using assms(1,2) by (intro mult_mono) (auto simp: word_le_nat_alt)
  moreover have "i * ?b + ?b \<le> 3 * ?b"
    using assms(4) mult_le_mono1 [of "i + 1" 3 ?b] by simp
  ultimately have inside: "buffer_start hdr' i + unat (fb_buffer_size hdr') \<le> 24887296"
    using start [OF assms(4)] hd(4) [of 0] by linarith
  have pix: "screen_display_frame hdr' i mem' win_stride win (y * win_stride + b) = capture (y * capture_stride + b)"
    if "y < unat h" "b < unat w * 4" for y b
    using that assms(5) hd(1-3) [of 0]
      copy_rows_inside [of y "unat h" b "unat w" win_stride 0 win "buffer_start hdr' i" "unat w * 4" mem']
      copy_rows_inside [of y "unat h" b "unat w" "unat w * 4" "buffer_start hdr' i" mem 0 capture_stride capture]
    by (simp add: screen_display_frame_def mem'_def screen_capture_frame_def)
  have out: "mem' a = mem a" if "a < buffer_start hdr' i \<or> buffer_start hdr' i + ?b \<le> a" for a
    using that hd(1-3) [of 0] copy_rows_outside [of a "buffer_start hdr' i" "unat h" "unat w * 4" "unat w"]
    by (simp add: mem'_def screen_capture_frame_def mult.commute)
  have other: "mem' (buffer_start hdr' j + k) = mem (buffer_start hdr' j + k)"
    if "j < 3" "j \<noteq> i" "k < unat (fb_buffer_size hdr')" for j k
  proof (rule out)
    have k: "k < ?b"
      using that(3) hd(4) [of 0] by simp
    have "j * ?b + ?b \<le> i * ?b \<or> i * ?b + ?b \<le> j * ?b"
      using that(2) mult_le_mono1 [of "j + 1" i ?b] mult_le_mono1 [of "i + 1" j ?b]
      by (cases "j < i") (simp_all add: not_less)
    then show "buffer_start hdr' j + k < buffer_start hdr' i \<or> buffer_start hdr' i + ?b \<le> buffer_start hdr' j + k"
      using start that(1) assms(4) k by (simp only:) linarith
  qed
  show ?thesis
    using inside pix out other start [OF assms(4)] by (simp add: region_pages)
qed

definition zero_header :: fb_shm_header where
  "zero_header = \<lparr>fb_magic = 0, fb_width = 0, fb_height = 0, fb_stride = 0, fb_format = 0, fb_frame_seq = 0,
     fb_front_index = 0, fb_host_reading_index = 0, fb_buffer_size = 0, fb_buffer_offset = []\<rparr>"

theorem pixels_reach_window_witness:
  "screen_display_frame (fb_header_attach 2 2 zero_header) 1
      (screen_capture_frame (fb_header_attach 2 2 zero_header) 1 of_nat 8 (\<lambda>_. 0)) 16 (\<lambda>_. 0) (1 * 16 + 3)
     = of_nat (1 * 8 + 3)"
proof -
  have "\<forall>y < unat (2 :: u32). \<forall>b < unat (2 :: u32) * 4. screen_display_frame (fb_header_attach 2 2 zero_header) 1
      (screen_capture_frame (fb_header_attach 2 2 zero_header) 1 of_nat 8 (\<lambda>_. 0)) 16 (\<lambda>_. 0) (y * 16 + b)
     = of_nat (y * 8 + b)"
    using pixels_reach_window [of 2 2 zero_header 1 16 of_nat 8 "\<lambda>_. 0" "\<lambda>_. 0"]
    by (simp add: word_le_nat_alt zero_header_def)
  moreover have "1 < unat (2 :: u32)" "3 < unat (2 :: u32) * 4"
    by simp_all
  ultimately show ?thesis
    by blast
qed

end
