(* ===== verification/HmsGuest.thy ===== *)
theory HmsGuest
  imports CText
begin

text \<open>
  The guests of src/src/Hypervisor_Management_System: their type, boot image and metadata
  (guest/guest.c), starting and killing them (guest/lifecycle.c), discovering them and their
  host names (guest/discoverer.c) and the manager's own configuration (config/config.c). The
  file system is a map from paths to texts; directory listings, processes and the results of
  system calls are inputs.
\<close>

section \<open>Guests\<close>

datatype guest_type = GUEST_QNX | GUEST_LINUX | GUEST_ANDROID | GUEST_UNKNOWN

datatype guest_state = GUEST_RUNNING | GUEST_STOPPED | GUEST_CRASHED

record guest =
  g_id :: string
  g_name :: string
  g_type :: guest_type
  g_state :: guest_state
  g_pid :: int
  g_conf_path :: string
  g_boot_path :: string
  g_rootfs_path :: string
  g_ip :: string
  g_ssh_user :: string
  g_ssh_password :: string
  g_ssh_key :: string
  g_ssh_port :: int
  g_name_ts :: int

type_synonym files = "string \<Rightarrow> string option"

definition guest_type_str :: "guest_type \<Rightarrow> string" where
  "guest_type_str t = (case t of GUEST_QNX \<Rightarrow> ''qnx'' | GUEST_LINUX \<Rightarrow> ''linux'' | GUEST_ANDROID \<Rightarrow> ''android'' |
     GUEST_UNKNOWN \<Rightarrow> ''unknown'')"

definition guest_state_str :: "guest_state \<Rightarrow> string" where
  "guest_state_str s = (case s of GUEST_RUNNING \<Rightarrow> ''running'' | GUEST_STOPPED \<Rightarrow> ''stopped'' | GUEST_CRASHED \<Rightarrow> ''crashed'')"

fun type_of_lines :: "string list \<Rightarrow> guest_type" where
  "type_of_lines [] = GUEST_UNKNOWN"
| "type_of_lines (line # rest) =
     (if strstr line ''kernel '' \<or> strstr line ''kernel='' then GUEST_LINUX
      else if strstr line ''bootimg '' \<or> strstr line ''bootimg='' then GUEST_ANDROID
      else if strstr line ''load '' \<or> strstr line (''load'' @ [TAB]) then GUEST_QNX
      else type_of_lines rest)"

definition guest_type_from_conf :: "files \<Rightarrow> string \<Rightarrow> guest_type" where
  "guest_type_from_conf fs conf_path =
     (case fs conf_path of None \<Rightarrow> GUEST_UNKNOWN | Some txt \<Rightarrow> type_of_lines (conf_lines txt))"

text \<open>\<open>strtok(s, " \<backslash>t\<backslash>r\<backslash>n")\<close>, the first token.\<close>

definition first_token :: "string \<Rightarrow> string option" where
  "first_token s =
     (let delim = (\<lambda>c. c = CHR '' '' \<or> c = TAB \<or> c = CHR 0x0D \<or> c = NEWLINE); t = dropWhile delim s
      in if t = [] then None else Some (takeWhile (\<lambda>c. \<not> delim c) t))"

definition boot_directive :: "string \<Rightarrow> string option" where
  "boot_directive p =
     (if prefix ''load '' p then
        (case first_token (drop 5 p) of Some tok \<Rightarrow> if strstr tok ''.ifs'' then Some tok else None | None \<Rightarrow> None)
      else if prefix ''kernel '' p then
        (case first_token (drop 7 p) of
           Some tok \<Rightarrow> if strstr tok ''.img'' \<or> prefix ''vmlinuz'' tok then Some tok else None
         | None \<Rightarrow> None)
      else if prefix ''bootimg '' p then first_token (drop 8 p)
      else None)"

definition boot_entry :: "string \<Rightarrow> bool" where
  "boot_entry name \<longleftrightarrow> \<not> prefix ''.'' name \<and>
     (strstr name ''.ifs'' \<or> name = ''boot.img'' \<or> name = ''bootimg'' \<or> prefix ''vmlinuz'' name)"

text \<open>The directive of the configuration, else the first fitting name of the guest's directory.\<close>

definition guest_boot_image :: "files \<Rightarrow> string list option \<Rightarrow> string \<Rightarrow> nat \<Rightarrow> string option" where
  "guest_boot_image fs dir conf_path sz =
     (case (case fs conf_path of
              None \<Rightarrow> None
            | Some txt \<Rightarrow> find (\<lambda>d. d \<noteq> None) (map (\<lambda>l. boot_directive (skip_blanks (cstr l))) (fgets_lines 512 txt))) of
        Some (Some tok) \<Rightarrow> Some (bounded_copy sz (bounded_copy 256 tok))
      | _ \<Rightarrow>
          (case dir of
             None \<Rightarrow> None
           | Some names \<Rightarrow> map_option (\<lambda>n. bounded_copy sz (bounded_copy 256 n)) (find boot_entry names)))"

definition guest_meta_conf :: "string \<Rightarrow> string" where
  "guest_meta_conf gid = bounded_copy 256 (''/guests/'' @ gid @ ''/.hms_metadata'')"

section \<open>Metadata\<close>

text \<open>\<open>meta_set\<close>: rewrite the line of the key, or add one. At most 64 lines are read.\<close>

definition meta_text :: "string \<Rightarrow> string \<Rightarrow> string list \<Rightarrow> string" where
  "meta_text key val lines =
     concat (map (\<lambda>l. if key_matches key l then key @ ''='' @ val @ [NEWLINE] else l) lines) @
     (if list_ex (key_matches key) lines then [] else key @ ''='' @ val @ [NEWLINE])"

definition meta_lines :: "files \<Rightarrow> string \<Rightarrow> string list" where
  "meta_lines fs path = (case fs path of None \<Rightarrow> [] | Some txt \<Rightarrow> take 64 (conf_lines txt))"

definition meta_set :: "bool \<Rightarrow> bool \<Rightarrow> string \<Rightarrow> string \<Rightarrow> string \<Rightarrow> files \<Rightarrow> files" where
  "meta_set fopen_ok rename_ok gid key val fs =
     (let path = guest_meta_conf gid; tmp = bounded_copy 264 (path @ ''.tmp'')
      in if \<not> fopen_ok then fs
         else let out = meta_text key val (meta_lines fs path)
         in if rename_ok then fs(tmp := None, path \<mapsto> out) else fs(tmp \<mapsto> out))"

text \<open>\<open>atoi\<close>: the low 32 bits of the number read, as a signed value (numbers beyond 63 bits are
  not defined by C).\<close>

definition atoi :: "string \<Rightarrow> int" where
  "atoi s = sint (ucast (strtoul s) :: u32)"

definition trim_line :: "string \<Rightarrow> string" where
  "trim_line line = takeWhile (\<lambda>c. c \<noteq> NEWLINE) (skip_blanks line)"

record conf_network =
  cn_ip :: string
  cn_user :: string
  cn_pass :: string
  cn_key :: string
  cn_port :: int
  cn_pid :: int

definition parse_conf_line :: "string \<Rightarrow> conf_network \<Rightarrow> conf_network" where
  "parse_conf_line line n =
     (let val = trim_line line
      in if val = [] then n
         else let val = (if hd val = CHR ''#'' then trim_line (tl val) else val)
         in if prefix ''ip='' val then n\<lparr>cn_ip := bounded_copy 64 (skip_blanks (drop 3 val))\<rparr>
            else if prefix ''ssh_user='' val then n\<lparr>cn_user := bounded_copy 64 (skip_blanks (drop 9 val))\<rparr>
            else if prefix ''ssh_password='' val then n\<lparr>cn_pass := bounded_copy 128 (skip_blanks (drop 13 val))\<rparr>
            else if prefix ''ssh_port='' val then n\<lparr>cn_port := atoi (drop 9 val)\<rparr>
            else if prefix ''ssh_key='' val then n\<lparr>cn_key := bounded_copy 512 (skip_blanks (drop 8 val))\<rparr>
            else if prefix ''pid='' val then n\<lparr>cn_pid := atoi (drop 4 val)\<rparr>
            else n)"

definition parse_conf_network :: "files \<Rightarrow> string \<Rightarrow> conf_network \<Rightarrow> conf_network" where
  "parse_conf_network fs path n = (case fs path of None \<Rightarrow> n | Some txt \<Rightarrow> fold parse_conf_line (conf_lines txt) n)"

section \<open>Starting and killing\<close>

text \<open>What the child process is started with: its directory, its log and the argument of \<open>qvm\<close>.\<close>

definition qvm_launch :: "guest \<Rightarrow> string \<times> string \<times> string" where
  "qvm_launch g =
     (bounded_copy 256 (''/guests/'' @ g_id g), bounded_copy 256 (''/guests/'' @ g_id g @ ''/qvm.log''),
      bounded_copy 256 (''@'' @ take 254 (basename (g_conf_path g))))"

record start_io =
  si_fork :: "int option"
  si_meta_fopen_ok :: bool
  si_meta_rename_ok :: bool
  si_alive :: bool

text \<open>The result code, the processes launched and the files after. The parent records the process id,
  removes the old pid file and looks whether the child still exists.\<close>

definition guest_start :: "start_io \<Rightarrow> guest \<Rightarrow> files \<Rightarrow> int \<times> (int \<times> string \<times> string \<times> string) list \<times> files" where
  "guest_start io g fs =
     (if g_state g = GUEST_RUNNING then (0, [], fs)
      else if fs (g_conf_path g) = None then (- 1, [], fs)
      else case si_fork io of
             None \<Rightarrow> (- 1, [], fs)
           | Some pid \<Rightarrow>
               let fs = meta_set (si_meta_fopen_ok io) (si_meta_rename_ok io) (g_id g) ''pid'' (dec_int pid) fs;
                   fs = fs(bounded_copy 256 (''/guests/'' @ g_id g @ ''/qvm.pid'') := None)
               in (if si_alive io then 0 else - 1, [(pid, qvm_launch g)], fs))"

record kill_io =
  ki_kill_ok :: bool
  ki_meta_fopen_ok :: bool
  ki_meta_rename_ok :: bool

text \<open>The result code, the process ids sent SIGKILL, and the files after.\<close>

definition guest_kill :: "kill_io \<Rightarrow> guest \<Rightarrow> files \<Rightarrow> int \<times> int list \<times> files" where
  "guest_kill io g fs =
     (if g_state g \<noteq> GUEST_RUNNING \<or> g_pid g \<le> 0 then (- 1, [], fs)
      else if \<not> ki_kill_ok io then (- 1, [g_pid g], fs)
      else let fs = meta_set (ki_meta_fopen_ok io) (ki_meta_rename_ok io) (g_id g) ''pid'' ''0'' fs
      in (0, [g_pid g], fs(bounded_copy 256 (''/guests/'' @ g_id g @ ''/qvm.pid'') := None)))"

definition set_ip_line :: "string \<Rightarrow> string \<Rightarrow> bool" where
  "set_ip_line ip line \<longleftrightarrow>
     (let p = skip_blanks line; p = (if prefix ''#'' p then tl p else p); p = skip_blanks p
      in prefix ''ip='' p \<and> strstr p ip)"

definition guest_set_ip :: "bool \<Rightarrow> bool \<Rightarrow> guest \<Rightarrow> files \<Rightarrow> files" where
  "guest_set_ip fopen_ok rename_ok g fs =
     (if (case fs (guest_meta_conf (g_id g)) of
            None \<Rightarrow> False
          | Some txt \<Rightarrow> list_ex (set_ip_line (g_ip g)) (conf_lines txt))
      then fs
      else meta_set fopen_ok rename_ok (g_id g) ''ip'' (g_ip g) fs)"

definition guest_restart :: "kill_io \<Rightarrow> start_io \<Rightarrow> guest \<Rightarrow> files \<Rightarrow> int \<times> int list \<times> (int \<times> string \<times> string \<times> string) list \<times> files" where
  "guest_restart k io g fs =
     (case guest_kill k g fs of (_, killed, fs) \<Rightarrow>
      case guest_start io g fs of (rc, launched, fs) \<Rightarrow> (rc, killed, launched, fs))"

section \<open>Discovery\<close>

text \<open>The cache of host names: 16 slots, each an id and a name; a slot with an empty id is free.\<close>

type_synonym name_cache = "(string \<times> string) list"

definition name_cache_get :: "name_cache \<Rightarrow> string \<Rightarrow> string option" where
  "name_cache_get c gid =
     (case find (\<lambda>(i, n). i \<noteq> [] \<and> i = gid) c of
        None \<Rightarrow> None
      | Some (i, n) \<Rightarrow> if n \<noteq> [] then Some n else None)"

fun cache_replace :: "string \<Rightarrow> string option \<Rightarrow> name_cache \<Rightarrow> name_cache option" where
  "cache_replace gid name [] = None"
| "cache_replace gid name ((i, n) # c) =
     (if i \<noteq> [] \<and> i = gid
      then Some ((case name of None \<Rightarrow> ([], n) | Some s \<Rightarrow> (i, bounded_copy 64 s)) # c)
      else map_option ((#) (i, n)) (cache_replace gid name c))"

fun cache_insert :: "string \<Rightarrow> string option \<Rightarrow> name_cache \<Rightarrow> name_cache" where
  "cache_insert gid name [] = []"
| "cache_insert gid name ((i, n) # c) =
     (if i = [] then (bounded_copy 32 gid, case name of None \<Rightarrow> n | Some s \<Rightarrow> bounded_copy 64 s) # c
      else (i, n) # cache_insert gid name c)"

definition name_cache_put :: "string \<Rightarrow> string option \<Rightarrow> name_cache \<Rightarrow> name_cache" where
  "name_cache_put gid name c =
     (case cache_replace gid name c of Some c' \<Rightarrow> c' | None \<Rightarrow> cache_insert gid name c)"

definition path_join :: "nat \<Rightarrow> string \<Rightarrow> string \<Rightarrow> string" where
  "path_join out_sz a b = take (out_sz - 1) (take (out_sz - 1) (cstr a) @ cstr b)"

text \<open>What a directory holds, by its path; None where it cannot be opened.\<close>

type_synonym dirs = "string \<Rightarrow> string list option"

definition discover_one :: "files \<Rightarrow> dirs \<Rightarrow> string \<Rightarrow> guest" where
  "discover_one fs ds dir_name =
     (let dir_path = path_join 256 ''/guests/'' dir_name;
          meta_file = path_join 256 dir_path ''/.hms_metadata'';
          conf0 = path_join 256 dir_path ''/guest.conf'';
          conf = (case ds dir_path of
                    None \<Rightarrow> conf0
                  | Some names \<Rightarrow>
                      (case find (\<lambda>n. strstr n ''.qvmconf'') names of
                         None \<Rightarrow> conf0
                       | Some n \<Rightarrow> path_join 256 (path_join 256 dir_path ''/'') n));
          boot = path_join 256 dir_path ''/boot.img'';
          gid = bounded_copy 32 dir_name;
          net0 = \<lparr>cn_ip = [], cn_user = ''root'', cn_pass = [], cn_key = [], cn_port = 22, cn_pid = 0\<rparr>;
          found = (fs conf \<noteq> None);
          net = (if found then parse_conf_network fs meta_file net0 else net0)
      in \<lparr>g_id = gid, g_name = [],
          g_type = (if found then guest_type_from_conf fs conf else GUEST_QNX),
          g_state = GUEST_STOPPED, g_pid = cn_pid net, g_conf_path = conf,
          g_boot_path = (if found
            then (case guest_boot_image fs (ds (bounded_copy 256 (''/guests/'' @ gid))) conf 256 of
                    None \<Rightarrow> boot | Some b \<Rightarrow> b)
            else boot),
          g_rootfs_path = path_join 256 dir_path ''/rootfs.img'',
          g_ip = cn_ip net, g_ssh_user = cn_user net, g_ssh_password = cn_pass net, g_ssh_key = cn_key net,
          g_ssh_port = cn_port net, g_name_ts = 0\<rparr>)"

text \<open>\<open>utils/proc.c\<close>: the command line of a process, its NUL separators shown as blanks. \<open>procs\<close> gives
  the bytes of \<open>/proc/<pid>/cmdline\<close> of each live process.\<close>

definition read_proc_cmdline :: "nat \<Rightarrow> string option \<Rightarrow> string option" where
  "read_proc_cmdline bufsz raw =
     (case raw of
        None \<Rightarrow> None
      | Some bs \<Rightarrow>
          let buf = take (bufsz - 1) bs
          in if buf = [] then None
             else Some (cstr (map (\<lambda>c. if c = NUL then CHR '' '' else c) (butlast buf) @ [last buf])))"

definition pid_entry :: "string \<Rightarrow> bool" where
  "pid_entry name \<longleftrightarrow> name \<noteq> [] \<and> is_digit (hd name)"

definition scan_proc :: "nat \<Rightarrow> string list option \<Rightarrow> int list" where
  "scan_proc max_pids dir =
     (case dir of None \<Rightarrow> [] | Some names \<Rightarrow> map atoi (take max_pids (filter pid_entry names)))"

definition refresh_guest_state :: "files \<Rightarrow> (int \<Rightarrow> string option) \<Rightarrow> guest \<Rightarrow> guest" where
  "refresh_guest_state fs procs g =
     (let g = g\<lparr>g_state := GUEST_STOPPED, g_pid := 0\<rparr>;
          pid = cn_pid (parse_conf_network fs (guest_meta_conf (g_id g))
                  \<lparr>cn_ip = [], cn_user = [], cn_pass = [], cn_key = [], cn_port = 0, cn_pid = 0\<rparr>)
      in if pid \<le> 0 then g
         else case read_proc_cmdline 4096 (procs pid) of
                None \<Rightarrow> g
              | Some cmdline \<Rightarrow>
                  if strstr cmdline ''qvm'' then g\<lparr>g_pid := pid, g_state := GUEST_RUNNING\<rparr> else g)"

definition guest_entry :: "dirs \<Rightarrow> string \<Rightarrow> bool" where
  "guest_entry ds name \<longleftrightarrow>
     \<not> prefix ''.'' name \<and> prefix ''guest-'' name \<and> ds (bounded_copy 256 (''/guests/'' @ name)) \<noteq> None"

definition discover_guests :: "files \<Rightarrow> dirs \<Rightarrow> (int \<Rightarrow> string option) \<Rightarrow> guest list" where
  "discover_guests fs ds procs =
     (case ds ''/guests'' of
        None \<Rightarrow> []
      | Some names \<Rightarrow>
          map (\<lambda>n. refresh_guest_state fs procs (discover_one fs ds n)) (take 16 (filter (guest_entry ds) names)))"

text \<open>Fetching the host name; \<open>answer\<close> is what the guest would say over SSH. The third component is
  whether it was asked.\<close>

definition strip_end :: "string \<Rightarrow> string" where
  "strip_end s = rev (dropWhile (\<lambda>c. c = NEWLINE \<or> c = CHR 0x0D \<or> c = CHR '' '' \<or> c = TAB) (rev s))"

definition refresh_guest_name :: "int \<Rightarrow> string option \<Rightarrow> guest \<times> name_cache \<Rightarrow> guest \<times> name_cache \<times> bool" where
  "refresh_guest_name now answer gc =
     (case gc of (g, c) \<Rightarrow>
        (let cached = name_cache_get c (g_id g)
         in if g_state g \<noteq> GUEST_RUNNING \<or> g_ip g = []
            then (g\<lparr>g_name := [], g_name_ts := 0\<rparr>, if cached \<noteq> None then name_cache_put (g_id g) None c else c, False)
            else case cached of
                   Some n \<Rightarrow> (g\<lparr>g_name := bounded_copy 64 n\<rparr>, c, False)
                 | None \<Rightarrow>
                     if now - g_name_ts g < 10 then (g, c, False)
                     else let g = g\<lparr>g_name_ts := now\<rparr>
                     in case answer of
                          None \<Rightarrow> (g, c, True)
                        | Some out \<Rightarrow>
                            let s = strip_end (cstr out);
                                name = (if 0 < length s \<and> length s < 64 then s
                                        else if length s = 0 then [] else take 63 (g_name g));
                                g = g\<lparr>g_name := name\<rparr>
                            in (g, if name \<noteq> [] then name_cache_put (g_id g) (Some name) c else c, True)))"

definition find_guest :: "guest list \<Rightarrow> string \<Rightarrow> guest option" where
  "find_guest gs gid = find (\<lambda>g. g_id g = gid) gs"

section \<open>The manager's configuration\<close>

record hms_config =
  hc_guests_path :: string
  hc_ssh_user :: string
  hc_ssh_password :: string
  hc_ssh_port :: int
  hc_ssh_key :: string
  hc_refresh_interval :: int
  hc_ota_server :: string
  hc_ota_key :: string

definition hms_config_defaults :: hms_config where
  "hms_config_defaults = \<lparr>hc_guests_path = ''/guests'', hc_ssh_user = ''root'', hc_ssh_password = [],
     hc_ssh_port = 22, hc_ssh_key = [], hc_refresh_interval = 5,
     hc_ota_server = ''maxmaster@139.185.38.211'', hc_ota_key = ''/.ssh/id_ed25519''\<rparr>"

definition hms_config_line :: "string \<Rightarrow> hms_config \<Rightarrow> hms_config" where
  "hms_config_line line c =
     (if prefix ''#'' line \<or> prefix [NEWLINE] line then c
      else let line = takeWhile (\<lambda>c. c \<noteq> NEWLINE) line
      in if prefix ''guests_path='' line then c\<lparr>hc_guests_path := bounded_copy 256 (drop 12 line)\<rparr>
         else if prefix ''ssh_user='' line then c\<lparr>hc_ssh_user := bounded_copy 64 (drop 9 line)\<rparr>
         else if prefix ''ssh_password='' line then c\<lparr>hc_ssh_password := bounded_copy 128 (drop 13 line)\<rparr>
         else if prefix ''ssh_port='' line then c\<lparr>hc_ssh_port := atoi (drop 9 line)\<rparr>
         else if prefix ''ssh_key='' line then c\<lparr>hc_ssh_key := bounded_copy 512 (drop 8 line)\<rparr>
         else if prefix ''refresh_interval='' line then c\<lparr>hc_refresh_interval := atoi (drop 17 line)\<rparr>
         else if prefix ''ota_server='' line then c\<lparr>hc_ota_server := bounded_copy 256 (drop 11 line)\<rparr>
         else if prefix ''ota_server_key='' line then c\<lparr>hc_ota_key := bounded_copy 512 (drop 15 line)\<rparr>
         else c)"

definition config_load :: "string option \<Rightarrow> hms_config" where
  "config_load conf =
     (case conf of
        None \<Rightarrow> hms_config_defaults
      | Some txt \<Rightarrow> fold hms_config_line (conf_lines txt) hms_config_defaults)"

definition apply_defaults :: "hms_config \<Rightarrow> guest \<Rightarrow> guest" where
  "apply_defaults cfg g =
     (let g = (if g_ssh_port g \<le> 0 then g\<lparr>g_ssh_port := hc_ssh_port cfg\<rparr> else g);
          g = (if g_ssh_user g = [] then g\<lparr>g_ssh_user := hc_ssh_user cfg\<rparr> else g);
          g = (if g_ssh_password g = [] \<and> hc_ssh_password cfg \<noteq> [] then g\<lparr>g_ssh_password := hc_ssh_password cfg\<rparr> else g)
      in if g_ssh_key g = [] \<and> hc_ssh_key cfg \<noteq> [] then g\<lparr>g_ssh_key := hc_ssh_key cfg\<rparr> else g)"

section \<open>Setting the process id\<close>

definition pid_line :: "nat \<Rightarrow> string" where
  "pid_line v = ''pid='' @ dec v @ [NEWLINE]"

definition set_pid :: "nat \<Rightarrow> string \<Rightarrow> string" where
  "set_pid v l = (if key_matches ''pid'' l then pid_line v else l)"

definition comment_free :: "string list \<Rightarrow> bool" where
  "comment_free ls \<longleftrightarrow> (\<forall>l \<in> set ls. \<not> prefix ''#'' (skip_blanks l))"

lemma atoi_dec:
  assumes "n < 2 ^ 31"
  shows "atoi (dec n) = int n"
proof -
  have "strtoul (dec n) = of_nat n"
    using strtoul_dec [of n "[]"] assms by simp
  moreover have "(ucast (of_nat n :: u64) :: u32) = of_nat n"
    using assms by (simp add: word_unat_eq_iff unsigned_ucast_eq unat_of_nat take_bit_nat_eq_self)
  ultimately show ?thesis
    using assms by (simp add: atoi_def signed_of_nat signed_take_bit_int_eq_self)
qed

lemma dec_no_newline: "c \<in> set (dec n) \<Longrightarrow> c \<noteq> NEWLINE"
  using digit_not_space [OF is_digit_dec] by blast

lemma trim_pid_line: "trim_line (pid_line v) = ''pid='' @ dec v"
proof -
  have "takeWhile (\<lambda>c. c \<noteq> NEWLINE) (dec v @ [NEWLINE]) = dec v"
    using dec_no_newline by (subst takeWhile_append2) auto
  then show ?thesis
    by (simp add: trim_line_def pid_line_def skip_blanks_def)
qed

lemma parse_pid_line: "v < 2 ^ 31 \<Longrightarrow> parse_conf_line (pid_line v) n = n\<lparr>cn_pid := int v\<rparr>"
  by (simp add: parse_conf_line_def trim_pid_line atoi_dec)

lemma parse_pid_match:
  assumes "key_matches ''pid'' l"
  shows "\<exists>p. parse_conf_line l n = n\<lparr>cn_pid := p\<rparr>"
proof -
  obtain s where "skip_blanks l = ''pid='' @ s"
    using assms by (auto simp: key_matches_def prefix_def)
  then have "trim_line l = ''pid='' @ takeWhile (\<lambda>c. c \<noteq> NEWLINE) s"
    by (simp add: trim_line_def)
  then show ?thesis
    by (simp add: parse_conf_line_def exI)
qed

lemma trim_line_prefix:
  "NEWLINE \<notin> set p \<Longrightarrow> prefix p (trim_line l) \<longleftrightarrow> prefix p (skip_blanks l)"
  unfolding trim_line_def
proof (induction p arbitrary: l)
  case (Cons c p)
  have "prefix (c # p) (takeWhile (\<lambda>c. c \<noteq> NEWLINE) s) \<longleftrightarrow> prefix (c # p) s" for s
    using Cons.prems
  proof (induction "c # p" arbitrary: c p s)
    case (Cons c p)
    then show ?case
      by (cases s; cases p) auto
  qed
  then show ?case .
qed simp

text \<open>A line that is neither a comment nor the key leaves the process id alone.\<close>

lemma parse_other_line:
  assumes "\<not> key_matches ''pid'' l" "\<not> prefix ''#'' (skip_blanks l)"
  shows "parse_conf_line l (n\<lparr>cn_pid := v\<rparr>) = (parse_conf_line l n)\<lparr>cn_pid := v\<rparr>"
proof -
  have "\<not> prefix ''pid='' (trim_line l)" "\<not> prefix ''#'' (trim_line l)"
    using assms trim_line_prefix [of "''pid=''" l] trim_line_prefix [of "''#''" l] by (simp_all add: key_matches_def)
  moreover from this(2) have "trim_line l \<noteq> [] \<Longrightarrow> hd (trim_line l) \<noteq> CHR ''#''"
    by (cases "trim_line l") auto
  ultimately show ?thesis
    by (simp add: parse_conf_line_def Let_def)
qed

lemma fold_set_pid:
  assumes "v < 2 ^ 31" "comment_free ls" "m\<lparr>cn_pid := int v\<rparr> = n\<lparr>cn_pid := int v\<rparr>"
  shows "(fold parse_conf_line (map (set_pid v) ls) m)\<lparr>cn_pid := int v\<rparr> = (fold parse_conf_line ls n)\<lparr>cn_pid := int v\<rparr>"
  using assms(2,3)
proof (induction ls arbitrary: m n)
  case (Cons l ls)
  have "(parse_conf_line (set_pid v l) m)\<lparr>cn_pid := int v\<rparr> = (parse_conf_line l n)\<lparr>cn_pid := int v\<rparr>"
  proof (cases "key_matches ''pid'' l")
    case True
    then obtain p where "parse_conf_line l n = n\<lparr>cn_pid := p\<rparr>"
      using parse_pid_match by blast
    then show ?thesis
      using True Cons.prems(2) by (simp add: set_pid_def parse_pid_line [OF assms(1)])
  next
    case False
    then have "parse_conf_line l (k\<lparr>cn_pid := int v\<rparr>) = (parse_conf_line l k)\<lparr>cn_pid := int v\<rparr>" for k
      using Cons.prems(1) by (intro parse_other_line) (auto simp: comment_free_def)
    then show ?thesis
      using False Cons.prems(2) by (metis set_pid_def)
  qed
  then show ?case
    using Cons by (simp add: comment_free_def)
qed simp

lemma fold_keeps_pid:
  assumes "v < 2 ^ 31" "comment_free ls" "cn_pid m = int v \<or> list_ex (key_matches ''pid'') ls"
  shows "cn_pid (fold parse_conf_line (map (set_pid v) ls) m) = int v"
  using assms(2,3)
proof (induction ls arbitrary: m)
  case (Cons l ls)
  have "cn_pid (parse_conf_line (set_pid v l) m) = int v" if "cn_pid m = int v \<or> key_matches ''pid'' l"
  proof (cases "key_matches ''pid'' l")
    case True
    then show ?thesis by (simp add: set_pid_def parse_pid_line [OF assms(1)])
  next
    case False
    then have "parse_conf_line l (m\<lparr>cn_pid := int v\<rparr>) = (parse_conf_line l m)\<lparr>cn_pid := int v\<rparr>"
      using Cons.prems(1) by (intro parse_other_line) (auto simp: comment_free_def)
    moreover have "m\<lparr>cn_pid := int v\<rparr> = m"
      using that False by (cases m) auto
    ultimately have "parse_conf_line l m = (parse_conf_line l m)\<lparr>cn_pid := int v\<rparr>"
      by simp
    then show ?thesis
      using False by (metis conf_network.select_convs(6) conf_network.surjective conf_network.update_convs(6) set_pid_def)
  qed
  then show ?case
    using Cons by (auto simp: comment_free_def)
qed simp

lemma pid_line_plain: "v < 2 ^ 31 \<Longrightarrow> is_line 256 (pid_line v) \<and> NUL \<notin> set (pid_line v)"
  using rewritten_line_plain [of "''pid''" "of_nat v"]
  by (simp add: pid_line_def key_ok_def unat_of_nat take_bit_nat_eq_self)

lemma set_pid_comment_free: "comment_free ls \<Longrightarrow> comment_free (map (set_pid v) ls)"
  by (auto simp: comment_free_def set_pid_def pid_line_def skip_blanks_def)

lemma set_pid_plain: "v < 2 ^ 31 \<Longrightarrow> plain_file ls \<Longrightarrow> plain_file (map (set_pid v) ls)"
  using pid_line_plain [of v] by (auto simp: plain_file_def set_pid_def)

lemma key_matches_set_pid: "list_ex (key_matches ''pid'') (map (set_pid v) ls) = list_ex (key_matches ''pid'') ls"
  by (induction ls) (auto simp: set_pid_def pid_line_def key_matches_def skip_blanks_def)

definition pid_lines :: "nat \<Rightarrow> string list \<Rightarrow> string list" where
  "pid_lines v ls = map (set_pid v) ls @ (if list_ex (key_matches ''pid'') ls then [] else [pid_line v])"

lemma pid_lines_ok:
  assumes "v < 2 ^ 31" "plain_file ls" "comment_free ls"
  shows "plain_file (pid_lines v ls)" "comment_free (pid_lines v ls)" "list_ex (key_matches ''pid'') (pid_lines v ls)"
proof -
  show "plain_file (pid_lines v ls)"
    using set_pid_plain [OF assms(1,2)] pid_line_plain [OF assms(1)] by (auto simp: pid_lines_def plain_file_def)
  show "comment_free (pid_lines v ls)"
    using set_pid_comment_free [OF assms(3)] by (auto simp: pid_lines_def comment_free_def pid_line_def skip_blanks_def)
  show "list_ex (key_matches ''pid'') (pid_lines v ls)"
    by (auto simp: pid_lines_def key_matches_set_pid) (simp add: key_matches_def pid_line_def skip_blanks_def)
qed

lemma length_pid_lines: "length (pid_lines v ls) \<le> length ls + 1"
  "list_ex (key_matches ''pid'') ls \<Longrightarrow> length (pid_lines v ls) = length ls"
  by (simp_all add: pid_lines_def)

lemma parse_pid_lines:
  assumes "v < 2 ^ 31" "comment_free ls"
  shows "fold parse_conf_line (pid_lines v ls) n = (fold parse_conf_line ls n)\<lparr>cn_pid := int v\<rparr>"
proof -
  let ?f = "fold parse_conf_line (map (set_pid v) ls) n"
  have eq: "?f\<lparr>cn_pid := int v\<rparr> = (fold parse_conf_line ls n)\<lparr>cn_pid := int v\<rparr>"
    by (rule fold_set_pid [OF assms refl])
  show ?thesis
  proof (cases "list_ex (key_matches ''pid'') ls")
    case True
    then have "cn_pid ?f = int v"
      using fold_keeps_pid [OF assms] by blast
    then have "?f\<lparr>cn_pid := int v\<rparr> = ?f"
      by (cases ?f) simp
    then show ?thesis
      using eq True by (simp add: pid_lines_def)
  next
    case False
    then show ?thesis
      using eq by (simp add: pid_lines_def parse_pid_line [OF assms(1)])
  qed
qed

lemma meta_text_pid: "meta_text ''pid'' (dec v) ls = concat (pid_lines v ls)"
  unfolding meta_text_def pid_lines_def set_pid_def pid_line_def by (simp cong: if_cong)

text \<open>Writing the process id to a metadata file of plain lines.\<close>

lemma meta_set_pid:
  assumes "v < 2 ^ 31" "fs (guest_meta_conf gid) = Some (concat ls)" "plain_file ls" "comment_free ls" "length ls \<le> 64"
    "a = dec v"
  shows "meta_set True True gid ''pid'' a fs (guest_meta_conf gid) = Some (concat (pid_lines v ls))"
    "fs' (guest_meta_conf gid) = Some (concat (pid_lines v ls)) \<Longrightarrow>
       parse_conf_network fs' (guest_meta_conf gid) n = (parse_conf_network fs (guest_meta_conf gid) n)\<lparr>cn_pid := int v\<rparr>"
proof -
  have "meta_lines fs (guest_meta_conf gid) = ls"
    using assms(2,3,5) by (simp add: meta_lines_def conf_lines_plain)
  then show "meta_set True True gid ''pid'' a fs (guest_meta_conf gid) = Some (concat (pid_lines v ls))"
    by (simp add: meta_set_def Let_def assms(6) meta_text_pid)
  show "parse_conf_network fs' (guest_meta_conf gid) n = (parse_conf_network fs (guest_meta_conf gid) n)\<lparr>cn_pid := int v\<rparr>"
    if "fs' (guest_meta_conf gid) = Some (concat (pid_lines v ls))"
    using that assms(2) conf_lines_plain [OF pid_lines_ok(1) [OF assms(1,3,4)]] conf_lines_plain [OF assms(3)]
      parse_pid_lines [OF assms(1,4), of n]
    by (simp add: parse_conf_network_def)
qed

lemma pidfile_not_meta:
  assumes "length gid < 32" "NUL \<notin> set gid"
  shows "bounded_copy 256 (''/guests/'' @ gid @ ''/qvm.pid'') \<noteq> guest_meta_conf gid"
proof -
  have "bounded_copy 256 (''/guests/'' @ gid @ ''/qvm.pid'') = ''/guests/'' @ gid @ ''/qvm.pid''"
    "guest_meta_conf gid = ''/guests/'' @ gid @ ''/.hms_metadata''"
    using assms unfolding guest_meta_conf_def by (intro bounded_copy_id; simp)+
  then show ?thesis
    by simp
qed

definition runs_qvm :: "(int \<Rightarrow> string option) \<Rightarrow> int \<Rightarrow> bool" where
  "runs_qvm procs pid \<longleftrightarrow> (\<exists>line. read_proc_cmdline 4096 (procs pid) = Some line \<and> strstr line ''qvm'')"

text \<open>
  C24. A started guest is found again, and a killed one is not. Starting a stopped guest
  whose metadata file has plain lines launches exactly one process, writes its id into the
  file and keeps every other setting a reader finds there; the next discovery then reports
  the guest running with that id if the process runs qvm. Killing it afterwards signals
  exactly that process, and the discovery after that reports it stopped, whatever
  process may reuse the id.
\<close>

theorem started_guest_found:
  assumes "g_state g \<noteq> GUEST_RUNNING" "fs (g_conf_path g) \<noteq> None" "length (g_id g) < 32" "NUL \<notin> set (g_id g)"
    and "si_fork io = Some (int pid)" "0 < pid" "pid < 2 ^ 31" "si_meta_fopen_ok io" "si_meta_rename_ok io" "si_alive io"
    and "fs (guest_meta_conf (g_id g)) = Some (concat ls)" "plain_file ls" "comment_free ls" "length ls < 64"
    and "runs_qvm procs (int pid)" "ki_kill_ok k" "ki_meta_fopen_ok k" "ki_meta_rename_ok k"
  shows "\<exists>fs1 fs2. let run = g\<lparr>g_state := GUEST_RUNNING, g_pid := int pid\<rparr> in
    guest_start io g fs = (0, [(int pid, qvm_launch g)], fs1) \<and>
    (\<forall>n. parse_conf_network fs1 (guest_meta_conf (g_id g)) n =
           (parse_conf_network fs (guest_meta_conf (g_id g)) n)\<lparr>cn_pid := int pid\<rparr>) \<and>
    refresh_guest_state fs1 procs g = run \<and>
    guest_kill k run fs1 = (0, [int pid], fs2) \<and>
    refresh_guest_state fs2 procs' run = g\<lparr>g_state := GUEST_STOPPED, g_pid := 0\<rparr>"
proof -
  let ?m = "guest_meta_conf (g_id g)"
  let ?p = "bounded_copy 256 (''/guests/'' @ g_id g @ ''/qvm.pid'')"
  let ?run = "g\<lparr>g_state := GUEST_RUNNING, g_pid := int pid\<rparr>"
  define fs1 where "fs1 = (meta_set True True (g_id g) ''pid'' (dec_int (int pid)) fs)(?p := None)"
  define fs2 where "fs2 = (meta_set True True (g_id g) ''pid'' ''0'' fs1)(?p := None)"
  note p = pidfile_not_meta [OF assms(3,4)]
  have d: "dec_int (int pid) = dec pid" "''0'' = dec 0"
    using char_of_char [of "CHR ''0''", where ?'a = nat] by (simp_all add: dec_int_def dec.simps digit_char_def)
  have len0: "length ls \<le> 64"
    using assms(14) by simp
  have l1: "fs1 ?m = Some (concat (pid_lines pid ls))"
    using meta_set_pid(1) [where fs = fs and gid = "g_id g", OF assms(7,11-13) len0 d(1)] p by (simp add: fs1_def)
  note ok = pid_lines_ok [OF assms(7,12,13)]
  have n1: "parse_conf_network fs1 ?m n = (parse_conf_network fs ?m n)\<lparr>cn_pid := int pid\<rparr>" for n
    using meta_set_pid(2) [where fs = fs and gid = "g_id g" and fs' = fs1, OF assms(7,11-13) len0 d(1) l1] by simp
  have len: "length (pid_lines pid ls) \<le> 64"
    using length_pid_lines(1) [of pid ls] assms(14) by simp
  have l2: "fs2 ?m = Some (concat (pid_lines 0 (pid_lines pid ls)))"
    using meta_set_pid(1) [where fs = fs1 and gid = "g_id g", OF _ l1 ok(1,2) len d(2)] p by (simp add: fs2_def)
  have n2: "cn_pid (parse_conf_network fs2 ?m n) = 0" for n
    using meta_set_pid(2) [where fs = fs1 and gid = "g_id g" and fs' = fs2, OF _ l1 ok(1,2) len d(2) l2] by simp
  have start: "guest_start io g fs = (0, [(int pid, qvm_launch g)], fs1)"
    using assms(1,2,5,8-10) by (simp add: guest_start_def fs1_def Let_def)
  have kill: "guest_kill k ?run fs1 = (0, [int pid], fs2)"
    using assms(6,16-18) by (simp add: guest_kill_def fs2_def Let_def)
  have r1: "refresh_guest_state fs1 procs g = ?run"
    using assms(6,15) n1 by (auto simp: refresh_guest_state_def runs_qvm_def Let_def)
  have r2: "refresh_guest_state fs2 procs' ?run = g\<lparr>g_state := GUEST_STOPPED, g_pid := 0\<rparr>"
    using n2 by (simp add: refresh_guest_state_def Let_def)
  show ?thesis
    using start n1 r1 kill r2 unfolding Let_def by blast
qed

definition sample_guest :: guest where
  "sample_guest = \<lparr>g_id = ''guest-1'', g_name = [], g_type = GUEST_QNX, g_state = GUEST_STOPPED, g_pid = 0,
     g_conf_path = ''/guests/guest-1/a.qvmconf'', g_boot_path = [], g_rootfs_path = [], g_ip = ''10.0.0.1'',
     g_ssh_user = ''root'', g_ssh_password = [], g_ssh_key = [], g_ssh_port = 22, g_name_ts = 0\<rparr>"

definition sample_start :: start_io where
  "sample_start = \<lparr>si_fork = Some 41, si_meta_fopen_ok = True, si_meta_rename_ok = True, si_alive = True\<rparr>"

definition sample_kill :: kill_io where
  "sample_kill = \<lparr>ki_kill_ok = True, ki_meta_fopen_ok = True, ki_meta_rename_ok = True\<rparr>"

definition sample_files :: files where
  "sample_files = Map.empty(''/guests/guest-1/a.qvmconf'' \<mapsto> [], ''/guests/guest-1/.hms_metadata'' \<mapsto> ''ip=10.0.0.12'' @ [NEWLINE])"

lemma sample_meta: "guest_meta_conf ''guest-1'' = ''/guests/guest-1/.hms_metadata''"
  by (simp add: guest_meta_conf_def bounded_copy_def cstr_def)

theorem started_guest_found_witness:
  "\<exists>fs1. guest_start sample_start sample_guest sample_files = (0, [(41, qvm_launch sample_guest)], fs1) \<and>
     refresh_guest_state fs1 (\<lambda>_. Some ''qvm'') sample_guest = sample_guest\<lparr>g_state := GUEST_RUNNING, g_pid := 41\<rparr>"
proof -
  let ?ls = "[''ip=10.0.0.12'' @ [NEWLINE]]"
  have meta: "sample_files (guest_meta_conf (g_id sample_guest)) = Some (concat ?ls)"
    by (simp add: sample_guest_def sample_meta sample_files_def)
  have lines: "plain_file ?ls" "comment_free ?ls" "length ?ls < 64"
    by (auto simp: plain_file_def is_line_def comment_free_def skip_blanks_def)
  have qvm: "runs_qvm (\<lambda>_. Some ''qvm'') (int 41)"
    by (simp add: runs_qvm_def read_proc_cmdline_def cstr_def strstr.simps)
  have rest: "g_state sample_guest \<noteq> GUEST_RUNNING" "sample_files (g_conf_path sample_guest) \<noteq> None"
    "length (g_id sample_guest) < 32" "NUL \<notin> set (g_id sample_guest)" "si_fork sample_start = Some (int 41)"
    "(0 :: nat) < 41" "(41 :: nat) < 2 ^ 31" "si_meta_fopen_ok sample_start" "si_meta_rename_ok sample_start"
    "si_alive sample_start"
    by (simp_all add: sample_guest_def sample_start_def sample_files_def)
  show ?thesis
    using started_guest_found [OF rest meta lines qvm, of sample_kill] by (auto simp: sample_kill_def Let_def)
qed

text \<open>
  Restarting a running guest leaves it stopped. The restart kills the guest and then
  calls the start with the same, unchanged record, whose state still says running: so
  it reports success, has signalled the old process, and has launched nothing.
\<close>

theorem restart_leaves_stopped:
  assumes "g_state g = GUEST_RUNNING" "0 < g_pid g" "ki_kill_ok k"
  shows "\<exists>fs'. guest_restart k io g fs = (0, [g_pid g], [], fs')"
  using assms by (simp add: guest_restart_def guest_kill_def guest_start_def Let_def)

theorem restart_leaves_stopped_witness:
  "\<exists>fs'. guest_restart sample_kill sample_start (sample_guest\<lparr>g_state := GUEST_RUNNING, g_pid := 41\<rparr>) sample_files = (0, [41], [], fs')"
  using restart_leaves_stopped [of "sample_guest\<lparr>g_state := GUEST_RUNNING, g_pid := 41\<rparr>" sample_kill sample_start sample_files]
  by (simp add: sample_kill_def)

section \<open>Two observations\<close>

text \<open>An address that is a prefix of the stored one is taken for already stored.\<close>

lemma set_ip_skips_prefix: "guest_set_ip a b sample_guest sample_files = sample_files"
proof -
  have "plain_file [''ip=10.0.0.12'' @ [NEWLINE]]"
    by (auto simp: plain_file_def is_line_def)
  then have "conf_lines (''ip=10.0.0.12'' @ [NEWLINE]) = [''ip=10.0.0.12'' @ [NEWLINE]]"
    using conf_lines_plain [of "[''ip=10.0.0.12'' @ [NEWLINE]]"] by simp
  then show ?thesis
    by (simp add: guest_set_ip_def sample_guest_def sample_meta sample_files_def set_ip_line_def skip_blanks_def
        strstr.simps)
qed

lemma name_ts_kept: "g_name_ts (refresh_guest_state fs procs g) = g_name_ts g"
  by (simp add: refresh_guest_state_def Let_def split: option.split)

lemma name_ts_fresh: "g_name_ts (discover_one fs ds n) = 0"
  by (simp add: discover_one_def Let_def)

text \<open>A discovered guest starts with time stamp 0, so the ten-second limit on host name
  queries never applies to it.\<close>

lemma discovered_guest_unthrottled:
  assumes "g \<in> set (discover_guests fs ds procs)" "g_state g = GUEST_RUNNING" "g_ip g \<noteq> []"
    "name_cache_get c (g_id g) = None" "10 \<le> now"
  shows "snd (snd (refresh_guest_name now answer (g, c)))"
proof -
  have "g_name_ts g = 0"
    using assms(1) by (auto simp: discover_guests_def name_ts_kept name_ts_fresh split: option.splits)
  then show ?thesis
    using assms(2-5) by (simp add: refresh_guest_name_def Let_def split: option.split)
qed

end
