(* ===== verification/HmsSsh.thy ===== *)
theory HmsSsh
  imports HmsGuest
begin

text \<open>
  Running commands in a guest over SSH: src/src/Hypervisor_Management_System/ssh/client.c. The
  command lines it builds, the growing buffer that collects a command's output, and how a
  file transfer is judged. What the started commands print and return is an input.
\<close>

section \<open>Command lines\<close>

definition build_ssh_opts :: "files \<Rightarrow> guest \<Rightarrow> bool \<Rightarrow> string" where
  "build_ssh_opts fs g for_scp =
     bounded_copy 1024
       (''-o StrictHostKeyChecking=no -o UserKnownHostsFile=/dev/null -o LogLevel=ERROR -o ConnectTimeout=5 '' @
        (if for_scp then ''-P'' else ''-p'') @ '' '' @ dec_int (g_ssh_port g) @
        (if g_ssh_key g \<noteq> [] \<and> fs (g_ssh_key g) \<noteq> None then '' -i '' @ g_ssh_key g else []))"

definition user_at :: "guest \<Rightarrow> string" where
  "user_at g = g_ssh_user g @ ''@'' @ g_ip g"

text \<open>\<open>sshpass\<close> tells whether that program is installed. A line of 4096 bytes or more is refused.\<close>

definition ssh_exec_line :: "bool \<Rightarrow> files \<Rightarrow> guest \<Rightarrow> string \<Rightarrow> string option" where
  "ssh_exec_line sshpass fs g command =
     (let opts = build_ssh_opts fs g False;
          cmd = (if g_ssh_password g \<noteq> [] \<and> sshpass
                 then ''sshpass -p '' @ [QUOTE] @ g_ssh_password g @ [QUOTE] @ '' ssh '' @ opts @ '' '' @ user_at g @ '' '' @ dq command
                 else if g_ssh_key g \<noteq> [] \<and> fs (g_ssh_key g) \<noteq> None \<or> g_ssh_password g \<noteq> []
                 then ''ssh -o BatchMode=yes '' @ opts @ '' '' @ user_at g @ '' '' @ dq command
                 else ''ssh '' @ opts @ '' '' @ user_at g @ '' '' @ dq command)
      in if length cmd \<ge> 4096 then None else Some cmd)"

definition ssh_scp_line :: "bool \<Rightarrow> files \<Rightarrow> guest \<Rightarrow> string \<Rightarrow> string \<Rightarrow> string option" where
  "ssh_scp_line sshpass fs g local_path remote_path =
     (let opts = build_ssh_opts fs g False;
          rest = opts @ '' '' @ user_at g @ '' '' @ dq (''cat > '' @ remote_path) @ '' < '' @ dq local_path @ '' 2>&1'';
          cmd = (if g_ssh_password g \<noteq> [] \<and> sshpass
                 then ''sshpass -p '' @ [QUOTE] @ g_ssh_password g @ [QUOTE] @ '' ssh '' @ rest
                 else if g_ssh_key g \<noteq> [] \<and> fs (g_ssh_key g) \<noteq> None then ''ssh -o BatchMode=yes '' @ rest
                 else ''ssh '' @ rest)
      in if length cmd \<ge> 4096 then None else Some cmd)"

section \<open>Collecting output\<close>

text \<open>The output buffer: its capacity and text. Each piece \<open>fgets\<close> returns is appended with its NUL;
  None where that would be beyond the capacity, or where \<open>realloc\<close> fails.\<close>

fun collect :: "string list \<Rightarrow> nat \<times> string \<Rightarrow> (nat \<times> string) option" where
  "collect [] b = Some b"
| "collect (piece # rest) (cap, out) =
     (let cap = (if length out + length piece + 1 > cap then cap * 2 else cap)
      in if length out + length piece + 1 > cap then None
         else collect rest (cap, out @ piece))"

record exec_io =
  xi_sshpass :: bool
  xi_popen_ok :: bool
  xi_output :: string
  xi_ret :: int

definition output_pieces :: "string \<Rightarrow> string list" where
  "output_pieces out = map cstr (fgets_lines 1024 out)"

text \<open>Outer None: memory beyond the buffer. Inner None: the function returns NULL.\<close>

definition ssh_exec :: "exec_io \<Rightarrow> files \<Rightarrow> guest \<Rightarrow> string \<Rightarrow> string option option" where
  "ssh_exec io fs g command =
     (if g_ip g = [] \<or> g_state g \<noteq> GUEST_RUNNING then Some None
      else case ssh_exec_line (xi_sshpass io) fs g command of
             None \<Rightarrow> Some None
           | Some cmd \<Rightarrow>
               if \<not> xi_popen_ok io then Some None
               else (case collect (output_pieces (xi_output io)) (4096, []) of
                       None \<Rightarrow> None
                     | Some (cap, out) \<Rightarrow> Some (if xi_ret io \<noteq> 0 \<and> out = [] then None else Some out)))"

definition ssh_ping :: "exec_io \<Rightarrow> files \<Rightarrow> guest \<Rightarrow> bool option" where
  "ssh_ping io fs g =
     map_option (\<lambda>r. case r of None \<Rightarrow> False | Some out \<Rightarrow> strstr out ''pong'') (ssh_exec io fs g ''echo pong'')"

section \<open>Transfers\<close>

text \<open>The last output of the transfer, in a buffer of 4096 bytes; a piece that does not fit is
  dropped, and from 3840 bytes on the front makes room.\<close>

definition tail_step :: "string \<Rightarrow> string \<Rightarrow> string" where
  "tail_step piece t =
     (if length t + length piece < 4096 - 1
      then (if length t + length piece > 4096 - 256 then drop (length piece) t else t) @ piece
      else t)"

definition push_tail :: "string \<Rightarrow> string" where
  "push_tail out = fold tail_step (output_pieces out) []"

definition shows_failure :: "string \<Rightarrow> bool" where
  "shows_failure t \<longleftrightarrow> strstr t ''Permission denied'' \<or> strstr t ''Connection refused'' \<or>
     strstr t ''Connection timed out'' \<or> strstr t ''No route to host'' \<or> strstr t ''not found'' \<or>
     strstr t ''No such file'' \<or> strstr t ''ERROR''"

text \<open>The tokens of a line, as repeated \<open>strtok\<close> calls return them.\<close>

definition token_delim :: "char \<Rightarrow> bool" where
  "token_delim c \<longleftrightarrow> c = CHR '' '' \<or> c = TAB \<or> c = CHR 0x0D \<or> c = NEWLINE"

function tokens :: "string \<Rightarrow> string list" where
  "tokens s =
     (let t = dropWhile token_delim s
      in if t = [] then [] else takeWhile (\<lambda>c. \<not> token_delim c) t # tokens (dropWhile (\<lambda>c. \<not> token_delim c) t))"
  by pat_completeness auto
termination tokens
proof (relation "measure length")
  fix s t :: string
  assume t: "t = dropWhile token_delim s" "t \<noteq> []"
  then have "\<not> token_delim (hd t)"
    using hd_dropWhile [of token_delim s] by simp
  then have "length (dropWhile (\<lambda>c. \<not> token_delim c) t) < length t"
    using t(2) length_dropWhile_le [of "\<lambda>c. \<not> token_delim c" "tl t"] by (cases t) auto
  moreover have "length t \<le> length s"
    using t(1) length_dropWhile_le by simp
  ultimately show "(dropWhile (\<lambda>c. \<not> token_delim c) t, s) \<in> measure length"
    by simp
qed simp

declare tokens.simps [simp del]

text \<open>The size the guest's \<open>ls -l\<close> shows: its fifth token; the last listing line would count if
  there were more.\<close>

definition listed_size :: "string option \<Rightarrow> int" where
  "listed_size out =
     (case out of
        None \<Rightarrow> - 1
      | Some s \<Rightarrow> if length (tokens s) > 4 then sint (strtoul (tokens s ! 4)) else - 1)"

record scp_io =
  sc_sshpass :: bool
  sc_popen_ok :: bool
  sc_output :: string
  sc_check :: exec_io

text \<open>Outer None as in \<open>ssh_exec\<close>; else the text left in the error buffer, or success. \<open>ls -l\<close> is
  asked only when nothing in the transfer's output shows a failure.\<close>

definition push_verdict :: "nat \<Rightarrow> string \<Rightarrow> bool \<Rightarrow> int \<Rightarrow> int \<Rightarrow> string + unit" where
  "push_verdict errbuf_sz tail shown remote_sz local_sz =
     (if \<not> shown \<and> 0 \<le> local_sz \<and> remote_sz = local_sz then Inr ()
      else if 0 \<le> remote_sz \<and> 0 \<le> local_sz \<and> remote_sz \<noteq> local_sz
           then Inl (bounded_copy errbuf_sz (''size mismatch: guest has '' @ dec_int remote_sz @ '' bytes, expected '' @ dec_int local_sz))
      else Inl (bounded_copy errbuf_sz (''ssh failed'' @ (if tail \<noteq> [] then '': '' else []) @ tail)))"

definition ssh_scp_to :: "scp_io \<Rightarrow> nat \<Rightarrow> files \<Rightarrow> guest \<Rightarrow> string \<Rightarrow> string \<Rightarrow> (string + unit) option" where
  "ssh_scp_to io errbuf_sz fs g local_path remote_path =
     (if g_ip g = [] then Some (Inl (bounded_copy errbuf_sz ''guest has no IP address''))
      else if g_state g \<noteq> GUEST_RUNNING then Some (Inl (bounded_copy errbuf_sz ''guest is not running''))
      else case fs local_path of
             None \<Rightarrow> Some (Inl (bounded_copy errbuf_sz ''local file missing''))
           | Some content \<Rightarrow>
               (case ssh_scp_line (sc_sshpass io) fs g local_path remote_path of
                  None \<Rightarrow> Some (Inl (bounded_copy errbuf_sz ''push command too long''))
                | Some cmd \<Rightarrow>
                    if \<not> sc_popen_ok io then Some (Inl (bounded_copy errbuf_sz ''popen failed''))
                    else let tail = push_tail (sc_output io); shown = shows_failure tail
                    in if shown then Some (push_verdict errbuf_sz tail True (- 1) (- 1))
                       else map_option (\<lambda>out. push_verdict errbuf_sz tail False (listed_size out) (int (length content)))
                              (ssh_exec (sc_check io) fs g (bounded_copy 512 (''ls -l '' @ remote_path)))))"

section \<open>Output is never lost or overrun\<close>

lemma length_fgets_line: "2 \<le> n \<Longrightarrow> length (fgets_line n s) < n"
  by (auto simp: fgets_line_def Let_def)

lemma fgets_lines_short: "2 \<le> n \<Longrightarrow> piece \<in> set (fgets_lines n s) \<Longrightarrow> length piece < n"
proof (induction n s rule: fgets_lines.induct)
  case (1 n s)
  then show ?case
    using length_fgets_line [of n s] by (subst (asm) fgets_lines.simps) (auto split: if_splits)
qed

lemma collect_fits:
  "\<forall>p \<in> set ps. length p < 1024 \<Longrightarrow> 1024 \<le> cap \<Longrightarrow> length out + 1 \<le> cap \<Longrightarrow>
     \<exists>cap'. collect ps (cap, out) = Some (cap', out @ concat ps)"
proof (induction ps arbitrary: cap out)
  case Nil
  then show ?case by simp
next
  case (Cons p ps)
  let ?cap = "if length out + length p + 1 > cap then cap * 2 else cap"
  have p: "length p < 1024" "length out + length p + 1 \<le> ?cap" "1024 \<le> ?cap"
    using Cons.prems by auto
  then have "\<exists>cap'. collect ps (?cap, out @ p) = Some (cap', (out @ p) @ concat ps)"
    using Cons.prems by (intro Cons.IH) auto
  then show ?case
    using p(2) by (simp add: Let_def)
qed

lemma output_pieces_concat:
  assumes "NUL \<notin> set out"
  shows "concat (output_pieces out) = out"
proof -
  have whole: "concat (fgets_lines 1024 out) = out"
    by (rule fgets_lines_concat) simp
  have "NUL \<notin> set p" if "p \<in> set (fgets_lines 1024 out)" for p
    using that assms arg_cong [OF whole, of set] by auto
  then have "map cstr (fgets_lines 1024 out) = fgets_lines 1024 out"
    by (simp add: cstr_id map_idI)
  then show ?thesis
    using whole by (simp add: output_pieces_def)
qed

lemma collect_output: "\<exists>cap. collect (output_pieces out) (4096, []) = Some (cap, concat (output_pieces out))"
proof -
  have "\<forall>p \<in> set (output_pieces out). length p < 1024"
    using fgets_lines_short [of 1024 _ out]
    by (auto simp: output_pieces_def cstr_def intro: le_less_trans [OF length_takeWhile_le])
  then show ?thesis
    using collect_fits [of "output_pieces out" 4096 "[]"] by auto
qed

lemma ssh_exec_never_overruns: "ssh_exec io fs g command \<noteq> None"
  using collect_output [of "xi_output io"] by (auto simp: ssh_exec_def split: option.splits prod.splits)

lemma ssh_scp_to_never_overruns: "ssh_scp_to io n fs g a b \<noteq> None"
  using ssh_exec_never_overruns [of "sc_check io" fs g]
  by (auto simp: ssh_scp_to_def Let_def split: option.splits)

text \<open>C25. A command's output is returned whole: for every output without a NUL, of any length, that a
  command on a running guest prints, the growing buffer is never overrun and the text handed back
  is exactly that output (unless it is empty and the command also failed).\<close>

theorem ssh_exec_output_whole:
  assumes "g_ip g \<noteq> []" "g_state g = GUEST_RUNNING" "ssh_exec_line (xi_sshpass io) fs g command \<noteq> None"
    "xi_popen_ok io" "NUL \<notin> set (xi_output io)" "xi_ret io = 0 \<or> xi_output io \<noteq> []"
  shows "ssh_exec io fs g command = Some (Some (xi_output io))"
proof -
  obtain cap where "collect (output_pieces (xi_output io)) (4096, []) = Some (cap, xi_output io)"
    using collect_output [of "xi_output io"] output_pieces_concat [OF assms(5)] by auto
  then show ?thesis
    using assms by (auto simp: ssh_exec_def)
qed

definition demo_guest :: guest where
  "demo_guest = \<lparr>g_id = ''guest-a'', g_name = [], g_type = GUEST_QNX, g_state = GUEST_RUNNING, g_pid = 77,
     g_conf_path = ''/guests/guest-a/a.qvmconf'', g_boot_path = [], g_rootfs_path = [], g_ip = ''10.0.0.2'',
     g_ssh_user = ''root'', g_ssh_password = [], g_ssh_key = [], g_ssh_port = 22, g_name_ts = 0\<rparr>"

definition demo_exec :: exec_io where
  "demo_exec = \<lparr>xi_sshpass = False, xi_popen_ok = True, xi_output = ''up'' @ [NEWLINE] @ ''ok'', xi_ret = 0\<rparr>"

theorem ssh_exec_output_whole_witness:
  "ssh_exec demo_exec Map.empty demo_guest ''uptime'' = Some (Some (''up'' @ [NEWLINE] @ ''ok''))"
proof -
  have "ssh_exec_line False Map.empty demo_guest ''uptime'' \<noteq> None"
    by code_simp
  then show ?thesis
    using ssh_exec_output_whole [of demo_guest demo_exec Map.empty "''uptime''"]
    by (simp add: demo_guest_def demo_exec_def)
qed

end
