(* ===== verification/HmsMqtt.thy ===== *)
theory HmsMqtt
  imports CText
begin

text \<open>
  The manager's MQTT service, src/src/Hypervisor_Management_System/mqtt/mqtt_client.c: the
  connection flags its callbacks and its reconnect logic share, and publishing. The
  mosquitto library is the list of messages handed to it and the results of its calls.
\<close>

record hms_mqtt =
  hm_mosq :: bool
  hm_connected :: bool
  hm_connecting :: bool
  hm_reconnect_enabled :: bool
  hm_subscribed :: bool
  hm_published :: "(string \<times> string) list"

text \<open>The command text the callback hands on: at most 2047 bytes.\<close>

definition on_message_cb :: "string \<Rightarrow> string" where
  "on_message_cb payload = cstr (take 2047 payload)"

definition on_connect_cb :: "int \<Rightarrow> hms_mqtt \<Rightarrow> hms_mqtt" where
  "on_connect_cb rc m =
     (if rc = 0 then m\<lparr>hm_connected := True, hm_connecting := False, hm_subscribed := True\<rparr>
      else m\<lparr>hm_connected := False\<rparr>)"

definition on_disconnect_cb :: "hms_mqtt \<Rightarrow> hms_mqtt" where
  "on_disconnect_cb m = m\<lparr>hm_connected := False, hm_connecting := False\<rparr>"

definition hms_mqtt_init :: "bool \<Rightarrow> bool \<times> hms_mqtt" where
  "hms_mqtt_init new_ok =
     (new_ok, \<lparr>hm_mosq = new_ok, hm_connected = False, hm_connecting = False, hm_reconnect_enabled = new_ok,
               hm_subscribed = False, hm_published = []\<rparr>)"

definition hms_mqtt_connect :: "bool \<Rightarrow> bool \<Rightarrow> hms_mqtt \<Rightarrow> bool \<times> hms_mqtt" where
  "hms_mqtt_connect loop_ok connect_ok m =
     (let m = m\<lparr>hm_connected := False, hm_connecting := False\<rparr>
      in if \<not> loop_ok then (False, m)
         else if \<not> connect_ok then (True, m)
         else (True, m\<lparr>hm_connecting := True\<rparr>))"

text \<open>One call from the main loop; \<open>accepted\<close> is whether the library took the attempt (success or
  already pending).\<close>

definition hms_mqtt_ensure_connected :: "bool \<Rightarrow> hms_mqtt \<Rightarrow> hms_mqtt" where
  "hms_mqtt_ensure_connected accepted m =
     (if \<not> hm_mosq m \<or> hm_connected m \<or> hm_connecting m \<or> \<not> hm_reconnect_enabled m then m
      else if accepted then m\<lparr>hm_connecting := True\<rparr>
      else m\<lparr>hm_connecting := False\<rparr>)"

definition hms_mqtt_disconnect :: "hms_mqtt \<Rightarrow> hms_mqtt" where
  "hms_mqtt_disconnect m =
     m\<lparr>hm_reconnect_enabled := False, hm_connected := False, hm_connecting := False, hm_mosq := False\<rparr>"

definition hms_mqtt_publish :: "bool \<Rightarrow> string \<Rightarrow> string \<Rightarrow> hms_mqtt \<Rightarrow> bool \<times> hms_mqtt" where
  "hms_mqtt_publish ok topic payload m =
     (if \<not> hm_mosq m \<or> \<not> hm_connected m then (False, m)
      else if \<not> ok then (False, m)
      else (True, m\<lparr>hm_published := hm_published m @ [(topic, cstr payload)]\<rparr>))"

definition hms_mqtt_publish_status :: "string \<Rightarrow> hms_mqtt \<Rightarrow> hms_mqtt" where
  "hms_mqtt_publish_status payload m = snd (hms_mqtt_publish True ''hms/status'' payload m)"

lemma publish_status_flags [simp]:
  "hm_mosq (hms_mqtt_publish_status p m) = hm_mosq m"
  "hm_connected (hms_mqtt_publish_status p m) = hm_connected m"
  by (simp_all add: hms_mqtt_publish_status_def hms_mqtt_publish_def)

lemma publish_status_connected:
  "hm_mosq m \<Longrightarrow> hm_connected m \<Longrightarrow> NUL \<notin> set p \<Longrightarrow>
     hm_published (hms_mqtt_publish_status p m) = hm_published m @ [(''hms/status'', p)]"
  by (simp add: hms_mqtt_publish_status_def hms_mqtt_publish_def cstr_id)

text \<open>A refused connection attempt leaves the service marked as connecting, so the main loop
  does not retry until a disconnect is reported.\<close>

lemma refused_connect_not_retried:
  "hm_connecting m \<Longrightarrow> rc \<noteq> 0 \<Longrightarrow> hms_mqtt_ensure_connected a (on_connect_cb rc m) = on_connect_cb rc m"
  by (simp add: on_connect_cb_def hms_mqtt_ensure_connected_def)

end
