(* ===== verification/HmsOta.thy ===== *)
theory HmsOta
  imports HmsSsh HmsMqtt
begin

text \<open>
  Over-the-air jobs: src/src/Hypervisor_Management_System/ota/ota.c with the two callbacks of
  main.c it stops and starts guests with. A job runs on a thread of its own; its model is one
  run of that thread, from the job record its start function builds. The programs it runs
  (\<open>sh\<close>, \<open>scp\<close>, \<open>ssh\<close>, \<open>tar\<close>, \<open>cp\<close>) are inputs: what a command line leaves in the file system,
  prints, or shows while it is being polled. Messages are logged in the order they are
  published; \<open>ota_publish\<close> hands them to the MQTT service.
\<close>

section \<open>Messages\<close>

datatype ota_message =
    OtaProgress string int string
  | OtaResult bool string
  | AddfileResult bool string
  | AddguestResult bool string

definition json_bool :: "bool \<Rightarrow> string" where
  "json_bool b = (if b then ''true'' else ''false'')"

definition json_field :: "string \<Rightarrow> string \<Rightarrow> string" where
  "json_field k v = dq k @ '':'' @ v"

definition result_json :: "string \<Rightarrow> string \<Rightarrow> bool \<Rightarrow> string \<Rightarrow> string" where
  "result_json state gid ok msg =
     ''{'' @ json_field ''state'' (dq state) @ '','' @ json_field ''guest'' (dq gid) @ '','' @
     json_field ''success'' (json_bool ok) @ '','' @ json_field ''msg'' (dq msg) @ ''}''"

text \<open>The buffer of a result is 1600 bytes in one of the jobs; no result is longer than 1000.\<close>

definition ota_json :: "string \<Rightarrow> ota_message \<Rightarrow> string" where
  "ota_json gid m =
     (case m of
        OtaProgress stage progress msg \<Rightarrow>
          bounded_copy 1536 (''{'' @ json_field ''state'' (dq ''ota_progress'') @ '','' @ json_field ''guest'' (dq gid) @ '','' @
            json_field ''stage'' (dq stage) @ '','' @ json_field ''progress'' (dec_int progress) @ '','' @
            json_field ''msg'' (dq msg) @ ''}'')
      | OtaResult ok msg \<Rightarrow> bounded_copy 1536 (result_json ''ota_result'' gid ok msg)
      | AddfileResult ok msg \<Rightarrow> bounded_copy 1536 (result_json ''addfile_result'' gid ok msg)
      | AddguestResult ok msg \<Rightarrow> bounded_copy 1536 (result_json ''addguest_result'' gid ok msg))"

section \<open>The world of a job\<close>

record ota_world =
  ow_guests :: "guest list"
  ow_files :: files
  ow_log :: "(string \<times> ota_message) list"
  ow_cmds :: "string list"
  ow_seq :: nat
  ow_killed :: "int list"
  ow_launched :: "(int \<times> string \<times> string \<times> string) list"

text \<open>One run of \<open>scp\<close> as the polling parent sees it: the time and the size \<open>stat\<close> shows (None when
  there is no file) at each poll, and what the run leaves in the local file (None: untouched).\<close>

record scp_run =
  sr_polls :: "(int \<times> nat option) list"
  sr_written :: "string option"

record ota_io =
  oi_pid :: int
  oi_shell :: "string \<Rightarrow> files \<Rightarrow> files option"
  oi_print :: "string \<Rightarrow> string option"
  oi_scp :: "string \<Rightarrow> nat \<Rightarrow> scp_run"
  oi_dirs :: dirs
  oi_isdir :: "string \<Rightarrow> bool"
  oi_kill :: kill_io
  oi_start :: start_io
  oi_push :: scp_io
  oi_extract :: exec_io

definition ota_publish :: "ota_world \<Rightarrow> hms_mqtt \<Rightarrow> hms_mqtt" where
  "ota_publish w m = fold (\<lambda>(gid, msg). hms_mqtt_publish_status (ota_json gid msg)) (ow_log w) m"

definition post :: "string \<Rightarrow> ota_message \<Rightarrow> ota_world \<Rightarrow> ota_world" where
  "post gid m w = w\<lparr>ow_log := ow_log w @ [(gid, m)]\<rparr>"

definition ota_report :: "string \<Rightarrow> string \<Rightarrow> int \<Rightarrow> string \<Rightarrow> ota_world \<Rightarrow> ota_world" where
  "ota_report gid stage progress msg w = post gid (OtaProgress stage progress msg) w"

definition remove_file :: "string \<Rightarrow> ota_world \<Rightarrow> ota_world" where
  "remove_file p w = w\<lparr>ow_files := (ow_files w)(p := None)\<rparr>"

section \<open>Shell commands\<close>

text \<open>\<open>fscanf(f, "%d", &rc)\<close>.\<close>

definition scan_int :: "string \<Rightarrow> int option" where
  "scan_int txt =
     (let t = dropWhile is_space txt;
          u = (if t \<noteq> [] \<and> (hd t = CHR ''-'' \<or> hd t = CHR ''+'') then tl t else t)
      in if u \<noteq> [] \<and> is_digit (hd u) then Some (atoi t) else None)"

text \<open>The exit code comes through a file; \<open>-1\<close> when the fork fails or the file cannot be read.\<close>

definition run_cmd :: "ota_io \<Rightarrow> string \<Rightarrow> ota_world \<Rightarrow> int \<times> ota_world" where
  "run_cmd io line w =
     (let cmd = bounded_copy 8192 line;
          rcfile = bounded_copy 128 (''/tmp/ota_rc_'' @ dec_int (oi_pid io) @ ''_'' @ dec (ow_seq w));
          wrapped = bounded_copy 9000 (cmd @ ''; echo $? > '' @ rcfile);
          w = w\<lparr>ow_cmds := ow_cmds w @ [cmd], ow_seq := (ow_seq w + 1) mod 2 ^ 32\<rparr>
      in case oi_shell io wrapped (ow_files w) of
           None \<Rightarrow> (- 1, w)
         | Some fs \<Rightarrow>
             (case fs rcfile of
                None \<Rightarrow> (- 1, w\<lparr>ow_files := fs\<rparr>)
              | Some txt \<Rightarrow>
                  ((case scan_int txt of None \<Rightarrow> - 1 | Some rc \<Rightarrow> rc), w\<lparr>ow_files := fs(rcfile := None)\<rparr>)))"

definition mkdirs :: "ota_io \<Rightarrow> string \<Rightarrow> ota_world \<Rightarrow> ota_world" where
  "mkdirs io path w = snd (run_cmd io (bounded_copy 3200 (''mkdir -p '' @ path)) w)"

definition cp_line :: "string \<Rightarrow> string \<Rightarrow> string" where
  "cp_line src dst = ''cp -f '' @ dq src @ '' '' @ dq dst"

definition scp_common_opts :: string where
  "scp_common_opts = ''-o StrictHostKeyChecking=no -o ConnectTimeout=10 -o ServerAliveInterval=10 -o ServerAliveCountMax=60''"

definition resolve_key :: "string \<Rightarrow> string" where
  "resolve_key ssh_key =
     bounded_copy 1024
       (if prefix ''/root/'' ssh_key then ssh_key
        else if prefix ''/'' ssh_key then ''/root'' @ ssh_key
        else ''/root/'' @ ssh_key)"

text \<open>\<open>atoll\<close>, and the size the server reports; \<open>-1\<close> unless it is positive.\<close>

definition atoll :: "string \<Rightarrow> int" where
  "atoll s = sint (strtoul s)"

definition stat_line :: "string \<Rightarrow> string \<Rightarrow> string \<Rightarrow> string" where
  "stat_line server ssh_key remote_path =
     bounded_copy 4096 (''ssh '' @ scp_common_opts @ '' -i '' @ resolve_key ssh_key @ '' '' @ server @
       '' stat -c %s '' @ dq remote_path @ '' 2>/dev/null'')"

definition remote_size :: "ota_io \<Rightarrow> string \<Rightarrow> string \<Rightarrow> string \<Rightarrow> int" where
  "remote_size io server ssh_key remote_path =
     (case oi_print io (stat_line server ssh_key remote_path) of
        None \<Rightarrow> - 1
      | Some out \<Rightarrow>
          (if out = [] then - 1
           else let sz = atoll (cstr (fgets_line 64 out)) in if sz > 0 then sz else - 1))"

section \<open>File names\<close>

text \<open>What \<open>strrchr(path, '.')\<close> points to; None without a dot.\<close>

definition from_last_dot :: "string \<Rightarrow> string option" where
  "from_last_dot s =
     (if CHR ''.'' \<in> set s then Some (CHR ''.'' # rev (takeWhile (\<lambda>c. c \<noteq> CHR ''.'') (rev s))) else None)"

definition is_archive :: "string \<Rightarrow> bool" where
  "is_archive path =
     (case from_last_dot path of
        None \<Rightarrow> False
      | Some ext \<Rightarrow> ext \<in> {''.tar'', ''.gz'', ''.tgz'', ''.bz2'', ''.xz''} \<or>
          strstr path ''.tar.gz'' \<or> strstr path ''.tar.bz2'')"

definition is_control_file :: "string \<Rightarrow> bool" where
  "is_control_file name \<longleftrightarrow> prefix ''qvm.'' name \<or> name = ''.hms_metadata''"

definition is_image_file :: "string \<Rightarrow> bool" where
  "is_image_file name \<longleftrightarrow> strstr name ''.ifs'' \<or> name = ''boot.img'' \<or> name = ''bootimg'' \<or>
     prefix ''vmlinuz'' name \<or> name = ''rootfs.img''"

section \<open>Pulling a file\<close>

definition scp_line :: "string \<Rightarrow> string \<Rightarrow> string \<Rightarrow> string \<Rightarrow> string" where
  "scp_line server ssh_key remote local_file =
     bounded_copy 4096 (''scp -C '' @ scp_common_opts @ '' -i '' @ resolve_key ssh_key @ '' '' @
       dq (server @ '':'' @ remote) @ '' '' @ dq local_file)"

definition to_int :: "int \<Rightarrow> int" where
  "to_int v = sint (word_of_int v :: u32)"

definition c_div :: "int \<Rightarrow> int \<Rightarrow> int" where
  "c_div a b = sgn a * (\<bar>a\<bar> div b)"

definition percent_of :: "int \<Rightarrow> int \<Rightarrow> int" where
  "percent_of local_sz remote_sz = (let pct = to_int (c_div (local_sz * 100) remote_sz) in if pct > 100 then 100 else pct)"

definition seen_size :: "nat option \<Rightarrow> int" where
  "seen_size s = (case s of None \<Rightarrow> 0 | Some n \<Rightarrow> int n)"

text \<open>The reports of the polling loop of \<open>ota_download\<close>: at most every five seconds, and only
  when the percentage has changed. The loop keeps the last percentage and the last time.\<close>

fun download_reports :: "int \<Rightarrow> (int \<times> nat option) list \<Rightarrow> int \<times> int \<Rightarrow> ota_message list" where
  "download_reports remote_sz [] _ = []"
| "download_reports remote_sz ((now, sz) # polls) (last_pct, last_report) =
     (if now - last_report \<ge> 5
      then let local_sz = seen_size sz; pct = percent_of local_sz remote_sz
           in if remote_sz > 0 \<and> local_sz > 0 \<and> pct \<noteq> last_pct
              then OtaProgress ''download'' pct
                     (bounded_copy 256 (''Pulled '' @ dec_int local_sz @ '' of '' @ dec_int remote_sz @ '' bytes''))
                   # download_reports remote_sz polls (pct, now)
              else download_reports remote_sz polls (last_pct, now)
      else download_reports remote_sz polls (last_pct, last_report))"

text \<open>The reports of \<open>pull_file\<close>: at most every two seconds, over all the files of a job.\<close>

fun pull_reports :: "int \<Rightarrow> string \<Rightarrow> string \<Rightarrow> nat \<Rightarrow> nat \<Rightarrow> (int \<times> nat option) list \<Rightarrow> int \<times> int \<Rightarrow> ota_message list" where
  "pull_reports remote_sz remote stage file_idx n_files [] _ = []"
| "pull_reports remote_sz remote stage file_idx n_files ((now, sz) # polls) (last_pct, last_report) =
     (if now - last_report \<ge> 2
      then let local_sz = seen_size sz;
               file_pct = (if remote_sz > 0 \<and> local_sz > 0 then percent_of local_sz remote_sz else 0);
               overall = (if n_files > 1 then c_div (int file_idx * 100 + file_pct) (int n_files) else file_pct)
           in if overall \<noteq> last_pct
              then OtaProgress stage overall
                     (bounded_copy 256 (''Pulling '' @ take 100 (basename remote) @ '' ('' @
                        dec_int (c_div local_sz 1024) @ ''/'' @ dec_int (c_div remote_sz 1024) @ '' KB)''))
                   # pull_reports remote_sz remote stage file_idx n_files polls (overall, now)
              else pull_reports remote_sz remote stage file_idx n_files polls (last_pct, now)
      else pull_reports remote_sz remote stage file_idx n_files polls (last_pct, last_report))"

definition local_size :: "string \<Rightarrow> ota_world \<Rightarrow> int" where
  "local_size p w = (case ow_files w p of None \<Rightarrow> 0 | Some txt \<Rightarrow> int (length txt))"

definition run_scp :: "scp_run \<Rightarrow> string \<Rightarrow> ota_world \<Rightarrow> ota_world" where
  "run_scp run local_file w =
     (case sr_written run of None \<Rightarrow> w | Some txt \<Rightarrow> w\<lparr>ow_files := (ow_files w)(local_file \<mapsto> txt)\<rparr>)"

text \<open>Success is judged by the size of the local file alone.\<close>

definition pull_complete :: "int \<Rightarrow> int \<Rightarrow> bool" where
  "pull_complete remote_sz local_sz \<longleftrightarrow> (if remote_sz > 0 then local_sz \<ge> remote_sz else local_sz > 0)"

definition post_all :: "string \<Rightarrow> ota_message list \<Rightarrow> ota_world \<Rightarrow> ota_world" where
  "post_all gid ms w = w\<lparr>ow_log := ow_log w @ map (Pair gid) ms\<rparr>"

record ota_job =
  oj_guest :: string
  oj_server :: string
  oj_key :: string

definition ota_download :: "ota_io \<Rightarrow> ota_job \<Rightarrow> string \<Rightarrow> string \<Rightarrow> int \<Rightarrow> ota_world \<Rightarrow> bool \<times> ota_world" where
  "ota_download io j remote_path local_file remote_sz w =
     (let run = oi_scp io (scp_line (oj_server j) (oj_key j) remote_path local_file) 1;
          w = post_all (oj_guest j) (download_reports remote_sz (sr_polls run) (- 1, 0)) (run_scp run local_file w)
      in (pull_complete remote_sz (local_size local_file w), w))"

definition pull_file :: "ota_io \<Rightarrow> ota_job \<Rightarrow> nat \<Rightarrow> string \<Rightarrow> string \<Rightarrow> int \<Rightarrow> string \<Rightarrow> nat \<Rightarrow> nat \<Rightarrow> ota_world \<Rightarrow> bool \<times> ota_world" where
  "pull_file io j attempt remote local_file remote_sz stage file_idx n_files w =
     (let run = oi_scp io (scp_line (oj_server j) (oj_key j) remote local_file) attempt;
          w = post_all (oj_guest j) (pull_reports remote_sz remote stage file_idx n_files (sr_polls run) (- 1, 0))
                (run_scp run local_file w)
      in (pull_complete remote_sz (local_size local_file w), w))"

text \<open>The attempts that are left, each but the first announced and preceded by a removal.\<close>

fun pull_attempts :: "ota_io \<Rightarrow> ota_job \<Rightarrow> nat list \<Rightarrow> (nat \<Rightarrow> string) \<Rightarrow> string \<Rightarrow> string \<Rightarrow> int \<Rightarrow> string \<Rightarrow> nat \<Rightarrow> nat \<Rightarrow>
    ota_world \<Rightarrow> bool \<times> ota_world" where
  "pull_attempts io j [] retry remote local_file sz stage i n w = (False, w)"
| "pull_attempts io j (a # as) retry remote local_file sz stage i n w =
     (let w = (if a > 1 then remove_file local_file (ota_report (oj_guest j) stage 0 (bounded_copy 256 (retry a)) w) else w)
      in case pull_file io j a remote local_file sz stage i n w of
           (ok, w) \<Rightarrow> if ok then (True, w) else pull_attempts io j as retry remote local_file sz stage i n w)"

section \<open>Stopping and starting the guest\<close>

fun update_guest :: "(guest \<Rightarrow> guest) \<Rightarrow> string \<Rightarrow> guest list \<Rightarrow> guest list" where
  "update_guest f gid [] = []"
| "update_guest f gid (g # gs) = (if g_id g = gid then f g # gs else g # update_guest f gid gs)"

definition ota_kill_cb :: "kill_io \<Rightarrow> string \<Rightarrow> ota_world \<Rightarrow> int \<times> ota_world" where
  "ota_kill_cb k gid w =
     (case find_guest (ow_guests w) gid of
        None \<Rightarrow> (0, w)
      | Some g \<Rightarrow>
          if g_state g \<noteq> GUEST_RUNNING then (0, w)
          else (case guest_kill k g (ow_files w) of (rc, killed, fs) \<Rightarrow>
                  (rc, w\<lparr>ow_guests := update_guest (\<lambda>g. g\<lparr>g_state := GUEST_STOPPED, g_pid := 0\<rparr>) gid (ow_guests w),
                         ow_files := fs, ow_killed := ow_killed w @ killed\<rparr>)))"

definition ota_start_cb :: "start_io \<Rightarrow> string \<Rightarrow> ota_world \<Rightarrow> int \<times> ota_world" where
  "ota_start_cb s gid w =
     (case find_guest (ow_guests w) gid of
        None \<Rightarrow> (- 1, w)
      | Some g \<Rightarrow>
          (case guest_start s g (ow_files w) of (rc, launched, fs) \<Rightarrow>
             (rc, w\<lparr>ow_guests := (if rc = 0 then update_guest (\<lambda>g. g\<lparr>g_state := GUEST_RUNNING, g_pid := 0\<rparr>) gid (ow_guests w)
                                  else ow_guests w),
                    ow_files := fs, ow_launched := ow_launched w @ launched\<rparr>)))"

section \<open>Update from a package\<close>

definition guest_dir_of :: "string \<Rightarrow> string" where
  "guest_dir_of gid = bounded_copy 256 (''/guests/'' @ gid)"

definition dash :: string where
  "dash = [CHR 0xE2, CHR 0x80, CHR 0x94]"

definition payload_root :: "ota_io \<Rightarrow> string \<Rightarrow> string" where
  "payload_root io stage =
     (case oi_dirs io stage of
        None \<Rightarrow> stage
      | Some names \<Rightarrow>
          (case filter (\<lambda>n. \<not> prefix ''.'' n) names of
             [only] \<Rightarrow> (let p = bounded_copy 1656 (stage @ ''/'' @ only) in if oi_isdir io p then p else stage)
           | _ \<Rightarrow> stage))"

text \<open>The result code and the payload path it hands back.\<close>

definition ota_apply :: "ota_io \<Rightarrow> ota_job \<Rightarrow> string \<Rightarrow> string \<Rightarrow> ota_world \<Rightarrow> (int \<times> string) \<times> ota_world" where
  "ota_apply io j pkg guest_dir w =
     (let stage = bounded_copy 1356 (''/tmp/ota/'' @ oj_guest j @ ''/stage'');
          w = mkdirs io stage w
      in if is_archive pkg then
           let w = ota_report (oj_guest j) ''extract'' 0 ''Extracting package'' w;
               taropt = (if strstr pkg ''.tar'' \<and> \<not> strstr pkg ''.gz'' then ''xf'' else ''xzf'')
           in (case run_cmd io (''tar -'' @ taropt @ '' -C '' @ stage @ '' -f '' @ pkg) w of
                 (rc, w) \<Rightarrow>
                   if rc \<noteq> 0 then ((- 1, []), ota_report (oj_guest j) ''extract'' 0 ''Extraction failed'' w)
                   else ((0, payload_root io stage), w))
         else
           let w = ota_report (oj_guest j) ''extract'' 0 ''Copying file into guest directory'' w;
               dst = bounded_copy 1656 (guest_dir @ ''/'' @ basename pkg)
           in (case run_cmd io (cp_line pkg dst) w of (rc, w) \<Rightarrow> ((rc, dst), w)))"

definition ota_thread :: "ota_io \<Rightarrow> ota_job \<Rightarrow> string \<Rightarrow> ota_world \<Rightarrow> ota_world" where
  "ota_thread io j remote_path w =
     (let gid = oj_guest j;
          guest_dir = guest_dir_of gid;
          pkg = bounded_copy 1356 (''/tmp/ota/'' @ gid @ ''/package/'' @ basename remote_path);
          w = ota_report gid ''download'' 0 ''Starting pull from server'' w;
          remote_sz = remote_size io (oj_server j) (oj_key j) remote_path
      in case ota_download io j remote_path pkg remote_sz w of (ok, w) \<Rightarrow>
           if \<not> ok then ota_report gid ''failed'' 0 ''Failed to pull package from server'' w
           else
             let w = ota_report gid ''download'' 100 ''Package pulled'' w;
                 w = ota_report gid ''prep'' 0 ''Stopping guest before applying update'' w;
                 w = snd (ota_kill_cb (oi_kill io) gid w)
             in case ota_apply io j pkg guest_dir w of ((rc, payload), w) \<Rightarrow>
                  if rc \<noteq> 0 then ota_report gid ''failed'' 0 ''Failed to apply update'' w
                  else
                    let w = ota_report gid ''apply'' 100 ''Update applied'' w;
                        w = ota_report gid ''restart'' 0 ''Restarting guest'' w
                    in case ota_start_cb (oi_start io) gid w of (rc, w) \<Rightarrow>
                         post gid (OtaResult (rc = 0)
                           (if rc = 0 then ''OTA update applied and guest restarted''
                            else ''Update applied but guest restart failed'')) w)"

section \<open>Staging files\<close>

definition stage_dir_of :: "string \<Rightarrow> string" where
  "stage_dir_of gid = bounded_copy 384 (''/tmp/ota/'' @ gid @ ''/stage'')"

text \<open>The files that are left, with their index; None after a failure was reported.\<close>

fun fetch_files :: "ota_io \<Rightarrow> ota_job \<Rightarrow> string \<Rightarrow> nat \<Rightarrow> nat \<Rightarrow> string list \<Rightarrow> ota_world \<Rightarrow> bool \<times> ota_world" where
  "fetch_files io j stage_dir i n [] w = (True, w)"
| "fetch_files io j stage_dir i n (remote # rest) w =
     (let gid = oj_guest j; name = basename remote
      in if is_control_file name
         then (False, ota_report gid ''failed'' 0
                        (bounded_copy 256 (''Refused to fetch control file '' @ [QUOTE] @ take 120 name @ [QUOTE])) w)
         else
           let local_stage = bounded_copy 1424 (stage_dir @ ''/'' @ name);
               remote_sz = remote_size io (oj_server j) (oj_key j) remote;
               w = remove_file local_stage (ota_report gid ''download'' 0 ''Starting pull from server'' w)
           in case pull_attempts io j [1, 2, 3] (\<lambda>a. ''Retry '' @ dec a @ ''/3 for '' @ take 100 name)
                     remote local_stage remote_sz ''download'' i n w of
                (ok, w) \<Rightarrow>
                  if \<not> ok then (False, ota_report gid ''failed'' 0 ''Failed to pull file from server after 3 attempts'' w)
                  else fetch_files io j stage_dir (i + 1) n rest
                         (ota_report gid ''download'' 100 ''Fetched file from server'' w))"

definition ota_fetch_thread :: "ota_io \<Rightarrow> ota_job \<Rightarrow> string list \<Rightarrow> ota_world \<Rightarrow> ota_world" where
  "ota_fetch_thread io j paths w =
     (let stage_dir = stage_dir_of (oj_guest j);
          w = mkdirs io stage_dir w
      in case fetch_files io j stage_dir 0 (length paths) paths w of
           (ok, w) \<Rightarrow>
             if \<not> ok then w
             else post (oj_guest j) (OtaResult True (dec (length paths) @ '' file(s) fetched, ready to apply'')) w)"

text \<open>At most 16 names are taken; a control file ends the job.\<close>

fun staged_names :: "nat \<Rightarrow> string list \<Rightarrow> string + string list" where
  "staged_names n [] = Inr []"
| "staged_names n (e # es) =
     (if n \<ge> 16 then Inr []
      else if e = ''.'' \<or> e = ''..'' then staged_names n es
      else if is_control_file e then Inl e
      else map_sum id ((#) (bounded_copy 256 e)) (staged_names (n + 1) es))"

fun place_files :: "ota_io \<Rightarrow> string \<Rightarrow> string \<Rightarrow> string \<Rightarrow> nat \<Rightarrow> nat \<Rightarrow> string list \<Rightarrow> ota_world \<Rightarrow> bool \<times> ota_world" where
  "place_files io gid stage_dir dest_dir i n [] w = (True, w)"
| "place_files io gid stage_dir dest_dir i n (name # names) w =
     (let dest = bounded_copy 4368 (dest_dir @ ''/'' @ name);
          local_stage = bounded_copy 4496 (stage_dir @ ''/'' @ name)
      in case run_cmd io (cp_line local_stage dest) w of
           (rc, w) \<Rightarrow>
             if rc \<noteq> 0 then (False, ota_report gid ''failed'' 0 ''Failed to place file in guest directory'' w)
             else place_files io gid stage_dir dest_dir (i + 1) n names
                    (ota_report gid ''apply'' (int ((i + 1) * 100 div n)) (bounded_copy 256 (''Updated '' @ take 120 name)) w))"

definition no_staged_files :: string where
  "no_staged_files = ''No staged files found '' @ dash @ '' run Update (fetch) first''"

definition ota_apply_thread :: "ota_io \<Rightarrow> ota_job \<Rightarrow> bool \<Rightarrow> ota_world \<Rightarrow> ota_world" where
  "ota_apply_thread io j want_restart w =
     (let gid = oj_guest j;
          stage_dir = stage_dir_of gid;
          dest_dir = guest_dir_of gid
      in case oi_dirs io stage_dir of
           None \<Rightarrow> ota_report gid ''failed'' 0 no_staged_files w
         | Some listing \<Rightarrow>
             (case staged_names 0 listing of
                Inl e \<Rightarrow> ota_report gid ''failed'' 0
                          (bounded_copy 256 (''Refused to apply control file '' @ [QUOTE] @ take 120 e @ [QUOTE])) w
              | Inr [] \<Rightarrow> ota_report gid ''failed'' 0 no_staged_files w
              | Inr names \<Rightarrow>
                  let w = ota_report gid ''restart'' 0 ''Stopping guest before applying changes'' w;
                      w = snd (ota_kill_cb (oi_kill io) gid w)
                  in case place_files io gid stage_dir dest_dir 0 (length names) names w of
                       (ok, w) \<Rightarrow>
                         if \<not> ok then w
                         else
                           let restart = (want_restart \<or> list_ex is_image_file names);
                               w = (if restart
                                    then case ota_start_cb (oi_start io) gid
                                                (ota_report gid ''restart'' 50 ''Guest stopped, starting now'' w) of
                                           (rc, w) \<Rightarrow> ota_report gid ''restart'' 100
                                             (if rc = 0 then ''Guest restarted'' else ''Guest restart failed'') w
                                    else ota_report gid ''restart'' 100 ''Files replaced (guest left running)'' w);
                               w = fold (\<lambda>name. remove_file (bounded_copy 4496 (stage_dir @ ''/'' @ name))) names w
                           in post gid (OtaResult True (dec (length names) @ '' file(s) applied'' @
                                (if restart then '' and guest restarted'' else '' (no restart)''))) w))"

section \<open>Pushing files into a running guest\<close>

text \<open>The last 767 bytes of the output, line ends shown as blanks.\<close>

definition extract_error :: "string \<Rightarrow> string" where
  "extract_error out =
     map (\<lambda>c. if c = NEWLINE \<or> c = CHR 0x0D then CHR '' '' else c)
       (if length out \<ge> 768 then drop (length out - 767) out else out)"

definition extract_command :: string where
  "extract_command = ''exec 2>&1; tar -xzf /tmp/pushfiles.tar.gz -C / && rm -f /tmp/pushfiles.tar.gz && echo EXTRACT_OK''"

text \<open>None stands for a write beyond a buffer of the two SSH functions, which does not happen.\<close>

definition ota_push_thread :: "ota_io \<Rightarrow> ota_job \<Rightarrow> string \<Rightarrow> guest \<Rightarrow> ota_world \<Rightarrow> ota_world option" where
  "ota_push_thread io j remote_path g w =
     (let gid = oj_guest j;
          push_dir = bounded_copy 2048 (''/tmp/ota/'' @ gid @ ''/push'');
          local_tar = bounded_copy 3200 (push_dir @ ''/'' @ basename remote_path);
          w = ota_report gid ''pushfiles'' 0 ''Pulling archive from the server'' w;
          w = remove_file local_tar (mkdirs io push_dir w);
          remote_sz = remote_size io (oj_server j) (oj_key j) remote_path
      in if remote_sz \<le> 0 then Some (ota_report gid ''failed'' 0 ''Archive not found on the server'' w)
         else case pull_attempts io j [1, 2, 3] (\<lambda>a. ''Retry '' @ dec a @ ''/3 pulling the archive'')
                     remote_path local_tar remote_sz ''pushfiles'' 0 1 w of
           (ok, w) \<Rightarrow>
             if \<not> ok then Some (ota_report gid ''failed'' 0 ''Failed to pull the archive after 3 attempts'' w)
             else
               let w = ota_report gid ''pushfiles'' 70 (''Archive pulled '' @ dash @ '' copying into the guest'') w
               in (case ssh_scp_to (oi_push io) 512 (ow_files w) g local_tar ''/tmp/pushfiles.tar.gz'' of
                     None \<Rightarrow> None
                   | Some (Inl err) \<Rightarrow>
                       Some (remove_file local_tar (ota_report gid ''failed'' 0
                         (bounded_copy 600 (''Failed to copy the archive into the guest: '' @
                            (if err \<noteq> [] then err else ''unknown error''))) w))
                   | Some (Inr _) \<Rightarrow>
                       let w = ota_report gid ''pushfiles'' 85 ''Extracting files into the guest filesystem'' w
                       in (case ssh_exec (oi_extract io) (ow_files w) g extract_command of
                             None \<Rightarrow> None
                           | Some out \<Rightarrow>
                               let w = remove_file local_tar w
                               in if (case out of None \<Rightarrow> False | Some s \<Rightarrow> strstr s ''EXTRACT_OK'')
                                  then Some (post gid (OtaResult True ''files pushed to guest'')
                                         (ota_report gid ''pushfiles'' 100 ''Files pushed to guest'' w))
                                  else let err = (case out of None \<Rightarrow> [] | Some s \<Rightarrow> extract_error s)
                                  in Some (post gid (OtaResult False
                                       (''extraction failed inside the guest: '' @ (if err \<noteq> [] then err else ''unknown error''))) w))))"

section \<open>Adding a file, adding a guest\<close>

definition addfile_thread :: "ota_io \<Rightarrow> ota_job \<Rightarrow> string \<Rightarrow> ota_world \<Rightarrow> ota_world" where
  "addfile_thread io j remote_path w =
     (let gid = oj_guest j; name = basename remote_path
      in if is_control_file name
         then post gid (AddfileResult False (bounded_copy 256 (''Refused to add control file '' @ [QUOTE] @ take 120 name @ [QUOTE]))) w
         else
           let stage_dir = bounded_copy 448 (''/tmp/ota/'' @ gid @ ''/addfile'');
               w = mkdirs io stage_dir w;
               local_file = bounded_copy 2048 (stage_dir @ ''/'' @ name);
               guest_dir = guest_dir_of gid;
               remote_sz = remote_size io (oj_server j) (oj_key j) remote_path
           in case pull_file io j 1 remote_path local_file remote_sz ''addfile'' 0 1 (remove_file local_file w) of
                (ok, w) \<Rightarrow>
                  case (if ok
                        then (case run_cmd io (cp_line local_file (guest_dir @ ''/'' @ name)) w of
                                (rc, w) \<Rightarrow> (rc = 0, remove_file local_file w))
                        else (False, w)) of
                    (ok, w) \<Rightarrow>
                      post gid (if ok
                        then AddfileResult True (bounded_copy 480 (''Added '' @ take 120 name @ '' to '' @ guest_dir @ '' (no guest restart needed)''))
                        else AddfileResult False ''failed to add the file to the guest directory'') w)"

text \<open>\<open>stat\<close> finds the guest's directory when it can be listed. The metadata file is opened to
  append; \<open>meta_ok\<close> is whether that succeeds.\<close>

definition addguest_thread :: "ota_io \<Rightarrow> bool \<Rightarrow> ota_job \<Rightarrow> string \<Rightarrow> string \<Rightarrow> string \<Rightarrow> ota_world \<Rightarrow> ota_world" where
  "addguest_thread io meta_ok j ifs_remote conf_remote ip w =
     (let gid = oj_guest j;
          guest_dir = guest_dir_of gid;
          conf_name = basename conf_remote;
          ifs_name = basename ifs_remote
      in if oi_dirs io guest_dir \<noteq> None then post gid (AddguestResult False ''a guest with this ID already exists'') w
         else if is_control_file conf_name \<or> is_control_file ifs_name
              then post gid (AddguestResult False ''refusing control-file names'') w
         else
           let w = mkdirs io guest_dir w;
               local_conf = bounded_copy 1296 (guest_dir @ ''/'' @ conf_name);
               local_ifs = bounded_copy 1296 (guest_dir @ ''/'' @ ifs_name)
           in case pull_file io j 1 conf_remote local_conf (remote_size io (oj_server j) (oj_key j) conf_remote) ''addguest'' 0 2 w of
                (ok, w) \<Rightarrow>
                  case (if ok
                        then pull_file io j 1 ifs_remote local_ifs (remote_size io (oj_server j) (oj_key j) ifs_remote) ''addguest'' 1 2 w
                        else (False, w)) of
                    (ok, w) \<Rightarrow>
                      let meta = bounded_copy 288 (''/guests/'' @ gid @ ''/.hms_metadata'');
                          w = (if ok \<and> ip \<noteq> [] \<and> meta_ok
                               then w\<lparr>ow_files := (ow_files w)(meta \<mapsto>
                                        (case ow_files w meta of None \<Rightarrow> [] | Some txt \<Rightarrow> txt) @ ''ip='' @ ip @ [NEWLINE])\<rparr>
                               else w)
                      in post gid (if ok
                           then AddguestResult True (bounded_copy 480 (''guest '' @ [QUOTE] @ take 32 gid @ [QUOTE] @ '' created ('' @
                                  take 60 conf_name @ '', '' @ take 60 ifs_name @ '') '' @ dash @ '' refresh the list''))
                           else AddguestResult False ''failed to pull the guest files from the server'') w)"

section \<open>Jobs\<close>

datatype ota_request =
    ReqUpdate string
  | ReqFetch "string list"
  | ReqApply bool
  | ReqPush guest string
  | ReqAddfile string
  | ReqAddguest string string string

definition new_job :: "hms_config \<Rightarrow> string \<Rightarrow> ota_job" where
  "new_job cfg gid =
     \<lparr>oj_guest = bounded_copy 32 gid,
      oj_server = bounded_copy 256 (if hc_ota_server cfg \<noteq> [] then hc_ota_server cfg else ''maxmaster@139.185.38.211''),
      oj_key = bounded_copy 512 (if hc_ota_key cfg \<noteq> [] then hc_ota_key cfg else ''/.ssh/id_ed25519'')\<rparr>"

text \<open>The start functions: the request as its buffers hold it, or None when it is refused.
  \<open>ok\<close> is whether memory and a thread were available.\<close>

definition ota_start :: "bool \<Rightarrow> hms_config \<Rightarrow> string \<Rightarrow> string \<Rightarrow> (ota_job \<times> ota_request) option" where
  "ota_start ok cfg gid remote_path =
     (if ok then Some (new_job cfg gid, ReqUpdate (bounded_copy 1024 remote_path)) else None)"

definition ota_fetch_start :: "bool \<Rightarrow> hms_config \<Rightarrow> string \<Rightarrow> string list \<Rightarrow> (ota_job \<times> ota_request) option" where
  "ota_fetch_start ok cfg gid paths =
     (if length paths = 0 \<or> length paths > 16 then None
      else if ok then Some (new_job cfg gid, ReqFetch (map (bounded_copy 1024) paths)) else None)"

definition ota_apply_start :: "bool \<Rightarrow> hms_config \<Rightarrow> string \<Rightarrow> bool \<Rightarrow> (ota_job \<times> ota_request) option" where
  "ota_apply_start ok cfg gid restart = (if ok then Some (new_job cfg gid, ReqApply restart) else None)"

definition ota_push_start :: "bool \<Rightarrow> hms_config \<Rightarrow> guest \<Rightarrow> string \<Rightarrow> (ota_job \<times> ota_request) option" where
  "ota_push_start ok cfg g remote_path =
     (if ok then Some (new_job cfg (g_id g), ReqPush g (bounded_copy 1024 remote_path)) else None)"

definition ota_addfile_start :: "bool \<Rightarrow> hms_config \<Rightarrow> string \<Rightarrow> string \<Rightarrow> (ota_job \<times> ota_request) option" where
  "ota_addfile_start ok cfg gid remote_path =
     (if ok then Some (new_job cfg gid, ReqAddfile (bounded_copy 1024 remote_path)) else None)"

definition ota_addguest_start :: "bool \<Rightarrow> hms_config \<Rightarrow> string \<Rightarrow> string \<Rightarrow> string \<Rightarrow> string \<Rightarrow> (ota_job \<times> ota_request) option" where
  "ota_addguest_start ok cfg gid ifs_remote conf_remote ip =
     (if ok then Some (new_job cfg gid,
        ReqAddguest (bounded_copy 1024 ifs_remote) (bounded_copy 1024 conf_remote) (bounded_copy 64 ip)) else None)"

definition run_job :: "ota_io \<Rightarrow> bool \<Rightarrow> ota_job \<Rightarrow> ota_request \<Rightarrow> ota_world \<Rightarrow> ota_world option" where
  "run_job io meta_ok j r w =
     (case r of
        ReqUpdate p \<Rightarrow> Some (ota_thread io j p w)
      | ReqFetch ps \<Rightarrow> Some (ota_fetch_thread io j ps w)
      | ReqApply restart \<Rightarrow> Some (ota_apply_thread io j restart w)
      | ReqPush g p \<Rightarrow> ota_push_thread io j p g w
      | ReqAddfile p \<Rightarrow> Some (addfile_thread io j p w)
      | ReqAddguest ifs conf ip \<Rightarrow> Some (addguest_thread io meta_ok j ifs conf ip w))"

end
