(* ===== verification/HmsShell.thy ===== *)
theory HmsShell
  imports HmsGuest HmsMqtt
begin

text \<open>
  SSH sessions of the manager: the session pool of ssh/session_pool.c and the interactive
  shells of ssh/shell.c. A shell is a child process with a pipe in each direction, a slot in
  a table of four and a reader thread. The table is changed in critical sections; those of
  the command thread, the monitor and the readers are events that can come in any order.
  Descriptors are numbers the kernel hands out; results of system calls are inputs.
\<close>

section \<open>The session pool\<close>

type_synonym pool = "string list"

definition session_pool_get :: "string \<Rightarrow> pool \<Rightarrow> string option \<times> pool" where
  "session_pool_get gid p =
     (if gid \<in> set p then (Some gid, p)
      else if length p < 16 then (Some gid, p @ [gid])
      else (None, p))"

text \<open>The last entry takes the place of the closed one.\<close>

fun pool_index :: "string \<Rightarrow> pool \<Rightarrow> nat option" where
  "pool_index gid [] = None"
| "pool_index gid (x # p) = (if x = gid then Some 0 else map_option Suc (pool_index gid p))"

definition session_pool_close :: "string \<Rightarrow> pool \<Rightarrow> pool" where
  "session_pool_close gid p =
     (case pool_index gid p of None \<Rightarrow> p | Some i \<Rightarrow> butlast (p[i := last p]))"

definition session_pool_close_all :: "pool \<Rightarrow> pool" where
  "session_pool_close_all p = []"

section \<open>Messages\<close>

fun escape_loop :: "nat \<Rightarrow> string \<Rightarrow> string \<Rightarrow> string" where
  "escape_loop out_sz [] buf = buf"
| "escape_loop out_sz (c # cs) buf =
     (if length buf < out_sz - 8 then escape_loop out_sz cs (buf @ escape_char c) else buf)"

definition shell_escape :: "nat \<Rightarrow> string \<Rightarrow> string" where
  "shell_escape out_sz s = escape_loop out_sz (cstr s) []"

definition shell_out_prefix :: "string \<Rightarrow> string" where
  "shell_out_prefix gid =
     ''{'' @ dq ''state'' @ '':'' @ dq ''shell_out'' @ '','' @ dq ''guest'' @ '':'' @ dq gid @ '','' @ dq ''data'' @ '':'' @ [DQUOTE]"

definition publish_chunk :: "string \<Rightarrow> string \<Rightarrow> hms_mqtt \<Rightarrow> hms_mqtt" where
  "publish_chunk gid data m =
     hms_mqtt_publish_status (bounded_copy 4300 (shell_out_prefix gid @ shell_escape 4096 data @ [DQUOTE] @ ''}'')) m"

definition publish_shell_state :: "string \<Rightarrow> string \<Rightarrow> string \<Rightarrow> hms_mqtt \<Rightarrow> hms_mqtt" where
  "publish_shell_state gid state msg m =
     hms_mqtt_publish_status (bounded_copy 1400
       (''{'' @ dq ''state'' @ '':'' @ dq state @ '','' @ dq ''guest'' @ '':'' @ dq gid @ '','' @ dq ''msg'' @ '':'' @
        [DQUOTE] @ shell_escape 1024 msg @ [DQUOTE] @ ''}'')) m"

section \<open>The table of sessions\<close>

datatype reader_state = NoReader | Reading | Closing

record shell_session =
  ss_guest_id :: string
  ss_pid :: int
  ss_in_fd :: int
  ss_out_fd :: int
  ss_alive :: bool
  ss_reader :: reader_state
  ss_last_activity :: int

text \<open>Beside the table: the descriptors the process has open, the signals it sent, the service.\<close>

record shells =
  sh_sessions :: "shell_session list"
  sh_fds :: "int set"
  sh_killed :: "int list"
  sh_mqtt :: hms_mqtt

definition free_session :: shell_session where
  "free_session = \<lparr>ss_guest_id = [], ss_pid = 0, ss_in_fd = 0, ss_out_fd = 0, ss_alive = False,
     ss_reader = NoReader, ss_last_activity = 0\<rparr>"

definition shells_start :: "hms_mqtt \<Rightarrow> shells" where
  "shells_start m = \<lparr>sh_sessions = replicate 4 free_session, sh_fds = {}, sh_killed = [], sh_mqtt = m\<rparr>"

definition is_open_for :: "string \<Rightarrow> shell_session \<Rightarrow> bool" where
  "is_open_for gid s \<longleftrightarrow> ss_alive s \<and> ss_guest_id s = gid"

definition shell_is_open :: "string \<Rightarrow> shells \<Rightarrow> bool" where
  "shell_is_open gid w = list_ex (is_open_for gid) (sh_sessions w)"

fun index_of :: "('a \<Rightarrow> bool) \<Rightarrow> 'a list \<Rightarrow> nat option" where
  "index_of P [] = None"
| "index_of P (x # xs) = (if P x then Some 0 else map_option Suc (index_of P xs))"

datatype shell_error = NoAddress | NotRunning | AlreadyOpen | PipeFailed | ForkFailed | NoSlot | NoThread

text \<open>Results of the calls of an open: the two pipes (read end, write end), the fork and the thread.\<close>

record open_io =
  oi_in_pipe :: "(int \<times> int) option"
  oi_out_pipe :: "(int \<times> int) option"
  oi_fork :: "int option"
  oi_thread_ok :: bool
  oi_now :: int

definition shell_open :: "open_io \<Rightarrow> guest \<Rightarrow> shells \<Rightarrow> (shell_error + unit) \<times> shells" where
  "shell_open io g w =
     (if g_ip g = [] then (Inl NoAddress, w)
      else if g_state g \<noteq> GUEST_RUNNING then (Inl NotRunning, w)
      else if shell_is_open (g_id g) w then (Inl AlreadyOpen, w)
      else case oi_in_pipe io of
             None \<Rightarrow> (Inl PipeFailed, w)
           | Some (in0, in1) \<Rightarrow>
               let w = w\<lparr>sh_fds := sh_fds w \<union> {in0, in1}\<rparr>
               in case oi_out_pipe io of
                    None \<Rightarrow> (Inl PipeFailed, w)
                  | Some (out0, out1) \<Rightarrow>
                      let w = w\<lparr>sh_fds := sh_fds w \<union> {out0, out1}\<rparr>
                      in case oi_fork io of
                           None \<Rightarrow> (Inl ForkFailed, w\<lparr>sh_fds := sh_fds w - {in0, in1, out0, out1}\<rparr>)
                         | Some pid \<Rightarrow>
                             let w = w\<lparr>sh_fds := sh_fds w - {in0, out1}\<rparr>
                             in case index_of (\<lambda>s. \<not> ss_alive s \<and> ss_guest_id s = []) (sh_sessions w) of
                                  None \<Rightarrow> (Inl NoSlot, w\<lparr>sh_killed := sh_killed w @ [pid], sh_fds := sh_fds w - {in1, out0}\<rparr>)
                                | Some i \<Rightarrow>
                                    let s = (sh_sessions w ! i)\<lparr>ss_pid := pid, ss_in_fd := in1, ss_out_fd := out0,
                                              ss_alive := True, ss_last_activity := oi_now io,
                                              ss_guest_id := bounded_copy 32 (g_id g)\<rparr>
                                    in if \<not> oi_thread_ok io
                                       then (Inl NoThread,
                                             w\<lparr>sh_sessions := (sh_sessions w)[i := s\<lparr>ss_alive := False, ss_guest_id := []\<rparr>],
                                               sh_killed := sh_killed w @ [pid], sh_fds := sh_fds w - {in1, out0}\<rparr>)
                                       else (Inr (),
                                             w\<lparr>sh_sessions := (sh_sessions w)[i := s\<lparr>ss_reader := Reading\<rparr>],
                                               sh_mqtt := publish_shell_state (g_id g) ''shell_opened'' ''shell connected'' (sh_mqtt w)\<rparr>))"

text \<open>Results of the \<open>write\<close> calls: bytes taken, interrupted, or failed.\<close>

datatype write_result = Wrote nat | Interrupted | WriteFailed

fun write_loop :: "write_result list \<Rightarrow> string \<Rightarrow> bool option" where
  "write_loop rs data =
     (if data = [] then Some True
      else case rs of
             [] \<Rightarrow> None
           | Wrote n # rs \<Rightarrow> write_loop rs (drop n data)
           | Interrupted # rs \<Rightarrow> write_loop rs data
           | WriteFailed # rs \<Rightarrow> Some False)"

declare write_loop.simps [simp del]

definition shell_write :: "write_result list \<Rightarrow> int \<Rightarrow> string \<Rightarrow> string \<Rightarrow> shells \<Rightarrow> (bool \<times> shells) option" where
  "shell_write rs now gid data w =
     (case index_of (is_open_for gid) (sh_sessions w) of
        None \<Rightarrow> Some (False, w)
      | Some i \<Rightarrow>
          (case write_loop rs (cstr data) of
             None \<Rightarrow> None
           | Some ok \<Rightarrow>
               Some (ok, if ok then w\<lparr>sh_sessions := (sh_sessions w)[i := (sh_sessions w ! i)\<lparr>ss_last_activity := now\<rparr>]\<rparr>
                         else w)))"

text \<open>The critical section of a close, then closing the input and signalling the child.\<close>

definition shell_close :: "string \<Rightarrow> shells \<Rightarrow> bool \<times> shells" where
  "shell_close gid w =
     (case index_of (is_open_for gid) (sh_sessions w) of
        None \<Rightarrow> (False, w)
      | Some i \<Rightarrow>
          let s = sh_sessions w ! i
          in (True, w\<lparr>sh_sessions := (sh_sessions w)[i := s\<lparr>ss_alive := False, ss_pid := 0, ss_in_fd := - 1\<rparr>],
                      sh_fds := (if ss_in_fd s \<ge> 0 then sh_fds w - {ss_in_fd s} else sh_fds w),
                      sh_killed := (if ss_pid s > 0 then sh_killed w @ [ss_pid s] else sh_killed w)\<rparr>))"

text \<open>
  A reader's turn on slot \<open>i\<close>: it forwards what it read, or it ends, in two critical sections. A
  read that was waiting when the session was closed may still deliver data once; the model
  lets a reader deliver until it ends.
\<close>

definition reader_data :: "int \<Rightarrow> string \<Rightarrow> nat \<Rightarrow> shells \<Rightarrow> shells" where
  "reader_data now bytes i w =
     (let s = sh_sessions w ! i
      in if ss_reader s = Reading
         then w\<lparr>sh_sessions := (sh_sessions w)[i := s\<lparr>ss_last_activity := now\<rparr>],
                sh_mqtt := publish_chunk (ss_guest_id s) (take 512 bytes) (sh_mqtt w)\<rparr>
         else w)"

definition reader_end :: "nat \<Rightarrow> shells \<Rightarrow> shells" where
  "reader_end i w =
     (let s = sh_sessions w ! i
      in if ss_reader s = Reading
         then w\<lparr>sh_sessions := (sh_sessions w)[i := s\<lparr>ss_alive := False, ss_out_fd := - 1, ss_in_fd := - 1, ss_pid := 0,
                                                      ss_reader := Closing\<rparr>],
                sh_fds := sh_fds w - {fd \<in> {ss_out_fd s, ss_in_fd s}. fd \<ge> 0},
                sh_killed := (if ss_pid s > 0 then sh_killed w @ [ss_pid s] else sh_killed w),
                sh_mqtt := publish_shell_state (ss_guest_id s) ''shell_closed'' ''session ended'' (sh_mqtt w)\<rparr>
         else w)"

definition reader_free :: "nat \<Rightarrow> shells \<Rightarrow> shells" where
  "reader_free i w =
     (let s = sh_sessions w ! i
      in if ss_reader s = Closing
         then w\<lparr>sh_sessions := (sh_sessions w)[i := s\<lparr>ss_guest_id := [], ss_reader := NoReader\<rparr>]\<rparr>
         else w)"

text \<open>One round of the monitor: collect the idle sessions' guests, then close them.\<close>

definition idle_guests :: "int \<Rightarrow> shells \<Rightarrow> string list" where
  "idle_guests now w =
     map (\<lambda>s. bounded_copy 32 (ss_guest_id s))
       (filter (\<lambda>s. ss_alive s \<and> now - ss_last_activity s > 60) (sh_sessions w))"

definition shell_monitor :: "int \<Rightarrow> shells \<Rightarrow> shells" where
  "shell_monitor now w = fold (\<lambda>gid w. snd (shell_close gid w)) (idle_guests now w) w"

definition shell_close_all :: "shells \<Rightarrow> shells" where
  "shell_close_all w =
     fold (\<lambda>i w. let s = sh_sessions w ! i
                 in if ss_alive s \<and> ss_guest_id s \<noteq> [] then snd (shell_close (ss_guest_id s) w) else w) [0..<4] w"

section \<open>Invariant\<close>

definition owned :: "shell_session \<Rightarrow> int set" where
  "owned s = (if ss_reader s = NoReader then {} else {fd \<in> {ss_in_fd s, ss_out_fd s}. fd \<ge> 0})"

definition session_ok :: "shell_session \<Rightarrow> bool" where
  "session_ok s \<longleftrightarrow>
     (case ss_reader s of
        NoReader \<Rightarrow> \<not> ss_alive s \<and> ss_guest_id s = []
      | Reading \<Rightarrow> ss_guest_id s \<noteq> [] \<and> ss_out_fd s \<ge> 0 \<and> ss_in_fd s \<noteq> ss_out_fd s \<and>
          (if ss_alive s then ss_pid s > 0 \<and> ss_in_fd s \<ge> 0 else ss_pid s = 0 \<and> ss_in_fd s = - 1)
      | Closing \<Rightarrow> ss_guest_id s \<noteq> [] \<and> \<not> ss_alive s \<and> ss_pid s = 0 \<and> ss_in_fd s = - 1 \<and> ss_out_fd s = - 1)"

definition shells_inv :: "shells \<Rightarrow> bool" where
  "shells_inv w \<longleftrightarrow> length (sh_sessions w) = 4 \<and> (\<forall>i < 4. session_ok (sh_sessions w ! i)) \<and>
     (\<forall>i < 4. \<forall>j < 4. i \<noteq> j \<longrightarrow>
        owned (sh_sessions w ! i) \<inter> owned (sh_sessions w ! j) = {} \<and>
        (ss_alive (sh_sessions w ! i) \<longrightarrow> ss_alive (sh_sessions w ! j) \<longrightarrow>
           ss_guest_id (sh_sessions w ! i) \<noteq> ss_guest_id (sh_sessions w ! j))) \<and>
     sh_fds w = (\<Union>i \<in> {..<4}. owned (sh_sessions w ! i))"

lemma shells_inv_frame [simp]:
  "shells_inv (w\<lparr>sh_mqtt := m\<rparr>) = shells_inv w" "shells_inv (w\<lparr>sh_killed := k\<rparr>) = shells_inv w"
  by (simp_all add: shells_inv_def)

lemma index_of_Some: "index_of P xs = Some i \<Longrightarrow> i < length xs \<and> P (xs ! i)"
  by (induction xs arbitrary: i) (auto split: if_splits)

lemma index_of_None: "index_of P xs = None \<longleftrightarrow> (\<forall>i < length xs. \<not> P (xs ! i))"
  by (induction xs) (auto simp: less_Suc_eq_0_disj)

text \<open>Replacing one slot, with the descriptors it takes and gives back.\<close>

lemma update_inv:
  assumes "shells_inv w" "i < 4" "session_ok s"
    "\<And>j. j < 4 \<Longrightarrow> j \<noteq> i \<Longrightarrow> owned s \<inter> owned (sh_sessions w ! j) = {}"
    "\<And>j. j < 4 \<Longrightarrow> j \<noteq> i \<Longrightarrow> ss_alive s \<Longrightarrow> ss_alive (sh_sessions w ! j) \<Longrightarrow> ss_guest_id s \<noteq> ss_guest_id (sh_sessions w ! j)"
    "fds = sh_fds w - owned (sh_sessions w ! i) \<union> owned s"
  shows "shells_inv (w\<lparr>sh_sessions := (sh_sessions w)[i := s], sh_fds := fds\<rparr>)"
proof -
  have len: "length (sh_sessions w) = 4"
    using assms(1) by (simp add: shells_inv_def)
  have "fds = (\<Union>j \<in> {..<4}. owned ((sh_sessions w)[i := s] ! j))"
  proof (rule set_eqI)
    fix x
    have "x \<in> sh_fds w \<and> x \<notin> owned (sh_sessions w ! i) \<longleftrightarrow> (\<exists>j < 4. j \<noteq> i \<and> x \<in> owned (sh_sessions w ! j))"
      using assms(1,2) unfolding shells_inv_def by blast
    then show "x \<in> fds \<longleftrightarrow> x \<in> (\<Union>j \<in> {..<4}. owned ((sh_sessions w)[i := s] ! j))"
      using assms(2,6) len by (auto simp: nth_list_update)
  qed
  moreover have "ss_guest_id (sh_sessions w ! j) \<noteq> ss_guest_id s"
    if "j < 4" "j \<noteq> i" "ss_alive s" "ss_alive (sh_sessions w ! j)" for j
    using assms(5) [OF that] by simp
  ultimately show ?thesis
    using assms(1-5) len unfolding shells_inv_def
    by (auto simp: nth_list_update Int_commute)
qed

lemma owned_in_fds: "shells_inv w \<Longrightarrow> i < 4 \<Longrightarrow> owned (sh_sessions w ! i) \<subseteq> sh_fds w"
  by (auto simp: shells_inv_def)

lemma session_okD: "shells_inv w \<Longrightarrow> i < 4 \<Longrightarrow> session_ok (sh_sessions w ! i)"
  by (simp add: shells_inv_def)

text \<open>A change that gives back descriptors of a slot, at most, and does not make it live again.\<close>

lemma shrink_inv:
  assumes "shells_inv w" "i < 4" "session_ok s" "owned s \<subseteq> owned (sh_sessions w ! i)"
    "ss_alive s \<Longrightarrow> ss_alive (sh_sessions w ! i) \<and> ss_guest_id s = ss_guest_id (sh_sessions w ! i)"
    "fds = sh_fds w - (owned (sh_sessions w ! i) - owned s)"
  shows "shells_inv (w\<lparr>sh_sessions := (sh_sessions w)[i := s], sh_fds := fds\<rparr>)"
proof (rule update_inv [OF assms(1-3)])
  show "owned s \<inter> owned (sh_sessions w ! j) = {}" if "j < 4" "j \<noteq> i" for j
    using assms(1,2,4) that unfolding shells_inv_def by blast
  show "ss_guest_id s \<noteq> ss_guest_id (sh_sessions w ! j)"
    if "j < 4" "j \<noteq> i" "ss_alive s" "ss_alive (sh_sessions w ! j)" for j
    using assms(1,2,5) that unfolding shells_inv_def by metis
  show "fds = sh_fds w - owned (sh_sessions w ! i) \<union> owned s"
    using assms(4,6) owned_in_fds [OF assms(1,2)] by blast
qed

lemma shell_close_inv: "shells_inv w \<Longrightarrow> shells_inv (snd (shell_close gid w))"
proof (cases "index_of (is_open_for gid) (sh_sessions w)")
  case None
  then show "shells_inv w \<Longrightarrow> ?thesis" by (simp add: shell_close_def)
next
  case (Some i)
  assume inv: "shells_inv w"
  let ?s = "sh_sessions w ! i"
  have i: "i < 4" "ss_alive ?s"
    using index_of_Some [OF Some] inv by (auto simp: is_open_for_def shells_inv_def)
  then have ok: "ss_reader ?s = Reading" "ss_in_fd ?s \<ge> 0" "ss_out_fd ?s \<ge> 0" "ss_in_fd ?s \<noteq> ss_out_fd ?s" "ss_guest_id ?s \<noteq> []"
    using session_okD [OF inv i(1)] by (auto simp: session_ok_def split: reader_state.splits)
  let ?t = "?s\<lparr>ss_alive := False, ss_pid := 0, ss_in_fd := - 1\<rparr>"
  have "shells_inv (w\<lparr>sh_sessions := (sh_sessions w)[i := ?t], sh_fds := sh_fds w - {ss_in_fd ?s}\<rparr>)"
  proof (rule shrink_inv [OF inv i(1)])
    show "sh_fds w - {ss_in_fd ?s} = sh_fds w - (owned ?s - owned ?t)"
      using ok by (auto simp: owned_def)
  qed (use ok in \<open>auto simp: session_ok_def owned_def\<close>)
  then have "shells_inv (w\<lparr>sh_sessions := (sh_sessions w)[i := ?t], sh_fds := sh_fds w - {ss_in_fd ?s}, sh_killed := k\<rparr>)" for k
    using shells_inv_frame(2) [of k "w\<lparr>sh_sessions := (sh_sessions w)[i := ?t], sh_fds := sh_fds w - {ss_in_fd ?s}\<rparr>"] by simp
  then show ?thesis
    using Some ok(2) by (simp add: shell_close_def Let_def)
qed

lemma fold_close_inv: "shells_inv w \<Longrightarrow> shells_inv (fold (\<lambda>gid w. snd (shell_close gid w)) ids w)"
  by (induction ids arbitrary: w) (simp_all add: shell_close_inv)

lemma shell_monitor_inv: "shells_inv w \<Longrightarrow> shells_inv (shell_monitor now w)"
  by (simp add: shell_monitor_def fold_close_inv)

lemma shell_close_all_inv: "shells_inv w \<Longrightarrow> shells_inv (shell_close_all w)"
proof -
  have "shells_inv w \<Longrightarrow> shells_inv (fold (\<lambda>i w. let s = sh_sessions w ! i
      in if ss_alive s \<and> ss_guest_id s \<noteq> [] then snd (shell_close (ss_guest_id s) w) else w) is w)" for "is"
    by (induction "is" arbitrary: w) (simp_all add: shell_close_inv Let_def)
  then show "shells_inv w \<Longrightarrow> ?thesis"
    by (simp add: shell_close_all_def)
qed

lemma activity_inv:
  assumes "shells_inv w" "i < 4"
  shows "shells_inv (w\<lparr>sh_sessions := (sh_sessions w)[i := (sh_sessions w ! i)\<lparr>ss_last_activity := now\<rparr>]\<rparr>)"
proof -
  have "shells_inv (w\<lparr>sh_sessions := (sh_sessions w)[i := (sh_sessions w ! i)\<lparr>ss_last_activity := now\<rparr>], sh_fds := sh_fds w\<rparr>)"
    by (rule shrink_inv [OF assms]) (use session_okD [OF assms] in \<open>auto simp: session_ok_def owned_def split: reader_state.splits\<close>)
  then show ?thesis by simp
qed

lemma shell_write_inv:
  assumes "shells_inv w" "shell_write rs now gid data w = Some (ok, w')"
  shows "shells_inv w'"
proof -
  have "i < 4" if "index_of (is_open_for gid) (sh_sessions w) = Some i" for i
    using index_of_Some [OF that] assms(1) by (simp add: shells_inv_def)
  then show ?thesis
    using assms activity_inv [OF assms(1)] by (auto simp: shell_write_def split: option.splits if_splits)
qed

lemma reader_data_inv:
  assumes "shells_inv w" "i < 4"
  shows "shells_inv (reader_data now bytes i w)"
  using activity_inv [OF assms, of now] assms(1)
    shells_inv_frame(1) [of _ "w\<lparr>sh_sessions := (sh_sessions w)[i := (sh_sessions w ! i)\<lparr>ss_last_activity := now\<rparr>]\<rparr>"]
  by (simp add: reader_data_def Let_def)

lemma reader_end_inv:
  assumes inv: "shells_inv w" and i: "i < 4"
  shows "shells_inv (reader_end i w)"
proof (cases "ss_reader (sh_sessions w ! i) = Reading")
  case True
  let ?s = "sh_sessions w ! i"
  let ?t = "?s\<lparr>ss_alive := False, ss_out_fd := - 1, ss_in_fd := - 1, ss_pid := 0, ss_reader := Closing\<rparr>"
  let ?fds = "sh_fds w - {fd \<in> {ss_out_fd ?s, ss_in_fd ?s}. fd \<ge> 0}"
  have "shells_inv (w\<lparr>sh_sessions := (sh_sessions w)[i := ?t], sh_fds := ?fds\<rparr>)"
  proof (rule shrink_inv [OF inv i])
    show "?fds = sh_fds w - (owned ?s - owned ?t)"
      using True by (auto simp: owned_def)
  qed (use session_okD [OF inv i] True in \<open>auto simp: session_ok_def owned_def\<close>)
  then show ?thesis
    using True shells_inv_frame(1,2) by (simp add: reader_end_def Let_def shells_inv_def)
next
  case False
  then show ?thesis
    using inv by (simp add: reader_end_def)
qed

lemma reader_free_inv:
  assumes inv: "shells_inv w" and i: "i < 4"
  shows "shells_inv (reader_free i w)"
proof (cases "ss_reader (sh_sessions w ! i) = Closing")
  case True
  let ?s = "sh_sessions w ! i"
  let ?t = "?s\<lparr>ss_guest_id := [], ss_reader := NoReader\<rparr>"
  have ok: "\<not> ss_alive ?s" "owned ?s = {}"
    using session_okD [OF inv i] True by (auto simp: session_ok_def owned_def)
  have "shells_inv (w\<lparr>sh_sessions := (sh_sessions w)[i := ?t], sh_fds := sh_fds w\<rparr>)"
    by (rule shrink_inv [OF inv i]) (use ok in \<open>auto simp: session_ok_def owned_def\<close>)
  then show ?thesis
    using True by (simp add: reader_free_def Let_def)
next
  case False
  then show ?thesis
    using inv by (simp add: reader_free_def)
qed

section \<open>Opening\<close>

text \<open>What the kernel promises: descriptors it hands out are not in use, process ids are
  positive; and here the second pipe does not fail when the first was made.\<close>

definition io_ok :: "open_io \<Rightarrow> shells \<Rightarrow> bool" where
  "io_ok io w \<longleftrightarrow>
     (case oi_in_pipe io of
        None \<Rightarrow> True
      | Some (a, b) \<Rightarrow>
          (case oi_out_pipe io of
             None \<Rightarrow> False
           | Some (c, d) \<Rightarrow> distinct [a, b, c, d] \<and> (\<forall>fd \<in> {a, b, c, d}. fd \<ge> 0 \<and> fd \<notin> sh_fds w))) \<and>
     (case oi_fork io of None \<Rightarrow> True | Some pid \<Rightarrow> pid > 0)"

definition guest_ok :: "guest \<Rightarrow> bool" where
  "guest_ok g \<longleftrightarrow> g_id g \<noteq> [] \<and> length (g_id g) < 32 \<and> NUL \<notin> set (g_id g)"

lemma not_open: "\<not> shell_is_open gid w \<Longrightarrow> i < length (sh_sessions w) \<Longrightarrow> ss_alive (sh_sessions w ! i) \<Longrightarrow>
    ss_guest_id (sh_sessions w ! i) \<noteq> gid"
  unfolding shell_is_open_def is_open_for_def list_ex_iff using nth_mem by blast

text \<open>A free slot holds no descriptors and has no reader.\<close>

lemma free_slot:
  assumes "shells_inv w" "index_of (\<lambda>s. \<not> ss_alive s \<and> ss_guest_id s = []) (sh_sessions w) = Some i"
  shows "i < 4" "owned (sh_sessions w ! i) = {}" "ss_reader (sh_sessions w ! i) = NoReader"
proof -
  show i: "i < 4"
    using assms index_of_Some [OF assms(2)] by (simp add: shells_inv_def)
  have "session_ok (sh_sessions w ! i)" "\<not> ss_alive (sh_sessions w ! i)" "ss_guest_id (sh_sessions w ! i) = []"
    using index_of_Some [OF assms(2)] session_okD [OF assms(1) i] by auto
  then show "ss_reader (sh_sessions w ! i) = NoReader"
    "owned (sh_sessions w ! i) = {}"
    by (auto simp: session_ok_def owned_def split: reader_state.splits)
qed

lemma open_slot_inv:
  assumes inv: "shells_inv w" and i: "index_of (\<lambda>s. \<not> ss_alive s \<and> ss_guest_id s = []) (sh_sessions w) = Some i"
    and fresh: "a \<ge> 0" "b \<ge> 0" "a \<noteq> b" "a \<notin> sh_fds w" "b \<notin> sh_fds w" and pid: "0 < pid"
    and g: "guest_ok g" "\<not> shell_is_open (g_id g) w"
  shows "shells_inv (w\<lparr>sh_sessions := (sh_sessions w)[i := (sh_sessions w ! i)\<lparr>ss_pid := pid, ss_in_fd := a, ss_out_fd := b,
            ss_alive := True, ss_last_activity := now, ss_guest_id := bounded_copy 32 (g_id g), ss_reader := Reading\<rparr>],
          sh_fds := sh_fds w \<union> {a, b}\<rparr>)"
proof -
  note slot = free_slot [OF inv i]
  have gid: "bounded_copy 32 (g_id g) = g_id g" "g_id g \<noteq> []"
    using g(1) by (simp_all add: guest_ok_def bounded_copy_id)
  let ?t = "(sh_sessions w ! i)\<lparr>ss_pid := pid, ss_in_fd := a, ss_out_fd := b,
            ss_alive := True, ss_last_activity := now, ss_guest_id := bounded_copy 32 (g_id g), ss_reader := Reading\<rparr>"
  have own: "owned ?t = {a, b}"
    using fresh by (auto simp: owned_def)
  show ?thesis
  proof (rule update_inv [OF inv slot(1)])
    show "session_ok ?t"
      using fresh pid gid by (simp add: session_ok_def)
    show "owned ?t \<inter> owned (sh_sessions w ! j) = {}" if "j < 4" "j \<noteq> i" for j
      using owned_in_fds [OF inv that(1)] fresh own by auto
    show "ss_guest_id ?t \<noteq> ss_guest_id (sh_sessions w ! j)"
      if "j < 4" "j \<noteq> i" "ss_alive ?t" "ss_alive (sh_sessions w ! j)" for j
    proof -
      have "j < length (sh_sessions w)"
        using that(1) inv by (simp add: shells_inv_def)
      then show ?thesis
        using not_open [OF g(2) _ that(4)] gid(1) by simp
    qed
  qed (use own slot(2) in simp)
qed

lemma shell_open_inv:
  assumes inv: "shells_inv w" and io: "io_ok io w" and g: "guest_ok g"
  shows "shells_inv (snd (shell_open io g w))"
proof (cases "g_ip g = [] \<or> g_state g \<noteq> GUEST_RUNNING \<or> shell_is_open (g_id g) w \<or> oi_in_pipe io = None")
  case True
  then show ?thesis
    using inv by (auto simp: shell_open_def)
next
  case False
  then obtain a b c d where p: "oi_in_pipe io = Some (a, b)" "oi_out_pipe io = Some (c, d)"
    "distinct [a, b, c, d]" "\<forall>fd \<in> {a, b, c, d}. fd \<ge> 0 \<and> fd \<notin> sh_fds w"
    using io by (auto simp: io_ok_def split: option.splits)
  have w: "w\<lparr>sh_fds := sh_fds w\<rparr> = w"
    by simp
  have fds: "(insert c (insert d (insert a (insert b (sh_fds w))))) - {a, b, c, d} = sh_fds w"
    "(insert c (insert d (insert a (insert b (sh_fds w))))) - {a, d} = sh_fds w \<union> {b, c}"
    "sh_fds w \<union> {b, c} - {b, c} = sh_fds w"
    using p(3,4) by auto
  show ?thesis
  proof (cases "oi_fork io")
    case None
    then show ?thesis
      using False p(1,2) inv fds by (simp add: shell_open_def Let_def)
  next
    case (Some pid)
    then have pid: "0 < pid"
      using io by (simp add: io_ok_def)
    show ?thesis
    proof (cases "index_of (\<lambda>s. \<not> ss_alive s \<and> ss_guest_id s = []) (sh_sessions w)")
      case None
      then show ?thesis
        using False p(1,2) Some inv fds by (simp add: shell_open_def Let_def)
    next
      case slot: (Some i)
      have ok: "shells_inv (w\<lparr>sh_sessions := (sh_sessions w)[i := (sh_sessions w ! i)\<lparr>ss_pid := pid, ss_in_fd := b,
            ss_out_fd := c, ss_alive := True, ss_last_activity := oi_now io, ss_guest_id := bounded_copy 32 (g_id g),
            ss_reader := Reading\<rparr>], sh_fds := sh_fds w \<union> {b, c}\<rparr>)"
        using False p(3,4) by (intro open_slot_inv [OF inv slot _ _ _ _ _ pid g]) auto
      note free = free_slot [OF inv slot]
      have idle: "shells_inv (w\<lparr>sh_sessions := (sh_sessions w)[i := (sh_sessions w ! i)\<lparr>ss_pid := pid, ss_in_fd := b,
            ss_out_fd := c, ss_last_activity := oi_now io, ss_alive := False, ss_guest_id := []\<rparr>], sh_fds := sh_fds w\<rparr>)"
        by (rule shrink_inv [OF inv free(1)]) (use free in \<open>simp_all add: session_ok_def owned_def\<close>)
      show ?thesis
      proof (cases "oi_thread_ok io")
        case True
        then show ?thesis
          using False p(1,2) Some slot ok fds by (simp add: shell_open_def Let_def shells_inv_def)
      next
        case False': False
        then show ?thesis
          using False p(1,2) Some slot idle fds by (simp add: shell_open_def Let_def shells_inv_def)
      qed
    qed
  qed
qed

section \<open>Runs\<close>

datatype shell_event =
    Open open_io guest
  | Write "write_result list" int string string
  | Close string
  | ReaderData int string nat
  | ReaderEnd nat
  | ReaderFree nat
  | Monitor int
  | CloseAll

definition shell_step :: "shell_event \<Rightarrow> shells \<Rightarrow> shells option" where
  "shell_step e w =
     (case e of
        Open io g \<Rightarrow> Some (snd (shell_open io g w))
      | Write rs now gid data \<Rightarrow> map_option snd (shell_write rs now gid data w)
      | Close gid \<Rightarrow> Some (snd (shell_close gid w))
      | ReaderData now bytes i \<Rightarrow> Some (reader_data now bytes i w)
      | ReaderEnd i \<Rightarrow> Some (reader_end i w)
      | ReaderFree i \<Rightarrow> Some (reader_free i w)
      | Monitor now \<Rightarrow> Some (shell_monitor now w)
      | CloseAll \<Rightarrow> Some (shell_close_all w))"

definition event_ok :: "shell_event \<Rightarrow> shells \<Rightarrow> bool" where
  "event_ok e w \<longleftrightarrow>
     (case e of
        Open io g \<Rightarrow> io_ok io w \<and> guest_ok g
      | ReaderData _ _ i \<Rightarrow> i < 4 | ReaderEnd i \<Rightarrow> i < 4 | ReaderFree i \<Rightarrow> i < 4
      | _ \<Rightarrow> True)"

definition possible_step :: "shell_event \<Rightarrow> shells \<Rightarrow> shells option" where
  "possible_step e w = (if event_ok e w then shell_step e w else None)"

abbreviation shell_run :: "shell_event list \<Rightarrow> shells \<Rightarrow> shells option" where
  "shell_run \<equiv> run_steps possible_step"

lemma shell_step_inv: "shells_inv w \<Longrightarrow> event_ok e w \<Longrightarrow> shell_step e w = Some w' \<Longrightarrow> shells_inv w'"
  by (cases e) (auto simp: shell_step_def event_ok_def shell_open_inv shell_close_inv reader_data_inv reader_end_inv
      reader_free_inv shell_monitor_inv shell_close_all_inv dest: shell_write_inv)

interpretation shell_runs: step_invariant possible_step shells_inv
  by unfold_locales (auto simp: possible_step_def split: if_splits intro: shell_step_inv)

lemma shells_start_inv: "shells_inv (shells_start m)"
  by (auto simp: shells_inv_def shells_start_def free_session_def session_ok_def owned_def)

text \<open>
  C23. Shell sessions neither collide nor leak. Over any interleaving of opens, writes,
  closes, idle time-outs and reader turns, starting from the empty table and with any
  results of the system calls (the second pipe failing alone excepted): no two live sessions
  belong to the same guest, each live one has its process and two open descriptors, no
  descriptor belongs to two sessions, and the descriptors open are exactly those of the
  sessions, so once every reader has ended none is left.
\<close>

theorem shell_sessions_sound:
  assumes "shell_run es (shells_start m) = Some w"
  shows "(\<forall>i < 4. \<forall>j < 4.
      (let s = sh_sessions w ! i; t = sh_sessions w ! j in
         (ss_alive s \<longrightarrow> ss_pid s > 0 \<and> {ss_in_fd s, ss_out_fd s} \<subseteq> sh_fds w \<and> ss_in_fd s \<noteq> ss_out_fd s) \<and>
         (i \<noteq> j \<longrightarrow> owned s \<inter> owned t = {} \<and> (ss_alive s \<and> ss_alive t \<longrightarrow> ss_guest_id s \<noteq> ss_guest_id t)))) \<and>
    ((\<forall>i < 4. ss_reader (sh_sessions w ! i) \<noteq> Reading) \<longrightarrow> sh_fds w = {})"
proof -
  have inv: "shells_inv w"
    by (rule shell_runs.run_inv [OF shells_start_inv assms])
  have alive: "ss_pid (sh_sessions w ! i) > 0 \<and> owned (sh_sessions w ! i) = {ss_in_fd (sh_sessions w ! i), ss_out_fd (sh_sessions w ! i)} \<and>
      ss_in_fd (sh_sessions w ! i) \<noteq> ss_out_fd (sh_sessions w ! i)"
    if "i < 4" "ss_alive (sh_sessions w ! i)" for i
    using session_okD [OF inv that(1)] that(2) by (auto simp: session_ok_def owned_def split: reader_state.splits)
  have "\<forall>i < 4. \<forall>j < 4.
      (let s = sh_sessions w ! i; t = sh_sessions w ! j in
         (ss_alive s \<longrightarrow> ss_pid s > 0 \<and> {ss_in_fd s, ss_out_fd s} \<subseteq> sh_fds w \<and> ss_in_fd s \<noteq> ss_out_fd s) \<and>
         (i \<noteq> j \<longrightarrow> owned s \<inter> owned t = {} \<and> (ss_alive s \<and> ss_alive t \<longrightarrow> ss_guest_id s \<noteq> ss_guest_id t)))"
    using alive owned_in_fds [OF inv] inv unfolding Let_def shells_inv_def by metis
  moreover have "sh_fds w = {}" if none: "\<forall>i < 4. ss_reader (sh_sessions w ! i) \<noteq> Reading"
  proof -
    have "owned (sh_sessions w ! i) = {}" if "i < 4" for i
      using session_okD [OF inv that] none that by (auto simp: session_ok_def owned_def split: reader_state.splits)
    then show ?thesis
      using inv by (simp add: shells_inv_def)
  qed
  ultimately show ?thesis
    by blast
qed

definition sample_open :: open_io where
  "sample_open = \<lparr>oi_in_pipe = Some (3, 4), oi_out_pipe = Some (5, 6), oi_fork = Some 77, oi_thread_ok = True, oi_now = 100\<rparr>"

definition running_guest :: guest where
  "running_guest = sample_guest\<lparr>g_state := GUEST_RUNNING, g_pid := 41\<rparr>"

theorem shell_sessions_sound_witness:
  "\<exists>w. shell_run [Open sample_open running_guest, Close ''guest-1'', ReaderEnd 0, ReaderFree 0] (shells_start (snd (hms_mqtt_init True))) = Some w \<and>
     sh_killed w = [77] \<and> sh_fds w = {}"
proof -
  let ?es = "[Open sample_open running_guest, Close ''guest-1'', ReaderEnd 0, ReaderFree 0]"
  have "\<exists>w. shell_run ?es (shells_start (snd (hms_mqtt_init True))) = Some w \<and> sh_killed w = [77] \<and> (\<forall>i < 4. ss_reader (sh_sessions w ! i) = NoReader)"
    by (auto simp: possible_step_def event_ok_def io_ok_def guest_ok_def shell_step_def shell_open_def shell_close_def reader_end_def
        reader_free_def sample_open_def running_guest_def sample_guest_def shells_start_def hms_mqtt_init_def free_session_def
        shell_is_open_def is_open_for_def bounded_copy_def cstr_def Let_def eval_nat_numeral less_Suc_eq)
  then show ?thesis
    using shell_sessions_sound [of ?es "snd (hms_mqtt_init True)"] by fastforce
qed

text \<open>When only the second pipe fails, the first one's two descriptors stay open.\<close>

lemma failed_pipe_leaks:
  assumes "g_ip g \<noteq> []" "g_state g = GUEST_RUNNING" "\<not> shell_is_open (g_id g) w"
    "oi_in_pipe io = Some (a, b)" "oi_out_pipe io = None"
  shows "shell_open io g w = (Inl PipeFailed, w\<lparr>sh_fds := sh_fds w \<union> {a, b}\<rparr>)"
  using assms by (simp add: shell_open_def Let_def)

section \<open>Forwarded output\<close>

lemma escape_loop_all:
  "length buf + 6 * length cs \<le> out_sz - 8 \<Longrightarrow> escape_loop out_sz cs buf = buf @ concat (map escape_char cs)"
proof (induction cs arbitrary: buf)
  case (Cons c cs)
  then show ?case
    using escape_char_length [of c] by simp
qed simp

lemma escape_loop_bound: "length buf \<le> out_sz - 2 \<Longrightarrow> length (escape_loop out_sz cs buf) \<le> out_sz - 2"
proof (induction cs arbitrary: buf)
  case (Cons c cs)
  then show ?case
    using escape_char_length [of c] by (cases "length buf < out_sz - 8") simp_all
qed simp

lemma escape_no_nul: "NUL \<notin> set (concat (map escape_char cs))"
proof (induction cs)
  case (Cons c cs)
  have "NUL \<notin> set (escape_char c)"
  proof -
    have "(of_char NUL :: nat) < 32"
      by simp
    moreover have "NUL \<noteq> hex_digit n" if "n < 16" for n
      using that by (auto simp: hex_digit_def eq_commute [of NUL] char_of_eq_iff take_bit_nat_eq_self)
    moreover have "(of_char c :: nat) div 16 < 16 \<and> (of_char c :: nat) mod 16 < 16" if "(of_char c :: nat) < 32"
      using that by simp
    ultimately show ?thesis
      by (auto simp: escape_char_def)
  qed
  then show ?case
    using Cons by simp
qed simp

text \<open>
  What a guest prints reaches the GUI unchanged. For up to 512 bytes without NUL read
  from a session of a guest with a valid id, one status message is published while
  connected; it names the guest, and a JSON reader decodes its data to exactly these
  bytes. Nothing is cut off, and the escape buffer is never exceeded.
\<close>

theorem shell_output_decodes:
  assumes "length data \<le> 512" "NUL \<notin> set data" "length gid < 32" "NUL \<notin> set gid" "hm_mosq m" "hm_connected m"
  shows "\<exists>body. hm_published (publish_chunk gid data m) =
      hm_published m @ [(''hms/status'', shell_out_prefix gid @ body)] \<and> json_unescape body = Some data \<and>
    length (shell_escape 4096 s) < 4096"
proof -
  let ?body = "concat (map escape_char data) @ [DQUOTE] @ ''}''"
  have esc: "shell_escape 4096 data = concat (map escape_char data)"
    using assms(1,2) escape_loop_all [of "[]" data 4096] by (simp add: shell_escape_def cstr_id)
  have "length (shell_out_prefix gid @ ?body) < 4300"
    using assms(1,3) length_concat_escape [of data] by (simp add: shell_out_prefix_def dq_def)
  moreover have nul: "NUL \<notin> set (shell_out_prefix gid @ ?body)"
    using assms(4) escape_no_nul [of data] by (simp add: shell_out_prefix_def dq_def)
  ultimately have "bounded_copy 4300 (shell_out_prefix gid @ ?body) = shell_out_prefix gid @ ?body"
    by (intro bounded_copy_id)
  then have "hm_published (publish_chunk gid data m) = hm_published m @ [(''hms/status'', shell_out_prefix gid @ ?body)]"
    using publish_status_connected [OF assms(5,6) nul] by (simp add: publish_chunk_def esc)
  moreover have "json_unescape ?body = Some data"
    by (rule json_unescape_concat)
  moreover have "length (shell_escape 4096 s) < 4096"
    using escape_loop_bound [of "[]" 4096 "cstr s"] by (simp add: shell_escape_def)
  ultimately show ?thesis
    by blast
qed

theorem shell_output_decodes_witness:
  "\<exists>body. hm_published (publish_chunk ''guest-1'' (''a'' @ [NEWLINE]) (snd (hms_mqtt_init True)\<lparr>hm_connected := True\<rparr>)) =
     [(''hms/status'', shell_out_prefix ''guest-1'' @ body)] \<and> json_unescape body = Some (''a'' @ [NEWLINE])"
  using shell_output_decodes [of "''a'' @ [NEWLINE]" "''guest-1''" "snd (hms_mqtt_init True)\<lparr>hm_connected := True\<rparr>"]
  by (auto simp: hms_mqtt_init_def)

end
