(* ===== verification/HmsMain.thy ===== *)
theory HmsMain
  imports HmsOta HmsShell
begin

text \<open>
  The manager's main program: src/src/Hypervisor_Management_System/main.c. Its state is the
  array of guests, the host name cache, the files, the over-the-air jobs it started and the
  shells with the MQTT service; a command line from the service is one step. What the system
  and the guests answer during a step is an input. A step is None where the C program has no
  defined behaviour.
\<close>

section \<open>State\<close>

text \<open>\<open>hs_array\<close> holds the slots of the array written so far, \<open>hs_count\<close> how many are current.\<close>

record hms =
  hs_array :: "guest list"
  hs_count :: nat
  hs_cache :: name_cache
  hs_cfg :: hms_config
  hs_files :: files
  hs_jobs :: "(ota_job \<times> ota_request) list"
  hs_shells :: shells
  hs_killed :: "int list"
  hs_launched :: "(int \<times> string \<times> string \<times> string) list"

record hms_io =
  hi_dirs :: dirs
  hi_procs :: "int \<Rightarrow> string option"
  hi_now :: int
  hi_names :: "string \<Rightarrow> string option"
  hi_meta_fopen_ok :: bool
  hi_meta_rename_ok :: bool
  hi_start :: start_io
  hi_kill :: kill_io
  hi_exec :: exec_io
  hi_local :: "string option"
  hi_ok :: bool
  hi_open :: open_io
  hi_writes :: "write_result list"
  hi_errno :: string

definition current_guests :: "hms \<Rightarrow> guest list" where
  "current_guests s = take (hs_count s) (hs_array s)"

definition publish_status :: "string \<Rightarrow> hms \<Rightarrow> hms" where
  "publish_status payload s =
     s\<lparr>hs_shells := (hs_shells s)\<lparr>sh_mqtt := hms_mqtt_publish_status payload (sh_mqtt (hs_shells s))\<rparr>\<rparr>"

fun refresh_names :: "hms_io \<Rightarrow> hms_config \<Rightarrow> guest list \<Rightarrow> name_cache \<Rightarrow> guest list \<times> name_cache" where
  "refresh_names io cfg [] c = ([], c)"
| "refresh_names io cfg (g # gs) c =
     (case refresh_guest_name (hi_now io) (hi_names io (g_id g)) (apply_defaults cfg g, c) of (g, c, _) \<Rightarrow>
      case refresh_names io cfg gs c of (gs, c) \<Rightarrow> (g # gs, c))"

definition refresh :: "hms_io \<Rightarrow> hms \<Rightarrow> hms" where
  "refresh io s =
     (case refresh_names io (hs_cfg s) (discover_guests (hs_files s) (hi_dirs io) (hi_procs io)) (hs_cache s) of
        (gs, c) \<Rightarrow> s\<lparr>hs_array := gs @ drop (length gs) (hs_array s), hs_count := length gs, hs_cache := c\<rparr>)"

section \<open>Messages\<close>

definition outcome_json :: "string \<Rightarrow> string \<Rightarrow> bool \<Rightarrow> string \<Rightarrow> string" where
  "outcome_json cmd gid ok msg =
     ''{'' @ json_field ''state'' (dq ''result'') @ '','' @ json_field ''cmd'' (dq cmd) @ '','' @ json_field ''guest'' (dq gid) @ '','' @
     json_field ''success'' (json_bool ok) @ '','' @ json_field ''msg'' (dq msg) @ ''}''"

definition publish_result :: "string \<Rightarrow> string \<Rightarrow> bool \<Rightarrow> string \<Rightarrow> hms \<Rightarrow> hms" where
  "publish_result cmd gid ok msg s = publish_status (bounded_copy 1024 (outcome_json cmd gid ok msg)) s"

definition publish_unknown_guest :: "string \<Rightarrow> hms \<Rightarrow> hms" where
  "publish_unknown_guest gid s =
     publish_status (bounded_copy 512 (outcome_json ''command'' gid False (''unknown guest '' @ [QUOTE] @ gid @ [QUOTE]))) s"

text \<open>\<open>pos += snprintf(buf + pos, sizeof(buf) - pos, ...)\<close>: the position counts what would have been
  written; past the end of the buffer the size wraps around and the write is out of bounds.\<close>

definition buf_printf :: "nat \<Rightarrow> string \<Rightarrow> nat \<times> string \<Rightarrow> (nat \<times> string) option" where
  "buf_printf sz txt b =
     (case b of (pos, buf) \<Rightarrow> if pos > sz then None else Some (pos + length txt, take (sz - 1) (buf @ txt)))"

definition or_dash :: "string \<Rightarrow> string" where
  "or_dash v = (if v \<noteq> [] then v else ''-'')"

definition guest_list_entry :: "bool \<Rightarrow> guest \<Rightarrow> string" where
  "guest_list_entry is_first g =
     (if is_first then [] else '','') @ ''{'' @ json_field ''id'' (dq (g_id g)) @ '','' @ json_field ''name'' (dq (or_dash (g_name g))) @ '','' @
     json_field ''type'' (dq (guest_type_str (g_type g))) @ '','' @ json_field ''state'' (dq (guest_state_str (g_state g))) @ '','' @
     json_field ''pid'' (dec_int (g_pid g)) @ '','' @ json_field ''ip'' (dq (or_dash (g_ip g))) @ ''}''"

fun guest_list_loop :: "bool \<Rightarrow> guest list \<Rightarrow> nat \<times> string \<Rightarrow> (nat \<times> string) option" where
  "guest_list_loop is_first [] b = Some b"
| "guest_list_loop is_first (g # gs) b =
     (if fst b < 8192 - 256
      then Option.bind (buf_printf 8192 (guest_list_entry is_first g) b) (guest_list_loop False gs)
      else Some b)"

definition guest_list_head :: string where
  "guest_list_head = ''{'' @ json_field ''state'' (dq ''guest_list'') @ '','' @ dq ''guests'' @ '':[''"

definition guest_list_text :: "guest list \<Rightarrow> string option" where
  "guest_list_text gs =
     map_option snd
       (Option.bind (buf_printf 8192 guest_list_head (0, [])) (\<lambda>b.
        Option.bind (guest_list_loop True gs b) (buf_printf 8192 '']}'')))"

definition publish_guest_list :: "hms \<Rightarrow> hms option" where
  "publish_guest_list s = map_option (\<lambda>txt. publish_status txt s) (guest_list_text (current_guests s))"

definition guest_info_text :: "guest \<Rightarrow> string" where
  "guest_info_text g =
     bounded_copy 3072 (''{'' @ json_field ''state'' (dq ''guest_info'') @ '','' @ dq ''guest'' @ '':{'' @
       json_field ''id'' (dq (g_id g)) @ '','' @ json_field ''name'' (dq (g_name g)) @ '','' @
       json_field ''type'' (dq (guest_type_str (g_type g))) @ '','' @ json_field ''state'' (dq (guest_state_str (g_state g))) @ '','' @
       json_field ''pid'' (dec_int (g_pid g)) @ '','' @ json_field ''ip'' (dq (or_dash (g_ip g))) @ '','' @
       json_field ''conf'' (dq (g_conf_path g)) @ '','' @ json_field ''boot'' (dq (g_boot_path g)) @ '','' @
       json_field ''rootfs'' (dq (g_rootfs_path g)) @ '','' @ json_field ''ssh_user'' (dq (g_ssh_user g)) @ '','' @
       json_field ''ssh_port'' (dec_int (g_ssh_port g)) @ '','' @ json_field ''ssh_key'' (dq (or_dash (g_ssh_key g))) @ ''}}'')"

definition escape_json :: "nat \<Rightarrow> string \<Rightarrow> string" where
  "escape_json out_sz s = escape_loop out_sz (cstr s) []"

section \<open>The files of a guest\<close>

text \<open>The macro \<open>GF_ADD\<close> on the flag for the first entry and the buffer.\<close>

definition gf_add :: "files \<Rightarrow> string \<Rightarrow> bool \<Rightarrow> string \<Rightarrow> string \<Rightarrow> bool \<times> nat \<times> string \<Rightarrow> (bool \<times> nat \<times> string) option" where
  "gf_add fs dir always name kind st =
     (case st of (is_first, b) \<Rightarrow>
        let content = fs (bounded_copy 512 (dir @ ''/'' @ name)); ex = (content \<noteq> None)
        in if ex \<or> always
           then map_option (Pair False) (buf_printf 8192
                  ((if is_first then [] else '','') @ ''{'' @ json_field ''name'' (dq (escape_json 256 name)) @ '','' @
                   json_field ''kind'' (dq (escape_json 64 kind)) @ '','' @ json_field ''exists'' (json_bool ex) @ '','' @
                   json_field ''size'' (case content of None \<Rightarrow> ''-1'' | Some txt \<Rightarrow> dec (length txt)) @ ''}'') b)
           else Some st)"

definition other_image :: "string \<Rightarrow> string \<Rightarrow> bool" where
  "other_image boot name \<longleftrightarrow> \<not> prefix ''.'' name \<and> strstr name ''.img'' \<and> (boot = [] \<or> name \<noteq> boot) \<and> name \<noteq> ''rootfs.img''"

fun gf_add_all :: "files \<Rightarrow> string \<Rightarrow> string list \<Rightarrow> bool \<times> nat \<times> string \<Rightarrow> (bool \<times> nat \<times> string) option" where
  "gf_add_all fs dir [] st = Some st"
| "gf_add_all fs dir (n # ns) st = Option.bind (gf_add fs dir False n ''img'' st) (gf_add_all fs dir ns)"

definition guest_files_head :: "guest \<Rightarrow> string" where
  "guest_files_head g =
     ''{'' @ json_field ''state'' (dq ''guest_files'') @ '','' @ json_field ''guest'' (dq (g_id g)) @ '','' @
     json_field ''type'' (dq (guest_type_str (g_type g))) @ '','' @
     json_field ''running'' (json_bool (g_state g = GUEST_RUNNING)) @ '','' @ dq ''files'' @ '':[''"

definition guest_files_text :: "files \<Rightarrow> dirs \<Rightarrow> guest \<Rightarrow> string option" where
  "guest_files_text fs ds g =
     (let dir = bounded_copy 256 (''/guests/'' @ g_id g);
          boot = (case guest_boot_image fs (ds dir) (g_conf_path g) 256 of None \<Rightarrow> [] | Some b \<Rightarrow> b);
          conf = bounded_copy 256 (basename (g_conf_path g));
          add = gf_add fs dir
      in map_option snd
           (Option.bind (buf_printf 8192 (guest_files_head g) (0, [])) (\<lambda>b.
            Option.bind (if boot \<noteq> [] then add True boot (if strstr boot ''.ifs'' then ''ifs'' else ''img'') (True, b)
                         else Some (True, b)) (\<lambda>st.
            Option.bind (add False ''rootfs.img'' ''img'' st) (\<lambda>st.
            Option.bind (add False ''guest.conf'' ''conf'' st) (\<lambda>st.
            Option.bind (if conf \<noteq> [] \<and> strstr conf ''.qvmconf'' then add False conf ''conf'' st else Some st) (\<lambda>st.
            Option.bind (case ds dir of None \<Rightarrow> Some st | Some names \<Rightarrow> gf_add_all fs dir (filter (other_image boot) names) st) (\<lambda>(_, b).
            buf_printf 8192 '']}'' b))))))))"

section \<open>Commands\<close>

definition cmd_list :: "hms_io \<Rightarrow> hms \<Rightarrow> hms option" where
  "cmd_list io s = publish_guest_list (refresh io s)"

text \<open>The guest a pointer into the array stands for, by its index.\<close>

definition guest_index :: "hms \<Rightarrow> string \<Rightarrow> nat option" where
  "guest_index s gid = index_of (\<lambda>g. g_id g = gid) (current_guests s)"

definition with_guest :: "hms \<Rightarrow> string \<Rightarrow> (nat \<Rightarrow> guest \<Rightarrow> hms option) \<Rightarrow> hms option" where
  "with_guest s gid k =
     (case guest_index s gid of
        None \<Rightarrow> Some (publish_unknown_guest gid s)
      | Some i \<Rightarrow> k i (hs_array s ! i))"

definition cmd_start :: "hms_io \<Rightarrow> string \<Rightarrow> string \<Rightarrow> hms \<Rightarrow> hms option" where
  "cmd_start io gid ip s =
     with_guest s gid (\<lambda>i g.
       let g = (if ip \<noteq> [] then g\<lparr>g_ip := bounded_copy 64 ip\<rparr> else g);
           s = s\<lparr>hs_array := (hs_array s)[i := g],
                 hs_files := (if ip \<noteq> [] then guest_set_ip (hi_meta_fopen_ok io) (hi_meta_rename_ok io) g (hs_files s)
                              else hs_files s)\<rparr>
       in case guest_start (hi_start io) g (hs_files s) of
            (rc, launched, fs) \<Rightarrow>
              publish_guest_list
                (publish_result ''start'' gid (rc = 0) (if rc = 0 then ''guest started'' else ''failed to start guest'')
                  (refresh io (s\<lparr>hs_files := fs, hs_launched := hs_launched s @ launched\<rparr>))))"

definition cmd_kill :: "hms_io \<Rightarrow> string \<Rightarrow> hms \<Rightarrow> hms option" where
  "cmd_kill io gid s =
     with_guest s gid (\<lambda>i g.
       case guest_kill (hi_kill io) g (hs_files s) of
         (rc, killed, fs) \<Rightarrow>
           publish_guest_list
             (publish_result ''kill'' gid (rc = 0) (if rc = 0 then ''guest killed'' else ''failed to kill guest'')
               (refresh io (s\<lparr>hs_files := fs, hs_killed := hs_killed s @ killed\<rparr>))))"

text \<open>The pointer was taken before the refresh: what is published is the slot it points to.\<close>

definition cmd_info :: "hms_io \<Rightarrow> string \<Rightarrow> hms \<Rightarrow> hms option" where
  "cmd_info io gid s =
     with_guest s gid (\<lambda>i _.
       let s = refresh io s in Some (publish_status (guest_info_text (hs_array s ! i)) s))"

text \<open>\<open>free\<close> of the literal that stands for missing output has no defined behaviour.\<close>

definition cmd_exec :: "hms_io \<Rightarrow> string \<Rightarrow> string \<Rightarrow> hms \<Rightarrow> hms option" where
  "cmd_exec io gid command s =
     with_guest s gid (\<lambda>i g.
       if g_state g \<noteq> GUEST_RUNNING then Some (publish_result ''exec'' gid False ''guest is not running'' s)
       else case ssh_exec (hi_exec io) (hs_files s) g command of
              None \<Rightarrow> None
            | Some None \<Rightarrow> None
            | Some (Some out) \<Rightarrow>
                Some (publish_status
                  (bounded_copy 6144 (''{'' @ json_field ''state'' (dq ''exec_result'') @ '','' @ json_field ''guest'' (dq gid) @ '','' @
                     json_field ''output'' (dq (escape_json 4096 out)) @ ''}'')) s))"

definition stats_cmd :: string where
  "stats_cmd =
     (let mark = (\<lambda>m. ''echo; echo '' @ [QUOTE] @ ''###'' @ m @ [QUOTE])
      in mark ''HOSTNAME'' @ ''; hostname;'' @ mark ''KERNEL'' @ ''; uname -a;'' @
         mark ''UPTIMESEC'' @ ''; cat /proc/uptime 2>/dev/null;'' @ mark ''CPUINFO'' @ ''; pidin info;'' @
         mark ''CPUUSE'' @ ''; pidin cpu 2>/dev/null;'' @ mark ''MEM'' @ ''; pidin mem;'' @
         mark ''PROC'' @ ''; top -b -i 1;'' @ mark ''END'')"

definition stats_text :: "string \<Rightarrow> bool \<Rightarrow> string \<Rightarrow> string \<Rightarrow> string" where
  "stats_text gid running host_esc guest_esc =
     bounded_copy 786432 (''{'' @ json_field ''state'' (dq ''monitor_stats'') @ '','' @ json_field ''guest_id'' (dq gid) @ '','' @
       json_field ''guest_running'' (json_bool running) @ '','' @ json_field ''host'' (dq host_esc) @ '','' @
       json_field ''guest'' (dq guest_esc) @ ''}'')"

definition cmd_stats :: "hms_io \<Rightarrow> string \<Rightarrow> hms \<Rightarrow> hms option" where
  "cmd_stats io gid s =
     (let g = (if gid \<noteq> [] then find_guest (current_guests s) gid else None);
          guest_id = (if gid \<noteq> [] then bounded_copy 32 gid else [])
      in if gid \<noteq> [] \<and> g = None then Some (publish_result ''stats'' gid False ''unknown guest'' s)
         else case hi_local io of
                None \<Rightarrow> None
              | Some host_out \<Rightarrow>
                  let host_esc = escape_json 262144 host_out
                  in (case g of
                        None \<Rightarrow> Some (publish_status (stats_text guest_id False host_esc []) s)
                      | Some g \<Rightarrow>
                          if g_state g \<noteq> GUEST_RUNNING
                          then Some (publish_status (stats_text guest_id False host_esc []) s)
                          else (case ssh_exec (hi_exec io) (hs_files s) g stats_cmd of
                                  None \<Rightarrow> None
                                | Some None \<Rightarrow> Some (publish_status (stats_text guest_id False host_esc []) s)
                                | Some (Some out) \<Rightarrow>
                                    Some (publish_status (stats_text guest_id True host_esc (escape_json 262144 out)) s))))"

text \<open>The commands that start a job: the job joins those running, and the result is published.\<close>

definition start_job :: "string \<Rightarrow> string \<Rightarrow> (ota_job \<times> ota_request) option \<Rightarrow> string \<Rightarrow> string \<Rightarrow> hms \<Rightarrow> hms" where
  "start_job cmd gid job failed started s =
     (case job of
        None \<Rightarrow> publish_result cmd gid False failed s
      | Some j \<Rightarrow> publish_result cmd gid True started (s\<lparr>hs_jobs := hs_jobs s @ [j]\<rparr>))"

definition cmd_ota :: "hms_io \<Rightarrow> string \<Rightarrow> string \<Rightarrow> hms \<Rightarrow> hms" where
  "cmd_ota io gid remote_path s =
     (if gid = [] \<or> remote_path = [] then publish_result ''ota'' gid False ''usage: ota <guest> <remote_path>'' s
      else if find_guest (current_guests s) gid = None then publish_result ''ota'' gid False ''unknown guest'' s
      else start_job ''ota'' gid (ota_start (hi_ok io) (hs_cfg s) gid remote_path) ''failed to start OTA job'' ''OTA job started'' s)"

definition cmd_files :: "hms_io \<Rightarrow> string \<Rightarrow> hms \<Rightarrow> hms option" where
  "cmd_files io gid s =
     (if gid = [] then Some (publish_result ''files'' [] False ''usage: files <guest>'' s)
      else let s = refresh io s
      in case find_guest (current_guests s) gid of
           None \<Rightarrow> Some (publish_result ''files'' gid False ''unknown guest'' s)
         | Some g \<Rightarrow> map_option (\<lambda>txt. publish_status txt s) (guest_files_text (hs_files s) (hi_dirs io) g))"

definition runtime_file :: "string \<Rightarrow> bool" where
  "runtime_file name \<longleftrightarrow> prefix ''qvm.'' name \<or> name = ''.hms_metadata''"

definition cmd_fetch :: "hms_io \<Rightarrow> string \<Rightarrow> string list \<Rightarrow> hms \<Rightarrow> hms option" where
  "cmd_fetch io gid paths s =
     with_guest s gid (\<lambda>i g.
       case find runtime_file (map basename paths) of
         Some name \<Rightarrow> Some (publish_result ''fetch'' gid False
           (bounded_copy 256 (''refusing to fetch runtime file '' @ [QUOTE] @ take 120 name @ [QUOTE])) s)
       | None \<Rightarrow> Some (start_job ''fetch'' gid (ota_fetch_start (hi_ok io) (hs_cfg s) gid paths)
                    ''failed to start fetch job'' ''fetch job started'' s))"

definition cmd_apply :: "hms_io \<Rightarrow> string \<Rightarrow> bool \<Rightarrow> hms \<Rightarrow> hms option" where
  "cmd_apply io gid restart s =
     with_guest s gid (\<lambda>i g. Some (start_job ''apply'' gid (ota_apply_start (hi_ok io) (hs_cfg s) gid restart)
       ''failed to start apply job'' ''apply job started'' s))"

definition cmd_pushfiles :: "hms_io \<Rightarrow> string \<Rightarrow> string \<Rightarrow> hms \<Rightarrow> hms option" where
  "cmd_pushfiles io gid remote_path s =
     with_guest s gid (\<lambda>i g.
       if g_state g \<noteq> GUEST_RUNNING then Some (publish_result ''pushfiles'' gid False ''guest is not running'' s)
       else Some (start_job ''pushfiles'' gid (ota_push_start (hi_ok io) (hs_cfg s) g remote_path)
              ''failed to start push job'' ''push job started'' s))"

definition cmd_addfile :: "hms_io \<Rightarrow> string \<Rightarrow> string \<Rightarrow> hms \<Rightarrow> hms option" where
  "cmd_addfile io gid remote_path s =
     with_guest s gid (\<lambda>i g. Some (start_job ''addfile'' gid (ota_addfile_start (hi_ok io) (hs_cfg s) gid remote_path)
       ''failed to start add-file job'' ''add-file job started'' s))"

definition cmd_addguest :: "hms_io \<Rightarrow> string \<Rightarrow> string \<Rightarrow> string \<Rightarrow> string \<Rightarrow> hms \<Rightarrow> hms" where
  "cmd_addguest io gid ifs_remote conf_remote ip s =
     start_job ''addguest'' gid (ota_addguest_start (hi_ok io) (hs_cfg s) gid ifs_remote conf_remote ip)
       ''failed to start add-guest job'' ''add-guest job started'' s"

definition shell_error_text :: "hms_io \<Rightarrow> shell_error \<Rightarrow> string" where
  "shell_error_text io e =
     bounded_copy 256
       (case e of
          NoAddress \<Rightarrow> ''guest has no IP address'' | NotRunning \<Rightarrow> ''guest is not running''
        | AlreadyOpen \<Rightarrow> ''a shell is already open for this guest''
        | PipeFailed \<Rightarrow> ''pipe() failed: '' @ hi_errno io | ForkFailed \<Rightarrow> ''fork() failed: '' @ hi_errno io
        | NoSlot \<Rightarrow> ''no free shell session slot'' | NoThread \<Rightarrow> ''failed to start reader thread'')"

definition cmd_shellopen :: "hms_io \<Rightarrow> string \<Rightarrow> hms \<Rightarrow> hms option" where
  "cmd_shellopen io gid s =
     with_guest s gid (\<lambda>i g.
       if g_state g \<noteq> GUEST_RUNNING then Some (publish_result ''shellopen'' gid False ''guest is not running'' s)
       else case shell_open (hi_open io) g (hs_shells s) of
              (Inl e, sh) \<Rightarrow> Some (publish_result ''shellopen'' gid False (shell_error_text io e) (s\<lparr>hs_shells := sh\<rparr>))
            | (Inr _, sh) \<Rightarrow> Some (publish_result ''shellopen'' gid True ''shell opened'' (s\<lparr>hs_shells := sh\<rparr>)))"

text \<open>None also stands for a write that never ends.\<close>

definition cmd_shellwrite :: "hms_io \<Rightarrow> string \<Rightarrow> string \<Rightarrow> hms \<Rightarrow> hms option" where
  "cmd_shellwrite io gid data s =
     map_option (\<lambda>(ok, sh).
         if ok then s\<lparr>hs_shells := sh\<rparr>
         else publish_result ''shellwrite'' gid False
                (if shell_is_open gid (hs_shells s) then bounded_copy 256 (''write to shell failed: '' @ hi_errno io)
                 else ''no open shell for this guest'') (s\<lparr>hs_shells := sh\<rparr>))
       (shell_write (hi_writes io) (hi_now io) gid data (hs_shells s))"

definition cmd_shellclose :: "string \<Rightarrow> hms \<Rightarrow> hms" where
  "cmd_shellclose gid s =
     (case shell_close gid (hs_shells s) of
        (ok, sh) \<Rightarrow> publish_result ''shellclose'' gid ok (if ok then ''shell closed'' else ''no open shell for this guest'')
                      (s\<lparr>hs_shells := sh\<rparr>))"

section \<open>The command line\<close>

text \<open>\<open>strtok(s, " ")\<close>: the first word and what is behind the blank that ends it.\<close>

definition strtok :: "string \<Rightarrow> (string \<times> string) option" where
  "strtok s =
     (let t = dropWhile (\<lambda>c. c = CHR '' '') s
      in if t = [] then None
         else Some (takeWhile (\<lambda>c. c \<noteq> CHR '' '') t, drop 1 (dropWhile (\<lambda>c. c \<noteq> CHR '' '') t)))"

lemma strtok_shorter: "strtok s = Some (w, r) \<Longrightarrow> length r < length s"
proof -
  assume s: "strtok s = Some (w, r)"
  let ?t = "dropWhile (\<lambda>c. c = CHR '' '') s"
  have "?t \<noteq> []" "r = drop 1 (dropWhile (\<lambda>c. c \<noteq> CHR '' '') ?t)"
    using s by (auto simp: strtok_def Let_def split: if_splits)
  moreover have "length (dropWhile (\<lambda>c. c \<noteq> CHR '' '') ?t) \<le> length ?t" "length ?t \<le> length s"
    by (simp_all add: length_dropWhile_le)
  ultimately show ?thesis
    by (cases ?t) (auto simp: le_less_trans)
qed

function words :: "string \<Rightarrow> string list" where
  "words s = (case strtok s of None \<Rightarrow> [] | Some (w, r) \<Rightarrow> w # words r)"
  by pat_completeness auto
termination words
  by (relation "measure length") (auto dest: strtok_shorter)

declare words.simps [simp del]

text \<open>The words that follow, one by one: the word if there is one, and the rest.\<close>

definition next_word :: "string \<Rightarrow> string option \<times> string" where
  "next_word s = (case strtok s of None \<Rightarrow> (None, []) | Some (w, r) \<Rightarrow> (Some w, r))"

definition rest_of_line :: "string \<Rightarrow> string option" where
  "rest_of_line s = (if s = [] then None else Some s)"

definition or_empty :: "string option \<Rightarrow> string" where
  "or_empty w = (case w of None \<Rightarrow> [] | Some v \<Rightarrow> v)"

definition fetch_paths :: "string list \<Rightarrow> string list" where
  "fetch_paths ts = map (bounded_copy 1024) (take 15 ts) @ (if length ts > 15 then [''(truncated)''] else [])"

text \<open>The actions that take words only; \<open>ws\<close> are the words behind the action.\<close>

definition usage :: "string \<Rightarrow> string \<Rightarrow> hms \<Rightarrow> hms option" where
  "usage action form s = Some (publish_result action [] False (''usage: '' @ action @ '' '' @ form) s)"

definition handle_command :: "hms_io \<Rightarrow> string \<Rightarrow> hms \<Rightarrow> hms option" where
  "handle_command io cmd s =
     (case strtok (bounded_copy 2048 cmd) of
        None \<Rightarrow> Some s
      | Some (action, rest) \<Rightarrow>
          let (w1, r1) = next_word rest; (w2, r2) = next_word r1; (w3, r3) = next_word r2; (w4, r4) = next_word r3
          in if action = ''list'' then cmd_list io s
             else if action = ''start'' then
               (case w1 of None \<Rightarrow> usage action ''<guest> [ip]'' s | Some gid \<Rightarrow> cmd_start io gid (or_empty w2) s)
             else if action = ''kill'' then
               (case w1 of None \<Rightarrow> usage action ''<guest>'' s | Some gid \<Rightarrow> cmd_kill io gid s)
             else if action = ''info'' then
               (case w1 of None \<Rightarrow> usage action ''<guest>'' s | Some gid \<Rightarrow> cmd_info io gid s)
             else if action = ''exec'' then
               (case (w1, rest_of_line r1) of
                  (Some gid, Some line) \<Rightarrow> cmd_exec io gid line s | _ \<Rightarrow> usage action ''<guest> <command>'' s)
             else if action = ''stats'' then cmd_stats io (or_empty w1) s
             else if action = ''ota'' then
               (case (w1, rest_of_line r1) of
                  (Some gid, Some path) \<Rightarrow> Some (cmd_ota io gid path s) | _ \<Rightarrow> usage action ''<guest> <remote_path>'' s)
             else if action = ''files'' then
               (case w1 of None \<Rightarrow> usage action ''<guest>'' s | Some gid \<Rightarrow> cmd_files io gid s)
             else if action = ''fetch'' then
               (case w1 of
                  None \<Rightarrow> usage action ''<guest> <file> [<file>...]'' s
                | Some gid \<Rightarrow>
                    if words r1 = [] then Some (publish_result ''fetch'' gid False ''no files specified'' s)
                    else cmd_fetch io gid (fetch_paths (words r1)) s)
             else if action = ''apply'' then
               (case w1 of None \<Rightarrow> usage action ''<guest>'' s | Some gid \<Rightarrow> cmd_apply io gid (w2 \<noteq> Some ''--no-restart'') s)
             else if action = ''pushfiles'' then
               (case w1 of
                  None \<Rightarrow> usage action ''<guest> <serverPath>'' s
                | Some gid \<Rightarrow>
                    (case w2 of None \<Rightarrow> Some (publish_result action gid False ''no server path specified'' s)
                              | Some path \<Rightarrow> cmd_pushfiles io gid path s))
             else if action = ''addfile'' then
               (case w1 of
                  None \<Rightarrow> usage action ''<guest> <serverPath>'' s
                | Some gid \<Rightarrow>
                    (case w2 of None \<Rightarrow> Some (publish_result action gid False ''no server path specified'' s)
                              | Some path \<Rightarrow> cmd_addfile io gid path s))
             else if action = ''addguest'' then
               (case (w1, w2, w3) of
                  (Some gid, Some ifs, Some conf) \<Rightarrow> Some (cmd_addguest io gid ifs conf (or_empty w4) s)
                | _ \<Rightarrow> usage action ''<guest> <ifs_path> <conf_path> [ip]'' s)
             else if action = ''shellopen'' then
               (case w1 of None \<Rightarrow> usage action ''<guest>'' s | Some gid \<Rightarrow> cmd_shellopen io gid s)
             else if action = ''shellwrite'' then
               (case (w1, rest_of_line r1) of
                  (Some gid, Some data) \<Rightarrow> cmd_shellwrite io gid data s | _ \<Rightarrow> usage action ''<guest> <data>'' s)
             else if action = ''shellclose'' then
               (case w1 of None \<Rightarrow> usage action ''<guest>'' s | Some gid \<Rightarrow> Some (cmd_shellclose gid s))
             else if action = ''ping'' then Some (publish_status (''{'' @ json_field ''state'' (dq ''pong'') @ ''}'') s)
             else Some (publish_result action [] False ''unknown command'' s))"

text \<open>Start-up up to the service, and one turn of the main loop.\<close>

definition hms_start :: "hms_io \<Rightarrow> string option \<Rightarrow> bool \<Rightarrow> bool \<Rightarrow> bool \<Rightarrow> files \<Rightarrow> hms option" where
  "hms_start io conf new_ok loop_ok connect_ok fs =
     (let s = refresh io \<lparr>hs_array = [], hs_count = 0, hs_cache = replicate 16 ([], []), hs_cfg = config_load conf, hs_files = fs,
                          hs_jobs = [], hs_shells = shells_start (snd (hms_mqtt_init new_ok)), hs_killed = [], hs_launched = []\<rparr>
      in if \<not> new_ok then None
         else Some (s\<lparr>hs_shells := shells_start (snd (hms_mqtt_connect loop_ok connect_ok (snd (hms_mqtt_init new_ok))))\<rparr>))"

definition hms_loop :: "hms_io \<Rightarrow> bool \<Rightarrow> hms \<Rightarrow> hms" where
  "hms_loop io accepted s =
     refresh io (s\<lparr>hs_shells := (hs_shells s)\<lparr>sh_mqtt := hms_mqtt_ensure_connected accepted (sh_mqtt (hs_shells s))\<rparr>\<rparr>)"

section \<open>The guest list fits\<close>

definition guest_wf :: "guest \<Rightarrow> bool" where
  "guest_wf g \<longleftrightarrow> guest_ok g \<and> length (g_name g) < 64 \<and> length (g_ip g) < 64 \<and>
     - (2 ^ 31) \<le> g_pid g \<and> g_pid g < 2 ^ 31"

lemma length_dec_int: "- (2 ^ 31) \<le> i \<Longrightarrow> i < 2 ^ 31 \<Longrightarrow> length (dec_int i) \<le> 11"
proof -
  assume i: "- (2 ^ 31) \<le> i" "i < 2 ^ 31"
  have "length (dec (nat (- i))) \<le> 10" "length (dec (nat i)) \<le> 10"
    using i by (intro length_dec; simp)+
  then show ?thesis
    by (simp add: dec_int_def)
qed

lemma length_type_str: "length (guest_type_str t) \<le> 7"
  by (cases t) (simp_all add: guest_type_str_def)

lemma length_state_str: "length (guest_state_str t) \<le> 7"
  by (cases t) (simp_all add: guest_state_str_def)

lemma length_or_dash: "length v < n \<Longrightarrow> 1 < n \<Longrightarrow> length (or_dash v) < n"
  by (simp add: or_dash_def)

lemma length_guest_list_entry:
  assumes "guest_wf g"
  shows "length (guest_list_entry is_first g) < 256"
proof -
  have "length (or_dash (g_name g)) < 64" "length (or_dash (g_ip g)) < 64" "length (dec_int (g_pid g)) \<le> 11"
    "length (g_id g) < 32"
    using assms by (simp_all add: guest_wf_def guest_ok_def length_or_dash length_dec_int)
  then show ?thesis
    using length_type_str [of "g_type g"] length_state_str [of "g_state g"]
    by (simp add: guest_list_entry_def json_field_def dq_def)
qed

fun guest_list_entries :: "bool \<Rightarrow> guest list \<Rightarrow> string" where
  "guest_list_entries is_first [] = []"
| "guest_list_entries is_first (g # gs) = guest_list_entry is_first g @ guest_list_entries False gs"

lemma buf_printf_fits: "length buf + length txt < sz \<Longrightarrow> buf_printf sz txt (length buf, buf) = Some (length (buf @ txt), buf @ txt)"
  by (simp add: buf_printf_def)

lemma guest_list_loop_whole:
  "list_all guest_wf gs \<Longrightarrow> length buf + 256 * length gs \<le> 7900 \<Longrightarrow>
     guest_list_loop is_first gs (length buf, buf) =
       Some (length (buf @ guest_list_entries is_first gs), buf @ guest_list_entries is_first gs) \<and>
     length (guest_list_entries is_first gs) \<le> 256 * length gs"
proof (induction gs arbitrary: is_first buf)
  case Nil
  then show ?case by simp
next
  case (Cons g gs)
  let ?e = "guest_list_entry is_first g"
  have e: "length ?e < 256"
    using Cons.prems(1) by (intro length_guest_list_entry) simp
  then have "length (buf @ ?e) + 256 * length gs \<le> 7900"
    using Cons.prems(2) by simp
  from Cons.IH [of "buf @ ?e" False, OF _ this] show ?case
    using Cons.prems e by (simp add: buf_printf_fits)
qed

lemma guest_list_text_whole:
  assumes "list_all guest_wf gs" "length gs \<le> 16"
  shows "guest_list_text gs = Some (guest_list_head @ guest_list_entries True gs @ '']}'')"
proof -
  have h: "length guest_list_head < 60"
    by (simp add: guest_list_head_def json_field_def dq_def)
  have "buf_printf 8192 guest_list_head (0, []) = Some (length guest_list_head, guest_list_head)"
    using buf_printf_fits [of "[]" guest_list_head 8192] h by simp
  moreover have l: "guest_list_loop True gs (length guest_list_head, guest_list_head) =
       Some (length (guest_list_head @ guest_list_entries True gs), guest_list_head @ guest_list_entries True gs) \<and>
     length (guest_list_entries True gs) \<le> 256 * length gs"
    using assms h by (intro guest_list_loop_whole) simp_all
  moreover have "buf_printf 8192 '']}'' (length (guest_list_head @ guest_list_entries True gs), guest_list_head @ guest_list_entries True gs) =
      Some (length ((guest_list_head @ guest_list_entries True gs) @ '']}''), (guest_list_head @ guest_list_entries True gs) @ '']}'')"
    using l h assms(2) by (intro buf_printf_fits) simp
  ultimately show ?thesis
    by (simp add: guest_list_text_def)
qed


section \<open>What discovery finds\<close>

lemma atoi_bounds: "- (2 ^ 31) \<le> atoi s \<and> atoi s < 2 ^ 31"
  using sint_range_size [of "ucast (strtoul s) :: u32"] by (simp add: atoi_def word_size)

definition net_wf :: "conf_network \<Rightarrow> bool" where
  "net_wf n \<longleftrightarrow> length (cn_ip n) < 64 \<and> - (2 ^ 31) \<le> cn_pid n \<and> cn_pid n < 2 ^ 31"

lemma parse_conf_line_wf: "net_wf n \<Longrightarrow> net_wf (parse_conf_line line n)"
  using length_bounded_copy [of 64] atoi_bounds
  by (simp add: net_wf_def parse_conf_line_def Let_def)

lemma parse_conf_network_wf: "net_wf n \<Longrightarrow> net_wf (parse_conf_network fs path n)"
proof -
  have "net_wf n \<Longrightarrow> net_wf (fold parse_conf_line ls n)" for ls
    by (induction ls arbitrary: n) (simp_all add: parse_conf_line_wf)
  then show "net_wf n \<Longrightarrow> ?thesis"
    by (simp add: parse_conf_network_def split: option.splits)
qed

lemma guest_id_ok: "prefix ''guest-'' n \<Longrightarrow> bounded_copy 32 n \<noteq> [] \<and> NUL \<notin> set (bounded_copy 32 n)"
proof
  assume "prefix ''guest-'' n"
  then obtain r where "n = ''guest-'' @ r"
    by (auto simp: prefix_def)
  then show "bounded_copy 32 n \<noteq> []"
    by (simp add: bounded_copy_def cstr_def)
  show "NUL \<notin> set (bounded_copy 32 n)"
    using cstr_no_nul [of n] by (auto simp: bounded_copy_def dest: in_set_takeD)
qed

lemma discover_one_wf:
  assumes "prefix ''guest-'' n"
  shows "guest_ok (discover_one fs ds n) \<and> g_name (discover_one fs ds n) = [] \<and> length (g_ip (discover_one fs ds n)) < 64"
proof -
  have "net_wf (parse_conf_network fs p \<lparr>cn_ip = [], cn_user = ''root'', cn_pass = [], cn_key = [], cn_port = 22, cn_pid = 0\<rparr>)" for p
    by (rule parse_conf_network_wf) (simp add: net_wf_def)
  then have "length (cn_ip (parse_conf_network fs p \<lparr>cn_ip = [], cn_user = ''root'', cn_pass = [], cn_key = [], cn_port = 22, cn_pid = 0\<rparr>)) < 64" for p
    by (simp add: net_wf_def)
  then show ?thesis
    using guest_id_ok [OF assms] length_bounded_copy [of 32 n]
    by (simp add: discover_one_def Let_def guest_ok_def)
qed

lemma refresh_state_wf:
  assumes "guest_ok g" "g_name g = []" "length (g_ip g) < 64"
  shows "guest_wf (refresh_guest_state fs procs g)"
proof -
  have "net_wf (parse_conf_network fs p \<lparr>cn_ip = [], cn_user = [], cn_pass = [], cn_key = [], cn_port = 0, cn_pid = 0\<rparr>)" for p
    by (rule parse_conf_network_wf) (simp add: net_wf_def)
  then show ?thesis
    using assms by (simp add: refresh_guest_state_def Let_def guest_wf_def guest_ok_def net_wf_def split: option.splits)
qed

lemma discover_guests_wf: "list_all guest_wf (discover_guests fs ds procs) \<and> length (discover_guests fs ds procs) \<le> 16"
proof (cases "ds ''/guests''")
  case (Some names)
  have "guest_wf (refresh_guest_state fs procs (discover_one fs ds n))" if "n \<in> set (take 16 (filter (guest_entry ds) names))" for n
  proof -
    have "prefix ''guest-'' n"
      using that by (auto simp: guest_entry_def dest: in_set_takeD)
    then show ?thesis
      using discover_one_wf [of n fs ds] by (intro refresh_state_wf) simp_all
  qed
  then show ?thesis
    using Some by (simp add: discover_guests_def list_all_iff)
qed (simp add: discover_guests_def)

lemma apply_defaults_wf: "guest_wf g \<Longrightarrow> guest_wf (apply_defaults cfg g)"
  by (simp add: apply_defaults_def Let_def guest_wf_def guest_ok_def)

lemma refresh_name_wf:
  assumes "guest_wf g" "refresh_guest_name now answer (g, c) = (g', c', asked)"
  shows "guest_wf g'"
  using assms length_bounded_copy [of 64]
  by (auto simp: refresh_guest_name_def Let_def guest_wf_def guest_ok_def split: if_splits option.splits)

lemma refresh_names_wf:
  "list_all guest_wf gs \<Longrightarrow> refresh_names io cfg gs c = (gs', c') \<Longrightarrow> list_all guest_wf gs' \<and> length gs' = length gs"
proof (induction gs arbitrary: c gs' c')
  case Nil
  then show ?case by simp
next
  case (Cons g gs)
  obtain g1 c1 asked where g1: "refresh_guest_name (hi_now io) (hi_names io (g_id g)) (apply_defaults cfg g, c) = (g1, c1, asked)"
    by (metis prod_cases3)
  obtain gs2 c2 where gs2: "refresh_names io cfg gs c1 = (gs2, c2)"
    by (meson surj_pair)
  have "guest_wf g1"
    using refresh_name_wf [OF apply_defaults_wf g1] Cons.prems(1) by simp
  then show ?case
    using Cons.IH [OF _ gs2] Cons.prems g1 gs2 by auto
qed


section \<open>Invariant of the manager\<close>

definition request_ok :: "ota_request \<Rightarrow> bool" where
  "request_ok r =
     (case r of
        ReqFetch ps \<Rightarrow> ps \<noteq> [] \<and> length ps \<le> 16 \<and> list_all (\<lambda>p. \<not> is_control_file (basename p)) ps
      | ReqPush g _ \<Rightarrow> g_state g = GUEST_RUNNING
      | _ \<Rightarrow> True)"

definition hms_inv :: "hms \<Rightarrow> bool" where
  "hms_inv s \<longleftrightarrow> hs_count s \<le> length (hs_array s) \<and> length (hs_array s) \<le> 16 \<and> list_all guest_wf (hs_array s) \<and>
     list_all (\<lambda>(j, r). request_ok r) (hs_jobs s) \<and> shells_inv (hs_shells s)"

lemma hms_inv_frame [simp]:
  "hms_inv (publish_status txt s) = hms_inv s"
  "hms_inv (s\<lparr>hs_files := fs\<rparr>) = hms_inv s"
  "hms_inv (s\<lparr>hs_launched := l\<rparr>) = hms_inv s"
  "hms_inv (s\<lparr>hs_killed := ks\<rparr>) = hms_inv s"
  by (simp_all add: hms_inv_def publish_status_def)

lemma publish_inv [simp]:
  "hms_inv (publish_result cmd gid ok msg s) = hms_inv s"
  "hms_inv (publish_unknown_guest gid s) = hms_inv s"
  by (simp_all add: publish_result_def publish_unknown_guest_def)

lemma refresh_inv [simp]:
  assumes "hms_inv s"
  shows "hms_inv (refresh io s)"
proof -
  obtain gs c where gs: "refresh_names io (hs_cfg s) (discover_guests (hs_files s) (hi_dirs io) (hi_procs io)) (hs_cache s) = (gs, c)"
    by (meson surj_pair)
  note d = discover_guests_wf [of "hs_files s" "hi_dirs io" "hi_procs io"]
  have "list_all guest_wf gs" "length gs \<le> 16"
    using refresh_names_wf [OF conjunct1 [OF d] gs] d by simp_all
  moreover have "list_all guest_wf (drop (length gs) (hs_array s))"
    using assms by (auto simp: hms_inv_def list_all_iff dest: in_set_dropD)
  ultimately show ?thesis
    using assms gs by (auto simp: refresh_def hms_inv_def)
qed

lemma current_wf: "hms_inv s \<Longrightarrow> list_all guest_wf (current_guests s) \<and> length (current_guests s) \<le> 16"
  by (auto simp: hms_inv_def current_guests_def list_all_iff dest: in_set_takeD)

lemma publish_guest_list_inv:
  assumes "hms_inv s"
  shows "\<exists>s'. publish_guest_list s = Some s' \<and> hms_inv s'"
  using guest_list_text_whole current_wf [OF assms] assms by (auto simp: publish_guest_list_def)

lemma guest_index_wf: "hms_inv s \<Longrightarrow> guest_index s gid = Some i \<Longrightarrow> i < length (hs_array s) \<and> guest_wf (hs_array s ! i)"
  using index_of_Some [of "\<lambda>g. g_id g = gid" "current_guests s" i]
  by (auto simp: guest_index_def current_guests_def hms_inv_def list_all_length)

lemma with_guest_inv:
  assumes "hms_inv s" "with_guest s gid k = Some s'"
    "\<And>i. hms_inv s \<Longrightarrow> i < length (hs_array s) \<Longrightarrow> guest_wf (hs_array s ! i) \<Longrightarrow> k i (hs_array s ! i) = Some s' \<Longrightarrow> hms_inv s'"
  shows "hms_inv s'"
  using assms guest_index_wf [OF assms(1)] by (auto simp: with_guest_def split: option.splits)

lemma publish_guest_list_inv': "publish_guest_list s = Some s' \<Longrightarrow> hms_inv s \<Longrightarrow> hms_inv s'"
  using publish_guest_list_inv by fastforce

lemma cmd_list_inv: "hms_inv s \<Longrightarrow> cmd_list io s = Some s' \<Longrightarrow> hms_inv s'"
  unfolding cmd_list_def by (erule publish_guest_list_inv') simp

lemma cmd_start_inv:
  assumes "hms_inv s" "cmd_start io gid ip s = Some s'"
  shows "hms_inv s'"
proof (rule with_guest_inv [OF assms(1) assms(2) [unfolded cmd_start_def]])
  fix i
  assume i: "i < length (hs_array s)" "guest_wf (hs_array s ! i)"
  define g where "g = (if ip \<noteq> [] then (hs_array s ! i)\<lparr>g_ip := bounded_copy 64 ip\<rparr> else hs_array s ! i)"
  have "guest_wf g"
    using i(2) length_bounded_copy [of 64 ip] by (simp add: g_def guest_wf_def guest_ok_def)
  then have "hms_inv (s\<lparr>hs_array := (hs_array s)[i := g]\<rparr>)"
    using assms(1) by (auto simp: hms_inv_def list_all_iff dest: set_update_subset_insert [THEN subsetD])
  then have "hms_inv (s\<lparr>hs_array := (hs_array s)[i := g], hs_files := fs, hs_launched := l\<rparr>)" for fs l
    by (simp add: hms_inv_def)
  then show "(let g = if ip \<noteq> [] then (hs_array s ! i)\<lparr>g_ip := bounded_copy 64 ip\<rparr> else hs_array s ! i;
        s = s\<lparr>hs_array := (hs_array s)[i := g],
              hs_files := if ip \<noteq> [] then guest_set_ip (hi_meta_fopen_ok io) (hi_meta_rename_ok io) g (hs_files s) else hs_files s\<rparr>
      in case guest_start (hi_start io) g (hs_files s) of
           (rc, launched, fs) \<Rightarrow> publish_guest_list (publish_result ''start'' gid (rc = 0)
             (if rc = 0 then ''guest started'' else ''failed to start guest'')
             (refresh io (s\<lparr>hs_files := fs, hs_launched := hs_launched s @ launched\<rparr>)))) = Some s' \<Longrightarrow> hms_inv s'"
    unfolding g_def [symmetric] Let_def by (auto split: prod.splits elim!: publish_guest_list_inv')
qed

lemma cmd_kill_inv: "hms_inv s \<Longrightarrow> cmd_kill io gid s = Some s' \<Longrightarrow> hms_inv s'"
  unfolding cmd_kill_def
  by (erule with_guest_inv, assumption) (auto split: prod.splits elim!: publish_guest_list_inv')

lemma cmd_info_inv: "hms_inv s \<Longrightarrow> cmd_info io gid s = Some s' \<Longrightarrow> hms_inv s'"
  unfolding cmd_info_def by (erule with_guest_inv, assumption) (auto simp: Let_def refresh_inv)

lemma cmd_exec_inv: "hms_inv s \<Longrightarrow> cmd_exec io gid c s = Some s' \<Longrightarrow> hms_inv s'"
  unfolding cmd_exec_def by (erule with_guest_inv, assumption) (auto split: if_splits option.splits)

lemma cmd_stats_inv: "hms_inv s \<Longrightarrow> cmd_stats io gid s = Some s' \<Longrightarrow> hms_inv s'"
  by (auto simp: cmd_stats_def Let_def split: if_splits option.splits)

lemma cmd_files_inv: "hms_inv s \<Longrightarrow> cmd_files io gid s = Some s' \<Longrightarrow> hms_inv s'"
  by (auto simp: cmd_files_def Let_def refresh_inv split: if_splits option.splits)

lemma start_job_inv:
  "hms_inv s \<Longrightarrow> (\<And>j r. job = Some (j, r) \<Longrightarrow> request_ok r) \<Longrightarrow> hms_inv (start_job cmd gid job a b s)"
  by (auto simp: start_job_def hms_inv_def publish_result_def publish_status_def split: option.splits)

lemma cmd_ota_inv: "hms_inv s \<Longrightarrow> hms_inv (cmd_ota io gid p s)"
  by (auto simp: cmd_ota_def ota_start_def request_ok_def intro!: start_job_inv split: if_splits)

lemma basename_bounded: "NUL \<notin> set p \<Longrightarrow> length p < n \<Longrightarrow> bounded_copy n p = p"
  by (rule bounded_copy_id)

lemma cmd_fetch_inv:
  assumes "hms_inv s" "cmd_fetch io gid paths s = Some s'" "list_all (\<lambda>p. bounded_copy 1024 p = p) paths"
  shows "hms_inv s'"
proof (rule with_guest_inv [OF assms(1) assms(2) [unfolded cmd_fetch_def]])
  have "request_ok r" if "ota_fetch_start (hi_ok io) (hs_cfg s) gid paths = Some (j, r)"
    "find runtime_file (map basename paths) = None" for j r
  proof -
    have "map (bounded_copy 1024) paths = paths"
      using assms(3) by (simp add: list_all_iff map_idI)
    then show ?thesis
      using that by (auto simp: ota_fetch_start_def request_ok_def list_all_iff find_None_iff runtime_file_def is_control_file_def
          split: if_splits)
  qed
  then show "(case find runtime_file (map basename paths) of
      None \<Rightarrow> Some (start_job ''fetch'' gid (ota_fetch_start (hi_ok io) (hs_cfg s) gid paths) ''failed to start fetch job'' ''fetch job started'' s)
    | Some name \<Rightarrow> Some (publish_result ''fetch'' gid False
        (bounded_copy 256 (''refusing to fetch runtime file '' @ [QUOTE] @ take 120 name @ [QUOTE])) s)) = Some s' \<Longrightarrow> hms_inv s'"
    using assms(1) by (auto intro: start_job_inv split: option.splits)
qed

lemma cmd_jobs_inv:
  "hms_inv s \<Longrightarrow> cmd_apply io gid r s = Some s' \<Longrightarrow> hms_inv s'"
  "hms_inv s \<Longrightarrow> cmd_pushfiles io gid p s = Some s' \<Longrightarrow> hms_inv s'"
  "hms_inv s \<Longrightarrow> cmd_addfile io gid p s = Some s' \<Longrightarrow> hms_inv s'"
  unfolding cmd_apply_def cmd_pushfiles_def cmd_addfile_def
  by (erule with_guest_inv, assumption,
      auto simp: ota_apply_start_def ota_push_start_def ota_addfile_start_def request_ok_def
        intro!: start_job_inv split: if_splits)+

lemma cmd_addguest_inv: "hms_inv s \<Longrightarrow> hms_inv (cmd_addguest io gid a b c s)"
  by (auto simp: cmd_addguest_def ota_addguest_start_def request_ok_def intro!: start_job_inv split: if_splits)

lemma shells_update_inv: "hms_inv s \<Longrightarrow> shells_inv sh \<Longrightarrow> hms_inv (s\<lparr>hs_shells := sh\<rparr>)"
  by (simp add: hms_inv_def)

lemma cmd_shellopen_inv:
  assumes "hms_inv s" "cmd_shellopen io gid s = Some s'" "io_ok (hi_open io) (hs_shells s)"
  shows "hms_inv s'"
proof (rule with_guest_inv [OF assms(1) assms(2) [unfolded cmd_shellopen_def]])
  fix i
  assume "guest_wf (hs_array s ! i)"
  then have "guest_ok (hs_array s ! i)"
    by (simp add: guest_wf_def)
  then have "shells_inv (snd (shell_open (hi_open io) (hs_array s ! i) (hs_shells s)))"
    using assms(1,3) by (simp add: hms_inv_def shell_open_inv)
  then show "(if g_state (hs_array s ! i) \<noteq> GUEST_RUNNING then Some (publish_result ''shellopen'' gid False ''guest is not running'' s)
      else case shell_open (hi_open io) (hs_array s ! i) (hs_shells s) of
             (Inl e, sh) \<Rightarrow> Some (publish_result ''shellopen'' gid False (shell_error_text io e) (s\<lparr>hs_shells := sh\<rparr>))
           | (Inr _, sh) \<Rightarrow> Some (publish_result ''shellopen'' gid True ''shell opened'' (s\<lparr>hs_shells := sh\<rparr>))) = Some s' \<Longrightarrow> hms_inv s'"
    using assms(1) by (auto split: if_splits prod.splits sum.splits simp: shells_update_inv)
qed

lemma cmd_shellwrite_inv:
  assumes "hms_inv s" "cmd_shellwrite io gid d s = Some s'"
  shows "hms_inv s'"
proof -
  have "shells_inv sh" if "shell_write (hi_writes io) (hi_now io) gid d (hs_shells s) = Some (ok, sh)" for ok sh
    using shell_write_inv [OF _ that] assms(1) by (simp add: hms_inv_def)
  then show ?thesis
    using assms by (auto simp: cmd_shellwrite_def shells_update_inv split: if_splits)
qed

lemma cmd_shellclose_inv: "hms_inv s \<Longrightarrow> hms_inv (cmd_shellclose gid s)"
proof -
  assume s: "hms_inv s"
  then have "shells_inv (snd (shell_close gid (hs_shells s)))"
    by (simp add: hms_inv_def shell_close_inv)
  then show ?thesis
    using s by (auto simp: cmd_shellclose_def shells_update_inv split: prod.splits)
qed

end
