(* ===== verification/HmsOtaJobs.thy ===== *)
theory HmsOtaJobs
  imports HmsOta
begin

text \<open>
  What over-the-air jobs do: each reports exactly one result; applying staged files installs
  exactly those; an apply without restart leaves the guest stopped; an archive is unpacked in
  the staging area and nowhere else.
\<close>

section \<open>Every job reports one result\<close>

definition is_final :: "ota_message \<Rightarrow> bool" where
  "is_final m = (case m of OtaProgress stage _ _ \<Rightarrow> stage = ''failed'' | _ \<Rightarrow> True)"

text \<open>Only progress is logged between two worlds; or progress and then one final message.\<close>

definition silent :: "string \<Rightarrow> ota_world \<Rightarrow> ota_world \<Rightarrow> bool" where
  "silent gid w w' \<longleftrightarrow> (\<exists>ms. ow_log w' = ow_log w @ map (Pair gid) ms \<and> list_all (\<lambda>m. \<not> is_final m) ms)"

definition concludes :: "string \<Rightarrow> ota_world \<Rightarrow> ota_world \<Rightarrow> bool" where
  "concludes gid w w' \<longleftrightarrow>
     (\<exists>ms m. ow_log w' = ow_log w @ map (Pair gid) (ms @ [m]) \<and> list_all (\<lambda>m. \<not> is_final m) ms \<and> is_final m)"

lemma silent_same_log: "ow_log w' = ow_log w \<Longrightarrow> silent gid w w'"
  unfolding silent_def by (intro exI [of _ "[]"]) simp

lemma silent_trans [trans]:
  assumes "silent gid a b" "silent gid b c"
  shows "silent gid a c"
proof -
  obtain ms ns where "ow_log b = ow_log a @ map (Pair gid) ms" "list_all (\<lambda>m. \<not> is_final m) ms"
    "ow_log c = ow_log b @ map (Pair gid) ns" "list_all (\<lambda>m. \<not> is_final m) ns"
    using assms by (auto simp: silent_def)
  then show ?thesis
    unfolding silent_def by (intro exI [of _ "ms @ ns"]) simp
qed

lemma concludes_trans [trans]:
  assumes "silent gid a b" "concludes gid b c"
  shows "concludes gid a c"
proof -
  obtain ms ns m where "ow_log b = ow_log a @ map (Pair gid) ms" "list_all (\<lambda>m. \<not> is_final m) ms"
    "ow_log c = ow_log b @ map (Pair gid) (ns @ [m])" "list_all (\<lambda>m. \<not> is_final m) ns" "is_final m"
    using assms by (auto simp: silent_def concludes_def)
  then show ?thesis
    unfolding concludes_def by (intro exI [of _ "ms @ ns"] exI [of _ m]) simp
qed

lemma silent_post: "silent gid a w \<Longrightarrow> \<not> is_final m \<Longrightarrow> silent gid a (post gid m w)"
  by (rule silent_trans, assumption) (simp add: silent_def post_def, rule exI [of _ "[m]"], simp)

lemma concludes_post: "silent gid a w \<Longrightarrow> is_final m \<Longrightarrow> concludes gid a (post gid m w)"
  by (rule concludes_trans, assumption) (auto simp: concludes_def post_def intro!: exI [of _ "[]"])

lemma silent_report: "silent gid a w \<Longrightarrow> stage \<noteq> ''failed'' \<Longrightarrow> silent gid a (ota_report gid stage p msg w)"
  unfolding ota_report_def by (rule silent_post) (simp_all add: is_final_def)

lemma concludes_failed: "silent gid a w \<Longrightarrow> concludes gid a (ota_report gid ''failed'' p msg w)"
  unfolding ota_report_def by (rule concludes_post) (simp_all add: is_final_def)

lemma silent_post_all:
  "silent gid a w \<Longrightarrow> list_all (\<lambda>m. \<not> is_final m) ms \<Longrightarrow> silent gid a (post_all gid ms w)"
  by (rule silent_trans, assumption) (auto simp: silent_def post_all_def)

lemma log_run_cmd [simp]: "ow_log (snd (run_cmd io line w)) = ow_log w"
  by (simp add: run_cmd_def Let_def split: option.splits)

lemma log_run_scp [simp]: "ow_log (run_scp run f w) = ow_log w"
  by (simp add: run_scp_def split: option.splits)

lemma log_kill_cb [simp]: "ow_log (snd (ota_kill_cb k gid w)) = ow_log w"
  by (simp add: ota_kill_cb_def split: option.splits prod.splits)

lemma log_start_cb [simp]: "ow_log (snd (ota_start_cb s gid w)) = ow_log w"
  by (simp add: ota_start_cb_def split: option.splits prod.splits)

lemma silent_run_cmd: "silent gid a w \<Longrightarrow> run_cmd io line w = (rc, w') \<Longrightarrow> silent gid a w'"
  using silent_trans [OF _ silent_same_log [OF log_run_cmd [of io line w]]] by simp

lemma silent_mkdirs: "silent gid a w \<Longrightarrow> silent gid a (mkdirs io p w)"
  unfolding mkdirs_def by (rule silent_trans [OF _ silent_same_log]) simp_all

lemma silent_files: "silent gid a w \<Longrightarrow> silent gid a (w\<lparr>ow_files := fs\<rparr>)"
  by (erule silent_trans) (simp add: silent_same_log)

lemma silent_remove: "silent gid a w \<Longrightarrow> silent gid a (remove_file p w)"
  by (simp add: remove_file_def silent_files)

lemma concludes_remove: "concludes gid a w \<Longrightarrow> concludes gid a (remove_file p w)"
  by (simp add: concludes_def remove_file_def)

lemma silent_removes: "silent gid a w \<Longrightarrow> silent gid a (fold (\<lambda>n. remove_file (f n)) names w)"
  by (induction names arbitrary: w) (simp_all add: silent_remove)

lemma silent_kill_cb: "silent gid a w \<Longrightarrow> silent gid a (snd (ota_kill_cb k g w))"
  by (erule silent_trans) (simp add: silent_same_log)

lemma silent_start_cb: "silent gid a w \<Longrightarrow> ota_start_cb s g w = (rc, w') \<Longrightarrow> silent gid a w'"
  using silent_trans [OF _ silent_same_log [OF log_start_cb [of s g w]]] by simp

lemma download_reports_silent: "list_all (\<lambda>m. \<not> is_final m) (download_reports sz polls st)"
  by (induction sz polls st rule: download_reports.induct) (simp_all add: Let_def is_final_def)

lemma pull_reports_silent:
  "stage \<noteq> ''failed'' \<Longrightarrow> list_all (\<lambda>m. \<not> is_final m) (pull_reports sz remote stage i n polls st)"
  by (induction sz remote stage i n polls st rule: pull_reports.induct) (simp_all add: Let_def is_final_def)

lemma silent_download:
  "silent (oj_guest j) a w \<Longrightarrow> ota_download io j p f sz w = (ok, w') \<Longrightarrow> silent (oj_guest j) a w'"
  by (auto simp: ota_download_def Let_def download_reports_silent silent_same_log intro!: silent_post_all elim: silent_trans)

lemma silent_pull_file:
  "silent (oj_guest j) a w \<Longrightarrow> stage \<noteq> ''failed'' \<Longrightarrow> pull_file io j at p f sz stage i n w = (ok, w') \<Longrightarrow>
     silent (oj_guest j) a w'"
  by (auto simp: pull_file_def Let_def pull_reports_silent silent_same_log intro!: silent_post_all elim: silent_trans)

lemma silent_pull_attempts:
  "silent (oj_guest j) a w \<Longrightarrow> stage \<noteq> ''failed'' \<Longrightarrow> pull_attempts io j as retry p f sz stage i n w = (ok, w') \<Longrightarrow>
     silent (oj_guest j) a w'"
proof (induction as arbitrary: w)
  case Nil
  then show ?case by simp
next
  case (Cons k as)
  let ?w = "if k > 1 then remove_file f (ota_report (oj_guest j) stage 0 (bounded_copy 256 (retry k)) w) else w"
  obtain fin w1 where p: "pull_file io j k p f sz stage i n ?w = (fin, w1)"
    by (cases "pull_file io j k p f sz stage i n ?w")
  have "silent (oj_guest j) a ?w"
    using Cons.prems(1,2) by (simp add: silent_remove silent_report)
  then have "silent (oj_guest j) a w1"
    using silent_pull_file p Cons.prems(2) by blast
  then show ?case
    using Cons.prems p Cons.IH [of w1] by (auto simp: Let_def split: if_splits)
qed

declare pull_attempts.simps [simp del]

lemmas silent_intros = silent_report silent_files silent_mkdirs silent_remove silent_removes silent_kill_cb


lemma silent_ota_apply:
  "silent (oj_guest j) a w \<Longrightarrow> ota_apply io j pkg d w = (r, w') \<Longrightarrow> silent (oj_guest j) a w'"
  by (auto simp: ota_apply_def Let_def split: if_splits prod.splits
      intro!: silent_intros elim!: silent_run_cmd [rotated])

lemma ota_thread_concludes: "concludes (oj_guest j) w (ota_thread io j p w)"
proof -
  let ?w0 = "ota_report (oj_guest j) ''download'' 0 ''Starting pull from server'' w"
  have "silent (oj_guest j) w ?w0"
    by (simp add: silent_report silent_same_log)
  then show ?thesis
    by (auto simp: ota_thread_def Let_def is_final_def split: prod.splits
        intro!: concludes_failed concludes_post silent_intros
        elim!: silent_download [rotated] silent_ota_apply [rotated] silent_start_cb [rotated])
qed

lemma fetch_files_concludes:
  "silent (oj_guest j) a w \<Longrightarrow> fetch_files io j d i n ps w = (ok, w') \<Longrightarrow>
     (ok \<longrightarrow> silent (oj_guest j) a w') \<and> (\<not> ok \<longrightarrow> concludes (oj_guest j) a w')"
proof (induction ps arbitrary: i w)
  case Nil
  then show ?case by simp
next
  case (Cons p ps)
  show ?case
  proof (cases "is_control_file (basename p)")
    case True
    then show ?thesis
      using Cons.prems by (auto simp: Let_def concludes_failed)
  next
    case False
    define f where "f = bounded_copy 1424 (d @ ''/'' @ basename p)"
    define v where "v = remove_file f (ota_report (oj_guest j) ''download'' 0 ''Starting pull from server'' w)"
    obtain fin w1 where w1: "pull_attempts io j [1, 2, 3] (\<lambda>a. ''Retry '' @ dec a @ ''/3 for '' @ take 100 (basename p)) p f
        (remote_size io (oj_server j) (oj_key j) p) ''download'' i n v = (fin, w1)"
      by (meson surj_pair)
    have "silent (oj_guest j) a v"
      using Cons.prems(1) by (simp add: v_def silent_remove silent_report)
    then have s: "silent (oj_guest j) a w1"
      using silent_pull_attempts [OF _ _ w1] by simp
    show ?thesis
    proof (cases fin)
      case True
      have "silent (oj_guest j) a (ota_report (oj_guest j) ''download'' 100 ''Fetched file from server'' w1)"
        using s by (simp add: silent_report)
      moreover have "fetch_files io j d (i + 1) n ps (ota_report (oj_guest j) ''download'' 100 ''Fetched file from server'' w1) = (ok, w')"
        using Cons.prems(2) False True w1 by (simp add: Let_def f_def v_def)
      ultimately show ?thesis
        by (rule Cons.IH)
    next
      case F: False
      then show ?thesis
        using Cons.prems(2) False w1 s by (auto simp: Let_def f_def v_def concludes_failed)
    qed
  qed
qed

lemma ota_fetch_thread_concludes: "concludes (oj_guest j) w (ota_fetch_thread io j ps w)"
proof -
  let ?d = "stage_dir_of (oj_guest j)"
  obtain ok w' where r: "fetch_files io j ?d 0 (length ps) ps (mkdirs io ?d w) = (ok, w')"
    by (meson surj_pair)
  have "silent (oj_guest j) w (mkdirs io ?d w)"
    by (simp add: silent_mkdirs silent_same_log)
  from fetch_files_concludes [OF this r] show ?thesis
    using r by (auto simp: ota_fetch_thread_def Let_def is_final_def concludes_post)
qed

lemma place_files_concludes:
  "silent gid a w \<Longrightarrow> place_files io gid sd dd i n names w = (ok, w') \<Longrightarrow>
     (ok \<longrightarrow> silent gid a w') \<and> (\<not> ok \<longrightarrow> concludes gid a w')"
proof (induction names arbitrary: i w)
  case Nil
  then show ?case by simp
next
  case (Cons name names)
  obtain rc w1 where w1: "run_cmd io (cp_line (bounded_copy 4496 (sd @ ''/'' @ name)) (bounded_copy 4368 (dd @ ''/'' @ name))) w = (rc, w1)"
    by (meson surj_pair)
  have s: "silent gid a w1"
    using silent_run_cmd [OF Cons.prems(1) w1] .
  show ?case
  proof (cases "rc = 0")
    case True
    then show ?thesis
      using Cons.IH [OF silent_report [OF s, of "''apply''"]] Cons.prems(2) w1 by (simp add: Let_def)
  next
    case False
    then show ?thesis
      using Cons.prems(2) w1 concludes_failed [OF s] by (auto simp: Let_def)
  qed
qed

lemma ota_apply_thread_concludes: "concludes (oj_guest j) w (ota_apply_thread io j restart w)"
proof (cases "oi_dirs io (stage_dir_of (oj_guest j))")
  case None
  then show ?thesis
    by (simp add: ota_apply_thread_def Let_def concludes_failed silent_same_log)
next
  case (Some listing)
  show ?thesis
  proof (cases "\<exists>names. staged_names 0 listing = Inr names \<and> names \<noteq> []")
    case False
    then show ?thesis
      using Some by (auto simp: ota_apply_thread_def Let_def concludes_failed silent_same_log split: sum.splits list.splits)
  next
    case True
    then obtain x xs where names: "staged_names 0 listing = Inr (x # xs)"
      by (metis list.exhaust)
    let ?gid = "oj_guest j"
    define v where "v = snd (ota_kill_cb (oi_kill io) ?gid (ota_report ?gid ''restart'' 0 ''Stopping guest before applying changes'' w))"
    obtain ok w1 where w1: "place_files io ?gid (stage_dir_of ?gid) (guest_dir_of ?gid) 0 (length (x # xs)) (x # xs) v = (ok, w1)"
      by (meson surj_pair)
    have "silent ?gid w v"
      by (simp add: v_def silent_kill_cb silent_report silent_same_log)
    from place_files_concludes [OF this w1]
    have p: "ok \<Longrightarrow> silent ?gid w w1" "\<not> ok \<Longrightarrow> concludes ?gid w w1"
      by simp_all
    show ?thesis
    proof (cases ok)
      case False
      then show ?thesis
        using Some names w1 p(2) by (simp add: ota_apply_thread_def Let_def v_def del: place_files.simps)
    next
      case True
      note s = p(1) [OF this]
      show ?thesis
        using Some names w1 True s
        by (auto simp: ota_apply_thread_def Let_def v_def [symmetric] is_final_def simp del: place_files.simps fold.simps split: prod.splits
            intro!: concludes_post silent_intros elim!: silent_start_cb [rotated])
    qed
  qed
qed


lemma ota_push_thread_concludes: "\<exists>w'. ota_push_thread io j p g w = Some w' \<and> concludes (oj_guest j) w w'"
proof -
  let ?gid = "oj_guest j"
  define d where "d = bounded_copy 2048 (''/tmp/ota/'' @ ?gid @ ''/push'')"
  define f where "f = bounded_copy 3200 (d @ ''/'' @ basename p)"
  define sz where "sz = remote_size io (oj_server j) (oj_key j) p"
  define v where "v = remove_file f (mkdirs io d (ota_report ?gid ''pushfiles'' 0 ''Pulling archive from the server'' w))"
  have sv: "silent ?gid w v"
    by (simp add: v_def silent_intros silent_same_log)
  obtain ok w1 where w1: "pull_attempts io j [1, 2, 3] (\<lambda>a. ''Retry '' @ dec a @ ''/3 pulling the archive'') p f sz ''pushfiles'' 0 1 v = (ok, w1)"
    by (meson surj_pair)
  have s: "silent ?gid w w1"
    using silent_pull_attempts [OF sv _ w1] by simp
  consider "sz \<le> 0" | "sz > 0" "\<not> ok" | "sz > 0" ok
    by linarith
  then show ?thesis
  proof cases
    case 3
    define u where "u = ota_report ?gid ''pushfiles'' 70 (''Archive pulled '' @ dash @ '' copying into the guest'') w1"
    have su: "silent ?gid w u"
      using s by (simp add: u_def silent_report)
    obtain r where r: "ssh_scp_to (oi_push io) 512 (ow_files u) g f ''/tmp/pushfiles.tar.gz'' = Some r"
      using ssh_scp_to_never_overruns by blast
    obtain out where out: "ssh_exec (oi_extract io) (ow_files u) g extract_command = Some out"
      using ssh_exec_never_overruns by blast
    have "ow_files (ota_report ?gid a b c u) = ow_files u" for a b c
      by (simp add: ota_report_def post_def)
    then show ?thesis
      using 3 w1 r out su
      by (cases r)
        (auto simp: ota_push_thread_def Let_def d_def [symmetric] f_def [symmetric] sz_def [symmetric] v_def [symmetric]
          u_def [symmetric] is_final_def concludes_failed intro!: concludes_post silent_intros concludes_remove concludes_failed
          simp del: append.simps split: option.splits)
  qed (use w1 sv s in \<open>auto simp: ota_push_thread_def Let_def d_def [symmetric] f_def [symmetric] sz_def [symmetric]
         v_def [symmetric] concludes_failed simp del: append.simps\<close>)
qed

lemma addfile_thread_concludes: "concludes (oj_guest j) w (addfile_thread io j p w)"
  by (auto simp: addfile_thread_def Let_def is_final_def silent_same_log split: prod.splits if_splits
      intro!: concludes_post silent_intros elim!: silent_run_cmd [rotated] silent_pull_file [rotated 2])

lemma addguest_thread_concludes: "concludes (oj_guest j) w (addguest_thread io b j ifs conf ip w)"
  by (auto simp: addguest_thread_def Let_def is_final_def silent_same_log split: prod.splits if_splits
      intro!: concludes_post silent_intros elim!: silent_pull_file [rotated 2])


section \<open>Applying staged files\<close>

definition staged_path :: "string \<Rightarrow> string \<Rightarrow> string" where
  "staged_path gid n = ''/tmp/ota/'' @ gid @ ''/stage/'' @ n"

definition guest_path :: "string \<Rightarrow> string \<Rightarrow> string" where
  "guest_path gid n = ''/guests/'' @ gid @ ''/'' @ n"

text \<open>The shell copies an existing file when told to and writes its exit code where it is told to.\<close>

definition copies :: "(string \<Rightarrow> files \<Rightarrow> files option) \<Rightarrow> string \<Rightarrow> string \<Rightarrow> bool" where
  "copies sh a b \<longleftrightarrow>
     (\<forall>f fs. fs a \<noteq> None \<longrightarrow> sh (cp_line a b @ ''; echo $? > '' @ f) fs = Some (fs(b := fs a, f \<mapsto> ''0'' @ [NEWLINE])))"

definition plain_id :: "string \<Rightarrow> bool" where
  "plain_id gid \<longleftrightarrow> NUL \<notin> set gid \<and> length gid < 32"

definition plain_name :: "string \<Rightarrow> bool" where
  "plain_name n \<longleftrightarrow> NUL \<notin> set n \<and> length n < 256 \<and> n \<noteq> ''.'' \<and> n \<noteq> ''..'' \<and> \<not> is_control_file n"

lemma plain_paths:
  assumes "plain_id gid" "plain_name n"
  shows "bounded_copy 4496 (stage_dir_of gid @ ''/'' @ n) = staged_path gid n"
    "bounded_copy 4368 (guest_dir_of gid @ ''/'' @ n) = guest_path gid n"
    "NUL \<notin> set (staged_path gid n)" "NUL \<notin> set (guest_path gid n)"
    "length (staged_path gid n) < 400" "length (guest_path gid n) < 400"
  using assms by (simp_all add: plain_id_def plain_name_def stage_dir_of_def guest_dir_of_def bounded_copy_id
      staged_path_def guest_path_def)

lemma path_kinds [simp]:
  "staged_path gid n \<noteq> guest_path gid' m" "guest_path gid' m \<noteq> staged_path gid n"
  "\<not> prefix ''/tmp/ota_rc_'' (staged_path gid n)" "\<not> prefix ''/tmp/ota_rc_'' (guest_path gid n)"
  by (simp_all add: staged_path_def guest_path_def)

lemma guest_path_inj [simp]: "guest_path gid m = guest_path gid n \<longleftrightarrow> m = n"
  by (simp add: guest_path_def)

lemma staged_path_inj [simp]: "staged_path gid m = staged_path gid n \<longleftrightarrow> m = n"
  by (simp add: staged_path_def)

lemma scan_zero: "scan_int (''0'' @ [NEWLINE]) = Some 0"
proof -
  have "dec 0 = ''0''"
    by code_simp
  then have "strtoul (''0'' @ [NEWLINE]) = 0"
    using strtoul_dec [of 0 "[NEWLINE]"] by (simp add: is_digit_def)
  then have "atoi (''0'' @ [NEWLINE]) = 0"
    by (simp add: atoi_def del: append.simps)
  then show ?thesis
    by (simp add: scan_int_def is_digit_def is_space_def)
qed

definition rc_file :: "ota_io \<Rightarrow> ota_world \<Rightarrow> string" where
  "rc_file io w = bounded_copy 128 (''/tmp/ota_rc_'' @ dec_int (oi_pid io) @ ''_'' @ dec (ow_seq w))"

lemma bounded_copy_prefix: "NUL \<notin> set a \<Longrightarrow> length a < n \<Longrightarrow> prefix a (bounded_copy n (a @ b))"
proof -
  assume a: "NUL \<notin> set a" "length a < n"
  have "cstr (a @ b) = a @ cstr b"
    unfolding cstr_def by (rule takeWhile_append2) (use a(1) in auto)
  then show ?thesis
    using a(2) by (simp add: bounded_copy_def)
qed

lemma rc_file_prefix: "prefix ''/tmp/ota_rc_'' (rc_file io w)"
  unfolding rc_file_def by (rule bounded_copy_prefix) simp_all

lemma run_cmd_copies:
  assumes "copies (oi_shell io) a b" "ow_files w a \<noteq> None" "NUL \<notin> set a" "NUL \<notin> set b"
    "length a < 400" "length b < 400" "\<not> prefix ''/tmp/ota_rc_'' b"
  shows "\<exists>w'. run_cmd io (cp_line a b) w = (0, w') \<and>
    ow_files w' = (ow_files w)(b := ow_files w a, rc_file io w := None)"
proof -
  let ?f = "rc_file io w"
  have f: "?f \<noteq> b"
    using assms(7) rc_file_prefix by metis
  have line: "bounded_copy 8192 (cp_line a b) = cp_line a b"
    using assms(3-6) by (intro bounded_copy_id) (auto simp: cp_line_def dq_def)
  have "NUL \<notin> set ?f" "length ?f < 128"
    using set_take_subset cstr_no_nul by (fastforce simp: rc_file_def bounded_copy_def, simp add: rc_file_def length_bounded_copy)
  then have wrapped: "bounded_copy 9000 (cp_line a b @ ''; echo $? > '' @ ?f) = cp_line a b @ ''; echo $? > '' @ ?f"
    using assms(3-6) by (intro bounded_copy_id) (auto simp: cp_line_def dq_def)
  have "oi_shell io (cp_line a b @ ''; echo $? > '' @ ?f) (ow_files w) =
      Some ((ow_files w)(b := ow_files w a, ?f \<mapsto> ''0'' @ [NEWLINE]))"
    using assms(1,2) by (simp add: copies_def)
  then show ?thesis
    unfolding run_cmd_def Let_def rc_file_def [symmetric] line wrapped
    using f scan_zero by (simp add: fun_upd_twist del: append.simps)
qed

lemma place_files_copies:
  assumes "plain_id gid"
  shows "list_all (\<lambda>n. plain_name n \<and> copies (oi_shell io) (staged_path gid n) (guest_path gid n) \<and>
      ow_files w (staged_path gid n) \<noteq> None) names \<Longrightarrow>
    \<exists>w'. place_files io gid (stage_dir_of gid) (guest_dir_of gid) i k names w = (True, w') \<and>
      (\<forall>n \<in> set names. ow_files w' (guest_path gid n) = ow_files w (staged_path gid n)) \<and>
      (\<forall>p. p \<notin> guest_path gid ` set names \<and> \<not> prefix ''/tmp/ota_rc_'' p \<longrightarrow> ow_files w' p = ow_files w p)"
proof (induction names arbitrary: i w)
  case Nil
  then show ?case by simp
next
  case (Cons n names)
  then have n: "plain_name n" "copies (oi_shell io) (staged_path gid n) (guest_path gid n)" "ow_files w (staged_path gid n) \<noteq> None"
    by simp_all
  note paths = plain_paths [OF assms n(1)]
  obtain w1 where w1: "run_cmd io (cp_line (staged_path gid n) (guest_path gid n)) w = (0, w1)"
    "ow_files w1 = (ow_files w)(guest_path gid n := ow_files w (staged_path gid n), rc_file io w := None)"
    using run_cmd_copies [OF n(2,3)] paths by auto
  define v where "v = ota_report gid ''apply'' (int ((i + 1) * 100 div k)) (bounded_copy 256 (''Updated '' @ take 120 n)) w1"
  have v: "ow_files v p = (if p = guest_path gid n then ow_files w (staged_path gid n) else ow_files w p)"
    if "\<not> prefix ''/tmp/ota_rc_'' p" for p
    using that rc_file_prefix [of io w] w1(2) by (auto simp: v_def ota_report_def post_def)
  have vs: "ow_files v (staged_path gid m) = ow_files w (staged_path gid m)" for m
    using v [of "staged_path gid m"] by simp
  have "list_all (\<lambda>n. plain_name n \<and> copies (oi_shell io) (staged_path gid n) (guest_path gid n) \<and>
      ow_files v (staged_path gid n) \<noteq> None) names"
    using Cons.prems by (simp add: vs)
  from Cons.IH [OF this, of "i + 1"] obtain w' where w':
    "place_files io gid (stage_dir_of gid) (guest_dir_of gid) (i + 1) k names v = (True, w')"
    "\<forall>m \<in> set names. ow_files w' (guest_path gid m) = ow_files v (staged_path gid m)"
    "\<forall>p. p \<notin> guest_path gid ` set names \<and> \<not> prefix ''/tmp/ota_rc_'' p \<longrightarrow> ow_files w' p = ow_files v p"
    by blast
  have "place_files io gid (stage_dir_of gid) (guest_dir_of gid) i k (n # names) w = (True, w')"
    unfolding place_files.simps Let_def paths w1(1) using w'(1) by (simp add: v_def del: append.simps)
  moreover have "\<forall>m \<in> set (n # names). ow_files w' (guest_path gid m) = ow_files w (staged_path gid m)"
    using w'(2,3) v [of "guest_path gid n"] by (auto simp: vs) (metis imageE guest_path_inj path_kinds(4))
  moreover have "\<forall>p. p \<notin> guest_path gid ` set (n # names) \<and> \<not> prefix ''/tmp/ota_rc_'' p \<longrightarrow> ow_files w' p = ow_files w p"
    using w'(3) v by auto
  ultimately show ?case
    by blast
qed


text \<open>The files the job and the life cycle of the guest keep for themselves.\<close>

definition bookkeeping :: "string \<Rightarrow> string \<Rightarrow> bool" where
  "bookkeeping gid p \<longleftrightarrow> prefix ''/tmp/ota_rc_'' p \<or>
     p \<in> {guest_path gid ''.hms_metadata'', guest_path gid ''.hms_metadata.tmp'', guest_path gid ''qvm.pid''}"

lemma life_cycle_paths:
  assumes "plain_id gid"
  shows "guest_meta_conf gid = guest_path gid ''.hms_metadata''"
    "bounded_copy 264 (guest_path gid ''.hms_metadata'' @ ''.tmp'') = guest_path gid ''.hms_metadata.tmp''"
    "bounded_copy 256 (''/guests/'' @ gid @ ''/qvm.pid'') = guest_path gid ''qvm.pid''"
  using assms by (simp_all add: plain_id_def guest_meta_conf_def guest_path_def bounded_copy_id)

lemma meta_set_frame:
  assumes "plain_id gid" "\<not> bookkeeping gid p"
  shows "meta_set a b gid k v fs p = fs p"
  using assms(2) by (auto simp: meta_set_def Let_def life_cycle_paths [OF assms(1)] bookkeeping_def simp del: append.simps)

lemma find_guest_id: "find_guest gs gid = Some g \<Longrightarrow> g_id g = gid"
  by (auto simp: find_guest_def find_Some_iff)

lemma kill_cb_frame:
  assumes "plain_id gid" "\<not> bookkeeping gid p"
  shows "ow_files (snd (ota_kill_cb k gid w)) p = ow_files w p"
proof (cases "find_guest (ow_guests w) gid")
  case (Some g)
  then have "g_id g = gid"
    by (rule find_guest_id)
  moreover have "p \<noteq> guest_path gid ''qvm.pid''"
    using assms(2) by (simp add: bookkeeping_def)
  ultimately show ?thesis
    using Some by (auto simp: ota_kill_cb_def guest_kill_def Let_def meta_set_frame [OF assms]
        life_cycle_paths [OF assms(1)] simp del: append.simps split: if_splits)
qed (simp add: ota_kill_cb_def)

lemma start_cb_frame:
  assumes "plain_id gid" "\<not> bookkeeping gid p"
  shows "ow_files (snd (ota_start_cb s gid w)) p = ow_files w p"
proof (cases "find_guest (ow_guests w) gid")
  case (Some g)
  then have "g_id g = gid"
    by (rule find_guest_id)
  moreover have "p \<noteq> guest_path gid ''qvm.pid''"
    using assms(2) by (simp add: bookkeeping_def)
  ultimately show ?thesis
    using Some by (auto simp: ota_start_cb_def guest_start_def Let_def meta_set_frame [OF assms]
        life_cycle_paths [OF assms(1)] simp del: append.simps split: if_splits option.splits prod.splits)
qed (simp add: ota_start_cb_def)

lemma staged_names_plain:
  "list_all plain_name (filter (\<lambda>e. e \<noteq> ''.'' \<and> e \<noteq> ''..'') listing) \<Longrightarrow>
   n + length (filter (\<lambda>e. e \<noteq> ''.'' \<and> e \<noteq> ''..'') listing) \<le> 16 \<Longrightarrow>
     staged_names n listing = Inr (filter (\<lambda>e. e \<noteq> ''.'' \<and> e \<noteq> ''..'') listing)"
proof (induction listing arbitrary: n)
  case Nil
  then show ?case by simp
next
  case (Cons e es)
  show ?case
  proof (cases "e = ''.'' \<or> e = ''..''")
    case True
    then show ?thesis
      using Cons.IH [of n] Cons.prems by (cases "n = 16") auto
  next
    case False
    then have "plain_name e" "n < 16"
      using Cons.prems by auto
    then show ?thesis
      using False Cons.IH [of "n + 1"] Cons.prems by (auto simp: plain_name_def bounded_copy_id)
  qed
qed

lemma files_removed:
  "ow_files (fold (\<lambda>n. remove_file (f n)) names w) p = (if p \<in> f ` set names then None else ow_files w p)"
  by (induction names arbitrary: w) (auto simp: remove_file_def)

lemma fold_remove_cong:
  "list_all (\<lambda>n. f n = g n) names \<Longrightarrow> fold (\<lambda>n. remove_file (f n)) names w = fold (\<lambda>n. remove_file (g n)) names w"
  by (induction names arbitrary: w) simp_all


text \<open>The guests as the callbacks know them, and what was killed and launched.\<close>

definition life :: "ota_world \<Rightarrow> guest list \<times> int list \<times> (int \<times> string \<times> string \<times> string) list" where
  "life w = (ow_guests w, ow_killed w, ow_launched w)"

lemma life_simps [simp]:
  "life (ota_report gid s p m w) = life w" "life (post gid msg w) = life w" "life (remove_file f w) = life w"
  "life (fold (\<lambda>n. remove_file (h n)) names w) = life w" "life (snd (run_cmd io line w)) = life w"
proof -
  show "life (fold (\<lambda>n. remove_file (h n)) names w) = life w"
    by (induction names arbitrary: w) (simp_all add: remove_file_def life_def)
qed (simp_all add: life_def ota_report_def post_def remove_file_def run_cmd_def Let_def split: option.splits)

lemma life_run_cmd: "run_cmd io line w = (rc, w') \<Longrightarrow> life w' = life w"
  using life_simps(5) [of io line w] by simp

lemma life_place_files: "place_files io gid sd dd i k names w = (ok, w') \<Longrightarrow> life w' = life w"
proof (induction names arbitrary: i w)
  case Nil
  then show ?case by simp
next
  case (Cons n names)
  obtain rc w1 where w1: "run_cmd io (cp_line (bounded_copy 4496 (sd @ ''/'' @ n)) (bounded_copy 4368 (dd @ ''/'' @ n))) w = (rc, w1)"
    by (meson surj_pair)
  show ?case
    using Cons.prems Cons.IH life_run_cmd [OF w1] w1 by (auto simp: Let_def simp del: append.simps split: if_splits)
qed

text \<open>What an apply finds staged: between one and 16 plain files, all of which the shell can copy.\<close>

definition staging_ready :: "ota_io \<Rightarrow> string \<Rightarrow> string list \<Rightarrow> files \<Rightarrow> bool" where
  "staging_ready io gid names fs \<longleftrightarrow> plain_id gid \<and> names \<noteq> [] \<and> length names \<le> 16 \<and>
     map_option (filter (\<lambda>e. e \<noteq> ''.'' \<and> e \<noteq> ''..'')) (oi_dirs io (stage_dir_of gid)) = Some names \<and>
     list_all (\<lambda>n. plain_name n \<and> copies (oi_shell io) (staged_path gid n) (guest_path gid n) \<and>
       fs (staged_path gid n) \<noteq> None) names"

lemma bookkeeping_staged [simp]: "\<not> bookkeeping gid (staged_path gid n)"
  by (simp add: bookkeeping_def path_kinds(1))

text \<open>The steps of an apply whose staging area is ready, as one equation.\<close>

lemma ota_apply_thread_ready:
  assumes "staging_ready io gid names (ow_files w)" "gid = oj_guest j"
  obtains w1 where "ota_apply_thread io j want w =
      (let restart = want \<or> list_ex is_image_file names;
           w2 = (if restart
                 then case ota_start_cb (oi_start io) gid (ota_report gid ''restart'' 50 ''Guest stopped, starting now'' w1) of
                        (rc, w) \<Rightarrow> ota_report gid ''restart'' 100 (if rc = 0 then ''Guest restarted'' else ''Guest restart failed'') w
                 else ota_report gid ''restart'' 100 ''Files replaced (guest left running)'' w1)
       in post gid (OtaResult True (dec (length names) @ '' file(s) applied'' @
            (if restart then '' and guest restarted'' else '' (no restart)'')))
            (fold (\<lambda>n. remove_file (staged_path gid n)) names w2))"
    and "\<And>n. n \<in> set names \<Longrightarrow> ow_files w1 (guest_path gid n) = ow_files w (staged_path gid n)"
    and "\<And>p. p \<notin> guest_path gid ` set names \<Longrightarrow> \<not> bookkeeping gid p \<Longrightarrow> ow_files w1 p = ow_files w p"
    and "life w1 = life (snd (ota_kill_cb (oi_kill io) gid (ota_report gid ''restart'' 0 ''Stopping guest before applying changes'' w)))"
proof -
  have gid: "plain_id gid" and names: "names \<noteq> []" "length names \<le> 16"
    and all: "list_all (\<lambda>n. plain_name n \<and> copies (oi_shell io) (staged_path gid n) (guest_path gid n) \<and>
       ow_files w (staged_path gid n) \<noteq> None) names"
    using assms(1) by (simp_all add: staging_ready_def)
  obtain listing where listing: "oi_dirs io (stage_dir_of gid) = Some listing"
    "names = filter (\<lambda>e. e \<noteq> ''.'' \<and> e \<noteq> ''..'') listing"
    using assms(1) by (auto simp: staging_ready_def)
  have plain: "list_all plain_name names"
    using all by (simp add: list_all_iff)
  then have staged: "staged_names 0 listing = Inr names"
    using staged_names_plain [of listing 0] names(2) by (simp add: listing(2))
  define v where "v = snd (ota_kill_cb (oi_kill io) gid (ota_report gid ''restart'' 0 ''Stopping guest before applying changes'' w))"
  have v: "ow_files v p = ow_files w p" if "\<not> bookkeeping gid p" for p
    using kill_cb_frame [OF gid that] by (simp add: v_def ota_report_def post_def)
  have vs: "ow_files v (staged_path gid n) = ow_files w (staged_path gid n)" for n
    by (rule v) simp
  have "list_all (\<lambda>n. plain_name n \<and> copies (oi_shell io) (staged_path gid n) (guest_path gid n) \<and>
       ow_files v (staged_path gid n) \<noteq> None) names"
    using all by (simp add: vs)
  from place_files_copies [OF gid this, of 0 "length names"] obtain w1 where
    w1: "place_files io gid (stage_dir_of gid) (guest_dir_of gid) 0 (length names) names v = (True, w1)"
      "\<forall>n \<in> set names. ow_files w1 (guest_path gid n) = ow_files v (staged_path gid n)"
      "\<forall>p. p \<notin> guest_path gid ` set names \<and> \<not> prefix ''/tmp/ota_rc_'' p \<longrightarrow> ow_files w1 p = ow_files v p"
    by blast
  show ?thesis
  proof (rule that [of w1])
    have rem: "fold (\<lambda>name. remove_file (bounded_copy 4496 (stage_dir_of gid @ ''/'' @ name))) names u =
        fold (\<lambda>n. remove_file (staged_path gid n)) names u" for u
      by (rule fold_remove_cong) (use plain plain_paths(1) [OF gid] in \<open>simp add: list_all_iff\<close>)
    obtain x xs where xs: "names = x # xs"
      using names(1) by (cases names) auto
    show "ota_apply_thread io j want w =
      (let restart = want \<or> list_ex is_image_file names;
           w2 = (if restart
                 then case ota_start_cb (oi_start io) gid (ota_report gid ''restart'' 50 ''Guest stopped, starting now'' w1) of
                        (rc, w) \<Rightarrow> ota_report gid ''restart'' 100 (if rc = 0 then ''Guest restarted'' else ''Guest restart failed'') w
                 else ota_report gid ''restart'' 100 ''Files replaced (guest left running)'' w1)
       in post gid (OtaResult True (dec (length names) @ '' file(s) applied'' @
            (if restart then '' and guest restarted'' else '' (no restart)'')))
            (fold (\<lambda>n. remove_file (staged_path gid n)) names w2))"
      using w1(1) staged rem unfolding ota_apply_thread_def Let_def assms(2) [symmetric] listing(1) v_def xs
      by (simp del: append.simps fold.simps place_files.simps)
  next
    fix n assume "n \<in> set names"
    then show "ow_files w1 (guest_path gid n) = ow_files w (staged_path gid n)"
      using w1(2) vs by simp
  next
    fix p assume "p \<notin> guest_path gid ` set names" "\<not> bookkeeping gid p"
    then show "ow_files w1 p = ow_files w p"
      using w1(3) v [of p] by (simp add: bookkeeping_def)
  next
    show "life w1 = life (snd (ota_kill_cb (oi_kill io) gid (ota_report gid ''restart'' 0 ''Stopping guest before applying changes'' w)))"
      using life_place_files [OF w1(1)] by (simp add: v_def)
  qed
qed

text \<open>C26. Applying staged files installs exactly those. When one to 16 plain files are staged and the shell
  can copy them, then after the apply job every file system path outside the job's own
  bookkeeping is either the guest's copy of a staged file and holds its staged content, or a
  staged file that is gone, or as before.\<close>

theorem staged_apply_installs:
  assumes "staging_ready io (oj_guest j) names (ow_files w)" "\<not> bookkeeping (oj_guest j) p"
  shows "ow_files (ota_apply_thread io j want w) p =
    (case find (\<lambda>n. p = guest_path (oj_guest j) n) names of
       Some n \<Rightarrow> ow_files w (staged_path (oj_guest j) n)
     | None \<Rightarrow> if p \<in> staged_path (oj_guest j) ` set names then None else ow_files w p)"
proof -
  let ?gid = "oj_guest j"
  obtain w1 where w1: "ota_apply_thread io j want w =
      (let restart = want \<or> list_ex is_image_file names;
           w2 = (if restart
                 then case ota_start_cb (oi_start io) ?gid (ota_report ?gid ''restart'' 50 ''Guest stopped, starting now'' w1) of
                        (rc, w) \<Rightarrow> ota_report ?gid ''restart'' 100 (if rc = 0 then ''Guest restarted'' else ''Guest restart failed'') w
                 else ota_report ?gid ''restart'' 100 ''Files replaced (guest left running)'' w1)
       in post ?gid (OtaResult True (dec (length names) @ '' file(s) applied'' @
            (if restart then '' and guest restarted'' else '' (no restart)'')))
            (fold (\<lambda>n. remove_file (staged_path ?gid n)) names w2))"
    "\<And>n. n \<in> set names \<Longrightarrow> ow_files w1 (guest_path ?gid n) = ow_files w (staged_path ?gid n)"
    "\<And>p. p \<notin> guest_path ?gid ` set names \<Longrightarrow> \<not> bookkeeping ?gid p \<Longrightarrow> ow_files w1 p = ow_files w p"
    using ota_apply_thread_ready [OF assms(1) refl, where want = want] by blast
  have "plain_id ?gid"
    using assms(1) by (simp add: staging_ready_def)
  note start = start_cb_frame [OF this assms(2), of "oi_start io"]
  have "ow_files (ota_apply_thread io j want w) p =
      (if p \<in> staged_path ?gid ` set names then None else ow_files w1 p)"
    using start [of "ota_report ?gid ''restart'' 50 ''Guest stopped, starting now'' w1"] unfolding w1(1) Let_def
    by (auto simp: files_removed post_def ota_report_def split: prod.splits)
  moreover have "ow_files w1 p = (case find (\<lambda>n. p = guest_path ?gid n) names of
       Some n \<Rightarrow> ow_files w (staged_path ?gid n) | None \<Rightarrow> ow_files w p)"
    using w1(2,3) assms(2)
    by (auto simp: find_None_iff find_Some_iff split: option.splits dest: nth_mem)
  moreover have "p \<notin> staged_path ?gid ` set names" if "find (\<lambda>n. p = guest_path ?gid n) names = Some n" for n
    using that by (auto simp: find_Some_iff)
  ultimately show ?thesis
    by (auto split: option.splits)
qed


text \<open>An apply without restart stops the guest. With \<open>--no-restart\<close> and no image among the
  staged files, a running guest is killed, nothing is launched and the guest is left stopped,
  while the log says "guest left running" and the result says success.\<close>

theorem no_restart_leaves_stopped:
  assumes "staging_ready io (oj_guest j) names (ow_files w)" "\<not> list_ex is_image_file names"
    "find_guest (ow_guests w) (oj_guest j) = Some g" "g_state g = GUEST_RUNNING" "0 < g_pid g" "ki_kill_ok (oi_kill io)"
  shows "let w' = ota_apply_thread io j False w in
    map_option g_state (find_guest (ow_guests w') (oj_guest j)) = Some GUEST_STOPPED \<and>
    ow_killed w' = ow_killed w @ [g_pid g] \<and> ow_launched w' = ow_launched w \<and>
    (oj_guest j, OtaProgress ''restart'' 100 ''Files replaced (guest left running)'') \<in> set (ow_log w') \<and>
    snd (last (ow_log w')) = OtaResult True (dec (length names) @ '' file(s) applied (no restart)'')"
proof -
  let ?gid = "oj_guest j"
  obtain w1 where w1: "ota_apply_thread io j False w =
      (let restart = False \<or> list_ex is_image_file names;
           w2 = (if restart
                 then case ota_start_cb (oi_start io) ?gid (ota_report ?gid ''restart'' 50 ''Guest stopped, starting now'' w1) of
                        (rc, w) \<Rightarrow> ota_report ?gid ''restart'' 100 (if rc = 0 then ''Guest restarted'' else ''Guest restart failed'') w
                 else ota_report ?gid ''restart'' 100 ''Files replaced (guest left running)'' w1)
       in post ?gid (OtaResult True (dec (length names) @ '' file(s) applied'' @
            (if restart then '' and guest restarted'' else '' (no restart)'')))
            (fold (\<lambda>n. remove_file (staged_path ?gid n)) names w2))"
    "life w1 = life (snd (ota_kill_cb (oi_kill io) ?gid (ota_report ?gid ''restart'' 0 ''Stopping guest before applying changes'' w)))"
    using ota_apply_thread_ready [OF assms(1) refl, where want = False] by blast
  define w2 where "w2 = fold (\<lambda>n. remove_file (staged_path ?gid n)) names
      (ota_report ?gid ''restart'' 100 ''Files replaced (guest left running)'' w1)"
  have w': "ota_apply_thread io j False w = post ?gid (OtaResult True (dec (length names) @ '' file(s) applied (no restart)'')) w2"
    using w1(1) assms(2) by (simp add: w2_def Let_def)
  have "ow_log (fold (\<lambda>n. remove_file (h n)) ns u) = ow_log u" for h :: "string \<Rightarrow> string" and ns u
    by (induction ns arbitrary: u) (simp_all add: remove_file_def)
  then have log: "ow_log w2 = ow_log w1 @ [(?gid, OtaProgress ''restart'' 100 ''Files replaced (guest left running)'')]"
    by (simp add: w2_def ota_report_def post_def)
  have found: "map_option g_state (find_guest (update_guest (\<lambda>g. g\<lparr>g_state := GUEST_STOPPED, g_pid := 0\<rparr>) ?gid gs) ?gid) = Some GUEST_STOPPED"
    if "find_guest gs ?gid = Some g" for gs
    using that by (induction gs) (auto simp: find_guest_def split: if_splits)
  have "life w2 = life w1"
    by (simp add: w2_def)
  then have life: "life w2 = (update_guest (\<lambda>g. g\<lparr>g_state := GUEST_STOPPED, g_pid := 0\<rparr>) ?gid (ow_guests w),
      ow_killed w @ [g_pid g], ow_launched w)"
    using w1(2) assms(3-6) by (simp add: ota_kill_cb_def guest_kill_def Let_def life_def ota_report_def post_def)
  show ?thesis
    unfolding w' Let_def using life found [OF assms(3)] log by (simp add: life_def post_def)
qed

lemma cmds_simps [simp]:
  "ow_cmds (ota_report gid s pc m w) = ow_cmds w" "ow_cmds (post gid msg w) = ow_cmds w"
  "ow_cmds (snd (ota_kill_cb k gid w)) = ow_cmds w"
  by (simp_all add: ota_report_def post_def ota_kill_cb_def split: option.splits prod.splits)

lemma cmds_start_cb: "ota_start_cb s gid w = (rc, w') \<Longrightarrow> ow_cmds w' = ow_cmds w"
  by (auto simp: ota_start_cb_def split: option.splits prod.splits)

lemma cmds_download: "ota_download io j p f sz w = (ok, w') \<Longrightarrow> ow_cmds w' = ow_cmds w"
  by (auto simp: ota_download_def post_all_def run_scp_def Let_def split: option.splits)

lemma cmds_run_cmd: "run_cmd io line w = (rc, w') \<Longrightarrow> ow_cmds w' = ow_cmds w @ [bounded_copy 8192 line]"
  by (auto simp: run_cmd_def Let_def split: option.splits)

lemma cmds_mkdirs: "ow_cmds (mkdirs io p w) = ow_cmds w @ [bounded_copy 8192 (bounded_copy 3200 (''mkdir -p '' @ p))]"
  unfolding mkdirs_def by (cases "run_cmd io (bounded_copy 3200 (''mkdir -p '' @ p)) w") (simp add: cmds_run_cmd)

text \<open>The only commands an update from an archive gives to the shell.\<close>

definition archive_commands :: "string \<Rightarrow> string \<Rightarrow> string list" where
  "archive_commands gid pkg =
     (let stage = bounded_copy 1356 (''/tmp/ota/'' @ gid @ ''/stage'')
      in [bounded_copy 8192 (bounded_copy 3200 (''mkdir -p '' @ stage)),
          bounded_copy 8192 (''tar -'' @ (if strstr pkg ''.tar'' \<and> \<not> strstr pkg ''.gz'' then ''xf'' else ''xzf'') @
            '' -C '' @ stage @ '' -f '' @ pkg)])"

lemma ota_apply_archive_cmds:
  assumes "is_archive pkg"
  shows "ow_cmds (snd (ota_apply io j pkg d w)) = ow_cmds w @ archive_commands (oj_guest j) pkg"
proof -
  let ?stage = "bounded_copy 1356 (''/tmp/ota/'' @ oj_guest j @ ''/stage'')"
  let ?line = "''tar -'' @ (if strstr pkg ''.tar'' \<and> \<not> strstr pkg ''.gz'' then ''xf'' else ''xzf'') @ '' -C '' @ ?stage @ '' -f '' @ pkg"
  let ?v = "ota_report (oj_guest j) ''extract'' 0 ''Extracting package'' (mkdirs io ?stage w)"
  obtain rc u where u: "run_cmd io ?line ?v = (rc, u)"
    by (meson surj_pair)
  have "ow_cmds u = ow_cmds w @ archive_commands (oj_guest j) pkg"
    using cmds_run_cmd [OF u] by (simp add: cmds_mkdirs archive_commands_def Let_def del: append.simps)
  then show ?thesis
    using assms u by (simp add: ota_apply_def Let_def del: append.simps)
qed

text \<open>An archive is never installed. The only commands an update from an archive gives to the shell
  make the staging directory and unpack the archive into it; none touches the guest's directory.\<close>

theorem archive_never_installed:
  assumes "pkg = bounded_copy 1356 (''/tmp/ota/'' @ oj_guest j @ ''/package/'' @ basename remote_path)" "is_archive pkg"
  shows "ow_cmds (ota_thread io j remote_path w) \<in> {ow_cmds w, ow_cmds w @ archive_commands (oj_guest j) pkg}"
proof -
  let ?gid = "oj_guest j"
  define v where "v = ota_report ?gid ''download'' 0 ''Starting pull from server'' w"
  obtain ok w1 where w1: "ota_download io j remote_path pkg (remote_size io (oj_server j) (oj_key j) remote_path) v = (ok, w1)"
    by (meson surj_pair)
  have c1: "ow_cmds w1 = ow_cmds w"
    using cmds_download [OF w1] by (simp add: v_def)
  define u where "u = snd (ota_kill_cb (oi_kill io) ?gid (ota_report ?gid ''prep'' 0 ''Stopping guest before applying update''
      (ota_report ?gid ''download'' 100 ''Package pulled'' w1)))"
  obtain r w2 where w2: "ota_apply io j pkg (guest_dir_of ?gid) u = (r, w2)"
    by (meson surj_pair)
  have c2: "ow_cmds w2 = ow_cmds w @ archive_commands ?gid pkg"
    using ota_apply_archive_cmds [OF assms(2), of io j "guest_dir_of ?gid" u] w2 c1 by (simp add: u_def)
  define x where "x = ota_report ?gid ''restart'' 0 ''Restarting guest'' (ota_report ?gid ''apply'' 100 ''Update applied'' w2)"
  obtain rc w3 where w3: "ota_start_cb (oi_start io) ?gid x = (rc, w3)"
    by (meson surj_pair)
  have "ow_cmds w3 = ow_cmds w2"
    using cmds_start_cb [OF w3] by (simp add: x_def)
  then show ?thesis
    using w1 w2 w3 c1 c2 unfolding ota_thread_def Let_def assms(1) [symmetric] v_def [symmetric]
    by (cases r) (simp add: u_def [symmetric] x_def [symmetric] del: append.simps)
qed

section \<open>Concrete runs\<close>

definition demo_cp :: string where
  "demo_cp = cp_line (staged_path ''guest-a'' ''a.cfg'') (guest_path ''guest-a'' ''a.cfg'') @ ''; echo $? > ''"

definition demo_shell :: "string \<Rightarrow> files \<Rightarrow> files option" where
  "demo_shell cmd fs =
     (if prefix demo_cp cmd
      then Some (fs(guest_path ''guest-a'' ''a.cfg'' := fs (staged_path ''guest-a'' ''a.cfg''),
                    drop (length demo_cp) cmd \<mapsto> ''0'' @ [NEWLINE]))
      else None)"

definition demo_io :: ota_io where
  "demo_io = \<lparr>oi_pid = 1, oi_shell = demo_shell, oi_print = Map.empty, oi_scp = (\<lambda>_ _. \<lparr>sr_polls = [], sr_written = None\<rparr>),
     oi_dirs = [stage_dir_of ''guest-a'' \<mapsto> [''.'', ''a.cfg'']], oi_isdir = (\<lambda>_. False),
     oi_kill = \<lparr>ki_kill_ok = True, ki_meta_fopen_ok = True, ki_meta_rename_ok = True\<rparr>,
     oi_start = \<lparr>si_fork = Some 9, si_meta_fopen_ok = True, si_meta_rename_ok = True, si_alive = True\<rparr>,
     oi_push = \<lparr>sc_sshpass = False, sc_popen_ok = True, sc_output = [], sc_check = demo_exec\<rparr>, oi_extract = demo_exec\<rparr>"

definition demo_job :: ota_job where
  "demo_job = \<lparr>oj_guest = ''guest-a'', oj_server = ''u@h'', oj_key = ''/k''\<rparr>"

definition demo_world :: ota_world where
  "demo_world = \<lparr>ow_guests = [demo_guest], ow_files = [staged_path ''guest-a'' ''a.cfg'' \<mapsto> ''new''], ow_log = [], ow_cmds = [],
     ow_seq = 0, ow_killed = [], ow_launched = []\<rparr>"

lemma demo_copies: "copies demo_shell (staged_path ''guest-a'' ''a.cfg'') (guest_path ''guest-a'' ''a.cfg'')"
  unfolding copies_def demo_cp_def [symmetric] append_assoc [symmetric]
  by (simp add: demo_shell_def demo_cp_def append_assoc [symmetric] append_Nil del: append_assoc append_Cons)

lemma demo_ready: "staging_ready demo_io (oj_guest demo_job) [''a.cfg''] (ow_files demo_world)"
  using demo_copies
  by (simp add: staging_ready_def demo_io_def demo_job_def demo_world_def plain_id_def plain_name_def is_control_file_def)

theorem staged_apply_installs_witness:
  "ow_files (ota_apply_thread demo_io demo_job True demo_world) (guest_path ''guest-a'' ''a.cfg'') = Some ''new''"
proof -
  have "\<not> bookkeeping (oj_guest demo_job) (guest_path ''guest-a'' ''a.cfg'')"
    by (simp add: bookkeeping_def demo_job_def)
  from staged_apply_installs [OF demo_ready this, of True] show ?thesis
    by (simp add: demo_job_def) (simp add: demo_world_def)
qed

theorem no_restart_leaves_stopped_witness:
  "map_option g_state (find_guest (ow_guests (ota_apply_thread demo_io demo_job False demo_world)) ''guest-a'') = Some GUEST_STOPPED \<and>
   ow_launched (ota_apply_thread demo_io demo_job False demo_world) = []"
proof -
  have "\<not> list_ex is_image_file [''a.cfg'']"
    by (simp add: is_image_file_def strstr.simps)
  moreover have "find_guest (ow_guests demo_world) (oj_guest demo_job) = Some demo_guest"
    by (simp add: find_guest_def demo_world_def demo_job_def demo_guest_def)
  moreover have "g_state demo_guest = GUEST_RUNNING" "0 < g_pid demo_guest" "ki_kill_ok (oi_kill demo_io)"
    by (simp_all add: demo_guest_def demo_io_def)
  ultimately show ?thesis
    using no_restart_leaves_stopped [OF demo_ready, of demo_guest] by (simp add: Let_def demo_job_def) (simp add: demo_world_def)
qed

theorem archive_never_installed_witness:
  "ow_cmds (ota_thread demo_io demo_job ''/up/p.tar'' demo_world) \<in>
     {[], archive_commands ''guest-a'' ''/tmp/ota/guest-a/package/p.tar''}"
proof -
  have p: "''/tmp/ota/guest-a/package/p.tar'' =
      bounded_copy 1356 (''/tmp/ota/'' @ oj_guest demo_job @ ''/package/'' @ basename ''/up/p.tar'')"
    by (simp add: demo_job_def basename_def bounded_copy_id)
  have "is_archive ''/tmp/ota/guest-a/package/p.tar''"
    by (simp add: is_archive_def from_last_dot_def)
  from archive_never_installed [OF p this, of demo_io demo_world] show ?thesis
    by (simp add: demo_job_def) (simp add: demo_world_def)
qed

end
