(* ===== verification/HmsRuns.thy ===== *)
theory HmsRuns
  imports HmsMain HmsOtaJobs
begin

text \<open>
  Runs of the whole manager: commands, turns of the main loop, turns of the shells' readers and
  the over-the-air jobs in any order, over the invariant of main.c's state; and what single
  commands do.
\<close>

section \<open>Every command keeps the invariant\<close>

lemma bounded_copy_twice: "0 < n \<Longrightarrow> bounded_copy n (bounded_copy n s) = bounded_copy n s"
  using cstr_no_nul [of s] by (intro bounded_copy_id length_bounded_copy) (auto simp: bounded_copy_def dest: in_set_takeD)

lemma fetch_paths_short: "list_all (\<lambda>p. bounded_copy 1024 p = p) (fetch_paths ts)"
proof -
  have "bounded_copy 1024 ''(truncated)'' = ''(truncated)''"
    by (rule bounded_copy_id) simp_all
  then show ?thesis
    by (auto simp: fetch_paths_def list_all_iff bounded_copy_twice)
qed

text \<open>Structural rules for \<open>pred_option\<close>, one per construct of the command dispatch.\<close>

lemma pred_option_if: "pred_option P a \<Longrightarrow> pred_option P b \<Longrightarrow> pred_option P (if c then a else b)"
  by simp

lemma pred_option_case: "pred_option P a \<Longrightarrow> (\<And>x. pred_option P (f x)) \<Longrightarrow> pred_option P (case w of None \<Rightarrow> a | Some x \<Rightarrow> f x)"
  by (simp split: option.split)

lemma pred_option_Some: "P x \<Longrightarrow> pred_option P (Some x)"
  by simp

lemma pred_optionI: "(\<And>x. v = Some x \<Longrightarrow> P x) \<Longrightarrow> pred_option P v"
  by (cases v) simp_all

lemma commands_inv:
  assumes "hms_inv s"
  shows "pred_option hms_inv (cmd_list io s)" "pred_option hms_inv (cmd_start io gid ip s)"
    "pred_option hms_inv (cmd_kill io gid s)" "pred_option hms_inv (cmd_info io gid s)"
    "pred_option hms_inv (cmd_exec io gid line s)" "pred_option hms_inv (cmd_stats io gid s)"
    "pred_option hms_inv (cmd_files io gid s)" "pred_option hms_inv (cmd_fetch io gid (fetch_paths ts) s)"
    "pred_option hms_inv (cmd_apply io gid b s)" "pred_option hms_inv (cmd_pushfiles io gid path s)"
    "pred_option hms_inv (cmd_addfile io gid path s)" "pred_option hms_inv (cmd_shellwrite io gid data s)"
    "hms_inv (cmd_ota io gid path s)" "hms_inv (cmd_addguest io gid a1 a2 a3 s)" "hms_inv (cmd_shellclose gid s)"
    "pred_option hms_inv (usage action form s)"
  using assms
  by (auto simp: usage_def intro!: pred_optionI intro: cmd_list_inv cmd_start_inv cmd_kill_inv cmd_info_inv cmd_exec_inv cmd_stats_inv
      cmd_ota_inv cmd_files_inv cmd_fetch_inv [OF _ _ fetch_paths_short] cmd_jobs_inv cmd_addguest_inv
      cmd_shellwrite_inv cmd_shellclose_inv)

lemma hms_command_inv:
  assumes inv: "hms_inv s" and io: "io_ok (hi_open io) (hs_shells s)"
  shows "pred_option hms_inv (handle_command io cmd s)"
proof (cases "strtok (bounded_copy 2048 cmd)")
  case None
  then show ?thesis
    using inv by (simp add: handle_command_def)
next
  case (Some ar)
  obtain action rest where ar: "ar = (action, rest)"
    by (cases ar)
  obtain w1 r1 where 1: "next_word rest = (w1, r1)" by (meson surj_pair)
  obtain w2 r2 where 2: "next_word r1 = (w2, r2)" by (meson surj_pair)
  obtain w3 r3 where 3: "next_word r2 = (w3, r3)" by (meson surj_pair)
  obtain w4 r4 where 4: "next_word r3 = (w4, r4)" by (meson surj_pair)
  have open_ok: "pred_option hms_inv (cmd_shellopen io gid s)" for gid
    using cmd_shellopen_inv [OF inv _ io] by (auto intro: pred_optionI)
  have published: "hms_inv (publish_result c g ok msg s)" "hms_inv (publish_status m s)" for c g ok msg m
    using inv by simp_all
  show ?thesis
    unfolding handle_command_def Some ar option.case prod.case Let_def 1 2 3 4
    by (intro pred_option_if pred_option_case pred_option_Some commands_inv [OF inv] open_ok published)
qed


section \<open>Jobs keep the guests\<close>

lemma guests_same [simp]:
  "ow_guests (ota_report gid s pc m w) = ow_guests w" "ow_guests (post gid msg w) = ow_guests w"
  "ow_guests (post_all gid ms w) = ow_guests w" "ow_guests (remove_file f w) = ow_guests w"
  "ow_guests (run_scp run f w) = ow_guests w" "ow_guests (fold (\<lambda>n. remove_file (h n)) names w) = ow_guests w"
proof -
  show "ow_guests (fold (\<lambda>n. remove_file (h n)) names w) = ow_guests w"
    by (induction names arbitrary: w) (simp_all add: remove_file_def)
qed (simp_all add: ota_report_def post_def post_all_def remove_file_def run_scp_def split: option.splits)

lemma guests_run_cmd: "run_cmd io line w = (rc, w') \<Longrightarrow> ow_guests w' = ow_guests w"
  by (auto simp: run_cmd_def Let_def split: option.splits)

lemma guests_mkdirs [simp]: "ow_guests (mkdirs io p w) = ow_guests w"
  unfolding mkdirs_def by (cases "run_cmd io (bounded_copy 3200 (''mkdir -p '' @ p)) w") (simp add: guests_run_cmd)

lemma guests_download: "ota_download io j p f sz w = (ok, w') \<Longrightarrow> ow_guests w' = ow_guests w"
  by (auto simp: ota_download_def Let_def)

lemma guests_pull_file: "pull_file io j at p f sz stage i n w = (ok, w') \<Longrightarrow> ow_guests w' = ow_guests w"
  by (auto simp: pull_file_def Let_def)

lemma guests_pull_attempts: "pull_attempts io j as retry p f sz stage i n w = (ok, w') \<Longrightarrow> ow_guests w' = ow_guests w"
proof (induction as arbitrary: w)
  case Nil
  then show ?case by (simp add: pull_attempts.simps)
next
  case (Cons k as)
  then show ?case
    by (auto simp: pull_attempts.simps Let_def dest!: guests_pull_file split: prod.splits if_splits)
qed

declare pull_attempts.simps [simp del]

lemma guests_fetch_files: "fetch_files io j d i n ps w = (ok, w') \<Longrightarrow> ow_guests w' = ow_guests w"
proof (induction ps arbitrary: i w)
  case Nil
  then show ?case by simp
next
  case (Cons p ps)
  then show ?case
    by (auto simp: Let_def dest!: guests_pull_attempts split: prod.splits if_splits)
qed

lemma guests_ota_apply: "ota_apply io j pkg d w = (r, w') \<Longrightarrow> ow_guests w' = ow_guests w"
  by (auto simp: ota_apply_def Let_def dest!: guests_run_cmd split: prod.splits if_splits)

lemma guests_place_files: "place_files io gid sd dd i n names w = (ok, w') \<Longrightarrow> ow_guests w' = ow_guests w"
proof (induction names arbitrary: i w)
  case Nil
  then show ?case by simp
next
  case (Cons name names)
  then show ?case
    by (auto simp: Let_def dest!: guests_run_cmd split: prod.splits if_splits)
qed

text \<open>Well-formed guests, as many as before.\<close>

definition guests_ok :: "nat \<Rightarrow> ota_world \<Rightarrow> bool" where
  "guests_ok n w \<longleftrightarrow> length (ow_guests w) = n \<and> list_all guest_wf (ow_guests w)"

lemma update_guest_ok:
  "(\<And>g. guest_wf g \<Longrightarrow> guest_wf (f g)) \<Longrightarrow> list_all guest_wf gs \<Longrightarrow>
     list_all guest_wf (update_guest f gid gs) \<and> length (update_guest f gid gs) = length gs"
  by (induction gs) auto

lemma state_wf: "guest_wf g \<Longrightarrow> guest_wf (g\<lparr>g_state := s, g_pid := 0\<rparr>)"
  by (simp add: guest_wf_def guest_ok_def)

lemma guests_kill_cb: "guests_ok n w \<Longrightarrow> guests_ok n (snd (ota_kill_cb k gid w))"
  using update_guest_ok [OF state_wf]
  by (auto simp: ota_kill_cb_def guests_ok_def split: option.splits prod.splits)

lemma guests_start_cb: "guests_ok n w \<Longrightarrow> ota_start_cb s gid w = (rc, w') \<Longrightarrow> guests_ok n w'"
  using update_guest_ok [OF state_wf]
  by (auto simp: ota_start_cb_def guests_ok_def split: option.splits prod.splits)

lemma guests_ok_cong: "ow_guests w' = ow_guests w \<Longrightarrow> guests_ok n w \<Longrightarrow> guests_ok n w'"
  by (simp add: guests_ok_def)

lemma guests_ok_same [simp]:
  "guests_ok n (ota_report gid st pc m u) = guests_ok n u" "guests_ok n (post gid msg u) = guests_ok n u"
  "guests_ok n (fold (\<lambda>n. remove_file (h n)) names u) = guests_ok n u"
  by (simp_all add: guests_ok_def)

lemma guests_ota_thread:
  assumes "guests_ok n w"
  shows "guests_ok n (ota_thread io j p w)"
proof -
  let ?gid = "oj_guest j"
  define pkg where "pkg = bounded_copy 1356 (''/tmp/ota/'' @ ?gid @ ''/package/'' @ basename p)"
  define v where "v = ota_report ?gid ''download'' 0 ''Starting pull from server'' w"
  obtain ok w1 where w1: "ota_download io j p pkg (remote_size io (oj_server j) (oj_key j) p) v = (ok, w1)"
    by (meson surj_pair)
  define u where "u = snd (ota_kill_cb (oi_kill io) ?gid (ota_report ?gid ''prep'' 0 ''Stopping guest before applying update''
      (ota_report ?gid ''download'' 100 ''Package pulled'' w1)))"
  obtain r w2 where w2: "ota_apply io j pkg (guest_dir_of ?gid) u = (r, w2)"
    by (meson surj_pair)
  define x where "x = ota_report ?gid ''restart'' 0 ''Restarting guest'' (ota_report ?gid ''apply'' 100 ''Update applied'' w2)"
  obtain rc w3 where w3: "ota_start_cb (oi_start io) ?gid x = (rc, w3)"
    by (meson surj_pair)
  have g1: "guests_ok n w1"
    using assms by (intro guests_ok_cong [OF guests_download [OF w1]]) (simp add: v_def)
  then have "guests_ok n u"
    by (simp add: u_def guests_kill_cb)
  then have g2: "guests_ok n w2"
    by (rule guests_ok_cong [OF guests_ota_apply [OF w2]])
  then have "guests_ok n w3"
    by (intro guests_start_cb [OF _ w3]) (simp add: x_def)
  then show ?thesis
    using w1 w2 w3 g1 g2 unfolding ota_thread_def Let_def pkg_def [symmetric] v_def [symmetric]
    by (cases r) (simp add: u_def [symmetric] x_def [symmetric] del: append.simps)
qed

lemma guests_apply_thread:
  assumes "guests_ok n w"
  shows "guests_ok n (ota_apply_thread io j want w)"
proof -
  let ?gid = "oj_guest j"
  define v where "v = snd (ota_kill_cb (oi_kill io) ?gid (ota_report ?gid ''restart'' 0 ''Stopping guest before applying changes'' w))"
  have v: "guests_ok n v"
    using assms by (simp add: v_def guests_kill_cb)
  have finished: "guests_ok n (case place_files io ?gid sd dd i k ns v of (ok, w) \<Rightarrow> if \<not> ok then w else f w)"
    if "\<And>u. guests_ok n u \<Longrightarrow> guests_ok n (f u)" for sd dd i k ns f
    using that v guests_ok_cong [OF guests_place_files] by (auto split: prod.split)
  have start: "guests_ok n (case ota_start_cb (oi_start io) ?gid u of (rc, w) \<Rightarrow> ota_report ?gid a b (c rc) w)"
    if "guests_ok n u" for u a b c
    using that guests_start_cb by (auto split: prod.split)
  show ?thesis
    unfolding ota_apply_thread_def Let_def v_def [symmetric]
    using assms by (auto intro!: finished start simp del: place_files.simps fold.simps split: option.splits sum.splits list.splits)
qed

lemma guests_other_threads:
  "ow_guests (ota_fetch_thread io j ps w) = ow_guests w"
  "ota_push_thread io j p g w = Some w' \<Longrightarrow> ow_guests w' = ow_guests w"
  "ow_guests (addfile_thread io j p w) = ow_guests w"
  "ow_guests (addguest_thread io b j a c ip w) = ow_guests w"
proof -
  show "ow_guests (ota_fetch_thread io j ps w) = ow_guests w"
    by (auto simp: ota_fetch_thread_def Let_def dest!: guests_fetch_files simp del: fetch_files.simps split: prod.splits)
  show "ota_push_thread io j p g w = Some w' \<Longrightarrow> ow_guests w' = ow_guests w"
    by (auto simp: ota_push_thread_def Let_def dest!: guests_pull_attempts split: prod.splits if_splits option.splits sum.splits)
  show "ow_guests (addfile_thread io j p w) = ow_guests w"
    by (auto simp: addfile_thread_def Let_def dest!: guests_pull_file guests_run_cmd split: prod.splits if_splits)
  show "ow_guests (addguest_thread io b j a c ip w) = ow_guests w"
    by (auto simp: addguest_thread_def Let_def dest!: guests_pull_file split: prod.splits if_splits)
qed

lemma run_job_guests_ok: "guests_ok n w \<Longrightarrow> run_job io b j r w = Some w' \<Longrightarrow> guests_ok n w'"
  using guests_ok_cong [OF guests_other_threads(1)] guests_ok_cong [OF guests_other_threads(2)]
    guests_ok_cong [OF guests_other_threads(3)] guests_ok_cong [OF guests_other_threads(4)]
  by (cases r) (auto simp: run_job_def guests_ota_thread guests_apply_thread)

section \<open>Runs of the manager\<close>

text \<open>What can happen: a command from the service, a turn of the main loop, a turn of a shell's
  reader or of the idle monitor, and the run of one of the jobs.\<close>

datatype hms_event =
    Command hms_io string
  | Turn hms_io bool
  | Shell shell_event
  | RunJob ota_io bool nat

definition job_world :: "hms \<Rightarrow> ota_world" where
  "job_world s = \<lparr>ow_guests = current_guests s, ow_files = hs_files s, ow_log = [], ow_cmds = [], ow_seq = 0,
     ow_killed = hs_killed s, ow_launched = hs_launched s\<rparr>"

definition finish_job :: "nat \<Rightarrow> ota_world \<Rightarrow> hms \<Rightarrow> hms" where
  "finish_job k w s =
     s\<lparr>hs_array := ow_guests w @ drop (hs_count s) (hs_array s), hs_files := ow_files w,
       hs_killed := ow_killed w, hs_launched := ow_launched w,
       hs_jobs := take k (hs_jobs s) @ drop (k + 1) (hs_jobs s),
       hs_shells := (hs_shells s)\<lparr>sh_mqtt := ota_publish w (sh_mqtt (hs_shells s))\<rparr>\<rparr>"

definition background :: "shell_event \<Rightarrow> bool" where
  "background e = (case e of ReaderData _ _ _ \<Rightarrow> True | ReaderEnd _ \<Rightarrow> True | ReaderFree _ \<Rightarrow> True | Monitor _ \<Rightarrow> True | _ \<Rightarrow> False)"

definition hms_step :: "hms_event \<Rightarrow> hms \<Rightarrow> hms option" where
  "hms_step e s =
     (case e of
        Command io cmd \<Rightarrow> if io_ok (hi_open io) (hs_shells s) then handle_command io cmd s else None
      | Turn io accepted \<Rightarrow> Some (hms_loop io accepted s)
      | Shell ev \<Rightarrow>
          (if background ev then map_option (\<lambda>sh. s\<lparr>hs_shells := sh\<rparr>) (possible_step ev (hs_shells s)) else None)
      | RunJob io meta_ok k \<Rightarrow>
          (if k < length (hs_jobs s)
           then (case hs_jobs s ! k of (j, r) \<Rightarrow>
                   map_option (\<lambda>w. finish_job k w s) (run_job io meta_ok j r (job_world s)))
           else None))"

lemma finish_job_inv:
  assumes "hms_inv s" "guests_ok (length (current_guests s)) w"
  shows "hms_inv (finish_job k w s)"
  using assms
  by (auto simp: hms_inv_def finish_job_def guests_ok_def current_guests_def list_all_iff dest: in_set_takeD in_set_dropD)

lemma hms_loop_inv: "hms_inv s \<Longrightarrow> hms_inv (hms_loop io a s)"
  unfolding hms_loop_def by (rule refresh_inv) (simp add: hms_inv_def)

lemma hms_step_inv: "hms_inv s \<Longrightarrow> hms_step e s = Some s' \<Longrightarrow> hms_inv s'"
proof (cases e)
  case (Command io cmd)
  assume "hms_inv s" "hms_step e s = Some s'"
  then show ?thesis
    using hms_command_inv [of s io cmd] Command by (simp add: hms_step_def split: if_splits)
next
  case (Turn io a)
  assume "hms_inv s" "hms_step e s = Some s'"
  then show ?thesis
    using Turn by (auto simp: hms_step_def hms_loop_inv)
next
  case (Shell ev)
  assume s: "hms_inv s" "hms_step e s = Some s'"
  then obtain sh where sh: "possible_step ev (hs_shells s) = Some sh" "s' = s\<lparr>hs_shells := sh\<rparr>"
    using Shell by (auto simp: hms_step_def split: if_splits)
  have "shells_inv sh"
    using shell_runs.step_inv [OF _ sh(1)] s(1) by (simp add: hms_inv_def)
  then show ?thesis
    using s(1) sh(2) by (simp add: shells_update_inv)
next
  case (RunJob io b k)
  assume s: "hms_inv s" "hms_step e s = Some s'"
  then obtain j r w where w: "run_job io b j r (job_world s) = Some w" "s' = finish_job k w s"
    using RunJob by (auto simp: hms_step_def split: if_splits prod.splits)
  have "guests_ok (length (current_guests s)) (job_world s)"
    using current_wf [OF s(1)] by (simp add: guests_ok_def job_world_def)
  then show ?thesis
    using run_job_guests_ok [OF _ w(1)] finish_job_inv [OF s(1)] w(2) by simp
qed

interpretation manager: step_invariant hms_step hms_inv
  by unfold_locales (rule hms_step_inv)

lemma hms_start_inv: "hms_start io conf n l c fs = Some s \<Longrightarrow> hms_inv s"
proof -
  let ?s = "\<lparr>hs_array = [], hs_count = 0, hs_cache = replicate 16 ([], []), hs_cfg = config_load conf, hs_files = fs,
      hs_jobs = [], hs_shells = shells_start (snd (hms_mqtt_init n)), hs_killed = [], hs_launched = []\<rparr>"
  have "hms_inv ?s"
    by (simp add: hms_inv_def shells_start_inv)
  then have "hms_inv (refresh io ?s)"
    by (rule refresh_inv)
  then show "hms_start io conf n l c fs = Some s \<Longrightarrow> ?thesis"
    by (auto simp: hms_start_def Let_def shells_start_inv intro: shells_update_inv split: if_splits)
qed

section \<open>Properties\<close>

text \<open>C28. The guest list is never cut. After any run of the manager (commands, loop turns, shell readers
  and jobs in any order, from any file system and configuration) the message that lists the
  guests fits its buffer whole: head, one entry per guest, tail.\<close>

theorem manager_list_whole:
  assumes "hms_start io conf new_ok loop_ok connect_ok fs = Some s0" "run_steps hms_step es s0 = Some s"
  shows "guest_list_text (current_guests s) = Some (guest_list_head @ guest_list_entries True (current_guests s) @ '']}'')"
  using manager.run_inv [OF hms_start_inv [OF assms(1)] assms(2)] current_wf guest_list_text_whole by blast


definition idle_io :: hms_io where
  "idle_io = \<lparr>hi_dirs = [''/guests'' \<mapsto> [''guest-a''], ''/guests/guest-a'' \<mapsto> []], hi_procs = (\<lambda>_. None), hi_now = 0, hi_names = (\<lambda>_. None),
     hi_meta_fopen_ok = True, hi_meta_rename_ok = True, hi_start = oi_start demo_io, hi_kill = oi_kill demo_io,
     hi_exec = demo_exec, hi_local = Some ''up'', hi_ok = True, hi_open = sample_open, hi_writes = [], hi_errno = []\<rparr>"

lemma idle_start: "\<exists>s0. hms_start idle_io None True True True Map.empty = Some s0"
  by (simp add: hms_start_def Let_def)

lemma idle_io_ok: "io_ok (hi_open idle_io) (shells_start m)"
  by (simp add: io_ok_def idle_io_def sample_open_def shells_start_def)

section \<open>Fetch commands\<close>

definition word_ok :: "string \<Rightarrow> bool" where
  "word_ok w \<longleftrightarrow> w \<noteq> [] \<and> CHR '' '' \<notin> set w \<and> NUL \<notin> set w"

definition args :: "string list \<Rightarrow> string" where
  "args ws = concat (map (Cons (CHR '' '')) ws)"

lemma strtok_word:
  assumes "word_ok w"
  shows "strtok (w @ args ws) = Some (w, drop 1 (args ws))"
proof -
  have "dropWhile (\<lambda>c. c = CHR '' '') (w @ args ws) = w @ args ws"
    using assms by (cases w) (auto simp: word_ok_def)
  moreover have "takeWhile (\<lambda>c. c \<noteq> CHR '' '') (w @ args ws) = w" "dropWhile (\<lambda>c. c \<noteq> CHR '' '') (w @ args ws) = args ws"
    using assms by (cases ws; simp add: takeWhile_append dropWhile_append args_def word_ok_def; auto)+
  ultimately show ?thesis
    using assms by (auto simp: strtok_def Let_def word_ok_def)
qed

lemma words_args: "word_ok w \<Longrightarrow> list_all word_ok ws \<Longrightarrow> words (w @ args ws) = w # ws"
proof (induction ws arbitrary: w)
  case Nil
  have "strtok [] = None"
    by (simp add: strtok_def)
  then show ?case
    using strtok_word [OF Nil(1), of "[]"] by (subst words.simps) (simp add: args_def words.simps)
next
  case (Cons v ws)
  have "drop 1 (args (v # ws)) = v @ args ws"
    by (simp add: args_def)
  then show ?case
    using Cons strtok_word [OF Cons.prems(1), of "v # ws"] by (subst words.simps) simp
qed

text \<open>C30. A fetch command starts the job it names. For a known guest and one to 15 plain file names the command
  line is taken apart into exactly these names and one job is queued for them.\<close>

theorem fetch_command_parsed:
  assumes "list_all word_ok (gid # p # ps)" "length ps < 15" "length (args (gid # p # ps)) < 2000"
    "list_all (\<lambda>q. length q < 1024 \<and> \<not> is_control_file (basename q)) (p # ps)"
    "guest_index s gid \<noteq> None" "hi_ok io"
  shows "map_option hs_jobs (handle_command io (''fetch'' @ args (gid # p # ps)) s) =
    Some (hs_jobs s @ [(new_job (hs_cfg s) gid, ReqFetch (p # ps))])"
proof -
  have nul: "NUL \<notin> set (args ws)" if "list_all word_ok ws" for ws
    using that by (auto simp: args_def list_all_iff word_ok_def)
  have line: "bounded_copy 2048 (''fetch'' @ args (gid # p # ps)) = ''fetch'' @ args (gid # p # ps)"
    using nul [OF assms(1)] assms(3) by (intro bounded_copy_id) simp_all
  have drops: "drop (Suc 0) (args (v # ws)) = v @ args ws" for v ws
    by (simp add: args_def)
  have tok0: "strtok (''fetch'' @ args (gid # p # ps)) = Some (''fetch'', gid @ args (p # ps))"
    using strtok_word [of "''fetch''" "gid # p # ps"] by (simp add: word_ok_def drops del: append.simps)
  have tok1: "next_word (gid @ args (p # ps)) = (Some gid, p @ args ps)"
    using strtok_word [of gid "p # ps"] assms(1) by (simp add: next_word_def drops)
  have ws: "words (p @ args ps) = p # ps"
    using assms(1) by (simp add: words_args)
  have short: "bounded_copy 1024 q = q" if "q \<in> set (p # ps)" for q
    using that assms(1,4) by (intro bounded_copy_id) (auto simp: list_all_iff word_ok_def)
  have paths: "fetch_paths (p # ps) = p # ps"
    using assms(2) short by (simp add: fetch_paths_def map_idI)
  have control: "find runtime_file (map basename (p # ps)) = None"
    using assms(4) by (auto simp: find_None_iff list_all_iff runtime_file_def is_control_file_def)
  obtain i where i: "guest_index s gid = Some i"
    using assms(5) by blast
  have start: "ota_fetch_start (hi_ok io) (hs_cfg s) gid (p # ps) = Some (new_job (hs_cfg s) gid, ReqFetch (p # ps))"
    using assms(2,6) short by (simp add: ota_fetch_start_def map_idI)
  have "map_option hs_jobs (cmd_fetch io gid (p # ps) s) = Some (hs_jobs s @ [(new_job (hs_cfg s) gid, ReqFetch (p # ps))])"
    unfolding cmd_fetch_def with_guest_def i option.case control start
    by (simp add: start_job_def publish_result_def publish_status_def)
  moreover have "handle_command io (''fetch'' @ args (gid # p # ps)) s = cmd_fetch io gid (p # ps) s"
    unfolding handle_command_def line tok0 option.case prod.case Let_def tok1 using ws paths
    by (simp split: prod.split)
  ultimately show ?thesis
    by simp
qed


definition one_guest :: hms where
  "one_guest = \<lparr>hs_array = [demo_guest], hs_count = 1, hs_cache = [], hs_cfg = hms_config_defaults, hs_files = Map.empty,
     hs_jobs = [], hs_shells = shells_start (snd (hms_mqtt_init True)), hs_killed = [], hs_launched = []\<rparr>"

lemma one_guest_index: "guest_index one_guest ''guest-a'' = Some 0"
  by (simp add: guest_index_def current_guests_def one_guest_def demo_guest_def)

theorem fetch_command_parsed_witness:
  "map_option hs_jobs (handle_command idle_io ''fetch guest-a /up/a.cfg /up/boot.img'' one_guest) =
    Some [(new_job hms_config_defaults ''guest-a'', ReqFetch [''/up/a.cfg'', ''/up/boot.img''])]"
proof -
  have "list_all word_ok [''guest-a'', ''/up/a.cfg'', ''/up/boot.img'']"
    by (simp add: word_ok_def)
  moreover have "list_all (\<lambda>q. length q < 1024 \<and> \<not> is_control_file (basename q)) [''/up/a.cfg'', ''/up/boot.img'']"
    by (simp add: is_control_file_def basename_def)
  moreover have "hi_ok idle_io"
    by (simp add: idle_io_def)
  ultimately have "map_option hs_jobs (handle_command idle_io (''fetch'' @ args [''guest-a'', ''/up/a.cfg'', ''/up/boot.img'']) one_guest) =
      Some (hs_jobs one_guest @ [(new_job (hs_cfg one_guest) ''guest-a'', ReqFetch [''/up/a.cfg'', ''/up/boot.img''])])"
    using one_guest_index by (intro fetch_command_parsed) (simp_all add: args_def)
  then show ?thesis
    by (simp add: args_def one_guest_def)
qed

lemma idle_run: "\<exists>s. run_steps hms_step [Turn idle_io True, Shell (Monitor 5)] s0 = Some s"
  by (simp add: hms_step_def background_def possible_step_def event_ok_def shell_step_def)

theorem manager_list_whole_witness:
  "\<exists>s0 s. hms_start idle_io None True True True Map.empty = Some s0 \<and>
     run_steps hms_step [Turn idle_io True, Shell (Monitor 5)] s0 = Some s \<and>
     guest_list_text (current_guests s) = Some (guest_list_head @ guest_list_entries True (current_guests s) @ '']}'')"
  using idle_start idle_run manager_list_whole by metis


section \<open>Undefined behaviour\<close>

text \<open>A command on a running guest that yields no output at all frees a string literal.\<close>

lemma silent_exec_undefined:
  assumes "guest_index s gid = Some i" "g_state (hs_array s ! i) = GUEST_RUNNING"
    "ssh_exec (hi_exec io) (hs_files s) (hs_array s ! i) line = Some None"
  shows "cmd_exec io gid line s = None"
  using assms by (simp add: cmd_exec_def with_guest_def)

lemma gf_add_all_pos:
  assumes "list_all (\<lambda>n. fs (bounded_copy 512 (dir @ ''/'' @ n)) \<noteq> None \<and> k \<le> length (escape_json 256 n)) names"
  shows "gf_add_all fs dir names (is_first, pos, buf) = Some (f', pos', buf') \<Longrightarrow> pos + (k + 47) * length names \<le> pos'"
  using assms
proof (induction names arbitrary: is_first pos buf)
  case Nil
  then show ?case by simp
next
  case (Cons n names)
  have "0 < length (dec m)" for m
    using dec_not_Nil [of m] by simp
  then have dec: "1 \<le> length (dec m)" for m
    by (simp add: Suc_le_eq)
  have img: "escape_json 64 ''img'' = ''img''"
    by (simp add: escape_json_def cstr_def escape_char_def)
  obtain content where content: "fs (bounded_copy 512 (dir @ ''/'' @ n)) = Some content" "k \<le> length (escape_json 256 n)"
    using Cons.prems(2) by auto
  let ?e = "(if is_first then [] else '','') @ ''{'' @ json_field ''name'' (dq (escape_json 256 n)) @ '','' @
      json_field ''kind'' (dq (escape_json 64 ''img'')) @ '','' @ json_field ''exists'' (json_bool True) @ '','' @
      json_field ''size'' (dec (length content)) @ ''}''"
  have len: "k + 47 \<le> length ?e"
    using content(2) dec [of "length content"] by (simp add: json_field_def dq_def json_bool_def img)
  have "gf_add fs dir False n ''img'' (is_first, pos, buf) =
      (if pos > 8192 then None else Some (False, pos + length ?e, take 8191 (buf @ ?e)))"
    using content(1) by (simp add: gf_add_def buf_printf_def Let_def)
  then have "gf_add_all fs dir names (False, pos + length ?e, take 8191 (buf @ ?e)) = Some (f', pos', buf')"
    using Cons.prems(1) by (simp split: if_splits)
  from Cons.IH [OF this] Cons.prems(2) len show ?case
    by simp
qed

text \<open>With enough image files in a guest's directory the listing writes beyond its buffer.\<close>

lemma files_listing_overflows:
  assumes "dir = bounded_copy 256 (''/guests/'' @ g_id g)" "ds dir = Some names"
    "boot = (case guest_boot_image fs (ds dir) (g_conf_path g) 256 of None \<Rightarrow> [] | Some b \<Rightarrow> b)"
    "list_all (\<lambda>n. other_image boot n \<and> fs (bounded_copy 512 (dir @ ''/'' @ n)) \<noteq> None \<and> k \<le> length (escape_json 256 n)) names"
    "8192 < (k + 47) * length names"
  shows "guest_files_text fs ds g = None"
proof -
  have all: "filter (other_image boot) names = names"
    using assms(4) by (simp add: list_all_iff)
  have files: "list_all (\<lambda>n. fs (bounded_copy 512 (dir @ ''/'' @ n)) \<noteq> None \<and> k \<le> length (escape_json 256 n)) names"
    using assms(4) by (simp add: list_all_iff)
  have end_None: "Option.bind (gf_add_all fs dir names st) (\<lambda>(_, b). buf_printf 8192 '']}'' b) = None" for st
  proof (cases "gf_add_all fs dir names st")
    case (Some r)
    obtain f' pos' buf' where r: "r = (f', pos', buf')"
      by (cases r)
    obtain is_first pos buf where st: "st = (is_first, pos, buf)"
      by (cases st)
    have "8192 < pos'"
      using gf_add_all_pos [OF files, of is_first pos buf f' pos' buf'] Some assms(5) by (simp add: r st)
    then show ?thesis
      using Some r by (simp add: buf_printf_def)
  qed simp
  show ?thesis
    unfolding guest_files_text_def Let_def assms(1) [symmetric] assms(3) [symmetric]
    by (simp add: assms(2) all end_None split: option.split)
qed

end
