(* ===== verification/GpioRegs.thy ===== *)
theory GpioRegs
  imports Prelude
begin

text \<open>
  What the parts of the GPIO resource manager (src/src/rpi-gpio/resmgr) share: the registers of the
  chip, the client identification and the PWM structure of rpi_gpio_priv.h, the constants of
  public/sys/rpi_gpio.h and the table of chip functions of rpi_gpio.h. The functions behind the
  table are in GpioBcm (Raspberry Pi 3 and 4) and GpioRp1 (Raspberry Pi 5).
\<close>

section \<open>The chip\<close>

text \<open>
  Register blocks, a 32-bit word at each index or byte offset: the GPIO block, the PWM block, the
  clock block and the interrupt controller of the RP1. \<open>hw_latch\<close> is the output latch behind the
  write-only set and clear registers of the BCM chips. \<open>hw_init_pwm_clk\<close> is the static variable
  \<open>init_pwm_clk\<close> of rp1_gpio.c.
\<close>

record hw =
  hw_regs :: "nat \<Rightarrow> u32"
  hw_latch :: "nat \<Rightarrow> u32"
  hw_pwm :: "nat \<Rightarrow> u32"
  hw_clk :: "nat \<Rightarrow> u32"
  hw_msix :: "nat \<Rightarrow> u32"
  hw_init_pwm_clk :: bool

definition bit_mask :: "nat \<Rightarrow> u32" where
  "bit_mask off = push_bit off 1"

section \<open>Clients\<close>

record client_info =
  ci_rcvid :: int
  ci_scoid :: int
  ci_coid :: int

definition client_info_match :: "client_info \<Rightarrow> client_info \<Rightarrow> bool" where
  "client_info_match a b \<longleftrightarrow> ci_scoid a = ci_scoid b \<and> ci_coid a = ci_coid b"

definition client_info_is_unused :: "client_info \<Rightarrow> bool" where
  "client_info_is_unused c \<longleftrightarrow> ci_rcvid c = 0 \<and> ci_scoid c = -1 \<and> ci_coid c = -1"

definition client_info_reset :: client_info where
  "client_info_reset = \<lparr>ci_rcvid = 0, ci_scoid = -1, ci_coid = -1\<rparr>"

lemma unused_reset [simp]: "client_info_is_unused client_info_reset"
  by (simp add: client_info_is_unused_def client_info_reset_def)

lemma client_info_match_refl [simp]: "client_info_match c c"
  by (simp add: client_info_match_def)

section \<open>Constants and errors\<close>

abbreviation (input) RPI_GPIO_NUM :: nat where "RPI_GPIO_NUM \<equiv> 28"

abbreviation (input) RPI_GPIO_FUNC_IN :: u32 where "RPI_GPIO_FUNC_IN \<equiv> 0"
abbreviation (input) RPI_GPIO_FUNC_OUT :: u32 where "RPI_GPIO_FUNC_OUT \<equiv> 1"
abbreviation (input) RPI_GPIO_FUNC_ALT_0 :: u32 where "RPI_GPIO_FUNC_ALT_0 \<equiv> 4"
abbreviation (input) RPI_GPIO_FUNC_ALT_1 :: u32 where "RPI_GPIO_FUNC_ALT_1 \<equiv> 5"
abbreviation (input) RPI_GPIO_FUNC_ALT_2 :: u32 where "RPI_GPIO_FUNC_ALT_2 \<equiv> 6"
abbreviation (input) RPI_GPIO_FUNC_ALT_3 :: u32 where "RPI_GPIO_FUNC_ALT_3 \<equiv> 7"
abbreviation (input) RPI_GPIO_FUNC_ALT_4 :: u32 where "RPI_GPIO_FUNC_ALT_4 \<equiv> 3"
abbreviation (input) RPI_GPIO_FUNC_ALT_5 :: u32 where "RPI_GPIO_FUNC_ALT_5 \<equiv> 2"
abbreviation (input) RPI_GPIO_FUNC_ALT_6 :: u32 where "RPI_GPIO_FUNC_ALT_6 \<equiv> 8"
abbreviation (input) RPI_GPIO_FUNC_ALT_7 :: u32 where "RPI_GPIO_FUNC_ALT_7 \<equiv> 9"
abbreviation (input) RPI_GPIO_FUNC_ALT_8 :: u32 where "RPI_GPIO_FUNC_ALT_8 \<equiv> 10"
abbreviation (input) RPI_GPIO_FUNC_NULL :: u32 where "RPI_GPIO_FUNC_NULL \<equiv> 0x1f"

abbreviation (input) RPI_GPIO_PUD_OFF :: u32 where "RPI_GPIO_PUD_OFF \<equiv> 0"
abbreviation (input) RPI_GPIO_PUD_DOWN :: u32 where "RPI_GPIO_PUD_DOWN \<equiv> 1"
abbreviation (input) RPI_GPIO_PUD_UP :: u32 where "RPI_GPIO_PUD_UP \<equiv> 2"

abbreviation (input) RPI_EVENT_NONE :: u32 where "RPI_EVENT_NONE \<equiv> 0"
abbreviation (input) RPI_EVENT_EDGE_RISING :: u32 where "RPI_EVENT_EDGE_RISING \<equiv> 1"
abbreviation (input) RPI_EVENT_EDGE_FALLING :: u32 where "RPI_EVENT_EDGE_FALLING \<equiv> 2"
abbreviation (input) RPI_EVENT_LEVEL_HIGH :: u32 where "RPI_EVENT_LEVEL_HIGH \<equiv> 4"
abbreviation (input) RPI_EVENT_LEVEL_LOW :: u32 where "RPI_EVENT_LEVEL_LOW \<equiv> 8"

abbreviation (input) RPI_PWM_MODE_PWM :: u32 where "RPI_PWM_MODE_PWM \<equiv> 0"
abbreviation (input) RPI_PWM_MODE_MS :: u32 where "RPI_PWM_MODE_MS \<equiv> 1"

datatype errno = EINVAL | ERANGE | EBUSY | EAGAIN | ENXIO | EPERM | EBADMSG | ENOENT | EOVERFLOW | EIO

section \<open>PWM channels\<close>

text \<open>\<open>struct pwm\<close>: \<open>pw_channel\<close> is 0 for a software channel.\<close>

record pwm =
  pw_ci :: client_info
  pw_gpio :: nat
  pw_channel :: nat
  pw_func :: u32
  pw_frequency :: u32
  pw_range :: u32
  pw_duty :: u32
  pw_adj_range :: u32
  pw_adj_duty :: u32
  pw_mode :: u32
  pw_state :: bool
  pw_time_on :: u32
  pw_time_off :: u32
  pw_last_change :: u32

definition zero_pwm :: pwm where
  "zero_pwm = \<lparr>pw_ci = \<lparr>ci_rcvid = 0, ci_scoid = 0, ci_coid = 0\<rparr>, pw_gpio = 0, pw_channel = 0, pw_func = 0,
     pw_frequency = 0, pw_range = 0, pw_duty = 0, pw_adj_range = 0, pw_adj_duty = 0, pw_mode = 0,
     pw_state = False, pw_time_on = 0, pw_time_off = 0, pw_last_change = 0\<rparr>"

definition hard_pwm :: "nat \<Rightarrow> nat \<Rightarrow> u32 \<Rightarrow> pwm" where
  "hard_pwm gpio channel func = zero_pwm\<lparr>pw_gpio := gpio, pw_channel := channel, pw_func := func\<rparr>"

text \<open>The message \<open>rpi_gpio_pwm_t\<close>.\<close>

record pwm_msg =
  pm_gpio :: nat
  pm_frequency :: u32
  pm_range :: u32
  pm_mode :: u32

section \<open>The table of chip functions\<close>

datatype rpi_version = RPI_VER_UNKNOWN | RPI_VER_3 | RPI_VER_4 | RPI_VER_5

text \<open>
  \<open>gc_pwm_pins\<close> is what \<open>pwm_init\<close> enters into the map of PWM pins. \<open>gc_setup_pwm_hard\<close> returns
  None where the C code divides by zero, otherwise an error or None, the structure and the chip;
  \<open>gc_set_pwm_duty\<close> likewise.
\<close>

record gpio_config =
  gc_version :: rpi_version
  gc_max_funcs :: u32
  gc_set_select :: "nat \<Rightarrow> u32 \<Rightarrow> hw \<Rightarrow> hw"
  gc_get_select :: "nat \<Rightarrow> hw \<Rightarrow> u32"
  gc_set :: "nat \<Rightarrow> hw \<Rightarrow> hw"
  gc_clear :: "nat \<Rightarrow> hw \<Rightarrow> hw"
  gc_read :: "nat \<Rightarrow> hw \<Rightarrow> u32"
  gc_detect_rising_edge :: "nat \<Rightarrow> bool \<Rightarrow> hw \<Rightarrow> hw"
  gc_detect_falling_edge :: "nat \<Rightarrow> bool \<Rightarrow> hw \<Rightarrow> hw"
  gc_detect_level_high :: "nat \<Rightarrow> bool \<Rightarrow> hw \<Rightarrow> hw"
  gc_detect_level_low :: "nat \<Rightarrow> bool \<Rightarrow> hw \<Rightarrow> hw"
  gc_clear_detect :: "nat \<Rightarrow> hw \<Rightarrow> hw"
  gc_clear_all_events :: "hw \<Rightarrow> hw"
  gc_event_detected :: "nat \<Rightarrow> hw \<Rightarrow> bool"
  gc_set_pud :: "nat \<Rightarrow> u32 \<Rightarrow> hw \<Rightarrow> bool \<times> hw"
  gc_pwm_pins :: "(nat \<times> pwm) list"
  gc_setup_pwm_hard :: "pwm \<Rightarrow> pwm_msg \<Rightarrow> hw \<Rightarrow> (errno option \<times> pwm \<times> hw) option"
  gc_set_pwm_duty :: "pwm \<Rightarrow> u32 \<Rightarrow> hw \<Rightarrow> (pwm \<times> hw) option"

section \<open>Bits\<close>

unbundle bit_operations_syntax

lemma bit_bit_mask [simp]: "off < 32 \<Longrightarrow> bit (bit_mask off) n \<longleftrightarrow> n = off"
  by (auto simp: bit_mask_def bit_exp_iff)

lemma and_bit_mask [simp]: "off < 32 \<Longrightarrow> w AND bit_mask off = 0 \<longleftrightarrow> \<not> bit w off"
  unfolding bit_eq_iff [of "w AND bit_mask off"] by (auto simp: bit_and_iff)

lemma bit_7_int [simp]: "bit (7 :: int) n \<longleftrightarrow> n < 3"
proof -
  have "(7 :: int) = mask 3"
    by (simp add: mask_eq_exp_minus_1)
  show ?thesis
    unfolding \<open>7 = mask 3\<close> bit_mask_iff by auto
qed

lemma bit_small: "unat (v :: u32) < 2 ^ k \<Longrightarrow> k \<le> n \<Longrightarrow> \<not> bit v n"
proof
  assume v: "unat v < 2 ^ k" "k \<le> n" "bit v n"
  have "(2 :: nat) ^ k \<le> 2 ^ n"
    using v(2) by (rule power_increasing) simp
  then have "unat v div 2 ^ n = 0"
    by (intro div_less) (use v(1) in linarith)
  then have "\<not> bit (unat v) n"
    by (simp add: bit_iff_odd)
  then show False
    using v(3) by (simp add: bit_unsigned_iff)
qed

end
