(* ===== verification/GpioBcm.thy ===== *)
theory GpioBcm
  imports GpioRegs
begin

text \<open>
  src/src/rpi-gpio/resmgr/rpi2711_gpio.c: the chip functions of the Raspberry Pi 4 and 3. Registers
  are 32-bit words by index; a store acts as the chip's data sheet says: event status bits are
  cleared by writing one, the set and clear registers act on the output latch, every other register
  keeps what is written. Mapping the registers and the delays between two stores are not modelled.
\<close>

unbundle bit_operations_syntax

section \<open>Registers\<close>

abbreviation (input) RPI_GPIO_REG_GPSET0 :: nat where "RPI_GPIO_REG_GPSET0 \<equiv> 7"
abbreviation (input) RPI_GPIO_REG_GPCLR0 :: nat where "RPI_GPIO_REG_GPCLR0 \<equiv> 10"
abbreviation (input) RPI_GPIO_REG_GPLEV0 :: nat where "RPI_GPIO_REG_GPLEV0 \<equiv> 13"
abbreviation (input) RPI_GPIO_REG_GPEDS0 :: nat where "RPI_GPIO_REG_GPEDS0 \<equiv> 16"
abbreviation (input) RPI_GPIO_REG_GPEDS1 :: nat where "RPI_GPIO_REG_GPEDS1 \<equiv> 17"
abbreviation (input) RPI_GPIO_REG_GPREN0 :: nat where "RPI_GPIO_REG_GPREN0 \<equiv> 19"
abbreviation (input) RPI_GPIO_REG_GPFEN0 :: nat where "RPI_GPIO_REG_GPFEN0 \<equiv> 22"
abbreviation (input) RPI_GPIO_REG_GPHEN0 :: nat where "RPI_GPIO_REG_GPHEN0 \<equiv> 25"
abbreviation (input) RPI_GPIO_REG_GPLEN0 :: nat where "RPI_GPIO_REG_GPLEN0 \<equiv> 28"
abbreviation (input) RPI_GPIO_REG_GPPUD :: nat where "RPI_GPIO_REG_GPPUD \<equiv> 37"
abbreviation (input) RPI_GPIO_REG_GPPUDCLK1 :: nat where "RPI_GPIO_REG_GPPUDCLK1 \<equiv> 38"
abbreviation (input) RPI_GPIO_REG_GPPUD0 :: nat where "RPI_GPIO_REG_GPPUD0 \<equiv> 57"

definition store :: "nat \<Rightarrow> u32 \<Rightarrow> hw \<Rightarrow> hw" where
  "store r v h =
     (if r = 16 \<or> r = 17 then h\<lparr>hw_regs := (hw_regs h)(r := hw_regs h r AND NOT v)\<rparr>
      else if r = 7 \<or> r = 8 then h\<lparr>hw_latch := (hw_latch h)(r - 7 := hw_latch h (r - 7) OR v)\<rparr>
      else if r = 10 \<or> r = 11 then h\<lparr>hw_latch := (hw_latch h)(r - 10 := hw_latch h (r - 10) AND NOT v)\<rparr>
      else h\<lparr>hw_regs := (hw_regs h)(r := v)\<rparr>)"

section \<open>Pin functions\<close>

definition rpi2711_gpio_set_select :: "nat \<Rightarrow> u32 \<Rightarrow> hw \<Rightarrow> hw" where
  "rpi2711_gpio_set_select gpio v h =
     (let reg = gpio div 10; off = (gpio mod 10) * 3;
          val = hw_regs h reg;
          val = val AND NOT (push_bit off 7);
          val = val OR push_bit off v
      in store reg val h)"

definition rpi2711_gpio_get_select :: "nat \<Rightarrow> hw \<Rightarrow> u32" where
  "rpi2711_gpio_get_select gpio h =
     (let reg = gpio div 10; off = (gpio mod 10) * 3 in drop_bit off (hw_regs h reg) AND 7)"

definition rpi2711_gpio_set :: "nat \<Rightarrow> hw \<Rightarrow> hw" where
  "rpi2711_gpio_set gpio h = store (RPI_GPIO_REG_GPSET0 + gpio div 32) (bit_mask (gpio mod 32)) h"

definition rpi2711_gpio_clear :: "nat \<Rightarrow> hw \<Rightarrow> hw" where
  "rpi2711_gpio_clear gpio h = store (RPI_GPIO_REG_GPCLR0 + gpio div 32) (bit_mask (gpio mod 32)) h"

definition rpi2711_gpio_write :: "nat \<Rightarrow> u32 \<Rightarrow> hw \<Rightarrow> hw" where
  "rpi2711_gpio_write gpio v h = (if v \<noteq> 0 then rpi2711_gpio_set gpio h else rpi2711_gpio_clear gpio h)"

definition rpi2711_gpio_read :: "nat \<Rightarrow> hw \<Rightarrow> u32" where
  "rpi2711_gpio_read gpio h = drop_bit (gpio mod 32) (hw_regs h (RPI_GPIO_REG_GPLEV0 + gpio div 32)) AND 1"

section \<open>Event detection\<close>

text \<open>The four functions differ in the register only.\<close>

definition enable_bit :: "nat \<Rightarrow> nat \<Rightarrow> bool \<Rightarrow> hw \<Rightarrow> hw" where
  "enable_bit reg0 gpio enable h =
     (let reg = reg0 + gpio div 32; off = gpio mod 32
      in if enable then store reg (hw_regs h reg OR bit_mask off) h
         else store reg (hw_regs h reg AND NOT (bit_mask off)) h)"

definition rpi2711_gpio_detect_rising_edge :: "nat \<Rightarrow> bool \<Rightarrow> hw \<Rightarrow> hw" where
  "rpi2711_gpio_detect_rising_edge gpio enable h = enable_bit RPI_GPIO_REG_GPREN0 gpio enable h"

definition rpi2711_gpio_detect_falling_edge :: "nat \<Rightarrow> bool \<Rightarrow> hw \<Rightarrow> hw" where
  "rpi2711_gpio_detect_falling_edge gpio enable h = enable_bit RPI_GPIO_REG_GPFEN0 gpio enable h"

definition rpi2711_gpio_detect_level_high :: "nat \<Rightarrow> bool \<Rightarrow> hw \<Rightarrow> hw" where
  "rpi2711_gpio_detect_level_high gpio enable h = enable_bit RPI_GPIO_REG_GPHEN0 gpio enable h"

definition rpi2711_gpio_detect_level_low :: "nat \<Rightarrow> bool \<Rightarrow> hw \<Rightarrow> hw" where
  "rpi2711_gpio_detect_level_low gpio enable h = enable_bit RPI_GPIO_REG_GPLEN0 gpio enable h"

text \<open>For pins from 32 on the code stores the result of a comparison; the manager has 28 pins.\<close>

definition rpi2711_gpio_event_clear_detect :: "nat \<Rightarrow> hw \<Rightarrow> hw" where
  "rpi2711_gpio_event_clear_detect gpio h =
     (if gpio < 32 then store RPI_GPIO_REG_GPEDS0 (bit_mask gpio) h
      else store RPI_GPIO_REG_GPEDS1 (if 1 < gpio - 32 then 1 else 0) h)"

definition rpi2711_gpio_clear_all_events :: "hw \<Rightarrow> hw" where
  "rpi2711_gpio_clear_all_events h =
     fold (\<lambda>(r, v). store r v)
       [(RPI_GPIO_REG_GPEDS0, 0xffffffff), (RPI_GPIO_REG_GPEDS1, 0xffffffff), (RPI_GPIO_REG_GPREN0, 0), (20, 0),
        (RPI_GPIO_REG_GPFEN0, 0), (23, 0), (RPI_GPIO_REG_GPHEN0, 0), (26, 0), (RPI_GPIO_REG_GPLEN0, 0), (29, 0)] h"

definition rpi2711_gpio_event_detected :: "nat \<Rightarrow> hw \<Rightarrow> bool" where
  "rpi2711_gpio_event_detected gpio h =
     (if gpio < 32 then hw_regs h RPI_GPIO_REG_GPEDS0 AND bit_mask gpio \<noteq> 0
      else hw_regs h RPI_GPIO_REG_GPEDS1 AND bit_mask (gpio - 32) \<noteq> 0)"

section \<open>Pull-up and pull-down\<close>

definition rpi_bcm2835_gpio_set_pud :: "nat \<Rightarrow> u32 \<Rightarrow> hw \<Rightarrow> bool \<times> hw" where
  "rpi_bcm2835_gpio_set_pud gpio pud h =
     (if pud \<notin> {RPI_GPIO_PUD_OFF, RPI_GPIO_PUD_UP, RPI_GPIO_PUD_DOWN} then (False, h)
      else let v = (if pud = RPI_GPIO_PUD_OFF then 0 else if pud = RPI_GPIO_PUD_UP then 2 else 1);
               clock_reg = RPI_GPIO_REG_GPPUDCLK1 + gpio div 32;
               h = store RPI_GPIO_REG_GPPUD (hw_regs h RPI_GPIO_REG_GPPUD AND NOT 3) h;
               h = store RPI_GPIO_REG_GPPUD (hw_regs h RPI_GPIO_REG_GPPUD OR v) h;
               h = store clock_reg (bit_mask (gpio mod 32)) h;
               h = store RPI_GPIO_REG_GPPUD (hw_regs h RPI_GPIO_REG_GPPUD AND NOT 3) h
      in (True, store clock_reg 0 h))"

definition rpi2711_gpio_set_pud_bcm2711 :: "nat \<Rightarrow> u32 \<Rightarrow> hw \<Rightarrow> bool \<times> hw" where
  "rpi2711_gpio_set_pud_bcm2711 gpio pud h =
     (if pud \<notin> {RPI_GPIO_PUD_OFF, RPI_GPIO_PUD_UP, RPI_GPIO_PUD_DOWN} then (False, h)
      else let reg = RPI_GPIO_REG_GPPUD0 + gpio div 16; off = (gpio mod 16) * 2;
               v = (if pud = RPI_GPIO_PUD_OFF then 0 else if pud = RPI_GPIO_PUD_UP then 1 else 2);
               h = store reg (hw_regs h reg AND NOT (push_bit off 3)) h
      in (True, store reg (hw_regs h reg OR push_bit off v) h))"

section \<open>Hardware PWM\<close>

abbreviation (input) REG_PWMCTL :: nat where "REG_PWMCTL \<equiv> 0"
abbreviation (input) REG_PWMRNG1 :: nat where "REG_PWMRNG1 \<equiv> 4"
abbreviation (input) REG_PWMDATA1 :: nat where "REG_PWMDATA1 \<equiv> 5"
abbreviation (input) REG_PWMRNG2 :: nat where "REG_PWMRNG2 \<equiv> 8"
abbreviation (input) REG_PWMDATA2 :: nat where "REG_PWMDATA2 \<equiv> 9"

definition pwm_store :: "nat \<Rightarrow> u32 \<Rightarrow> hw \<Rightarrow> hw" where
  "pwm_store r v h = h\<lparr>hw_pwm := (hw_pwm h)(r := v)\<rparr>"

definition clk_store :: "nat \<Rightarrow> u32 \<Rightarrow> hw \<Rightarrow> hw" where
  "clk_store r v h = h\<lparr>hw_clk := (hw_clk h)(r := v)\<rparr>"

definition rpi2711_pwm_pins :: "(nat \<times> pwm) list" where
  "rpi2711_pwm_pins = [(12, hard_pwm 12 1 RPI_GPIO_FUNC_ALT_0), (13, hard_pwm 13 2 RPI_GPIO_FUNC_ALT_0),
     (18, hard_pwm 18 1 RPI_GPIO_FUNC_ALT_5), (19, hard_pwm 19 2 RPI_GPIO_FUNC_ALT_5)]"

text \<open>
  The divisor is a quotient of doubles cut to an integer. Both operands are integers below
  \<open>2^53\<close>, hence exact, and a quotient that is not an integer differs from the next integer by far
  more than the rounding, so the result is the integer quotient. A frequency or range of 0 makes the
  quotient infinite, whose conversion is undefined: None. The loop that waits for the clock to
  become idle is a delay.
\<close>

definition rpi2711_setup_pwm_hard ::
  "rpi_version \<Rightarrow> pwm \<Rightarrow> pwm_msg \<Rightarrow> hw \<Rightarrow> (errno option \<times> pwm \<times> hw) option" where
  "rpi2711_setup_pwm_hard version p msg h =
     (if pm_range msg > 4095 then Some (Some EINVAL, p, h)
      else let shift = (if pw_channel p = 1 then 0 else 8);
               enable = hw_pwm h REG_PWMCTL AND drop_bit shift 0xff00
      in if pm_mode msg \<noteq> RPI_PWM_MODE_PWM \<and> pm_mode msg \<noteq> RPI_PWM_MODE_MS then Some (Some EINVAL, p, h)
      else let enable = enable OR push_bit shift (if pm_mode msg = RPI_PWM_MODE_PWM then 1 else 0x81);
               oscillator = (if version = RPI_VER_4 then 54000000 else 19200000 :: nat);
               rate = unat (pm_frequency msg) * unat (pm_range msg)
      in if rate = 0 then None
      else let divi = oscillator div rate
      in if divi < 1 \<or> divi > 4095 then Some (Some ERANGE, p, h)
      else let h = pwm_store REG_PWMCTL 0 h;
               h = clk_store 40 0x5A000001 h;
               h = clk_store 41 (0x5A000000 OR push_bit 12 (of_nat divi)) h;
               h = clk_store 40 0x5A000011 h;
               h = pwm_store (if pw_channel p = 1 then REG_PWMRNG1 else REG_PWMRNG2) (pm_range msg) h;
               h = pwm_store REG_PWMCTL enable h
      in Some (None, p, rpi2711_gpio_set_select (pw_gpio p) (pw_func p) h))"

definition rpi2711_set_pwm_duty :: "pwm \<Rightarrow> u32 \<Rightarrow> hw \<Rightarrow> (pwm \<times> hw) option" where
  "rpi2711_set_pwm_duty p duty h =
     Some (p, pwm_store (if pw_channel p = 1 then REG_PWMDATA1 else REG_PWMDATA2) duty h)"

section \<open>The two configurations\<close>

definition gpio_config_rpi4 :: gpio_config where
  "gpio_config_rpi4 = \<lparr>gc_version = RPI_VER_4, gc_max_funcs = 7, gc_set_select = rpi2711_gpio_set_select,
     gc_get_select = rpi2711_gpio_get_select, gc_set = rpi2711_gpio_set, gc_clear = rpi2711_gpio_clear,
     gc_read = rpi2711_gpio_read, gc_detect_rising_edge = rpi2711_gpio_detect_rising_edge,
     gc_detect_falling_edge = rpi2711_gpio_detect_falling_edge,
     gc_detect_level_high = rpi2711_gpio_detect_level_high,
     gc_detect_level_low = rpi2711_gpio_detect_level_low, gc_clear_detect = rpi2711_gpio_event_clear_detect,
     gc_clear_all_events = rpi2711_gpio_clear_all_events, gc_event_detected = rpi2711_gpio_event_detected,
     gc_set_pud = rpi2711_gpio_set_pud_bcm2711, gc_pwm_pins = rpi2711_pwm_pins,
     gc_setup_pwm_hard = rpi2711_setup_pwm_hard RPI_VER_4, gc_set_pwm_duty = rpi2711_set_pwm_duty\<rparr>"

definition gpio_config_rpi3 :: gpio_config where
  "gpio_config_rpi3 = \<lparr>gc_version = RPI_VER_3, gc_max_funcs = 7, gc_set_select = rpi2711_gpio_set_select,
     gc_get_select = rpi2711_gpio_get_select, gc_set = rpi2711_gpio_set, gc_clear = rpi2711_gpio_clear,
     gc_read = rpi2711_gpio_read, gc_detect_rising_edge = rpi2711_gpio_detect_rising_edge,
     gc_detect_falling_edge = rpi2711_gpio_detect_falling_edge,
     gc_detect_level_high = rpi2711_gpio_detect_level_high,
     gc_detect_level_low = rpi2711_gpio_detect_level_low, gc_clear_detect = rpi2711_gpio_event_clear_detect,
     gc_clear_all_events = rpi2711_gpio_clear_all_events, gc_event_detected = rpi2711_gpio_event_detected,
     gc_set_pud = rpi_bcm2835_gpio_set_pud, gc_pwm_pins = rpi2711_pwm_pins,
     gc_setup_pwm_hard = rpi2711_setup_pwm_hard RPI_VER_3, gc_set_pwm_duty = rpi2711_set_pwm_duty\<rparr>"

section \<open>Pin functions read back\<close>

lemma bcm_select_reads_back:
  assumes "g < 54" "g' < 54" "v \<le> 7"
  shows "rpi2711_gpio_get_select g' (rpi2711_gpio_set_select g v h) =
    (if g' = g then v else rpi2711_gpio_get_select g' h)"
proof -
  have bit_ge_3: "3 \<le> m \<Longrightarrow> \<not> bit v m" for m
    using bit_small [of v 3 m] assms(3) by (simp add: word_le_nat_alt)
  have reg: "g div 10 < 6" "g' div 10 < 6"
    using assms by simp_all
  have regs: "hw_regs (rpi2711_gpio_set_select g v h) r =
      (if r = g div 10 then hw_regs h r AND NOT (push_bit (g mod 10 * 3) 7) OR push_bit (g mod 10 * 3) v else hw_regs h r)" for r
    using reg(1) by (auto simp: rpi2711_gpio_set_select_def store_def Let_def)
  have get: "bit (rpi2711_gpio_get_select q h) n \<longleftrightarrow> n < 3 \<and> bit (hw_regs h (q div 10)) (q mod 10 * 3 + n)" for q h n
    by (auto simp: rpi2711_gpio_get_select_def Let_def bit_and_iff bit_drop_bit_eq)
  show ?thesis
  proof (rule bit_word_eqI)
    fix n
    assume "n < LENGTH(32)"
    show "bit (rpi2711_gpio_get_select g' (rpi2711_gpio_set_select g v h)) n \<longleftrightarrow>
      bit (if g' = g then v else rpi2711_gpio_get_select g' h) n"
    proof (cases "n < 3 \<and> g' div 10 = g div 10")
      case True
      then have n3: "n < 3"
        by simp
      have range: "g' mod 10 * 3 + n < 30"
        using True mod_less_divisor [of 10 g'] by linarith
      show ?thesis
      proof (cases "g' = g")
        case True
        then show ?thesis
          using range n3 by (auto simp: get regs bit_and_iff bit_or_iff bit_not_iff bit_push_bit_iff)
      next
        case False
        then have "g' mod 10 \<noteq> g mod 10"
          using True by (metis div_mult_mod_eq)
        then have apart: "g' mod 10 * 3 + n < g mod 10 * 3 \<or> 3 \<le> g' mod 10 * 3 + n - g mod 10 * 3"
          using True by arith
        have "\<not> bit (push_bit (g mod 10 * 3) w) (g' mod 10 * 3 + n)" if "\<And>m. 3 \<le> m \<Longrightarrow> \<not> bit w m" for w :: u32
          using apart that [of "g' mod 10 * 3 + n - g mod 10 * 3"] by (auto simp: bit_push_bit_iff)
        from this [of 7] this [of v] show ?thesis
          using False range bit_ge_3 True by (auto simp: get regs bit_and_iff bit_or_iff bit_not_iff)
      qed
    next
      case False
      then show ?thesis
        using bit_ge_3 [of n] by (auto simp: get regs)
    qed
  qed
qed

end
