(* ===== verification/GpioRp1.thy ===== *)
theory GpioRp1
  imports GpioRegs
begin

text \<open>
  src/src/rpi-gpio/resmgr/rp1_gpio.c: the chip functions of the Raspberry Pi 5, whose pins sit
  behind the RP1. Registers are 32-bit words by byte offset in the mapped block. Each peripheral of
  the RP1 occupies 16 KB: four copies of its registers that on a store replace, toggle, set or clear
  the bits written. Bit 28 of a pin's control register resets the pin's edge detector and does not
  stay set. The interrupt controller entry is one word; mapping the registers is not modelled.
\<close>

unbundle bit_operations_syntax

section \<open>Registers\<close>

abbreviation (input) RP1_SET_OFFSET :: nat where "RP1_SET_OFFSET \<equiv> 0x2000"
abbreviation (input) RP1_CLR_OFFSET :: nat where "RP1_CLR_OFFSET \<equiv> 0x3000"
abbreviation (input) RP1_GPIO_IO_REG_PCIE_INTE_OFFSET :: nat where "RP1_GPIO_IO_REG_PCIE_INTE_OFFSET \<equiv> 0x11c"
abbreviation (input) RP1_GPIO_IO_REG_PCIE_INTS_OFFSET :: nat where "RP1_GPIO_IO_REG_PCIE_INTS_OFFSET \<equiv> 0x124"
abbreviation (input) RP1_GPIO_SYS_RIO_REG_OUT_OFFSET :: nat where "RP1_GPIO_SYS_RIO_REG_OUT_OFFSET \<equiv> 0"
abbreviation (input) RP1_GPIO_SYS_RIO_REG_OE_OFFSET :: nat where "RP1_GPIO_SYS_RIO_REG_OE_OFFSET \<equiv> 4"
abbreviation (input) RP1_GPIO_SYS_RIO_REG_SYNC_IN_OFFSET :: nat where "RP1_GPIO_SYS_RIO_REG_SYNC_IN_OFFSET \<equiv> 8"
abbreviation (input) RP1_CTRL_IRQ_RESET_BIT :: nat where "RP1_CTRL_IRQ_RESET_BIT \<equiv> 0x1c"
abbreviation (input) RP1_CTRL_IRQMASK_LEVEL_HIGH :: nat where "RP1_CTRL_IRQMASK_LEVEL_HIGH \<equiv> 0x17"
abbreviation (input) RP1_CTRL_IRQMASK_LEVEL_LOW :: nat where "RP1_CTRL_IRQMASK_LEVEL_LOW \<equiv> 0x16"
abbreviation (input) RP1_CTRL_IRQMASK_EDGE_HIGH :: nat where "RP1_CTRL_IRQMASK_EDGE_HIGH \<equiv> 0x15"
abbreviation (input) RP1_CTRL_IRQMASK_EDGE_LOW :: nat where "RP1_CTRL_IRQMASK_EDGE_LOW \<equiv> 0x14"

definition RP1_GPIO_IO_REG_CTRL_OFFSET :: "nat \<Rightarrow> nat" where
  "RP1_GPIO_IO_REG_CTRL_OFFSET off = (off * 2 + 1) * 4"

definition RP1_GPIO_PADS_REG_OFFSET :: "nat \<Rightarrow> nat" where
  "RP1_GPIO_PADS_REG_OFFSET off = 4 + off * 4"

definition gpio_io_bank_offset :: "nat \<Rightarrow> nat" where
  "gpio_io_bank_offset bank = [0, 0x4000, 0x8000] ! bank"

definition gpio_pads_bank_offset :: "nat \<Rightarrow> nat" where
  "gpio_pads_bank_offset bank = [0x20000, 0x24000, 0x28000] ! bank"

definition gpio_sys_rio_bank_offset :: "nat \<Rightarrow> nat" where
  "gpio_sys_rio_bank_offset bank = [0x10000, 0x14000, 0x18000] ! bank"

definition rp1_bank_base :: "nat \<Rightarrow> nat" where
  "rp1_bank_base bank = [0, 28, 34] ! bank"

definition rp1_gpio_get_bank_offset :: "nat \<Rightarrow> nat \<times> nat" where
  "rp1_gpio_get_bank_offset gpio =
     (let bank = (if gpio < rp1_bank_base 1 then 0 else if gpio < rp1_bank_base 2 then 1 else 2)
      in (bank, gpio - rp1_bank_base bank))"

text \<open>A store through one of the four copies, and the edge detector behind a control register.\<close>

definition is_pin_ctrl :: "nat \<Rightarrow> bool" where
  "is_pin_ctrl r \<longleftrightarrow> r < 0xc000 \<and> r mod 0x4000 < 0xe0 \<and> r mod 8 = 4"

definition reg_write :: "nat \<Rightarrow> u32 \<Rightarrow> hw \<Rightarrow> hw" where
  "reg_write r v h =
     (let regs = hw_regs h; ints = r div 0x4000 * 0x4000 + RP1_GPIO_IO_REG_PCIE_INTS_OFFSET
      in if is_pin_ctrl r \<and> bit v RP1_CTRL_IRQ_RESET_BIT
         then h\<lparr>hw_regs := regs(r := v AND NOT (bit_mask RP1_CTRL_IRQ_RESET_BIT),
                                ints := regs ints AND NOT (bit_mask (r mod 0x4000 div 8)))\<rparr>
         else h\<lparr>hw_regs := regs(r := v)\<rparr>)"

definition out32 :: "nat \<Rightarrow> u32 \<Rightarrow> hw \<Rightarrow> hw" where
  "out32 a v h =
     (let kind = a div 0x1000 mod 4; r = a - kind * 0x1000; old = hw_regs h r
      in reg_write r (if kind = 0 then v else if kind = 1 then old XOR v
                      else if kind = 2 then old OR v else old AND NOT v) h)"

definition in32 :: "nat \<Rightarrow> hw \<Rightarrow> u32" where
  "in32 a h = hw_regs h a"

section \<open>Pin functions\<close>

text \<open>The RP1 numbers of the functions: ALT n is n, in, out and null are 20, 21 and 31.\<close>

definition rp1_value :: "u32 \<Rightarrow> u32 option" where
  "rp1_value v =
     (if v = RPI_GPIO_FUNC_IN then Some 20 else if v = RPI_GPIO_FUNC_OUT then Some 21
      else if v = RPI_GPIO_FUNC_ALT_0 then Some 0 else if v = RPI_GPIO_FUNC_ALT_1 then Some 1
      else if v = RPI_GPIO_FUNC_ALT_2 then Some 2 else if v = RPI_GPIO_FUNC_ALT_3 then Some 3
      else if v = RPI_GPIO_FUNC_ALT_4 then Some 4 else if v = RPI_GPIO_FUNC_ALT_5 then Some 5
      else if v = RPI_GPIO_FUNC_ALT_6 then Some 6 else if v = RPI_GPIO_FUNC_ALT_7 then Some 7
      else if v = RPI_GPIO_FUNC_ALT_8 then Some 8 else None)"

definition rp1_gpio_set_select :: "nat \<Rightarrow> u32 \<Rightarrow> hw \<Rightarrow> hw" where
  "rp1_gpio_set_select gpio v h =
     (case rp1_value v of
        None \<Rightarrow> h
      | Some w \<Rightarrow>
          let (bank, off) = rp1_gpio_get_bank_offset gpio;
              oe = gpio_sys_rio_bank_offset bank + RP1_GPIO_SYS_RIO_REG_OE_OFFSET;
              h = (if w = 20 then out32 (oe + RP1_CLR_OFFSET) (bit_mask off) h
                   else if w = 21 then out32 (oe + RP1_SET_OFFSET) (bit_mask off) h else h);
              fsel = (if w = 20 \<or> w = 21 \<or> w = 22 then 5 else if w = 23 then 0x1f else w);
              reg = gpio_io_bank_offset bank + RP1_GPIO_IO_REG_CTRL_OFFSET off;
              h = out32 reg (in32 reg h AND NOT 0x1f OR (fsel AND 0x1f)) h;
              reg = gpio_pads_bank_offset bank + RP1_GPIO_PADS_REG_OFFSET off;
              pad = in32 reg h;
              pad' = (if fsel = 0x1f then pad AND NOT (bit_mask 6) OR bit_mask 7
                      else (pad OR bit_mask 6) AND NOT (bit_mask 7))
          in if pad' \<noteq> pad then out32 reg pad' h else h)"

definition rp1_gpio_get_select :: "nat \<Rightarrow> hw \<Rightarrow> u32" where
  "rp1_gpio_get_select gpio h =
     (let (bank, off) = rp1_gpio_get_bank_offset gpio;
          io = in32 (gpio_io_bank_offset bank + RP1_GPIO_IO_REG_CTRL_OFFSET off) h AND 0x1f
      in if io \<noteq> 5 then
           (if io = 0 then RPI_GPIO_FUNC_ALT_0 else if io = 1 then RPI_GPIO_FUNC_ALT_1
            else if io = 2 then RPI_GPIO_FUNC_ALT_2 else if io = 3 then RPI_GPIO_FUNC_ALT_3
            else if io = 4 then RPI_GPIO_FUNC_ALT_4 else if io = 6 then RPI_GPIO_FUNC_ALT_6
            else if io = 7 then RPI_GPIO_FUNC_ALT_7 else if io = 8 then RPI_GPIO_FUNC_ALT_8
            else if io = 20 then RPI_GPIO_FUNC_IN else if io = 21 then RPI_GPIO_FUNC_OUT
            else if io = 0x1f then RPI_GPIO_FUNC_NULL else io)
         else if in32 (gpio_sys_rio_bank_offset bank + RP1_GPIO_SYS_RIO_REG_OE_OFFSET) h AND bit_mask off \<noteq> 0
         then RPI_GPIO_FUNC_OUT else RPI_GPIO_FUNC_IN)"

definition rp1_gpio_set :: "nat \<Rightarrow> hw \<Rightarrow> hw" where
  "rp1_gpio_set gpio h =
     (let (bank, off) = rp1_gpio_get_bank_offset gpio
      in out32 (gpio_sys_rio_bank_offset bank + RP1_GPIO_SYS_RIO_REG_OUT_OFFSET + RP1_SET_OFFSET) (bit_mask off) h)"

definition rp1_gpio_clear :: "nat \<Rightarrow> hw \<Rightarrow> hw" where
  "rp1_gpio_clear gpio h =
     (let (bank, off) = rp1_gpio_get_bank_offset gpio
      in out32 (gpio_sys_rio_bank_offset bank + RP1_GPIO_SYS_RIO_REG_OUT_OFFSET + RP1_CLR_OFFSET) (bit_mask off) h)"

definition rp1_gpio_read :: "nat \<Rightarrow> hw \<Rightarrow> u32" where
  "rp1_gpio_read gpio h =
     (let (bank, off) = rp1_gpio_get_bank_offset gpio
      in if in32 (gpio_sys_rio_bank_offset bank + RP1_GPIO_SYS_RIO_REG_SYNC_IN_OFFSET) h AND bit_mask off \<noteq> 0
         then 1 else 0)"

section \<open>Event detection\<close>

definition rp1_gpio_detect :: "nat \<Rightarrow> bool \<Rightarrow> nat \<Rightarrow> hw \<Rightarrow> hw" where
  "rp1_gpio_detect gpio enable msk h =
     (let (bank, off) = rp1_gpio_get_bank_offset gpio;
          reg = gpio_io_bank_offset bank + RP1_GPIO_IO_REG_CTRL_OFFSET off;
          h = (if enable then out32 (reg + RP1_SET_OFFSET) (bit_mask msk) h
               else out32 (reg + RP1_SET_OFFSET) (bit_mask RP1_CTRL_IRQ_RESET_BIT)
                      (out32 (reg + RP1_CLR_OFFSET) (bit_mask msk) h));
          reg = gpio_io_bank_offset bank + RP1_GPIO_IO_REG_PCIE_INTE_OFFSET;
          inte = in32 reg h
      in out32 reg (if enable then inte OR bit_mask off else inte AND NOT (bit_mask off)) h)"

definition rp1_gpio_detect_rising_edge :: "nat \<Rightarrow> bool \<Rightarrow> hw \<Rightarrow> hw" where
  "rp1_gpio_detect_rising_edge gpio enable h = rp1_gpio_detect gpio enable RP1_CTRL_IRQMASK_EDGE_HIGH h"

definition rp1_gpio_detect_falling_edge :: "nat \<Rightarrow> bool \<Rightarrow> hw \<Rightarrow> hw" where
  "rp1_gpio_detect_falling_edge gpio enable h = rp1_gpio_detect gpio enable RP1_CTRL_IRQMASK_EDGE_LOW h"

definition rp1_gpio_detect_level_high :: "nat \<Rightarrow> bool \<Rightarrow> hw \<Rightarrow> hw" where
  "rp1_gpio_detect_level_high gpio enable h = rp1_gpio_detect gpio enable RP1_CTRL_IRQMASK_LEVEL_HIGH h"

definition rp1_gpio_detect_level_low :: "nat \<Rightarrow> bool \<Rightarrow> hw \<Rightarrow> hw" where
  "rp1_gpio_detect_level_low gpio enable h = rp1_gpio_detect gpio enable RP1_CTRL_IRQMASK_LEVEL_LOW h"

definition rp1_gpio_event_detected :: "nat \<Rightarrow> hw \<Rightarrow> bool" where
  "rp1_gpio_event_detected gpio h =
     (let (bank, off) = rp1_gpio_get_bank_offset gpio
      in in32 (gpio_io_bank_offset bank + RP1_GPIO_IO_REG_PCIE_INTS_OFFSET) h AND bit_mask off \<noteq> 0)"

text \<open>The interrupt controller's word is at the byte offset \<open>0x808\<close>.\<close>

definition rp1_gpio_event_clear_detect :: "nat \<Rightarrow> hw \<Rightarrow> hw" where
  "rp1_gpio_event_clear_detect gpio h =
     (let (bank, off) = rp1_gpio_get_bank_offset gpio;
          reg = gpio_io_bank_offset bank + RP1_GPIO_IO_REG_CTRL_OFFSET off;
          h = out32 (reg + RP1_SET_OFFSET) (bit_mask RP1_CTRL_IRQ_RESET_BIT) h
      in h\<lparr>hw_msix := (hw_msix h)(0x808 := hw_msix h 0x808 OR bit_mask 2)\<rparr>)"

definition rp1_gpio_event_clear_event_mask :: "nat \<Rightarrow> hw \<Rightarrow> hw" where
  "rp1_gpio_event_clear_event_mask gpio h =
     (let (bank, off) = rp1_gpio_get_bank_offset gpio
      in out32 (gpio_io_bank_offset bank + RP1_GPIO_IO_REG_CTRL_OFFSET off + RP1_CLR_OFFSET) (push_bit 20 0xf) h)"

definition rp1_gpio_clear_all_events :: "hw \<Rightarrow> hw" where
  "rp1_gpio_clear_all_events h =
     fold (\<lambda>gpio h. rp1_gpio_event_clear_event_mask gpio (rp1_gpio_event_clear_detect gpio h)) [0..<RPI_GPIO_NUM] h"

section \<open>Pull-up and pull-down\<close>

text \<open>Bit 3 of the pad register is the pull-up, bit 2 the pull-down.\<close>

definition rp1_gpio_set_pud :: "nat \<Rightarrow> u32 \<Rightarrow> hw \<Rightarrow> bool \<times> hw" where
  "rp1_gpio_set_pud gpio pud h =
     (if pud \<notin> {RPI_GPIO_PUD_OFF, RPI_GPIO_PUD_UP, RPI_GPIO_PUD_DOWN} then (False, h)
      else let (bank, off) = rp1_gpio_get_bank_offset gpio;
               reg = gpio_pads_bank_offset bank + RP1_GPIO_PADS_REG_OFFSET off;
               v = in32 reg h AND NOT (bit_mask 2 OR bit_mask 3);
               v = (if pud = RPI_GPIO_PUD_UP then v OR bit_mask 3
                    else if pud = RPI_GPIO_PUD_DOWN then v OR bit_mask 3 else v)
      in (True, out32 reg v h))"

section \<open>Hardware PWM\<close>

definition rp1_pwm_pins :: "(nat \<times> pwm) list" where
  "rp1_pwm_pins = [(12, hard_pwm 12 1 RPI_GPIO_FUNC_ALT_0), (13, hard_pwm 13 2 RPI_GPIO_FUNC_ALT_0),
     (14, hard_pwm 14 3 RPI_GPIO_FUNC_ALT_0), (15, hard_pwm 15 4 RPI_GPIO_FUNC_ALT_0),
     (18, hard_pwm 18 3 RPI_GPIO_FUNC_ALT_3), (19, hard_pwm 19 4 RPI_GPIO_FUNC_ALT_3)]"

definition pwm_out32 :: "nat \<Rightarrow> u32 \<Rightarrow> hw \<Rightarrow> hw" where
  "pwm_out32 r v h = h\<lparr>hw_pwm := (hw_pwm h)(r := v)\<rparr>"

definition clk_out32 :: "nat \<Rightarrow> u32 \<Rightarrow> hw \<Rightarrow> hw" where
  "clk_out32 r v h = h\<lparr>hw_clk := (hw_clk h)(r := v)\<rparr>"

definition RP1_PWM_CHAN_CTRL :: "nat \<Rightarrow> nat" where
  "RP1_PWM_CHAN_CTRL channel = (channel - 1) * 0x10 + 0x14"

definition RP1_PWM_CHAN_RANGE :: "nat \<Rightarrow> nat" where
  "RP1_PWM_CHAN_RANGE channel = (channel - 1) * 0x10 + 0x18"

definition RP1_PWM_CHAN_PHASE :: "nat \<Rightarrow> nat" where
  "RP1_PWM_CHAN_PHASE channel = (channel - 1) * 0x10 + 0x1c"

definition RP1_PWM_CHAN_DUTY :: "nat \<Rightarrow> nat" where
  "RP1_PWM_CHAN_DUTY channel = (channel - 1) * 0x10 + 0x20"

text \<open>The parts of \<open>rp1_setup_pwm_hard\<close> that program the clock, once, and the channel.\<close>

definition rp1_enable_clock :: "hw \<Rightarrow> hw" where
  "rp1_enable_clock h =
     (if hw_init_pwm_clk h
      then (clk_out32 0x7c 0 (clk_out32 0x78 1 (clk_out32 0x74 (hw_clk h 0x74 OR 0x800) h)))\<lparr>hw_init_pwm_clk := False\<rparr>
      else h)"

definition rp1_program_channel :: "nat \<Rightarrow> u32 \<Rightarrow> u32 \<Rightarrow> hw \<Rightarrow> hw" where
  "rp1_program_channel c adj_range ctrl h =
     (let h = pwm_out32 (RP1_PWM_CHAN_RANGE c) adj_range h;
          h = pwm_out32 (RP1_PWM_CHAN_CTRL c) ctrl h;
          h = pwm_out32 (RP1_PWM_CHAN_PHASE c) 0 h;
          h = pwm_out32 (RP1_PWM_CHAN_DUTY c) 0 h
      in pwm_out32 0 (hw_pwm h 0 OR (0x80000000 OR bit_mask (c - 1))) h)"

definition rp1_setup_pwm_hard :: "pwm \<Rightarrow> pwm_msg \<Rightarrow> hw \<Rightarrow> (errno option \<times> pwm \<times> hw) option" where
  "rp1_setup_pwm_hard p msg h =
     (if pm_range msg > 4095 then Some (Some EINVAL, p, h)
      else if pm_mode msg \<noteq> RPI_PWM_MODE_PWM \<and> pm_mode msg \<noteq> RPI_PWM_MODE_MS then Some (Some EINVAL, p, h)
      else let ctrl = (if pm_mode msg = RPI_PWM_MODE_PWM then 3 else 1); h = rp1_enable_clock h
      in if pm_frequency msg = 0 then None
      else let adj_range = 50000000 div pm_frequency msg;
               h = rp1_program_channel (pw_channel p) adj_range ctrl h;
               p = p\<lparr>pw_adj_range := adj_range\<rparr>
      in Some (None, p, rp1_gpio_set_select (pw_gpio p) (pw_func p) h))"

text \<open>The duty is scaled in 64 bits; a range of 0, as before any set-up, is a division by zero.\<close>

definition rp1_set_pwm_duty :: "pwm \<Rightarrow> u32 \<Rightarrow> hw \<Rightarrow> (pwm \<times> hw) option" where
  "rp1_set_pwm_duty p duty h =
     (if pw_range p = 0 then None
      else let adj = (ucast (ucast (pw_adj_range p) * ucast duty div ucast (pw_range p) :: u64) :: u32)
      in Some (p\<lparr>pw_adj_duty := adj, pw_duty := duty\<rparr>, pwm_out32 (RP1_PWM_CHAN_DUTY (pw_channel p)) adj h))"

definition gpio_config_rpi5 :: gpio_config where
  "gpio_config_rpi5 = \<lparr>gc_version = RPI_VER_5, gc_max_funcs = 10, gc_set_select = rp1_gpio_set_select,
     gc_get_select = rp1_gpio_get_select, gc_set = rp1_gpio_set, gc_clear = rp1_gpio_clear,
     gc_read = rp1_gpio_read, gc_detect_rising_edge = rp1_gpio_detect_rising_edge,
     gc_detect_falling_edge = rp1_gpio_detect_falling_edge,
     gc_detect_level_high = rp1_gpio_detect_level_high,
     gc_detect_level_low = rp1_gpio_detect_level_low, gc_clear_detect = rp1_gpio_event_clear_detect,
     gc_clear_all_events = rp1_gpio_clear_all_events, gc_event_detected = rp1_gpio_event_detected,
     gc_set_pud = rp1_gpio_set_pud, gc_pwm_pins = rp1_pwm_pins,
     gc_setup_pwm_hard = rp1_setup_pwm_hard, gc_set_pwm_duty = rp1_set_pwm_duty\<rparr>"

section \<open>Registers of the first bank\<close>

lemma bank_offset [simp]: "g < 28 \<Longrightarrow> rp1_gpio_get_bank_offset g = (0, g)"
  by (simp add: rp1_gpio_get_bank_offset_def rp1_bank_base_def)

lemma bank_0 [simp]:
  "gpio_io_bank_offset 0 = 0" "gpio_pads_bank_offset 0 = 0x20000" "gpio_sys_rio_bank_offset 0 = 0x10000"
  by (simp_all add: gpio_io_bank_offset_def gpio_pads_bank_offset_def gpio_sys_rio_bank_offset_def)

lemma out32_replace: "r div 0x1000 mod 4 = 0 \<Longrightarrow> out32 r v h = reg_write r v h"
  by (simp add: out32_def)

lemma out32_set:
  assumes "r div 0x1000 mod 4 = 0"
  shows "out32 (r + 0x2000) v h = reg_write r (hw_regs h r OR v) h"
proof -
  have "(q + 2) mod 4 = 2" if "q mod 4 = 0" for q :: nat
    using that by presburger
  moreover have "(r + 0x2000) div 0x1000 = r div 0x1000 + 2"
    by simp
  ultimately have "(r + 0x2000) div 0x1000 mod 4 = 2"
    using assms by (simp only:)
  then show ?thesis
    by (simp add: out32_def)
qed

lemma out32_clr:
  assumes "r div 0x1000 mod 4 = 0"
  shows "out32 (r + 0x3000) v h = reg_write r (hw_regs h r AND NOT v) h"
proof -
  have "(q + 3) mod 4 = 3" if "q mod 4 = 0" for q :: nat
    using that by presburger
  moreover have "(r + 0x3000) div 0x1000 = r div 0x1000 + 3"
    by simp
  ultimately have "(r + 0x3000) div 0x1000 mod 4 = 3"
    using assms by (simp only:)
  then show ?thesis
    by (simp add: out32_def)
qed

text \<open>The value a register has after a store to a control register or to another one.\<close>

lemma ctrl_div: "g < 28 \<Longrightarrow> RP1_GPIO_IO_REG_CTRL_OFFSET g div 0x1000 mod 4 = 0"
  by (simp add: RP1_GPIO_IO_REG_CTRL_OFFSET_def)

lemma ctrl_is_pin [simp]: "g < 28 \<Longrightarrow> is_pin_ctrl (RP1_GPIO_IO_REG_CTRL_OFFSET g)"
  unfolding is_pin_ctrl_def RP1_GPIO_IO_REG_CTRL_OFFSET_def by (simp; presburger)

lemma ctrl_pin [simp]: "RP1_GPIO_IO_REG_CTRL_OFFSET g div 8 = g"
  unfolding RP1_GPIO_IO_REG_CTRL_OFFSET_def by presburger

lemma ctrl_block [simp]: "g < 28 \<Longrightarrow> RP1_GPIO_IO_REG_CTRL_OFFSET g div 0x4000 = 0"
  unfolding RP1_GPIO_IO_REG_CTRL_OFFSET_def by simp

lemma ctrl_inject [simp]: "RP1_GPIO_IO_REG_CTRL_OFFSET g = RP1_GPIO_IO_REG_CTRL_OFFSET g' \<longleftrightarrow> g = g'"
  by (simp add: RP1_GPIO_IO_REG_CTRL_OFFSET_def)

lemma ctrl_bound: "g < 28 \<Longrightarrow> RP1_GPIO_IO_REG_CTRL_OFFSET g < 0xe0"
  by (simp add: RP1_GPIO_IO_REG_CTRL_OFFSET_def)

lemma write_ctrl:
  assumes "g < 28"
  shows "hw_regs (reg_write (RP1_GPIO_IO_REG_CTRL_OFFSET g) v h) r =
    (if r = RP1_GPIO_IO_REG_CTRL_OFFSET g then v AND NOT (bit_mask 28)
     else if r = 0x124 \<and> bit v 28 then hw_regs h r AND NOT (bit_mask g) else hw_regs h r)"
proof -
  have "v AND NOT (bit_mask 28) = v" if "\<not> bit v 28"
    using that by (auto intro!: bit_word_eqI simp: bit_and_iff bit_not_iff)
  then show ?thesis
    using assms ctrl_bound [OF assms] by (auto simp: reg_write_def Let_def)
qed

lemma write_other:
  "\<not> is_pin_ctrl r \<Longrightarrow> hw_regs (reg_write r v h) r' = (if r' = r then v else hw_regs h r')"
  by (simp add: reg_write_def Let_def)

section \<open>Pin functions read back\<close>

definition rp1_fsel :: "u32 \<Rightarrow> u32" where
  "rp1_fsel w = (if w = 20 \<or> w = 21 \<or> w = 22 then 5 else if w = 23 then 0x1f else w)"

lemma mask_5: "(0x1f :: u32) = mask 5"
  by (simp add: mask_eq_exp_minus_1)

lemma function_field: "((x AND NOT 0x1f OR f AND 0x1f) AND NOT (bit_mask 28)) AND 0x1f = f AND (0x1f :: u32)"
  unfolding mask_5 by (auto intro!: bit_word_eqI simp: bit_and_iff bit_or_iff bit_not_iff bit_mask_iff)

lemma function_field_simp: "((x AND - 32 OR f AND 31) AND NOT (bit_mask 28)) AND 31 = f AND (31 :: u32)"
  using function_field [of x f] by simp

lemma oe_not_ctrl [simp]: "\<not> is_pin_ctrl 0x10004" "\<not> is_pin_ctrl (0x20000 + RP1_GPIO_PADS_REG_OFFSET g)"
  by (simp_all add: is_pin_ctrl_def)

lemma pads_regs [simp]: "RP1_GPIO_IO_REG_CTRL_OFFSET g \<noteq> 0x20000 + RP1_GPIO_PADS_REG_OFFSET g'"
  if "g < 28" 
  using ctrl_bound [OF that] by simp

lemma pads_replace: "out32 (0x20000 + RP1_GPIO_PADS_REG_OFFSET g) v h = reg_write (0x20000 + RP1_GPIO_PADS_REG_OFFSET g) v h"
  if "g < 28"
proof (rule out32_replace)
  have "(0x20000 + RP1_GPIO_PADS_REG_OFFSET g) div 0x1000 = 32"
    by (rule div_nat_eqI) (use that in \<open>simp_all add: RP1_GPIO_PADS_REG_OFFSET_def\<close>)
  then show "(0x20000 + RP1_GPIO_PADS_REG_OFFSET g) div 0x1000 mod 4 = 0"
    by simp
qed

lemma oe_stores:
  "out32 0x13004 v h = reg_write 0x10004 (hw_regs h 0x10004 AND NOT v) h"
  "out32 0x12004 v h = reg_write 0x10004 (hw_regs h 0x10004 OR v) h"
  using out32_clr [of "0x10004" v h] out32_set [of "0x10004" v h] by simp_all

definition oe_step :: "nat \<Rightarrow> u32 \<Rightarrow> hw \<Rightarrow> hw" where
  "oe_step g w h = (if w = 20 then out32 0x13004 (bit_mask g) h else if w = 21 then out32 0x12004 (bit_mask g) h else h)"

lemma oe_step_regs:
  "hw_regs (oe_step g w h) r =
    (if r = 0x10004 then if w = 20 then hw_regs h r AND NOT (bit_mask g) else if w = 21 then hw_regs h r OR bit_mask g
       else hw_regs h r
     else hw_regs h r)"
  by (simp add: oe_step_def oe_stores write_other)

lemma pads_step:
  assumes "g < 28" "r < 0x20000"
  shows "hw_regs (if b then out32 (0x20000 + RP1_GPIO_PADS_REG_OFFSET g) v h else h) r = hw_regs h r"
proof -
  have "r \<noteq> 0x20000 + RP1_GPIO_PADS_REG_OFFSET g"
    using assms by simp
  then show ?thesis
    by (simp add: pads_replace [OF assms(1)] write_other)
qed

lemma set_select_regs:
  assumes "g < 28" "rp1_value v = Some w" "r < 0x20000"
  shows "hw_regs (rp1_gpio_set_select g v h) r = hw_regs (reg_write (RP1_GPIO_IO_REG_CTRL_OFFSET g)
    (hw_regs (oe_step g w h) (RP1_GPIO_IO_REG_CTRL_OFFSET g) AND NOT 0x1f OR (rp1_fsel w AND 0x1f)) (oe_step g w h)) r"
  using assms(1,2)
  by (simp only: rp1_gpio_set_select_def option.case prod.case Let_def bank_offset bank_0 pads_step [OF assms(1,3)]
      add_0 in32_def out32_replace [OF ctrl_div [OF assms(1)]] flip: rp1_fsel_def) (simp add: oe_step_def)

lemma select_ctrl:
  assumes "g < 28" "g' < 28" "rp1_value v = Some w"
  shows "hw_regs (rp1_gpio_set_select g v h) (RP1_GPIO_IO_REG_CTRL_OFFSET g') AND 0x1f =
    (if g' = g then rp1_fsel w AND 0x1f else hw_regs h (RP1_GPIO_IO_REG_CTRL_OFFSET g') AND 0x1f)"
proof -
  have "RP1_GPIO_IO_REG_CTRL_OFFSET g' \<noteq> 0x10004" "RP1_GPIO_IO_REG_CTRL_OFFSET g' \<noteq> 0x124"
    using ctrl_bound [OF assms(2)] by simp_all
  then show ?thesis
    using set_select_regs [OF assms(1,3), of "RP1_GPIO_IO_REG_CTRL_OFFSET g'"] ctrl_bound [OF assms(2)] assms(1,2)
    by (auto simp: write_ctrl function_field_simp oe_step_regs)
qed

lemma select_oe:
  assumes "g < 28" "rp1_value v = Some w"
  shows "hw_regs (rp1_gpio_set_select g v h) 0x10004 =
    (if w = 20 then hw_regs h 0x10004 AND NOT (bit_mask g) else if w = 21 then hw_regs h 0x10004 OR bit_mask g
     else hw_regs h 0x10004)"
proof -
  have "RP1_GPIO_IO_REG_CTRL_OFFSET g \<noteq> 0x10004"
    using ctrl_bound [OF assms(1)] by simp
  then show ?thesis
    using set_select_regs [OF assms, of "0x10004"] assms(1)
    by (auto simp: write_ctrl oe_step_regs)
qed

definition rp1_function :: "u32 \<Rightarrow> bool \<Rightarrow> u32" where
  "rp1_function io oe =
     (if io \<noteq> 5 then
           (if io = 0 then RPI_GPIO_FUNC_ALT_0 else if io = 1 then RPI_GPIO_FUNC_ALT_1
            else if io = 2 then RPI_GPIO_FUNC_ALT_2 else if io = 3 then RPI_GPIO_FUNC_ALT_3
            else if io = 4 then RPI_GPIO_FUNC_ALT_4 else if io = 6 then RPI_GPIO_FUNC_ALT_6
            else if io = 7 then RPI_GPIO_FUNC_ALT_7 else if io = 8 then RPI_GPIO_FUNC_ALT_8
            else if io = 20 then RPI_GPIO_FUNC_IN else if io = 21 then RPI_GPIO_FUNC_OUT
            else if io = 0x1f then RPI_GPIO_FUNC_NULL else io)
         else if oe then RPI_GPIO_FUNC_OUT else RPI_GPIO_FUNC_IN)"

lemma get_select_function:
  "g < 28 \<Longrightarrow> rp1_gpio_get_select g h =
    rp1_function (hw_regs h (RP1_GPIO_IO_REG_CTRL_OFFSET g) AND 0x1f) (bit (hw_regs h 0x10004) g)"
  by (simp add: rp1_gpio_get_select_def rp1_function_def Let_def in32_def)

lemma functions_read_back:
  assumes "v \<le> 10" "v \<noteq> 2"
  shows "\<exists>w. rp1_value v = Some w \<and>
    rp1_function (rp1_fsel w AND 0x1f) (if w = 20 then False else if w = 21 then True else oe) = v"
proof -
  have "v \<in> {0, 1, 3, 4, 5, 6, 7, 8, 9, 10}"
  proof -
    have "unat v \<le> 10"
      using assms(1) by (simp add: word_le_nat_alt)
    then have "unat v \<in> {0, 1, 2, 3, 4, 5, 6, 7, 8, 9, 10}"
      by simp presburger
    then have "v \<in> of_nat ` {0, 1, 2, 3, 4, 5, 6, 7, 8, 9, 10}"
      by (intro image_eqI [where x = "unat v"]) simp_all
    then show ?thesis
      using assms(2) by auto
  qed
  then show ?thesis
    by (auto simp: rp1_value_def rp1_function_def rp1_fsel_def)
qed

lemma rp1_select_reads_back:
  assumes "g < 28" "g' < 28" "v \<le> 10" "v \<noteq> 2"
  shows "rp1_gpio_get_select g' (rp1_gpio_set_select g v h) =
    (if g' = g then v else rp1_gpio_get_select g' h)"
proof -
  obtain w where w: "rp1_value v = Some w"
    using functions_read_back [OF assms(3,4)] by blast
  have f: "rp1_function (rp1_fsel w AND 0x1f) (if w = 20 then False else if w = 21 then True else oe) = v" for oe
    using functions_read_back [OF assms(3,4), of oe] w by simp
  have "bit (hw_regs (rp1_gpio_set_select g v h) 0x10004) g' =
    (if g' = g then if w = 20 then False else if w = 21 then True else bit (hw_regs h 0x10004) g' else bit (hw_regs h 0x10004) g')"
    using assms(1,2) by (auto simp: select_oe [OF assms(1) w] bit_and_iff bit_or_iff bit_not_iff)
  then show ?thesis
    using f by (simp add: get_select_function [OF assms(2)] select_ctrl [OF assms(1,2) w] del: numeral_eq_iff)
qed

text \<open>ALT 5 and the pin's own function share the number 5, so ALT 5 reads back as in or out.\<close>

lemma rp1_alt_5_reads_back:
  assumes "g < 28"
  shows "rp1_gpio_get_select g (rp1_gpio_set_select g RPI_GPIO_FUNC_ALT_5 h) =
    (if bit (hw_regs h 0x10004) g then RPI_GPIO_FUNC_OUT else RPI_GPIO_FUNC_IN)"
proof -
  have w: "rp1_value RPI_GPIO_FUNC_ALT_5 = Some 5"
    by (simp add: rp1_value_def)
  show ?thesis
    by (simp add: get_select_function [OF assms] select_ctrl [OF assms assms w] select_oe [OF assms w]
        rp1_function_def rp1_fsel_def)
qed

end
