(* ===== verification/GpioEvents.thy ===== *)
theory GpioEvents
  imports GpioBcm GpioRp1
begin

text \<open>
  src/src/rpi-gpio/resmgr/event.c: the table of registered events, the interrupt service thread and
  the two calls of the main thread. The table holds one entry for each of the 28 pins. The delivery
  of an event to a client is a function of the receive id and the event that says whether it
  succeeded; what was delivered is kept as a trace. A table update of the main thread and a pass of
  the service thread exclude each other (\<open>event_mutex\<close>), but the main thread programs the chip
  outside the mutex: a run interleaves the phases of its calls with whole passes and with detections
  latched by the chip.
\<close>

unbundle bit_operations_syntax

section \<open>State\<close>

record sigevent =
  se_notify :: int
  se_value :: int

abbreviation (input) SIGEV_NONE :: int where "SIGEV_NONE \<equiv> 0"

record event_entry =
  ee_ci :: client_info
  ee_detect :: u32
  ee_count :: u32
  ee_match :: u32
  ee_match_count :: u32
  ee_sigev :: sigevent

text \<open>\<open>rpi_gpio_event_t\<close>.\<close>

record event_msg =
  em_gpio :: nat
  em_detect :: u32
  em_event :: sigevent
  em_match :: u32

record events =
  ev_table :: "event_entry list"
  ev_hw :: hw
  ev_trace :: "(int \<times> sigevent) list"

type_synonym delivery = "int \<Rightarrow> sigevent \<Rightarrow> bool"

section \<open>Delivering\<close>

definition set_entry :: "nat \<Rightarrow> event_entry \<Rightarrow> events \<Rightarrow> events" where
  "set_entry g e s = s\<lparr>ev_table := (ev_table s)[g := e]\<rparr>"

definition dispatch_event :: "gpio_config \<Rightarrow> delivery \<Rightarrow> nat \<Rightarrow> events \<Rightarrow> events" where
  "dispatch_event cfg ok gpio s =
     (let e = ev_table s ! gpio
      in if ee_detect e = RPI_EVENT_NONE then s
      else let sv = (ee_sigev e)\<lparr>se_value := (if gc_read cfg gpio (ev_hw s) \<noteq> 0 then int gpio else - int gpio)\<rparr>;
               e = e\<lparr>ee_sigev := sv, ee_count := ee_count e + 1, ee_match_count := ee_match_count e + 1\<rparr>
      in if ee_match_count e < ee_match e then set_entry gpio e s
      else let e = e\<lparr>ee_match_count := 0\<rparr>
      in if se_notify sv = SIGEV_NONE then set_entry gpio e s
      else if ok (ci_rcvid (ee_ci e)) sv
           then (set_entry gpio e s)\<lparr>ev_trace := ev_trace s @ [(ci_rcvid (ee_ci e), sv)]\<rparr>
           else set_entry gpio (e\<lparr>ee_detect := RPI_EVENT_NONE\<rparr>) s)"

definition clear_detect :: "gpio_config \<Rightarrow> nat \<Rightarrow> events \<Rightarrow> events" where
  "clear_detect cfg gpio s = s\<lparr>ev_hw := gc_clear_detect cfg gpio (ev_hw s)\<rparr>"

definition ist_pin :: "gpio_config \<Rightarrow> delivery \<Rightarrow> nat \<Rightarrow> events \<Rightarrow> events" where
  "ist_pin cfg ok gpio s =
     (if ee_detect (ev_table s ! gpio) = RPI_EVENT_NONE then s
      else let detected = gc_event_detected cfg gpio (ev_hw s);
               d = ee_detect (ev_table s ! gpio);
               s = (if d AND RPI_EVENT_EDGE_RISING \<noteq> 0 \<or> d AND RPI_EVENT_EDGE_FALLING \<noteq> 0
                    then clear_detect cfg gpio s else s);
               s = (if detected then dispatch_event cfg ok gpio s else s);
               d = ee_detect (ev_table s ! gpio)
      in if d AND RPI_EVENT_LEVEL_HIGH \<noteq> 0 \<or> d AND RPI_EVENT_LEVEL_LOW \<noteq> 0
         then clear_detect cfg gpio s else s)"

text \<open>One round of the service thread, from an interrupt to its unmasking.\<close>

definition gpio_ist :: "gpio_config \<Rightarrow> delivery \<Rightarrow> events \<Rightarrow> events" where
  "gpio_ist cfg ok s = fold (ist_pin cfg ok) [0..<RPI_GPIO_NUM] s"

section \<open>Registering\<close>

text \<open>The table is a static array; \<open>event_init\<close> resets the clients and the chip.\<close>

definition zero_entry :: event_entry where
  "zero_entry = \<lparr>ee_ci = \<lparr>ci_rcvid = 0, ci_scoid = 0, ci_coid = 0\<rparr>, ee_detect = 0, ee_count = 0,
     ee_match = 0, ee_match_count = 0, ee_sigev = \<lparr>se_notify = 0, se_value = 0\<rparr>\<rparr>"

text \<open>\<open>thread\<close> and \<open>irq\<close>: whether the thread could be created and could attach the interrupt.\<close>

definition event_init :: "gpio_config \<Rightarrow> bool \<Rightarrow> bool \<Rightarrow> hw \<Rightarrow> bool \<times> events" where
  "event_init cfg thread irq h =
     (thread \<and> irq,
      \<lparr>ev_table = map (\<lambda>e. e\<lparr>ee_ci := client_info_reset\<rparr>) (replicate RPI_GPIO_NUM zero_entry),
       ev_hw = gc_clear_all_events cfg h, ev_trace = []\<rparr>)"

definition disable_detection :: "gpio_config \<Rightarrow> nat \<Rightarrow> hw \<Rightarrow> hw" where
  "disable_detection cfg gpio h =
     gc_detect_level_low cfg gpio False (gc_detect_level_high cfg gpio False
       (gc_detect_falling_edge cfg gpio False (gc_detect_rising_edge cfg gpio False h)))"

definition enable_detection :: "gpio_config \<Rightarrow> nat \<Rightarrow> u32 \<Rightarrow> hw \<Rightarrow> hw" where
  "enable_detection cfg gpio d h =
     (let h = (if d AND RPI_EVENT_EDGE_RISING \<noteq> 0 then gc_detect_rising_edge cfg gpio True h else h);
          h = (if d AND RPI_EVENT_EDGE_FALLING \<noteq> 0 then gc_detect_falling_edge cfg gpio True h else h);
          h = (if d AND RPI_EVENT_LEVEL_HIGH \<noteq> 0 then gc_detect_level_high cfg gpio True h else h)
      in if d AND RPI_EVENT_LEVEL_LOW \<noteq> 0 then gc_detect_level_low cfg gpio True h else h)"

text \<open>\<open>event_add\<close> up to the mutex, the table update under the mutex, and the rest.\<close>

definition event_add_begin :: "gpio_config \<Rightarrow> client_info \<Rightarrow> event_msg \<Rightarrow> events \<Rightarrow> errno option \<times> events" where
  "event_add_begin cfg ci msg s =
     (let e = ev_table s ! em_gpio msg
      in if \<not> client_info_is_unused (ee_ci e) \<and> \<not> client_info_match (ee_ci e) ci then (Some EBUSY, s)
      else (None, s\<lparr>ev_hw := disable_detection cfg (em_gpio msg) (ev_hw s)\<rparr>))"

definition event_add_table :: "client_info \<Rightarrow> event_msg \<Rightarrow> events \<Rightarrow> events" where
  "event_add_table ci msg s =
     set_entry (em_gpio msg)
       \<lparr>ee_ci = ci, ee_detect = em_detect msg, ee_count = 0,
        ee_match = (if em_match msg = 0 then 1 else em_match msg), ee_match_count = 0,
        ee_sigev = em_event msg\<rparr> s"

definition event_add_enable :: "gpio_config \<Rightarrow> event_msg \<Rightarrow> events \<Rightarrow> events" where
  "event_add_enable cfg msg s = s\<lparr>ev_hw := enable_detection cfg (em_gpio msg) (em_detect msg) (ev_hw s)\<rparr>"

definition event_add :: "gpio_config \<Rightarrow> client_info \<Rightarrow> event_msg \<Rightarrow> events \<Rightarrow> errno option \<times> events" where
  "event_add cfg ci msg s =
     (case event_add_begin cfg ci msg s of
        (Some e, s) \<Rightarrow> (Some e, s)
      | (None, s) \<Rightarrow> (None, event_add_enable cfg msg (event_add_table ci msg s)))"

text \<open>\<open>event_remove_client\<close>: the chip first, then the table under the mutex.\<close>

definition event_remove_disable :: "gpio_config \<Rightarrow> client_info \<Rightarrow> events \<Rightarrow> events" where
  "event_remove_disable cfg ci s =
     s\<lparr>ev_hw := fold (\<lambda>g h. if client_info_match (ee_ci (ev_table s ! g)) ci then disable_detection cfg g h else h)
                [0..<RPI_GPIO_NUM] (ev_hw s)\<rparr>"

definition event_remove_table :: "client_info \<Rightarrow> events \<Rightarrow> events" where
  "event_remove_table ci s =
     s\<lparr>ev_table := map (\<lambda>e. if client_info_match (ee_ci e) ci then e\<lparr>ee_ci := client_info_reset\<rparr> else e)
                         (ev_table s)\<rparr>"

definition event_remove_client :: "gpio_config \<Rightarrow> client_info \<Rightarrow> events \<Rightarrow> events" where
  "event_remove_client cfg ci s = event_remove_table ci (event_remove_disable cfg ci s)"

section \<open>Runs\<close>

text \<open>
  What a chip detects on a pin: bit \<open>k\<close> of an event's mask is rising edge, falling edge, high level,
  low level for \<open>k\<close> from 0 to 3. A pin is \<open>quiet\<close> when no detection is selected for it. \<open>latch\<close> is the chip's reaction to a change on a pin.
\<close>

definition armed :: "gpio_config \<Rightarrow> nat \<Rightarrow> nat \<Rightarrow> hw \<Rightarrow> bool" where
  "armed cfg k g h \<longleftrightarrow>
     (if gc_version cfg = RPI_VER_5
      then bit (hw_regs h (RP1_GPIO_IO_REG_CTRL_OFFSET g)) ([21, 20, 23, 22] ! k) \<and> bit (hw_regs h 0x11c) g
      else bit (hw_regs h ([19, 22, 25, 28] ! k)) g)"

definition quiet :: "gpio_config \<Rightarrow> nat \<Rightarrow> hw \<Rightarrow> bool" where
  "quiet cfg g h \<longleftrightarrow>
     (\<forall>k<4. \<not> bit (hw_regs h (if gc_version cfg = RPI_VER_5 then RP1_GPIO_IO_REG_CTRL_OFFSET g else [19, 22, 25, 28] ! k))
               (if gc_version cfg = RPI_VER_5 then [21, 20, 23, 22] ! k else g))"

text \<open>What detection is selected for a pin, whether it is enabled, and whether a detection is pending.\<close>

definition pin_view :: "gpio_config \<Rightarrow> nat \<Rightarrow> hw \<Rightarrow> (bool \<times> bool list) \<times> bool" where
  "pin_view cfg g h = ((quiet cfg g h, map (\<lambda>k. armed cfg k g h) [0..<4]), gc_event_detected cfg g h)"

definition latch :: "gpio_config \<Rightarrow> nat \<Rightarrow> hw \<Rightarrow> hw" where
  "latch cfg g h =
     (let r = (if gc_version cfg = RPI_VER_5 then 0x124 else 16)
      in h\<lparr>hw_regs := (hw_regs h)(r := hw_regs h r OR bit_mask g)\<rparr>)"

datatype main_pc = MIdle | MAdd client_info event_msg | MEnable event_msg | MClose client_info

record event_run =
  er_pc :: main_pc
  er_ev :: events

datatype event_step = AddCall client_info event_msg | CloseCall client_info | Continue | Pass delivery | Latch nat

definition event_do :: "gpio_config \<Rightarrow> event_step \<Rightarrow> event_run \<Rightarrow> event_run option" where
  "event_do cfg x r =
     (let s = er_ev r in
      case x of
        AddCall ci msg \<Rightarrow>
          (if er_pc r = MIdle \<and> em_gpio msg < RPI_GPIO_NUM \<and> \<not> client_info_is_unused ci
           then (case event_add_begin cfg ci msg s of
                   (Some e, s) \<Rightarrow> Some (r\<lparr>er_ev := s\<rparr>)
                 | (None, s) \<Rightarrow> Some \<lparr>er_pc = MAdd ci msg, er_ev = s\<rparr>)
           else None)
      | CloseCall ci \<Rightarrow>
          (if er_pc r = MIdle \<and> \<not> client_info_is_unused ci
           then Some \<lparr>er_pc = MClose ci, er_ev = event_remove_disable cfg ci s\<rparr> else None)
      | Continue \<Rightarrow>
          (case er_pc r of
             MIdle \<Rightarrow> None
           | MAdd ci msg \<Rightarrow> Some \<lparr>er_pc = MEnable msg, er_ev = event_add_table ci msg s\<rparr>
           | MEnable msg \<Rightarrow> Some \<lparr>er_pc = MIdle, er_ev = event_add_enable cfg msg s\<rparr>
           | MClose ci \<Rightarrow> Some \<lparr>er_pc = MIdle, er_ev = event_remove_table ci s\<rparr>)
      | Pass ok \<Rightarrow> Some (r\<lparr>er_ev := gpio_ist cfg ok s\<rparr>)
      | Latch g \<Rightarrow> (if g < RPI_GPIO_NUM then Some (r\<lparr>er_ev := s\<lparr>ev_hw := latch cfg g (ev_hw s)\<rparr>\<rparr>) else None))"

section \<open>What the event code relies on\<close>

locale event_chip =
  fixes cfg :: gpio_config
  assumes quiet_armed: "quiet cfg g h \<Longrightarrow> k < 4 \<Longrightarrow> \<not> armed cfg k g h"
    and clear_all_quiet: "g < 28 \<Longrightarrow> quiet cfg g (gc_clear_all_events cfg h)"
    and disable_quiet: "g < 28 \<Longrightarrow> quiet cfg g (disable_detection cfg g h)"
    and enable_armed: "g < 28 \<Longrightarrow> quiet cfg g h \<Longrightarrow> k < 4 \<Longrightarrow> armed cfg k g (enable_detection cfg g d h) \<longleftrightarrow> bit d k"
    and disable_other: "g < 28 \<Longrightarrow> g' < 28 \<Longrightarrow> g' \<noteq> g \<Longrightarrow> pin_view cfg g' (disable_detection cfg g h) = pin_view cfg g' h"
    and enable_other: "g < 28 \<Longrightarrow> g' < 28 \<Longrightarrow> g' \<noteq> g \<Longrightarrow> pin_view cfg g' (enable_detection cfg g d h) = pin_view cfg g' h"
    and clear_other: "g < 28 \<Longrightarrow> g' < 28 \<Longrightarrow> pin_view cfg g' (gc_clear_detect cfg g h) =
      (fst (pin_view cfg g' h), g' \<noteq> g \<and> snd (pin_view cfg g' h))"
    and latch_view: "g < 28 \<Longrightarrow> g' < 28 \<Longrightarrow> pin_view cfg g' (latch cfg g h) =
      (fst (pin_view cfg g' h), g' = g \<or> snd (pin_view cfg g' h))"
begin

end

section \<open>The chips keep the laws\<close>

lemma less_4: "k < (4 :: nat) \<longleftrightarrow> k = 0 \<or> k = 1 \<or> k = 2 \<or> k = 3"
  by auto

lemma store_regs:
  "hw_regs (store r v h) q =
    (if q = r then if r = 16 \<or> r = 17 then hw_regs h r AND NOT v
       else if r \<in> {7, 8, 10, 11} then hw_regs h r else v
     else hw_regs h q)"
  by (simp add: store_def)

lemma and_flag [simp]: "(d :: u32) AND 1 = 0 \<longleftrightarrow> \<not> bit d 0" "d AND 2 = 0 \<longleftrightarrow> \<not> bit d 1"
  "d AND 4 = 0 \<longleftrightarrow> \<not> bit d 2" "d AND 8 = 0 \<longleftrightarrow> \<not> bit d 3"
  using and_bit_mask [of 0 d] and_bit_mask [of 1 d] and_bit_mask [of 2 d] and_bit_mask [of 3 d]
  by (simp_all add: bit_mask_def)

lemmas bcm_detect_defs = rpi2711_gpio_detect_rising_edge_def rpi2711_gpio_detect_falling_edge_def
  rpi2711_gpio_detect_level_high_def rpi2711_gpio_detect_level_low_def

lemma enable_bit_regs:
  "g < 28 \<Longrightarrow> r0 \<in> {19, 22, 25, 28} \<Longrightarrow> hw_regs (enable_bit r0 g en h) r =
    (if r = r0 then if en then hw_regs h r OR bit_mask g else hw_regs h r AND NOT (bit_mask g) else hw_regs h r)"
  by (auto simp: enable_bit_def Let_def store_regs)

lemma bcm_chip:
  assumes "cfg = gpio_config_rpi4 \<or> cfg = gpio_config_rpi3"
  shows "event_chip cfg"
proof -
  have c: "gc_version cfg \<noteq> RPI_VER_5" "gc_detect_rising_edge cfg = rpi2711_gpio_detect_rising_edge"
    "gc_detect_falling_edge cfg = rpi2711_gpio_detect_falling_edge" "gc_detect_level_high cfg = rpi2711_gpio_detect_level_high"
    "gc_detect_level_low cfg = rpi2711_gpio_detect_level_low" "gc_clear_detect cfg = rpi2711_gpio_event_clear_detect"
    "gc_clear_all_events cfg = rpi2711_gpio_clear_all_events" "gc_event_detected cfg = rpi2711_gpio_event_detected"
    using assms by (auto simp: gpio_config_rpi4_def gpio_config_rpi3_def)
  have dis: "hw_regs (disable_detection cfg g h) r =
      (if r \<in> {19, 22, 25, 28} then hw_regs h r AND NOT (bit_mask g) else hw_regs h r)" if "g < 28" for g h r
    using that by (simp add: disable_detection_def c bcm_detect_defs enable_bit_regs)
  have en: "hw_regs (enable_detection cfg g d h) r =
      (if r = 19 \<and> bit d 0 \<or> r = 22 \<and> bit d 1 \<or> r = 25 \<and> bit d 2 \<or> r = 28 \<and> bit d 3
       then hw_regs h r OR bit_mask g else hw_regs h r)" if "g < 28" for g d h r
    using that by (simp add: enable_detection_def c bcm_detect_defs enable_bit_regs Let_def)
  have q: "quiet cfg g h \<longleftrightarrow> \<not> bit (hw_regs h 19) g \<and> \<not> bit (hw_regs h 22) g \<and> \<not> bit (hw_regs h 25) g \<and> \<not> bit (hw_regs h 28) g" for g h
    by (auto simp: quiet_def c less_4)
  have v: "pin_view cfg g h = ((quiet cfg g h, [bit (hw_regs h 19) g, bit (hw_regs h 22) g, bit (hw_regs h 25) g,
      bit (hw_regs h 28) g]), bit (hw_regs h 16) g)" if "g < 28" for g h
    using that by (simp add: pin_view_def armed_def c rpi2711_gpio_event_detected_def upt_rec numeral_nat)
  note bits = bit_and_iff bit_or_iff bit_not_iff
  show ?thesis
  proof
    fix g g' k :: nat and h d
    show "quiet cfg g h \<Longrightarrow> k < 4 \<Longrightarrow> \<not> armed cfg k g h"
      by (auto simp: quiet_def armed_def c)
    show "quiet cfg g (gc_clear_all_events cfg h)" if "g < 28"
      by (simp add: q c rpi2711_gpio_clear_all_events_def store_regs)
    show "quiet cfg g (disable_detection cfg g h)" if "g < 28"
      using that by (simp add: q dis bits)
    show "armed cfg k g (enable_detection cfg g d h) \<longleftrightarrow> bit d k" if "g < 28" "quiet cfg g h" "k < 4"
      using that by (auto simp: less_4 armed_def c en q bits)
    show "pin_view cfg g' (disable_detection cfg g h) = pin_view cfg g' h" if "g < 28" "g' < 28" "g' \<noteq> g"
      using that by (auto simp: v q dis bits)
    show "pin_view cfg g' (enable_detection cfg g d h) = pin_view cfg g' h" if "g < 28" "g' < 28" "g' \<noteq> g"
      using that by (auto simp: v q en bits)
    show "pin_view cfg g' (gc_clear_detect cfg g h) = (fst (pin_view cfg g' h), g' \<noteq> g \<and> snd (pin_view cfg g' h))"
      if "g < 28" "g' < 28"
      using that by (auto simp: v q c rpi2711_gpio_event_clear_detect_def store_regs bits)
    show "pin_view cfg g' (latch cfg g h) = (fst (pin_view cfg g' h), g' = g \<or> snd (pin_view cfg g' h))"
      if "g < 28" "g' < 28"
      using that by (auto simp: v q c latch_def Let_def bits)
  qed
qed

interpretation rpi4: event_chip gpio_config_rpi4
  by (rule bcm_chip) simp

interpretation rpi3: event_chip gpio_config_rpi3
  by (rule bcm_chip) simp

lemma inte_stores [simp]: "\<not> is_pin_ctrl 0x11c" "\<not> is_pin_ctrl 0x124"
  by (simp_all add: is_pin_ctrl_def)

lemma ctrl_set: "g < 28 \<Longrightarrow> out32 (RP1_GPIO_IO_REG_CTRL_OFFSET g + 0x2000) v h =
  reg_write (RP1_GPIO_IO_REG_CTRL_OFFSET g) (hw_regs h (RP1_GPIO_IO_REG_CTRL_OFFSET g) OR v) h"
  by (rule out32_set) (rule ctrl_div)

lemma ctrl_clr: "g < 28 \<Longrightarrow> out32 (RP1_GPIO_IO_REG_CTRL_OFFSET g + 0x3000) v h =
  reg_write (RP1_GPIO_IO_REG_CTRL_OFFSET g) (hw_regs h (RP1_GPIO_IO_REG_CTRL_OFFSET g) AND NOT v) h"
  by (rule out32_clr) (rule ctrl_div)

lemma inte_replace: "out32 0x11c v h = reg_write 0x11c v h"
  by (rule out32_replace) simp

lemma ctrl_neq [simp]: "g < 28 \<Longrightarrow> RP1_GPIO_IO_REG_CTRL_OFFSET g \<noteq> 0x11c" "g < 28 \<Longrightarrow> RP1_GPIO_IO_REG_CTRL_OFFSET g \<noteq> 0x124"
  using ctrl_bound [of g] by auto

lemma rp1_detect_ctrl:
  assumes "g < 28" "m < 28" "g' < 28" "n < 28"
  shows "bit (hw_regs (rp1_gpio_detect g en m h) (RP1_GPIO_IO_REG_CTRL_OFFSET g')) n \<longleftrightarrow>
    (if g' = g \<and> n = m then en else bit (hw_regs h (RP1_GPIO_IO_REG_CTRL_OFFSET g')) n)"
  using assms
  by (auto simp: rp1_gpio_detect_def Let_def in32_def ctrl_set ctrl_clr inte_replace write_ctrl write_other
      bit_and_iff bit_or_iff bit_not_iff)

lemma rp1_detect_inte:
  assumes "g < 28" "m < 28" "g' < 28"
  shows "bit (hw_regs (rp1_gpio_detect g en m h) 0x11c) g' \<longleftrightarrow> (if g' = g then en else bit (hw_regs h 0x11c) g')"
  using assms ctrl_neq [of g]
  by (auto simp: rp1_gpio_detect_def Let_def in32_def ctrl_set ctrl_clr inte_replace write_ctrl write_other
      bit_and_iff bit_or_iff bit_not_iff)

lemma rp1_detect_ints:
  assumes "g < 28" "m < 28" "g' < 28" "g' \<noteq> g"
  shows "bit (hw_regs (rp1_gpio_detect g en m h) 0x124) g' \<longleftrightarrow> bit (hw_regs h 0x124) g'"
  using assms ctrl_neq [of g]
  by (auto simp: rp1_gpio_detect_def Let_def in32_def ctrl_set ctrl_clr inte_replace write_ctrl write_other
      bit_and_iff bit_or_iff bit_not_iff)


lemma rp1_clear_detect_regs:
  assumes "g < 28" "g' < 28" "n < 28"
  shows "bit (hw_regs (rp1_gpio_event_clear_detect g h) (RP1_GPIO_IO_REG_CTRL_OFFSET g')) n =
      bit (hw_regs h (RP1_GPIO_IO_REG_CTRL_OFFSET g')) n"
    and "bit (hw_regs (rp1_gpio_event_clear_detect g h) 0x11c) g' = bit (hw_regs h 0x11c) g'"
    and "bit (hw_regs (rp1_gpio_event_clear_detect g h) 0x124) g' \<longleftrightarrow> g' \<noteq> g \<and> bit (hw_regs h 0x124) g'"
  using assms ctrl_neq [of g]
  by (auto simp: rp1_gpio_event_clear_detect_def Let_def ctrl_set write_ctrl bit_and_iff bit_or_iff bit_not_iff)

lemma rp1_clear_mask_regs:
  assumes "g < 28" "g' < 28" "n < 28"
  shows "bit (hw_regs (rp1_gpio_event_clear_event_mask g h) (RP1_GPIO_IO_REG_CTRL_OFFSET g')) n \<longleftrightarrow>
      bit (hw_regs h (RP1_GPIO_IO_REG_CTRL_OFFSET g')) n \<and> \<not> (g' = g \<and> 20 \<le> n \<and> n < 24)"
proof -
  define M where "M = push_bit 20 (0xf :: u32)"
  have "M = push_bit 20 (mask 4)"
    unfolding M_def by (simp add: mask_eq_exp_minus_1)
  then have M: "bit M n \<longleftrightarrow> 20 \<le> n \<and> n < 24"
    using assms(3) by (auto simp: bit_push_bit_iff bit_mask_iff)
  have "rp1_gpio_event_clear_event_mask g h = out32 (RP1_GPIO_IO_REG_CTRL_OFFSET g + 0x3000) M h"
    by (simp only: rp1_gpio_event_clear_event_mask_def bank_offset [OF assms(1)] prod.case Let_def bank_0 add_0 M_def)
  then show ?thesis
    using assms M by (auto simp: ctrl_clr write_ctrl bit_and_iff bit_or_iff bit_not_iff)
qed

lemma rp1_clear_all_ctrl:
  assumes "g < 28" "20 \<le> n" "n < 24"
  shows "\<not> bit (hw_regs (rp1_gpio_clear_all_events h) (RP1_GPIO_IO_REG_CTRL_OFFSET g)) n"
proof -
  have "\<forall>i < m. \<not> bit (hw_regs (fold (\<lambda>gpio h. rp1_gpio_event_clear_event_mask gpio (rp1_gpio_event_clear_detect gpio h))
      [0..<m] h) (RP1_GPIO_IO_REG_CTRL_OFFSET i)) n" if "m \<le> 28" for m
    using that assms by (induction m) (auto simp: rp1_clear_mask_regs rp1_clear_detect_regs less_Suc_eq)
  then show ?thesis
    using assms(1) by (simp add: rp1_gpio_clear_all_events_def)
qed

lemmas rp1_detect_defs = rp1_gpio_detect_rising_edge_def rp1_gpio_detect_falling_edge_def
  rp1_gpio_detect_level_high_def rp1_gpio_detect_level_low_def

lemma rp1_chip: "event_chip gpio_config_rpi5"
proof -
  let ?c = gpio_config_rpi5
  have c: "gc_version ?c = RPI_VER_5" "gc_detect_rising_edge ?c = rp1_gpio_detect_rising_edge"
    "gc_detect_falling_edge ?c = rp1_gpio_detect_falling_edge" "gc_detect_level_high ?c = rp1_gpio_detect_level_high"
    "gc_detect_level_low ?c = rp1_gpio_detect_level_low" "gc_clear_detect ?c = rp1_gpio_event_clear_detect"
    "gc_clear_all_events ?c = rp1_gpio_clear_all_events" "gc_event_detected ?c = rp1_gpio_event_detected"
    by (auto simp: gpio_config_rpi5_def)
  define ctrl inte ints where "ctrl = (\<lambda>(h :: hw) g n. bit (hw_regs h (RP1_GPIO_IO_REG_CTRL_OFFSET g)) n)"
    and "inte = (\<lambda>(h :: hw) g. bit (hw_regs h 0x11c) g)" and "ints = (\<lambda>(h :: hw) g. bit (hw_regs h 0x124) g)"
  note views = ctrl_def inte_def ints_def
  have det: "ctrl (rp1_gpio_detect g e m h) g' n \<longleftrightarrow> (if g' = g \<and> n = m then e else ctrl h g' n)"
    "inte (rp1_gpio_detect g e m h) g' \<longleftrightarrow> (if g' = g then e else inte h g')"
    "g' \<noteq> g \<Longrightarrow> ints (rp1_gpio_detect g e m h) g' = ints h g'"
    if "g < 28" "m < 28" "g' < 28" "n < 28" for g g' m n e h
    using that by (simp_all add: views rp1_detect_ctrl rp1_detect_inte rp1_detect_ints)
  have clr: "ctrl (rp1_gpio_event_clear_detect g h) g' n = ctrl h g' n"
    "inte (rp1_gpio_event_clear_detect g h) g' = inte h g'"
    "ints (rp1_gpio_event_clear_detect g h) g' \<longleftrightarrow> g' \<noteq> g \<and> ints h g'"
    if "g < 28" "g' < 28" "n < 28" for g g' n h
    using that by (simp_all add: views rp1_clear_detect_regs)
  have lat: "ctrl (latch ?c g h) g' n = ctrl h g' n" "inte (latch ?c g h) g' = inte h g'"
    "ints (latch ?c g h) g' \<longleftrightarrow> g' = g \<or> ints h g'" if "g < 28" "g' < 28" for g g' n h
    using that ctrl_neq [of g'] by (auto simp: views latch_def c Let_def bit_or_iff)
  have dis: "disable_detection ?c g h = rp1_gpio_detect g False 22 (rp1_gpio_detect g False 23
      (rp1_gpio_detect g False 20 (rp1_gpio_detect g False 21 h)))" for g h
    by (simp add: disable_detection_def c rp1_detect_defs)
  define on where "on = (\<lambda>g d k m h. if bit (d :: u32) k then rp1_gpio_detect g True m h else h)"
  have en: "enable_detection ?c g d h = on g d 3 22 (on g d 2 23 (on g d 1 20 (on g d 0 21 h)))" for g d h
    by (simp add: enable_detection_def c rp1_detect_defs Let_def on_def)
  have q: "quiet ?c g h \<longleftrightarrow> \<not> ctrl h g 20 \<and> \<not> ctrl h g 21 \<and> \<not> ctrl h g 22 \<and> \<not> ctrl h g 23" for g h
    by (auto simp: quiet_def c less_4 views)
  have v: "pin_view ?c g h = ((quiet ?c g h, [ctrl h g 21 \<and> inte h g, ctrl h g 20 \<and> inte h g, ctrl h g 23 \<and> inte h g,
      ctrl h g 22 \<and> inte h g]), ints h g)" if "g < 28" for g h
    using that by (simp add: pin_view_def armed_def c rp1_gpio_event_detected_def in32_def upt_rec numeral_nat views)
  have view_off: "pin_view ?c g' (rp1_gpio_detect g e m h) = pin_view ?c g' h"
    if "g < 28" "g' < 28" "g' \<noteq> g" "m < 28" for e m g g' h
    using that by (simp add: v q det)
  have on: "ctrl (on g d k m h) g n \<longleftrightarrow> bit d k \<and> n = m \<or> ctrl h g n" "inte (on g d k m h) g \<longleftrightarrow> bit d k \<or> inte h g"
    if "g < 28" "m < 28" "n < 28" for d k m n g h
    using that by (auto simp: on_def det)
  have view_on: "pin_view ?c g' (on g d k m h) = pin_view ?c g' h"
    if "g < 28" "g' < 28" "g' \<noteq> g" "m < 28" for d k m g g' h
    using that by (simp add: on_def view_off)
  show ?thesis
  proof
    fix g g' k :: nat and h d
    show "quiet ?c g h \<Longrightarrow> k < 4 \<Longrightarrow> \<not> armed ?c k g h"
      by (auto simp: quiet_def armed_def c)
    show "quiet ?c g (gc_clear_all_events ?c h)" if "g < 28"
      using that by (simp add: q c views rp1_clear_all_ctrl)
    show "quiet ?c g (disable_detection ?c g h)" if "g < 28"
      using that by (simp add: q dis det)
    show "armed ?c k g (enable_detection ?c g d h) \<longleftrightarrow> bit d k" if "g < 28" "quiet ?c g h" "k < 4"
    proof -
      have arm: "armed ?c k g x \<longleftrightarrow> ctrl x g ([21, 20, 23, 22] ! k) \<and> inte x g" for k x
        by (simp add: armed_def c views)
      have off: "\<not> ctrl h g 20" "\<not> ctrl h g 21" "\<not> ctrl h g 22" "\<not> ctrl h g 23"
        using that(2) by (simp_all add: q)
      have e: "ctrl (enable_detection ?c g d h) g n \<longleftrightarrow>
          bit d 3 \<and> n = 22 \<or> bit d 2 \<and> n = 23 \<or> bit d 1 \<and> n = 20 \<or> bit d 0 \<and> n = 21 \<or> ctrl h g n" if "n < 28" for n
        using that \<open>g < 28\<close> by (simp add: en on)
      have i: "inte (enable_detection ?c g d h) g \<longleftrightarrow> bit d 3 \<or> bit d 2 \<or> bit d 1 \<or> bit d 0 \<or> inte h g"
        using \<open>g < 28\<close> by (simp add: en on)
      from that(3) consider "k = 0" | "k = 1" | "k = 2" | "k = 3"
        unfolding less_4 by blast
      then show ?thesis
        using off by cases (auto simp: arm e i)
    qed
    show "pin_view ?c g' (disable_detection ?c g h) = pin_view ?c g' h" if "g < 28" "g' < 28" "g' \<noteq> g"
      using that by (simp add: dis view_off)
    show "pin_view ?c g' (enable_detection ?c g d h) = pin_view ?c g' h" if "g < 28" "g' < 28" "g' \<noteq> g"
      using that by (simp add: en view_on)
    show "pin_view ?c g' (gc_clear_detect ?c g h) = (fst (pin_view ?c g' h), g' \<noteq> g \<and> snd (pin_view ?c g' h))"
      if "g < 28" "g' < 28"
      using that by (simp add: v q c clr)
    show "pin_view ?c g' (latch ?c g h) = (fst (pin_view ?c g' h), g' = g \<or> snd (pin_view ?c g' h))"
      if "g < 28" "g' < 28"
      using that by (simp add: v q lat)
  qed
qed

interpretation rpi5: event_chip gpio_config_rpi5
  by (rule rp1_chip)

end
