(* ===== verification/GpioPwm.thy ===== *)
theory GpioPwm
  imports Complex_Main GpioRegs
begin

text \<open>
  src/src/rpi-gpio/resmgr/pwm.c: hardware and software pulse width modulation. The pointers of
  \<open>pwm_map\<close> are references to one of the chip's hardware structures or one of the eight software
  slots. Where the C code reads through a null pointer, divides by zero or converts a number out of
  range, an operation gives None. The system timer counts microseconds: each read of it is an
  argument, its comparator is part of the state. Double arithmetic rounds with a function \<open>fl\<close>.
  Mapping registers, barriers and \<open>pwm_debug\<close> are not modelled.
\<close>

unbundle bit_operations_syntax

section \<open>State\<close>

abbreviation (input) NUM_SOFT_PWM :: nat where "NUM_SOFT_PWM \<equiv> 8"
abbreviation (input) MIN_INTR_INTERVAL :: u32 where "MIN_INTR_INTERVAL \<equiv> 20"

datatype pwm_ref = Hard nat | Soft nat

record pwm_state =
  ps_hard :: "nat \<Rightarrow> pwm"
  ps_soft :: "pwm list"
  ps_map :: "nat \<Rightarrow> pwm_ref option"
  ps_attached :: bool
  ps_threads :: nat
  ps_ready :: bool
  ps_intrs :: u32
  ps_stc1 :: u32
  ps_hw :: hw

definition deref :: "pwm_ref \<Rightarrow> pwm_state \<Rightarrow> pwm" where
  "deref r s = (case r of Hard g \<Rightarrow> ps_hard s g | Soft i \<Rightarrow> ps_soft s ! i)"

definition assign :: "pwm_ref \<Rightarrow> pwm \<Rightarrow> pwm_state \<Rightarrow> pwm_state" where
  "assign r p s =
     (case r of
        Hard g \<Rightarrow> s\<lparr>ps_hard := (ps_hard s)(g := p)\<rparr>
      | Soft i \<Rightarrow> s\<lparr>ps_soft := (ps_soft s)[i := p]\<rparr>)"

definition pwm_init :: "gpio_config \<Rightarrow> hw \<Rightarrow> pwm_state" where
  "pwm_init cfg h =
     \<lparr>ps_hard = (\<lambda>g. case map_of (gc_pwm_pins cfg) g of Some p \<Rightarrow> p\<lparr>pw_ci := client_info_reset\<rparr> | None \<Rightarrow> zero_pwm),
      ps_soft = replicate NUM_SOFT_PWM (zero_pwm\<lparr>pw_ci := client_info_reset\<rparr>),
      ps_map = (\<lambda>g. if g \<in> fst ` set (gc_pwm_pins cfg) then Some (Hard g) else None),
      ps_attached = False, ps_threads = 0, ps_ready = False, ps_intrs = 0, ps_stc1 = 0, ps_hw = h\<rparr>"

section \<open>The timer interrupt\<close>

definition phase_time :: "pwm \<Rightarrow> u32" where
  "phase_time p = (if pw_state p then pw_time_on p else pw_time_off p)"

definition isr_slot :: "gpio_config \<Rightarrow> u32 \<Rightarrow> pwm \<Rightarrow> u32 \<times> hw \<Rightarrow> pwm \<times> u32 \<times> hw" where
  "isr_slot cfg cur p = (\<lambda>(next_min, h).
     if pw_gpio p = 0 then (p, next_min, h)
     else if pw_duty p = 0 then (p, next_min, h)
     else let time = phase_time p;
              (p, nxt, h) =
                (if cur - pw_last_change p > time
                 then let p = p\<lparr>pw_state := \<not> pw_state p\<rparr>;
                          h = (if pw_state p then gc_set cfg (pw_gpio p) h else gc_clear cfg (pw_gpio p) h);
                          p = p\<lparr>pw_last_change := pw_last_change p + time\<rparr>
                      in (p, phase_time p, h)
                 else (p, pw_last_change p + time - cur, h))
          in (p, if nxt < next_min then nxt else next_min, h))"

fun isr_slots :: "gpio_config \<Rightarrow> u32 \<Rightarrow> pwm list \<Rightarrow> u32 \<times> hw \<Rightarrow> pwm list \<times> u32 \<times> hw" where
  "isr_slots cfg cur [] acc = ([], acc)"
| "isr_slots cfg cur (p # ps) acc =
     (let (p, acc) = isr_slot cfg cur p acc; (ps, acc) = isr_slots cfg cur ps acc in (p # ps, acc))"

text \<open>
  \<open>matched\<close> is the match bit of the status register, \<open>cur\<close> and \<open>reload\<close> the two reads of the counter.
\<close>

definition timer_isr :: "gpio_config \<Rightarrow> bool \<Rightarrow> u32 \<Rightarrow> u32 \<Rightarrow> pwm_state \<Rightarrow> pwm_state" where
  "timer_isr cfg matched cur reload s =
     (if \<not> matched then s
      else if \<not> ps_ready s then s
      else let (soft, next_min, h) = isr_slots cfg cur (ps_soft s) (-1, ps_hw s);
               next_min = (if next_min <s MIN_INTR_INTERVAL then MIN_INTR_INTERVAL else next_min)
      in s\<lparr>ps_soft := soft, ps_hw := h, ps_stc1 := reload + next_min, ps_intrs := ps_intrs s + 1\<rparr>)"

text \<open>\<open>timer_ist\<close> attaches the interrupt some time after its thread was created.\<close>

definition timer_ist_attach :: "pwm_state \<Rightarrow> pwm_state" where
  "timer_ist_attach s = (if 0 < ps_threads s then s\<lparr>ps_attached := True\<rparr> else s)"

text \<open>What the timer and the system answer during a call: reads of the counter, thread creation.\<close>

record timer_env =
  te_clock :: "nat \<Rightarrow> u32"
  te_thread :: bool

definition timer_intr_init :: "timer_env \<Rightarrow> u32 \<Rightarrow> pwm_state \<Rightarrow> errno option \<times> pwm_state" where
  "timer_intr_init env time s =
     (if \<not> ps_attached s \<and> \<not> te_thread env then (Some EAGAIN, s)
      else let s = (if ps_attached s then s else s\<lparr>ps_threads := Suc (ps_threads s)\<rparr>);
               s = (if te_clock env 1 - ps_stc1 s > time then s\<lparr>ps_stc1 := te_clock env 2 + time\<rparr> else s)
      in (None, s\<lparr>ps_ready := True\<rparr>))"

definition timer_intr_check_done :: "pwm_state \<Rightarrow> pwm_state" where
  "timer_intr_check_done s =
     (if \<not> ps_attached s then s
      else if \<exists>p \<in> set (ps_soft s). pw_duty p \<noteq> 0 then s
      else s\<lparr>ps_ready := False\<rparr>)"

section \<open>Setting up\<close>

definition find_slot :: "pwm_state \<Rightarrow> nat option" where
  "find_slot s = find (\<lambda>i. client_info_is_unused (pw_ci (ps_soft s ! i))) [0..<NUM_SOFT_PWM]"

definition setup_pwm :: "gpio_config \<Rightarrow> client_info \<Rightarrow> pwm_msg \<Rightarrow> pwm_ref \<Rightarrow> pwm_state \<Rightarrow> (errno option \<times> pwm_state) option" where
  "setup_pwm cfg ci msg r s =
     (let p = (deref r s)\<lparr>pw_adj_duty := 0, pw_adj_range := 0\<rparr>;
          s = assign r p s;
          finish = (\<lambda>p s. let p = p\<lparr>pw_mode := pm_mode msg, pw_ci := ci, pw_range := pm_range msg,
                                     pw_frequency := pm_frequency msg\<rparr>
                          in (assign r p s)\<lparr>ps_map := (ps_map s)(pm_gpio msg := Some r)\<rparr>)
      in if pw_channel p \<noteq> 0
         then (case gc_setup_pwm_hard cfg p msg (ps_hw s) of
                 None \<Rightarrow> None
               | Some (Some e, p, h) \<Rightarrow> Some (Some e, (assign r p s)\<lparr>ps_hw := h\<rparr>)
               | Some (None, p, h) \<Rightarrow> Some (None, finish p (s\<lparr>ps_hw := h\<rparr>)))
         else if pm_mode msg \<noteq> RPI_PWM_MODE_PWM \<and> pm_mode msg \<noteq> RPI_PWM_MODE_MS then Some (Some EINVAL, s)
         else Some (None, finish p (s\<lparr>ps_hw := gc_set_select cfg (pm_gpio msg) RPI_GPIO_FUNC_OUT (ps_hw s)\<rparr>)))"

definition pwm_setup :: "gpio_config \<Rightarrow> client_info \<Rightarrow> pwm_msg \<Rightarrow> pwm_state \<Rightarrow> (errno option \<times> pwm_state) option" where
  "pwm_setup cfg ci msg s =
     (case ps_map s (pm_gpio msg) of
        None \<Rightarrow>
          (case find_slot s of
             None \<Rightarrow> Some (Some EAGAIN, s)
           | Some i \<Rightarrow> setup_pwm cfg ci msg (Soft i) (assign (Soft i) ((ps_soft s ! i)\<lparr>pw_gpio := pm_gpio msg\<rparr>) s))
      | Some r \<Rightarrow>
          (if \<not> client_info_is_unused (pw_ci (deref r s)) \<and> \<not> client_info_match (pw_ci (deref r s)) ci
           then Some (Some EBUSY, s) else setup_pwm cfg ci msg r s))"

section \<open>Duty cycles\<close>

text \<open>A conversion of a double to a 32-bit integer, and the phase times in microseconds.\<close>

definition to_unsigned :: "rat \<Rightarrow> u32 option" where
  "to_unsigned x = (if 0 \<le> x \<and> x < 2 ^ 32 then Some (word_of_int \<lfloor>x\<rfloor>) else None)"

definition both :: "u32 option \<Rightarrow> u32 option \<Rightarrow> (u32 \<times> u32) option" where
  "both a b = (case a of None \<Rightarrow> None | Some x \<Rightarrow> (case b of None \<Rightarrow> None | Some y \<Rightarrow> Some (x, y)))"

definition soft_times :: "(rat \<Rightarrow> rat) \<Rightarrow> pwm \<Rightarrow> u32 \<Rightarrow> (u32 \<times> u32) option" where
  "soft_times fl p duty =
     (let ticks = fl (of_nat (unat (pw_frequency p)) * of_nat (unat (pw_range p)));
          divd = fl (1000000 / ticks);
          on = of_nat (unat duty); off = of_nat (unat (pw_range p - duty))
      in if pw_mode p = RPI_PWM_MODE_PWM
         then if ticks = 0 then Some (0, 0)
              else both (to_unsigned (fl (on / divd))) (to_unsigned (fl (off / divd)))
         else if pw_mode p = RPI_PWM_MODE_MS
         then if ticks = 0 then None
              else both (to_unsigned (fl (on * divd))) (to_unsigned (fl (off * divd)))
         else Some (pw_time_on p, pw_time_off p))"

definition soft_duty ::
  "gpio_config \<Rightarrow> (rat \<Rightarrow> rat) \<Rightarrow> timer_env \<Rightarrow> nat \<Rightarrow> u32 \<Rightarrow> pwm_ref \<Rightarrow> pwm_state \<Rightarrow> (errno option \<times> pwm_state) option" where
  "soft_duty cfg fl env gpio duty r s =
     (let p = deref r s
      in if duty = 0 \<or> duty \<ge> pw_range p
         then let s = assign r (p\<lparr>pw_duty := 0\<rparr>) s;
                  s = s\<lparr>ps_hw := (if duty = 0 then gc_clear cfg gpio (ps_hw s) else gc_set cfg gpio (ps_hw s))\<rparr>
              in Some (None, timer_intr_check_done s)
         else case soft_times fl p duty of
                None \<Rightarrow> None
              | Some (on, off) \<Rightarrow>
                  let s = s\<lparr>ps_hw := gc_set cfg gpio (ps_hw s)\<rparr>;
                      p = p\<lparr>pw_time_on := on, pw_time_off := off, pw_state := True,
                            pw_last_change := te_clock env 0, pw_duty := duty\<rparr>
                  in Some (timer_intr_init env on (assign r p s)))"

definition pwm_set_duty_cycle ::
  "gpio_config \<Rightarrow> (rat \<Rightarrow> rat) \<Rightarrow> timer_env \<Rightarrow> client_info \<Rightarrow> nat \<Rightarrow> u32 \<Rightarrow> pwm_state \<Rightarrow> (errno option \<times> pwm_state) option" where
  "pwm_set_duty_cycle cfg fl env ci gpio duty s =
     (case ps_map s gpio of
        None \<Rightarrow>
          (case pwm_setup cfg ci \<lparr>pm_gpio = gpio, pm_frequency = 1000, pm_range = 1024, pm_mode = 0\<rparr> s of
             None \<Rightarrow> None
           | Some (Some e, s) \<Rightarrow> Some (Some e, s)
           | Some (None, s) \<Rightarrow> None)
      | Some r \<Rightarrow>
          (if pw_channel (deref r s) \<noteq> 0
           then (case gc_set_pwm_duty cfg (deref r s) duty (ps_hw s) of
                   None \<Rightarrow> None
                 | Some (p, h) \<Rightarrow> Some (None, (assign r p s)\<lparr>ps_hw := h\<rparr>))
           else soft_duty cfg fl env gpio duty r s))"

section \<open>Closing clients\<close>

definition remove_pin ::
  "gpio_config \<Rightarrow> (rat \<Rightarrow> rat) \<Rightarrow> timer_env \<Rightarrow> client_info \<Rightarrow> nat \<Rightarrow> pwm_state \<Rightarrow> pwm_state option" where
  "remove_pin cfg fl env ci gpio s =
     (case ps_map s gpio of
        None \<Rightarrow> Some s
      | Some r \<Rightarrow>
          (if \<not> client_info_match (pw_ci (deref r s)) ci then Some s
           else case pwm_set_duty_cycle cfg fl env ci gpio 0 s of
                  None \<Rightarrow> None
                | Some (_, s) \<Rightarrow>
                    let s = assign r ((deref r s)\<lparr>pw_ci := client_info_reset\<rparr>) s
                    in Some (if pw_channel (deref r s) = 0 then s\<lparr>ps_map := (ps_map s)(gpio := None)\<rparr> else s)))"

fun remove_pins ::
  "gpio_config \<Rightarrow> (rat \<Rightarrow> rat) \<Rightarrow> timer_env \<Rightarrow> client_info \<Rightarrow> nat list \<Rightarrow> pwm_state \<Rightarrow> pwm_state option" where
  "remove_pins cfg fl env ci [] s = Some s"
| "remove_pins cfg fl env ci (g # gs) s =
     (case remove_pin cfg fl env ci g s of None \<Rightarrow> None | Some s \<Rightarrow> remove_pins cfg fl env ci gs s)"

definition pwm_remove_client ::
  "gpio_config \<Rightarrow> (rat \<Rightarrow> rat) \<Rightarrow> timer_env \<Rightarrow> client_info \<Rightarrow> pwm_state \<Rightarrow> pwm_state option" where
  "pwm_remove_client cfg fl env ci s = remove_pins cfg fl env ci [0..<RPI_GPIO_NUM] s"

end
