(* ===== verification/GpioMgr.thy ===== *)
theory GpioMgr
  imports CText GpioEvents GpioPwm
begin

text \<open>
  src/src/rpi-gpio/resmgr/main.c: the resource manager itself. It publishes a directory with one node
  for each of the 28 pins, read and written as text, and the node \<open>msg\<close>, which takes structured
  messages for any pin. The resource manager library of QNX (\<open>iofunc_*\<close>, \<open>resmgr_*\<close>) is outside the
  source: the results of its permission checks are arguments. A pass of the interrupt thread and a
  timer interrupt are the operations of event.c and pwm.c on the manager's state. None stands for
  undefined behaviour. Privileges and the dispatch loop of \<open>main\<close> are not modelled.
\<close>

unbundle bit_operations_syntax

section \<open>State\<close>

text \<open>One chip, the event table and the PWM structures; the parts refer to the chip in \<open>gm_hw\<close>.\<close>

record gpio_mgr =
  gm_hw :: hw
  gm_events :: events
  gm_pwm :: pwm_state

definition with_events :: "(events \<Rightarrow> 'r \<times> events) \<Rightarrow> gpio_mgr \<Rightarrow> 'r \<times> gpio_mgr" where
  "with_events f m =
     (let (r, s) = f ((gm_events m)\<lparr>ev_hw := gm_hw m\<rparr>) in (r, m\<lparr>gm_events := s, gm_hw := ev_hw s\<rparr>))"

definition with_pwm :: "(pwm_state \<Rightarrow> ('r \<times> pwm_state) option) \<Rightarrow> gpio_mgr \<Rightarrow> ('r \<times> gpio_mgr) option" where
  "with_pwm f m =
     (case f ((gm_pwm m)\<lparr>ps_hw := gm_hw m\<rparr>) of
        None \<Rightarrow> None
      | Some (r, s) \<Rightarrow> Some (r, m\<lparr>gm_pwm := s, gm_hw := ps_hw s\<rparr>))"

definition with_chip :: "(hw \<Rightarrow> hw) \<Rightarrow> gpio_mgr \<Rightarrow> gpio_mgr" where
  "with_chip f m = m\<lparr>gm_hw := f (gm_hw m)\<rparr>"

section \<open>Nodes\<close>

datatype node = Directory | PinNode nat | MsgNode

definition gpio_entries :: "(string \<times> node) list" where
  "gpio_entries = map (\<lambda>i. (dec i, PinNode i)) [0..<RPI_GPIO_NUM] @ [(''msg'', MsgNode)]"

definition strncmp_eq :: "nat \<Rightarrow> string \<Rightarrow> string \<Rightarrow> bool" where
  "strncmp_eq n a b \<longleftrightarrow> take n (cstr a @ [NUL]) = take n (cstr b @ [NUL])"

text \<open>\<open>open_gpio\<close> up to the library's default: the node an open refers to.\<close>

definition open_gpio :: "string \<Rightarrow> nat \<Rightarrow> errno + node" where
  "open_gpio path path_len =
     (if cstr path = [] then Inr Directory
      else case find (\<lambda>e. strncmp_eq path_len path (fst e)) gpio_entries of
             Some e \<Rightarrow> Inr (snd e)
           | None \<Rightarrow> Inl ENOENT)"

text \<open>The open control block.\<close>

record ocb =
  oc_node :: node
  oc_offset :: nat
  oc_rd :: bool
  oc_wr :: bool

section \<open>Reading the directory\<close>

text \<open>
  \<open>hdr\<close> is the size of a record's fixed part, \<open>rec_len\<close> the size of the whole record for a name of
  a given length, which the system's headers define (it depends on whether extra data is wanted).
\<close>

fun read_entries ::
  "nat \<Rightarrow> (nat \<Rightarrow> nat) \<Rightarrow> nat \<Rightarrow> nat \<Rightarrow> nat \<Rightarrow> nat \<Rightarrow> (string \<times> node) list \<Rightarrow> (nat \<times> string) list \<Rightarrow> (nat \<times> string) list \<times> nat" where
  "read_entries hdr rec_len max_len from offset len [] acc = (acc, offset)"
| "read_entries hdr rec_len max_len from offset len (e # es) acc =
     (if offset < from then read_entries hdr rec_len max_len from (Suc offset) len es acc
      else if len + hdr > max_len then (acc, offset)
      else let n = rec_len (length (fst e))
      in if len + n > max_len then (acc, offset)
      else read_entries hdr rec_len max_len from (Suc offset) (len + n) es (acc @ [(offset, fst e)]))"

definition read_directory ::
  "nat \<Rightarrow> (nat \<Rightarrow> nat) \<Rightarrow> nat \<Rightarrow> nat \<Rightarrow> ocb \<Rightarrow> (nat \<times> string) list \<times> ocb" where
  "read_directory hdr rec_len nbytes room o1 =
     (let max_len = (if nbytes > room then room else nbytes);
          (recs, offset) = read_entries hdr rec_len max_len (oc_offset o1) 0 0 gpio_entries []
      in (recs, o1\<lparr>oc_offset := offset\<rparr>))"

section \<open>Reading and writing a pin as text\<close>

datatype reply = Fail errno | Bytes string | Records "(nat \<times> string) list" | Written nat

text \<open>\<open>verify\<close> is the answer of \<open>iofunc_read_verify\<close>.\<close>

definition read_gpio ::
  "gpio_config \<Rightarrow> errno option \<Rightarrow> nat \<Rightarrow> (nat \<Rightarrow> nat) \<Rightarrow> nat \<Rightarrow> nat \<Rightarrow> ocb \<Rightarrow> gpio_mgr \<Rightarrow> reply \<times> ocb" where
  "read_gpio cfg verify hdr rec_len nbytes room o1 m =
     (case verify of
        Some e \<Rightarrow> (Fail e, o1)
      | None \<Rightarrow>
          (case oc_node o1 of
             Directory \<Rightarrow> (let (recs, o1) = read_directory hdr rec_len nbytes room o1 in (Records recs, o1))
           | MsgNode \<Rightarrow> (Fail ENXIO, o1)
           | PinNode g \<Rightarrow>
               (if gc_get_select cfg g (gm_hw m) AND 1 \<noteq> 0 then (Fail ENXIO, o1)
                else if nbytes = 0 then (Bytes [], o1)
                else if oc_offset o1 \<noteq> 0 then (Bytes [], o1)
                else (Bytes (if gc_read cfg g (gm_hw m) \<noteq> 0 then ''1'' else ''0''), o1\<lparr>oc_offset := 1\<rparr>))))"

text \<open>The command of a write: at most 15 bytes, less a newline at the end.\<close>

definition write_command :: "string \<Rightarrow> string" where
  "write_command data = cstr (if last data = NEWLINE then butlast data else data)"

definition write_gpio :: "gpio_config \<Rightarrow> errno option \<Rightarrow> string \<Rightarrow> ocb \<Rightarrow> gpio_mgr \<Rightarrow> (reply \<times> gpio_mgr) option" where
  "write_gpio cfg verify data o1 m =
     (case verify of
        Some e \<Rightarrow> Some (Fail e, m)
      | None \<Rightarrow>
          (case oc_node o1 of
             Directory \<Rightarrow> None
           | MsgNode \<Rightarrow> Some (Fail ENXIO, m)
           | PinNode g \<Rightarrow>
               (if length data > 15 then Some (Fail EOVERFLOW, m)
                else if data = [] then Some (Written 0, m)
                else let cmd = write_command data;
                         output = gc_get_select cfg g (gm_hw m) AND 1 \<noteq> 0
                in if cmd = ''out'' then Some (Written (length data), with_chip (gc_set_select cfg g RPI_GPIO_FUNC_OUT) m)
                else if cmd = ''in'' then Some (Written (length data), with_chip (gc_set_select cfg g RPI_GPIO_FUNC_IN) m)
                else if cmd = ''on'' then
                  (if output then Some (Written (length data), with_chip (gc_set cfg g) m) else Some (Fail ENXIO, m))
                else if cmd = ''off'' then
                  (if output then Some (Written (length data), with_chip (gc_clear cfg g) m) else Some (Fail ENXIO, m))
                else Some (Written (length data), m))))"

section \<open>Structured messages\<close>

abbreviation (input) RPI_GPIO_SET_SELECT :: nat where "RPI_GPIO_SET_SELECT \<equiv> 0"
abbreviation (input) RPI_GPIO_GET_SELECT :: nat where "RPI_GPIO_GET_SELECT \<equiv> 1"
abbreviation (input) RPI_GPIO_WRITE :: nat where "RPI_GPIO_WRITE \<equiv> 2"
abbreviation (input) RPI_GPIO_READ :: nat where "RPI_GPIO_READ \<equiv> 3"
abbreviation (input) RPI_GPIO_ADD_EVENT :: nat where "RPI_GPIO_ADD_EVENT \<equiv> 4"
abbreviation (input) RPI_GPIO_PWM_SETUP :: nat where "RPI_GPIO_PWM_SETUP \<equiv> 5"
abbreviation (input) RPI_GPIO_PWM_DUTY :: nat where "RPI_GPIO_PWM_DUTY \<equiv> 6"
abbreviation (input) RPI_GPIO_PUD :: nat where "RPI_GPIO_PUD \<equiv> 7"

text \<open>
  A received message: the identifier of the manager it is meant for, its position in a combined
  message, subtype and size, then the fields of the three message types, which share their layout:
  the word after the pin is a value, a detection mask or a frequency.
\<close>

record io_msg =
  im_ours :: bool
  im_offset :: nat
  im_subtype :: nat
  im_size :: nat
  im_gpio :: u32
  im_word :: u32
  im_range :: u32
  im_mode :: u32
  im_event :: sigevent
  im_match :: u32

text \<open>Sizes of \<open>rpi_gpio_msg_t\<close>, \<open>rpi_gpio_pwm_t\<close>, and of \<open>rpi_gpio_event_t\<close> given that of \<open>sigevent\<close>.\<close>

definition min_size :: "nat \<Rightarrow> nat \<Rightarrow> nat" where
  "min_size sigevent_size subtype =
     (if subtype = RPI_GPIO_ADD_EVENT then 24 + sigevent_size
      else if subtype = RPI_GPIO_PWM_SETUP then 24 else 16)"

datatype msg_reply = Refused errno | Done | Value u32

definition of_rc :: "errno option \<Rightarrow> msg_reply" where
  "of_rc rc = (case rc of None \<Rightarrow> Done | Some e \<Rightarrow> Refused e)"

text \<open>The part of \<open>msg_gpio\<close> before the switch: the error a message is refused with, if any.\<close>

definition msg_check :: "nat \<Rightarrow> io_msg \<Rightarrow> ocb \<Rightarrow> errno option" where
  "msg_check sigevent_size msg o1 =
     (if \<not> im_ours msg then Some EBADMSG
      else if im_offset msg \<noteq> 0 then Some EBADMSG
      else if (im_subtype msg = RPI_GPIO_GET_SELECT \<or> im_subtype msg = RPI_GPIO_READ) \<and> \<not> oc_rd o1 then Some EPERM
      else if \<not> (im_subtype msg = RPI_GPIO_GET_SELECT \<or> im_subtype msg = RPI_GPIO_READ) \<and> \<not> oc_wr o1 then Some EPERM
      else if im_size msg < min_size sigevent_size (im_subtype msg) then Some EBADMSG
      else if unat (im_gpio msg) \<ge> RPI_GPIO_NUM then Some ERANGE
      else None)"

text \<open>The switch.\<close>

definition msg_act ::
  "gpio_config \<Rightarrow> (rat \<Rightarrow> rat) \<Rightarrow> timer_env \<Rightarrow> client_info \<Rightarrow> io_msg \<Rightarrow> gpio_mgr \<Rightarrow> (msg_reply \<times> gpio_mgr) option" where
  "msg_act cfg fl env ci msg m =
     (let g = unat (im_gpio msg); v = im_word msg; sub = im_subtype msg
      in if sub = RPI_GPIO_SET_SELECT then
           (if v > gc_max_funcs cfg then Some (Refused ERANGE, m)
            else Some (Value (gc_get_select cfg g (gm_hw m)), with_chip (gc_set_select cfg g v) m))
         else if sub = RPI_GPIO_GET_SELECT then Some (Value (gc_get_select cfg g (gm_hw m)), m)
         else if sub = RPI_GPIO_WRITE then
           (if gc_get_select cfg g (gm_hw m) = RPI_GPIO_FUNC_OUT
            then Some (Done, with_chip (if v \<noteq> 0 then gc_set cfg g else gc_clear cfg g) m)
            else Some (Refused ENXIO, m))
         else if sub = RPI_GPIO_READ then
           (if gc_get_select cfg g (gm_hw m) AND 1 = 0 then Some (Value (gc_read cfg g (gm_hw m)), m)
            else Some (Refused ENXIO, m))
         else if sub = RPI_GPIO_ADD_EVENT then
           (let (rc, m) = with_events (event_add cfg ci
              \<lparr>em_gpio = g, em_detect = v, em_event = im_event msg, em_match = im_match msg\<rparr>) m in Some (of_rc rc, m))
         else if sub = RPI_GPIO_PWM_SETUP then
           map_option (apfst of_rc) (with_pwm (pwm_setup cfg ci
              \<lparr>pm_gpio = g, pm_frequency = v, pm_range = im_range msg, pm_mode = im_mode msg\<rparr>) m)
         else if sub = RPI_GPIO_PWM_DUTY then
           map_option (apfst of_rc) (with_pwm (pwm_set_duty_cycle cfg fl env ci g v) m)
         else if sub = RPI_GPIO_PUD then
           (let (ok, h) = gc_set_pud cfg g v (gm_hw m)
            in Some (if ok then Done else Refused EINVAL, m\<lparr>gm_hw := h\<rparr>))
         else Some (Refused EINVAL, m))"

text \<open>A message on the directory passes the checks and then reads a node's pin from the wrong structure.\<close>

definition msg_gpio ::
  "gpio_config \<Rightarrow> (rat \<Rightarrow> rat) \<Rightarrow> timer_env \<Rightarrow> nat \<Rightarrow> client_info \<Rightarrow> io_msg \<Rightarrow> ocb \<Rightarrow> gpio_mgr \<Rightarrow> (msg_reply \<times> gpio_mgr) option" where
  "msg_gpio cfg fl env sigevent_size ci msg o1 m =
     (case msg_check sigevent_size msg o1 of
        Some e \<Rightarrow> Some (Refused e, m)
      | None \<Rightarrow>
          (case oc_node o1 of
             Directory \<Rightarrow> None
           | PinNode g \<Rightarrow> Some (Refused ENXIO, m)
           | MsgNode \<Rightarrow> msg_act cfg fl env ci msg m))"

definition close_gpio ::
  "gpio_config \<Rightarrow> (rat \<Rightarrow> rat) \<Rightarrow> timer_env \<Rightarrow> client_info \<Rightarrow> gpio_mgr \<Rightarrow> gpio_mgr option" where
  "close_gpio cfg fl env ci m =
     (let (_, m) = with_events (\<lambda>s. ((), event_remove_client cfg ci s)) m
      in map_option snd (with_pwm (\<lambda>s. map_option (Pair ()) (pwm_remove_client cfg fl env ci s)) m))"

section \<open>Starting\<close>

text \<open>\<open>forced\<close> is the environment variable, \<open>uname\<close> the machine's name, \<open>buf_len\<close> that of its buffer.\<close>

definition get_rpi_version :: "nat \<Rightarrow> string option \<Rightarrow> nat \<Rightarrow> string option \<Rightarrow> rpi_version option" where
  "get_rpi_version base_paddr forced buf_len uname =
     (if base_paddr = 0x3f000000 then Some RPI_VER_3
      else if base_paddr = 0xfe000000 then Some RPI_VER_4
      else if base_paddr = 0x1f000d0000 then Some RPI_VER_5
      else case (case forced of Some f \<Rightarrow> Some (bounded_copy buf_len f) | None \<Rightarrow> uname) of
             None \<Rightarrow> None
           | Some machine \<Rightarrow>
               (if machine \<in> {''RaspberryPi3B'', ''RaspberryPiCM3'', ''RaspberryPi3B+'', ''RaspberryPi3A+''} then Some RPI_VER_3
                else if machine \<in> {''RaspberryPi4B'', ''RaspberryPi400'', ''RaspberryPiCM4'', ''RaspberryPiCM4S''} then Some RPI_VER_4
                else if machine \<in> {''RaspberryPi5'', ''RaspberryPiCM5'', ''RaspberryPiCM5Lite'', ''RaspberryPi500''} then Some RPI_VER_5
                else None))"

text \<open>The configuration \<open>main\<close> selects; \<open>version\<close> is the option \<open>-r\<close>, 0 when absent.\<close>

definition select_config :: "int \<Rightarrow> nat \<Rightarrow> string option \<Rightarrow> nat \<Rightarrow> string option \<Rightarrow> gpio_config option" where
  "select_config version base_paddr forced buf_len uname =
     (let v = (if version \<noteq> 0
               then (if version = 3 then Some RPI_VER_3 else if version = 4 then Some RPI_VER_4
                     else if version = 5 then Some RPI_VER_5 else None)
               else get_rpi_version base_paddr forced buf_len uname)
      in case v of
           Some RPI_VER_5 \<Rightarrow> Some gpio_config_rpi5
         | Some RPI_VER_4 \<Rightarrow> Some gpio_config_rpi4
         | Some RPI_VER_3 \<Rightarrow> Some gpio_config_rpi3
         | _ \<Rightarrow> None)"

definition gpio_mgr_start :: "gpio_config \<Rightarrow> hw \<Rightarrow> gpio_mgr" where
  "gpio_mgr_start cfg h =
     (let s = snd (event_init cfg True True h)
      in \<lparr>gm_hw = ev_hw s, gm_events = s, gm_pwm = pwm_init cfg (ev_hw s)\<rparr>)"

end
