(* ===== verification/GpioClient.thy ===== *)
theory GpioClient
  imports GpioMgr
begin

text \<open>
  src/src/giga_spi_8adc/rpi_gpio.c: the client side of the GPIO resource manager. A call opens the
  node \<open>msg\<close> once, builds one message and sends it; the manager of GpioMgr answers. The record
  \<open>server\<close> holds what the answer depends on besides the manager's state: the chip, the rounding,
  the timer, the size of an event and the identity the message layer gives this client. What
  \<open>open\<close>, \<open>close\<close> and the registration of an event return are arguments. The descriptor is kept
  after it was closed, as in the code; sending on it then fails.
\<close>

section \<open>The connection\<close>

abbreviation (input) GPIO_SUCCESS :: int where "GPIO_SUCCESS \<equiv> 0"
abbreviation (input) GPIO_ERROR_NOT_CONNECTED :: int where "GPIO_ERROR_NOT_CONNECTED \<equiv> -1"
abbreviation (input) GPIO_ERROR_MSG_NOT_SENT :: int where "GPIO_ERROR_MSG_NOT_SENT \<equiv> -2"
abbreviation (input) GPIO_ERROR_MSG_EVENT_NOT_REGISTERED :: int where "GPIO_ERROR_MSG_EVENT_NOT_REGISTERED \<equiv> -3"
abbreviation (input) GPIO_ERROR_INPUT_OUT_OF_RANGE :: int where "GPIO_ERROR_INPUT_OUT_OF_RANGE \<equiv> -4"
abbreviation (input) GPIO_ERROR_CLEANING_UP :: int where "GPIO_ERROR_CLEANING_UP \<equiv> -5"

abbreviation (input) GPIO_COUNT :: int where "GPIO_COUNT \<equiv> 28"
abbreviation (input) GPIO_IN :: u32 where "GPIO_IN \<equiv> 0"
abbreviation (input) GPIO_OUT :: u32 where "GPIO_OUT \<equiv> 1"
abbreviation (input) GPIO_PUD_OFF :: u32 where "GPIO_PUD_OFF \<equiv> 0"
abbreviation (input) GPIO_PUD_UP :: u32 where "GPIO_PUD_UP \<equiv> 1"
abbreviation (input) GPIO_PUD_DOWN :: u32 where "GPIO_PUD_DOWN \<equiv> 2"
abbreviation (input) GPIO_LOW :: u32 where "GPIO_LOW \<equiv> 4"
abbreviation (input) GPIO_HIGH :: u32 where "GPIO_HIGH \<equiv> 8"
abbreviation (input) GPIO_RISING :: u32 where "GPIO_RISING \<equiv> 1"
abbreviation (input) GPIO_FALLING :: u32 where "GPIO_FALLING \<equiv> 2"
abbreviation (input) GPIO_PWM_MODE_PWM :: u32 where "GPIO_PWM_MODE_PWM \<equiv> 0"
abbreviation (input) GPIO_PWM_MODE_MS :: u32 where "GPIO_PWM_MODE_MS \<equiv> 1"

record server =
  sv_cfg :: gpio_config
  sv_fl :: "rat \<Rightarrow> rat"
  sv_env :: timer_env
  sv_event_size :: nat
  sv_ci :: client_info

text \<open>\<open>gpio_fd\<close>, and whether the descriptor is still open.\<close>

record gpio_client =
  cl_fd :: int
  cl_live :: bool

definition gpio_client_start :: gpio_client where
  "gpio_client_start = \<lparr>cl_fd = -1, cl_live = False\<rparr>"

definition gpio_msg_connect :: "int \<Rightarrow> gpio_client \<Rightarrow> int \<times> gpio_client" where
  "gpio_msg_connect opened_fd c =
     (if cl_fd c = -1
      then let c = \<lparr>cl_fd = opened_fd, cl_live = opened_fd \<noteq> -1\<rparr>
           in (if cl_fd c = -1 then GPIO_ERROR_NOT_CONNECTED else GPIO_SUCCESS, c)
      else (GPIO_SUCCESS, c))"

definition client_ocb :: ocb where
  "client_ocb = \<lparr>oc_node = MsgNode, oc_offset = 0, oc_rd = True, oc_wr = True\<rparr>"

lemma client_node: "open_gpio ''msg'' 4 = Inr (oc_node client_ocb)"
  by code_simp

text \<open>Sending: None when the call fails, otherwise the value the reply carries, if any.\<close>

definition MsgSend :: "server \<Rightarrow> io_msg \<Rightarrow> gpio_client \<Rightarrow> gpio_mgr \<Rightarrow> (u32 option option \<times> gpio_mgr) option" where
  "MsgSend sv msg c m =
     (if \<not> cl_live c then Some (None, m)
      else map_option (apfst (\<lambda>r. case r of Refused e \<Rightarrow> None | Done \<Rightarrow> Some None | Value v \<Rightarrow> Some (Some v)))
             (msg_gpio (sv_cfg sv) (sv_fl sv) (sv_env sv) (sv_event_size sv) (sv_ci sv) msg client_ocb m))"

definition gpio_send_msg :: "server \<Rightarrow> io_msg \<Rightarrow> gpio_client \<Rightarrow> gpio_mgr \<Rightarrow> (int \<times> gpio_mgr) option" where
  "gpio_send_msg sv msg c m =
     map_option (apfst (\<lambda>r. case r of None \<Rightarrow> GPIO_ERROR_MSG_NOT_SENT | Some _ \<Rightarrow> GPIO_SUCCESS)) (MsgSend sv msg c m)"

text \<open>The reply overwrites the value of the message.\<close>

definition gpio_send_receive_msg ::
  "server \<Rightarrow> io_msg \<Rightarrow> gpio_client \<Rightarrow> gpio_mgr \<Rightarrow> (int \<times> u32 \<times> gpio_mgr) option" where
  "gpio_send_receive_msg sv msg c m =
     map_option (\<lambda>(r, m). case r of None \<Rightarrow> (GPIO_ERROR_MSG_NOT_SENT, im_word msg, m)
                             | Some None \<Rightarrow> (GPIO_SUCCESS, im_word msg, m)
                             | Some (Some v) \<Rightarrow> (GPIO_SUCCESS, v, m)) (MsgSend sv msg c m)"

definition rpi_gpio_cleanup :: "bool \<Rightarrow> gpio_client \<Rightarrow> int \<times> gpio_client" where
  "rpi_gpio_cleanup close_ok c =
     (if cl_fd c \<noteq> -1
      then if close_ok \<and> cl_live c then (GPIO_SUCCESS, c\<lparr>cl_live := False\<rparr>) else (GPIO_ERROR_CLEANING_UP, c)
      else (GPIO_SUCCESS, c))"

section \<open>The calls\<close>

definition plain_msg :: "nat \<Rightarrow> int \<Rightarrow> u32 \<Rightarrow> io_msg" where
  "plain_msg subtype pin v =
     \<lparr>im_ours = True, im_offset = 0, im_subtype = subtype, im_size = 16, im_gpio = word_of_int pin, im_word = v,
      im_range = 0, im_mode = 0, im_event = \<lparr>se_notify = 0, se_value = 0\<rparr>, im_match = 0\<rparr>"

type_synonym 'r gpio_call = "gpio_client \<times> gpio_mgr \<Rightarrow> ('r \<times> gpio_client \<times> gpio_mgr) option"

text \<open>The connection and the check of the pin every call starts with; \<open>fail\<close> is its error result.\<close>

definition on_pin :: "int \<Rightarrow> int \<Rightarrow> (int \<Rightarrow> 'r) \<Rightarrow> 'r gpio_call \<Rightarrow> 'r gpio_call" where
  "on_pin opened_fd pin fail k = (\<lambda>(c, m).
     let (status, c) = gpio_msg_connect opened_fd c
     in if status \<noteq> 0 then Some (fail GPIO_ERROR_NOT_CONNECTED, c, m)
        else if pin < 0 \<or> pin \<ge> GPIO_COUNT then Some (fail GPIO_ERROR_INPUT_OUT_OF_RANGE, c, m)
        else k (c, m))"

definition send :: "server \<Rightarrow> io_msg \<Rightarrow> int gpio_call" where
  "send sv msg = (\<lambda>(c, m).
     map_option (\<lambda>(status, m). (if status \<noteq> 0 then GPIO_ERROR_MSG_NOT_SENT else GPIO_SUCCESS, c, m)) (gpio_send_msg sv msg c m))"

definition rpi_gpio_setup :: "server \<Rightarrow> int \<Rightarrow> int \<Rightarrow> u32 \<Rightarrow> int gpio_call" where
  "rpi_gpio_setup sv opened_fd pin configuration = on_pin opened_fd pin id (\<lambda>(c, m).
     if configuration = GPIO_IN then send sv (plain_msg RPI_GPIO_SET_SELECT pin RPI_GPIO_FUNC_IN) (c, m)
     else if configuration = GPIO_OUT then send sv (plain_msg RPI_GPIO_SET_SELECT pin RPI_GPIO_FUNC_OUT) (c, m)
     else Some (GPIO_ERROR_INPUT_OUT_OF_RANGE, c, m))"

definition rpi_gpio_setup_pull :: "server \<Rightarrow> int \<Rightarrow> int \<Rightarrow> u32 \<Rightarrow> u32 \<Rightarrow> int gpio_call" where
  "rpi_gpio_setup_pull sv opened_fd pin configuration direction cm =
     (case rpi_gpio_setup sv opened_fd pin configuration cm of
        None \<Rightarrow> None
      | Some (status, c, m) \<Rightarrow>
          if status \<noteq> 0 then Some (GPIO_ERROR_NOT_CONNECTED, c, m)
          else if pin < 0 \<or> pin \<ge> GPIO_COUNT then Some (GPIO_ERROR_INPUT_OUT_OF_RANGE, c, m)
          else if direction = GPIO_PUD_OFF then send sv (plain_msg RPI_GPIO_PUD pin RPI_GPIO_PUD_OFF) (c, m)
          else if direction = GPIO_PUD_UP then send sv (plain_msg RPI_GPIO_PUD pin RPI_GPIO_PUD_UP) (c, m)
          else if direction = GPIO_PUD_DOWN then send sv (plain_msg RPI_GPIO_PUD pin RPI_GPIO_PUD_DOWN) (c, m)
          else Some (GPIO_ERROR_INPUT_OUT_OF_RANGE, c, m))"

text \<open>The two queries return the status and what they store through their pointer, if anything.\<close>

definition rpi_gpio_get_setup :: "server \<Rightarrow> int \<Rightarrow> int \<Rightarrow> (int \<times> u32 option) gpio_call" where
  "rpi_gpio_get_setup sv opened_fd pin = on_pin opened_fd pin (\<lambda>e. (e, None)) (\<lambda>(c, m).
     map_option (\<lambda>(status, v, m).
         (if status \<noteq> 0 then (GPIO_ERROR_MSG_NOT_SENT, None)
          else if v = RPI_GPIO_FUNC_IN then (GPIO_SUCCESS, Some GPIO_IN)
          else if v = RPI_GPIO_FUNC_OUT then (GPIO_SUCCESS, Some GPIO_OUT)
          else (GPIO_ERROR_INPUT_OUT_OF_RANGE, None), c, m))
       (gpio_send_receive_msg sv (plain_msg RPI_GPIO_GET_SELECT pin 0) c m))"

definition rpi_gpio_output :: "server \<Rightarrow> int \<Rightarrow> int \<Rightarrow> u32 \<Rightarrow> int gpio_call" where
  "rpi_gpio_output sv opened_fd pin level = on_pin opened_fd pin id (\<lambda>(c, m).
     if level = GPIO_LOW then send sv (plain_msg RPI_GPIO_WRITE pin 0) (c, m)
     else if level = GPIO_HIGH then send sv (plain_msg RPI_GPIO_WRITE pin 1) (c, m)
     else Some (GPIO_ERROR_INPUT_OUT_OF_RANGE, c, m))"

definition rpi_gpio_input :: "server \<Rightarrow> int \<Rightarrow> int \<Rightarrow> (int \<times> u32 option) gpio_call" where
  "rpi_gpio_input sv opened_fd pin = on_pin opened_fd pin (\<lambda>e. (e, None)) (\<lambda>(c, m).
     map_option (\<lambda>(status, v, m).
         (if status \<noteq> 0 then (GPIO_ERROR_MSG_NOT_SENT, None)
          else if v = 0 then (GPIO_SUCCESS, Some GPIO_LOW)
          else if v = 1 then (GPIO_SUCCESS, Some GPIO_HIGH)
          else (GPIO_ERROR_INPUT_OUT_OF_RANGE, None), c, m))
       (gpio_send_receive_msg sv (plain_msg RPI_GPIO_READ pin 1) c m))"

unbundle bit_operations_syntax

definition detect_mask :: "u32 \<Rightarrow> u32" where
  "detect_mask event =
     (let d = (if event AND GPIO_RISING \<noteq> 0 then RPI_EVENT_EDGE_RISING else 0);
          d = (if event AND GPIO_FALLING \<noteq> 0 then d OR RPI_EVENT_EDGE_FALLING else d);
          d = (if event AND GPIO_HIGH \<noteq> 0 then d OR RPI_EVENT_LEVEL_HIGH else d)
      in if event AND GPIO_LOW \<noteq> 0 then d OR RPI_EVENT_LEVEL_LOW else d)"

text \<open>\<open>pulse\<close> is the notification type \<open>SIGEV_PULSE\<close>; \<open>registered\<close> says whether the event could be registered.\<close>

definition rpi_gpio_add_event_detect ::
  "server \<Rightarrow> int \<Rightarrow> int \<Rightarrow> bool \<Rightarrow> int \<Rightarrow> u32 \<Rightarrow> int \<Rightarrow> int gpio_call" where
  "rpi_gpio_add_event_detect sv opened_fd pulse registered pin event event_id = on_pin opened_fd pin id (\<lambda>(c, m).
     if detect_mask event = 0 then Some (GPIO_ERROR_INPUT_OUT_OF_RANGE, c, m)
     else if \<not> cl_live c \<or> \<not> registered then Some (GPIO_ERROR_MSG_EVENT_NOT_REGISTERED, c, m)
     else send sv ((plain_msg RPI_GPIO_ADD_EVENT pin (detect_mask event))
       \<lparr>im_size := 24 + sv_event_size sv, im_event := \<lparr>se_notify = pulse, se_value = event_id\<rparr>\<rparr>) (c, m))"

definition rpi_gpio_setup_pwm :: "server \<Rightarrow> int \<Rightarrow> int \<Rightarrow> u32 \<Rightarrow> u32 \<Rightarrow> int gpio_call" where
  "rpi_gpio_setup_pwm sv opened_fd pin frequency mode = on_pin opened_fd pin id (\<lambda>(c, m).
     if mode = GPIO_PWM_MODE_PWM \<or> mode = GPIO_PWM_MODE_MS
     then send sv ((plain_msg RPI_GPIO_PWM_SETUP pin frequency)\<lparr>im_size := 24, im_range := 1024,
            im_mode := (if mode = GPIO_PWM_MODE_PWM then RPI_PWM_MODE_PWM else RPI_PWM_MODE_MS)\<rparr>) (c, m)
     else Some (GPIO_ERROR_INPUT_OUT_OF_RANGE, c, m))"

text \<open>The duty cycle's call checks its percentage, not its pin.\<close>

definition rpi_gpio_set_pwm_duty_cycle :: "server \<Rightarrow> int \<Rightarrow> int \<Rightarrow> rat \<Rightarrow> int gpio_call" where
  "rpi_gpio_set_pwm_duty_cycle sv opened_fd pin percentage = (\<lambda>(c, m).
     let (status, c) = gpio_msg_connect opened_fd c
     in if status \<noteq> 0 then Some (GPIO_ERROR_NOT_CONNECTED, c, m)
        else if percentage < 0 \<or> percentage > 100 then Some (GPIO_ERROR_INPUT_OUT_OF_RANGE, c, m)
        else send sv (plain_msg RPI_GPIO_PWM_DUTY pin (word_of_int \<lfloor>sv_fl sv (percentage * 1024 / 100)\<rfloor>)) (c, m))"

end
