(* ===== verification/GpioEventRuns.thy ===== *)
theory GpioEventRuns
  imports GpioEvents
begin

text \<open>
  What runs of the event code of the GPIO resource manager guarantee on every chip: the enabled
  detections are those of the table, every m-th detection is delivered, and what happens after a
  delivery fails. The laws of GpioEvents carry the proofs.
\<close>

unbundle bit_operations_syntax

section \<open>The enabled detections are those of the table\<close>

abbreviation entry :: "events \<Rightarrow> nat \<Rightarrow> event_entry" where
  "entry s g \<equiv> ev_table s ! g"

definition busy :: "events \<Rightarrow> main_pc \<Rightarrow> nat \<Rightarrow> bool" where
  "busy s pc g \<longleftrightarrow>
     (case pc of MIdle \<Rightarrow> False | MAdd _ msg \<Rightarrow> g = em_gpio msg | MEnable msg \<Rightarrow> g = em_gpio msg
      | MClose ci \<Rightarrow> client_info_match (ee_ci (entry s g)) ci)"

definition pc_inv :: "gpio_config \<Rightarrow> events \<Rightarrow> main_pc \<Rightarrow> bool" where
  "pc_inv cfg s pc \<longleftrightarrow>
     (case pc of
        MIdle \<Rightarrow> True
      | MAdd ci msg \<Rightarrow> em_gpio msg < 28 \<and> \<not> client_info_is_unused ci
      | MEnable msg \<Rightarrow> em_gpio msg < 28 \<and> \<not> client_info_is_unused (ee_ci (entry s (em_gpio msg)))
          \<and> ee_detect (entry s (em_gpio msg)) \<in> {0, em_detect msg}
      | MClose ci \<Rightarrow> True)"

definition pin_inv :: "gpio_config \<Rightarrow> events \<Rightarrow> main_pc \<Rightarrow> nat \<Rightarrow> bool" where
  "pin_inv cfg s pc g \<longleftrightarrow>
     (if busy s pc g \<or> client_info_is_unused (ee_ci (entry s g)) then quiet cfg g (ev_hw s)
      else ee_detect (entry s g) \<noteq> 0 \<longrightarrow> (\<forall>k<4. armed cfg k g (ev_hw s) = bit (ee_detect (entry s g)) k))"

definition event_inv :: "gpio_config \<Rightarrow> event_run \<Rightarrow> bool" where
  "event_inv cfg r \<longleftrightarrow> length (ev_table (er_ev r)) = 28 \<and> pc_inv cfg (er_ev r) (er_pc r)
     \<and> (\<forall>g<28. pin_inv cfg (er_ev r) (er_pc r) g)"

definition pass_rel :: "gpio_config \<Rightarrow> events \<Rightarrow> events \<Rightarrow> bool" where
  "pass_rel cfg s t \<longleftrightarrow> length (ev_table t) = length (ev_table s) \<and>
     (\<forall>g<28. ee_ci (entry t g) = ee_ci (entry s g) \<and> ee_detect (entry t g) \<in> {0, ee_detect (entry s g)} \<and>
        fst (pin_view cfg g (ev_hw t)) = fst (pin_view cfg g (ev_hw s)))"

lemma pass_rel_refl [simp]: "pass_rel cfg s s"
  by (simp add: pass_rel_def)

lemma pass_rel_trans [trans]: "pass_rel cfg s t \<Longrightarrow> pass_rel cfg t u \<Longrightarrow> pass_rel cfg s u"
  unfolding pass_rel_def by (metis insertE insert_iff singletonD)

lemma view_armed:
  assumes "fst (pin_view cfg g h) = fst (pin_view cfg g h')"
  shows "quiet cfg g h = quiet cfg g h'" "k < 4 \<Longrightarrow> armed cfg k g h = armed cfg k g h'"
  using assms by (auto simp: pin_view_def list_eq_iff_nth_eq)

lemma set_entry_nth: "g < length (ev_table s) \<Longrightarrow> entry (set_entry g e s) g' = (if g' = g then e else entry s g')"
  by (simp add: set_entry_def)

lemma dispatch_rel:
  assumes "g < length (ev_table s)"
  shows "pass_rel cfg s (dispatch_event cfg ok g s)" "ev_hw (dispatch_event cfg ok g s) = ev_hw s"
  using assms by (auto simp: pass_rel_def dispatch_event_def Let_def set_entry_def nth_list_update)

definition event_start :: "gpio_config \<Rightarrow> hw \<Rightarrow> event_run" where
  "event_start cfg h = \<lparr>er_pc = MIdle, er_ev = snd (event_init cfg True True h)\<rparr>"

context event_chip
begin

lemma clear_rel: "g < 28 \<Longrightarrow> pass_rel cfg s (clear_detect cfg g s)"
  by (simp add: pass_rel_def clear_detect_def clear_other)

lemma length_pass: "pass_rel cfg s t \<Longrightarrow> length (ev_table t) = length (ev_table s)"
  by (simp add: pass_rel_def)

lemma ist_pin_rel:
  assumes "g < 28" "length (ev_table s) = 28"
  shows "pass_rel cfg s (ist_pin cfg ok g s)"
proof -
  have c: "pass_rel cfg u (if b then clear_detect cfg g u else u)" for b u
    by (simp add: clear_rel assms(1))
  have d: "pass_rel cfg u (if b then dispatch_event cfg ok g u else u)" if "length (ev_table u) = 28" for b u
    using dispatch_rel(1) [of g u] assms(1) that by simp
  define s1 where "s1 = (if ee_detect (entry s g) AND 1 \<noteq> 0 \<or> ee_detect (entry s g) AND 2 \<noteq> 0 then clear_detect cfg g s else s)"
  define s2 where "s2 = (if gc_event_detected cfg g (ev_hw s) then dispatch_event cfg ok g s1 else s1)"
  have 1: "pass_rel cfg s s1"
    unfolding s1_def by (rule c)
  then have 2: "pass_rel cfg s1 s2"
    unfolding s2_def by (intro d) (simp add: length_pass assms(2))
  have "ist_pin cfg ok g s = (if ee_detect (entry s g) = 0 then s
    else if ee_detect (entry s2 g) AND 4 \<noteq> 0 \<or> ee_detect (entry s2 g) AND 8 \<noteq> 0 then clear_detect cfg g s2 else s2)"
    unfolding ist_pin_def Let_def s1_def s2_def by (rule refl)
  then show ?thesis
    using pass_rel_trans [OF 1 pass_rel_trans [OF 2 c]] by simp
qed

lemma gpio_ist_rel:
  assumes "length (ev_table s) = 28"
  shows "pass_rel cfg s (gpio_ist cfg ok s)"
proof -
  have "pass_rel cfg s (fold (ist_pin cfg ok) [0..<m] s)" if "m \<le> 28" for m
    using that
  proof (induction m)
    case (Suc m)
    then have r: "pass_rel cfg s (fold (ist_pin cfg ok) [0..<m] s)"
      by simp
    then show ?case
      using Suc.prems pass_rel_trans [OF r ist_pin_rel] by (simp add: length_pass assms)
  qed simp
  then show ?thesis
    unfolding gpio_ist_def by simp
qed

lemma pass_inv:
  assumes "pass_rel cfg s t" "length (ev_table s) = 28"
  shows "(\<forall>g<28. pin_inv cfg s pc g) \<Longrightarrow> pc_inv cfg s pc \<Longrightarrow> (\<forall>g<28. pin_inv cfg t pc g) \<and> pc_inv cfg t pc"
proof -
  have e: "ee_ci (entry t g) = ee_ci (entry s g)" "ee_detect (entry t g) = 0 \<or> ee_detect (entry t g) = ee_detect (entry s g)"
    "quiet cfg g (ev_hw t) = quiet cfg g (ev_hw s)" "k < 4 \<Longrightarrow> armed cfg k g (ev_hw t) = armed cfg k g (ev_hw s)"
    if "g < 28" for g k
    using assms(1) that by (auto simp: pass_rel_def view_armed [where h = "ev_hw t" and h' = "ev_hw s"])
  have b: "busy t pc g = busy s pc g" if "g < 28" for g
    using e(1) [OF that] by (simp add: busy_def split: main_pc.split)
  assume "\<forall>g<28. pin_inv cfg s pc g" "pc_inv cfg s pc"
  moreover from this have "pin_inv cfg t pc g" if "g < 28" for g
    using e [OF that] b [OF that] that unfolding pin_inv_def by (metis (no_types, lifting))
  moreover have "pc_inv cfg t pc"
  proof (cases pc)
    case (MEnable msg)
    then show ?thesis
      using \<open>pc_inv cfg s pc\<close> e(1,2) [of "em_gpio msg"] by (auto simp: pc_inv_def)
  qed (use \<open>pc_inv cfg s pc\<close> in \<open>simp_all add: pc_inv_def\<close>)
  ultimately show "(\<forall>g<28. pin_inv cfg t pc g) \<and> pc_inv cfg t pc"
    by blast
qed


lemma view_pin_inv:
  assumes "fst (pin_view cfg g h) = fst (pin_view cfg g (ev_hw s))" "ev_hw t = h" "entry t g = entry s g"
    "busy t pc' g = busy s pc g"
  shows "pin_inv cfg t pc' g = pin_inv cfg s pc g"
  using view_armed [OF assms(1)] assms(2-4) by (simp add: pin_inv_def)

lemma disable_fold:
  assumes "m \<le> 28"
  shows "g < 28 \<Longrightarrow> (g < m \<and> mine g \<longrightarrow> quiet cfg g (fold (\<lambda>g h. if mine g then disable_detection cfg g h else h) [0..<m] h))
    \<and> (\<not> mine g \<longrightarrow> pin_view cfg g (fold (\<lambda>g h. if mine g then disable_detection cfg g h else h) [0..<m] h) = pin_view cfg g h)"
  using assms
proof (induction m)
  case (Suc m)
  let ?h = "fold (\<lambda>g h. if mine g then disable_detection cfg g h else h) [0..<m] h"
  have other: "m \<noteq> g \<Longrightarrow> pin_view cfg g (disable_detection cfg m ?h) = pin_view cfg g ?h"
    using Suc.prems disable_other by simp
  then have other_quiet: "m \<noteq> g \<Longrightarrow> quiet cfg g (disable_detection cfg m ?h) = quiet cfg g ?h"
    by (intro view_armed(1)) simp
  show ?case
  proof (cases "m = g")
    case True
    then show ?thesis
      using Suc.IH Suc.prems disable_quiet by (auto simp: less_Suc_eq)
  next
    case False
    then show ?thesis
      using Suc.IH Suc.prems other other_quiet by (auto simp: less_Suc_eq)
  qed
qed simp

lemma main_step_inv:
  assumes inv: "event_inv cfg r" and step: "event_do cfg x r = Some r'"
    and x: "\<forall>ok. x \<noteq> Pass ok" "\<forall>g. x \<noteq> Latch g"
  shows "event_inv cfg r'"
proof -
  have len: "length (ev_table (er_ev r)) = 28" and pc: "pc_inv cfg (er_ev r) (er_pc r)"
    and pins: "g < 28 \<Longrightarrow> pin_inv cfg (er_ev r) (er_pc r) g" for g
    using inv by (auto simp: event_inv_def)
  show ?thesis
  proof (cases x)
    case (AddCall ci msg)
    have st: "er_pc r = MIdle" "em_gpio msg < 28" "\<not> client_info_is_unused ci"
      using step by (auto simp: AddCall event_do_def split: if_splits)
    show ?thesis
    proof (cases "event_add_begin cfg ci msg (er_ev r)")
      case (Pair e s)
      show ?thesis
      proof (cases e)
        case (Some x)
        then have "r' = r\<lparr>er_ev := s\<rparr>" "s = er_ev r"
          using step st Pair by (auto simp: AddCall event_do_def event_add_begin_def Let_def split: if_splits)
        then show ?thesis
          using inv by simp
      next
        case None
        then have r': "r' = \<lparr>er_pc = MAdd ci msg, er_ev = s\<rparr>"
          and s: "s = (er_ev r)\<lparr>ev_hw := disable_detection cfg (em_gpio msg) (ev_hw (er_ev r))\<rparr>"
          using step st Pair by (auto simp: AddCall event_do_def event_add_begin_def Let_def split: if_splits)
        have "pin_inv cfg s (MAdd ci msg) g" if "g < 28" for g
        proof (cases "g = em_gpio msg")
          case True
          then show ?thesis
            using disable_quiet that by (simp add: pin_inv_def busy_def s)
        next
          case False
          then have "pin_view cfg g (ev_hw s) = pin_view cfg g (ev_hw (er_ev r))"
            using disable_other st(2) that by (simp add: s)
          then have "pin_inv cfg s (MAdd ci msg) g = pin_inv cfg (er_ev r) (er_pc r) g"
            using False by (intro view_pin_inv) (auto simp: s busy_def st(1))
          then show ?thesis
            using pins [OF that] by simp
        qed
        then show ?thesis
          using st len by (simp add: event_inv_def r' pc_inv_def) (simp add: s)
      qed
    qed
  next
    case (CloseCall ci)
    have st: "er_pc r = MIdle" and r': "r' = \<lparr>er_pc = MClose ci, er_ev = event_remove_disable cfg ci (er_ev r)\<rparr>"
      using step by (auto simp: CloseCall event_do_def split: if_splits)
    let ?s = "event_remove_disable cfg ci (er_ev r)"
    have "pin_inv cfg ?s (MClose ci) g" if "g < 28" for g
    proof (cases "client_info_match (ee_ci (entry (er_ev r) g)) ci")
      case True
      then show ?thesis
        using disable_fold [of 28 g] that by (simp add: pin_inv_def busy_def event_remove_disable_def)
    next
      case False
      then have "pin_view cfg g (ev_hw ?s) = pin_view cfg g (ev_hw (er_ev r))"
        using disable_fold [of 28 g] that by (simp add: event_remove_disable_def)
      then have "pin_inv cfg ?s (MClose ci) g = pin_inv cfg (er_ev r) (er_pc r) g"
        using False by (intro view_pin_inv) (auto simp: event_remove_disable_def busy_def st)
      then show ?thesis
        using pins [OF that] by simp
    qed
    then show ?thesis
      using len by (simp add: event_inv_def r' pc_inv_def) (simp add: event_remove_disable_def)
  next
    case Continue
    show ?thesis
    proof (cases "er_pc r")
      case (MAdd ci msg)
      let ?s = "event_add_table ci msg (er_ev r)"
      have r': "r' = \<lparr>er_pc = MEnable msg, er_ev = ?s\<rparr>"
        using step by (simp add: Continue event_do_def MAdd)
      have g: "em_gpio msg < 28" "\<not> client_info_is_unused ci"
        using pc by (simp_all add: pc_inv_def MAdd)
      have e: "entry ?s g = (if g = em_gpio msg then entry ?s (em_gpio msg) else entry (er_ev r) g)" for g
        using g(1) len by (simp add: event_add_table_def set_entry_def)
      have new: "ee_ci (entry ?s (em_gpio msg)) = ci" "ee_detect (entry ?s (em_gpio msg)) = em_detect msg"
        "ev_hw ?s = ev_hw (er_ev r)" "length (ev_table ?s) = 28"
        using g(1) len by (simp_all add: event_add_table_def set_entry_def)
      have "pin_inv cfg ?s (MEnable msg) g" if "g < 28" for g
        using pins [OF that] e [of g] new by (auto simp: pin_inv_def busy_def MAdd)
      then show ?thesis
        using g new by (simp add: event_inv_def r' pc_inv_def)
    next
      case (MEnable msg)
      let ?s = "event_add_enable cfg msg (er_ev r)"
      have r': "r' = \<lparr>er_pc = MIdle, er_ev = ?s\<rparr>"
        using step by (simp add: Continue event_do_def MEnable)
      have g: "em_gpio msg < 28" "\<not> client_info_is_unused (ee_ci (entry (er_ev r) (em_gpio msg)))"
        "ee_detect (entry (er_ev r) (em_gpio msg)) \<in> {0, em_detect msg}"
        using pc by (simp_all add: pc_inv_def MEnable)
      have "quiet cfg (em_gpio msg) (ev_hw (er_ev r))"
        using pins [OF g(1)] by (simp add: pin_inv_def busy_def MEnable)
      then have "pin_inv cfg ?s MIdle (em_gpio msg)"
        using g by (auto simp: pin_inv_def busy_def event_add_enable_def enable_armed)
      moreover have "pin_inv cfg ?s MIdle g" if "g < 28" "g \<noteq> em_gpio msg" for g
      proof -
        have "pin_view cfg g (ev_hw ?s) = pin_view cfg g (ev_hw (er_ev r))"
          using enable_other g(1) that by (simp add: event_add_enable_def)
        then have "pin_inv cfg ?s MIdle g = pin_inv cfg (er_ev r) (er_pc r) g"
          using that by (intro view_pin_inv) (auto simp: event_add_enable_def busy_def MEnable)
        then show ?thesis
          using pins that by simp
      qed
      ultimately have "pin_inv cfg ?s MIdle g" if "g < 28" for g
        using that by (cases "g = em_gpio msg") simp_all
      then show ?thesis
        using len by (simp add: event_inv_def r' pc_inv_def) (simp add: event_add_enable_def)
    next
      case (MClose ci)
      let ?s = "event_remove_table ci (er_ev r)"
      have r': "r' = \<lparr>er_pc = MIdle, er_ev = ?s\<rparr>"
        using step by (simp add: Continue event_do_def MClose)
      have "pin_inv cfg ?s MIdle g" if "g < 28" for g
        using pins [OF that] len that by (auto simp: pin_inv_def busy_def event_remove_table_def MClose)
      then show ?thesis
        using len by (simp add: event_inv_def r' pc_inv_def) (simp add: event_remove_table_def)
    qed (use step in \<open>simp add: Continue event_do_def\<close>)
  qed (use x in simp_all)
qed

lemma event_do_inv:
  assumes "event_inv cfg r" "event_do cfg x r = Some r'"
  shows "event_inv cfg r'"
proof -
  have pass: "event_inv cfg (r\<lparr>er_ev := t\<rparr>)" if "pass_rel cfg (er_ev r) t" for t
    using assms(1) pass_inv [OF that, of "er_pc r"] that by (auto simp: event_inv_def pass_rel_def)
  show ?thesis
  proof (cases x)
    case (Pass ok)
    then have "r' = r\<lparr>er_ev := gpio_ist cfg ok (er_ev r)\<rparr>"
      using assms(2) by (simp add: event_do_def)
    then show ?thesis
      using pass gpio_ist_rel assms(1) by (simp add: event_inv_def)
  next
    case (Latch g)
    then have r': "r' = r\<lparr>er_ev := (er_ev r)\<lparr>ev_hw := latch cfg g (ev_hw (er_ev r))\<rparr>\<rparr>" "g < 28"
      using assms(2) by (auto simp: event_do_def Let_def split: if_splits)
    then have "pass_rel cfg (er_ev r) ((er_ev r)\<lparr>ev_hw := latch cfg g (ev_hw (er_ev r))\<rparr>)"
      by (simp add: pass_rel_def latch_view)
    then show ?thesis
      using pass r' by simp
  qed (use main_step_inv [OF assms] in simp_all)
qed

lemma event_start_inv: "event_inv cfg (event_start cfg h)"
  by (simp add: event_inv_def event_start_def event_init_def pc_inv_def pin_inv_def clear_all_quiet)

end

sublocale event_chip \<subseteq> runs: step_invariant "event_do cfg" "event_inv cfg"
  by unfold_locales (rule event_do_inv)

text \<open>On every chip and over every interleaving of registrations, closing clients, passes of the service
  thread and detections latched by the chip, from the start of the service on: whenever the main
  thread is between two calls, a pin without a client has no detection enabled, and a pin whose
  registration is active has exactly the detections enabled that its client asked for (edges and
  levels, bit by bit). The main thread programs the chip outside the mutex, so a pass may fall
  between any two phases of its calls. Clients are those the message layer can name: the reset
  value of a client structure is not one of them.\<close>

theorem enabled_detections_match:
  assumes "cfg \<in> {gpio_config_rpi3, gpio_config_rpi4, gpio_config_rpi5}"
    and "run_steps (event_do cfg) xs (event_start cfg h) = Some r"
    and "er_pc r = MIdle" "g < 28" "k < 4"
  shows "(client_info_is_unused (ee_ci (ev_table (er_ev r) ! g)) \<longrightarrow> \<not> armed cfg k g (ev_hw (er_ev r))) \<and>
    (\<not> client_info_is_unused (ee_ci (ev_table (er_ev r) ! g)) \<and> ee_detect (ev_table (er_ev r) ! g) \<noteq> 0 \<longrightarrow>
       armed cfg k g (ev_hw (er_ev r)) = bit (ee_detect (ev_table (er_ev r) ! g)) k)"
proof -
  have chip: "event_chip cfg"
    using assms(1) bcm_chip rp1_chip by blast
  have "event_inv cfg r"
    using assms(1,2) rpi3.runs.run_inv rpi4.runs.run_inv rpi5.runs.run_inv event_chip.event_start_inv [OF chip] by blast
  then show ?thesis
    using assms(3-5) event_chip.quiet_armed [OF chip] by (auto simp: event_inv_def pin_inv_def busy_def)
qed

section \<open>One pin in a pass\<close>

definition to_pin :: "nat \<Rightarrow> (int \<times> sigevent) list \<Rightarrow> int list" where
  "to_pin g tr = map fst (filter (\<lambda>e. \<bar>se_value (snd e)\<bar> = int g) tr)"

lemma to_pin_append [simp]: "to_pin g (xs @ ys) = to_pin g xs @ to_pin g ys"
  by (simp add: to_pin_def)

lemma to_pin_one [simp]: "to_pin g [e] = (if \<bar>se_value (snd e)\<bar> = int g then [fst e] else [])"
  by (simp add: to_pin_def)

definition pin_state :: "gpio_config \<Rightarrow> nat \<Rightarrow> events \<Rightarrow> event_entry \<times> bool \<times> int list" where
  "pin_state cfg g s = (entry s g, gc_event_detected cfg g (ev_hw s), to_pin g (ev_trace s))"

lemma dispatch_other:
  assumes "g' \<noteq> g" "g' < length (ev_table s)"
  shows "pin_state cfg g (dispatch_event cfg ok g' s) = pin_state cfg g s"
  using assms by (auto simp: pin_state_def dispatch_event_def Let_def set_entry_def)

context event_chip
begin

lemma clear_other_pin: "g < 28 \<Longrightarrow> g' < 28 \<Longrightarrow> g' \<noteq> g \<Longrightarrow> pin_state cfg g (clear_detect cfg g' s) = pin_state cfg g s"
  using clear_other [of g' g "ev_hw s"] by (simp add: pin_state_def clear_detect_def pin_view_def)

lemma ist_pin_other:
  assumes "g < 28" "g' < 28" "g' \<noteq> g" "length (ev_table s) = 28"
  shows "pin_state cfg g (ist_pin cfg ok g' s) = pin_state cfg g s"
proof -
  have c: "pin_state cfg g (if b then clear_detect cfg g' u else u) = pin_state cfg g u" for b u
    by (simp add: clear_other_pin assms)
  have d: "pin_state cfg g (if b then dispatch_event cfg ok g' u else u) = pin_state cfg g u"
    if "length (ev_table u) = 28" for b u
    by (simp add: dispatch_other assms that)
  have l: "length (ev_table (if b then clear_detect cfg g' u else u)) = length (ev_table u)" for b u
    by (simp add: clear_detect_def)
  show ?thesis
    unfolding ist_pin_def Let_def by (simp add: c d l assms(4) del: if_split)
qed

lemma ist_pin_length: "g < 28 \<Longrightarrow> length (ev_table s) = 28 \<Longrightarrow> length (ev_table (ist_pin cfg ok g s)) = 28"
  using ist_pin_rel [of g s ok] by (simp add: length_pass)

lemma ist_others:
  assumes "g < 28" "g \<notin> set gs" "\<forall>x \<in> set gs. x < 28" "length (ev_table s) = 28"
  shows "pin_state cfg g (fold (ist_pin cfg ok) gs s) = pin_state cfg g s \<and> length (ev_table (fold (ist_pin cfg ok) gs s)) = 28"
  using assms
proof (induction gs arbitrary: s)
  case (Cons g' gs)
  then show ?case
    using ist_pin_other [of g g' s ok] ist_pin_length [of g' s ok] by simp
qed simp

text \<open>A pass acts on one pin like the treatment of that pin alone.\<close>

lemma pass_on_pin:
  assumes "g < 28" "length (ev_table s) = 28"
  obtains u where "pin_state cfg g u = pin_state cfg g s" "length (ev_table u) = 28"
    "pin_state cfg g (gpio_ist cfg ok s) = pin_state cfg g (ist_pin cfg ok g u)"
proof -
  have split: "[0..<28] = [0..<g] @ g # [Suc g..<28]"
    using assms(1) upt_add_eq_append [of 0 g "28 - g"] by (simp add: upt_conv_Cons)
  define u where "u = fold (ist_pin cfg ok) [0..<g] s"
  have u: "pin_state cfg g u = pin_state cfg g s" "length (ev_table u) = 28"
    unfolding u_def using ist_others [of g "[0..<g]" s ok] assms by auto
  have "pin_state cfg g (gpio_ist cfg ok s) = pin_state cfg g (ist_pin cfg ok g u)"
    using ist_others [of g "[Suc g..<28]" "ist_pin cfg ok g u" ok] ist_pin_length [OF assms(1) u(2)] assms
    unfolding gpio_ist_def split by (auto simp: u_def)
  then show ?thesis
    using u that by blast
qed


end

text \<open>What a pass does to a pin whose deliveries all succeed.\<close>

definition all_ok :: "event_step \<Rightarrow> bool" where
  "all_ok x \<longleftrightarrow> (case x of Pass ok \<Rightarrow> (\<forall>c ev. ok c ev) | Latch g \<Rightarrow> True | _ \<Rightarrow> False)"

definition passes_pending :: "gpio_config \<Rightarrow> nat \<Rightarrow> event_step \<Rightarrow> event_run \<Rightarrow> nat" where
  "passes_pending cfg g x r = (case x of Pass ok \<Rightarrow> of_bool (gc_event_detected cfg g (ev_hw (er_ev r))) | _ \<Rightarrow> 0)"

fun detections :: "gpio_config \<Rightarrow> nat \<Rightarrow> event_step list \<Rightarrow> event_run \<Rightarrow> nat" where
  "detections cfg g [] r = 0"
| "detections cfg g (x # xs) r =
     (case event_do cfg x r of
        None \<Rightarrow> 0
      | Some r' \<Rightarrow> passes_pending cfg g x r + detections cfg g xs r')"

definition counted :: "nat \<Rightarrow> int \<Rightarrow> nat \<Rightarrow> int list \<Rightarrow> nat \<Rightarrow> events \<Rightarrow> bool" where
  "counted g c m base n s \<longleftrightarrow>
     length (ev_table s) = 28 \<and>
     (let e = entry s g
      in ci_rcvid (ee_ci e) = c \<and> ee_detect e \<noteq> 0 \<and> se_notify (ee_sigev e) \<noteq> SIGEV_NONE \<and> unat (ee_match e) = m \<and>
         ee_count e = of_nat n \<and> unat (ee_match_count e) = n mod m \<and>
         to_pin g (ev_trace s) = base @ replicate (n div m) c)"

lemma counted_view:
  "pin_state cfg g t = pin_state cfg g s \<Longrightarrow> length (ev_table t) = 28 \<Longrightarrow> counted g c m base n s \<Longrightarrow> counted g c m base n t"
  by (simp add: counted_def pin_state_def)

lemma counted_clear [simp]: "counted g c m base n (clear_detect cfg g s) = counted g c m base n s"
  by (simp add: counted_def clear_detect_def)

lemma dispatch_counted:
  assumes "g < 28" "0 < m" "\<And>c ev. ok c ev" "counted g c m base n s"
  shows "counted g c m base (Suc n) (dispatch_event cfg ok g s)"
proof -
  let ?e = "entry s g"
  have e: "length (ev_table s) = 28" "ci_rcvid (ee_ci ?e) = c" "ee_detect ?e \<noteq> 0" "se_notify (ee_sigev ?e) \<noteq> 0"
    "unat (ee_match ?e) = m" "ee_count ?e = of_nat n" "unat (ee_match_count ?e) = n mod m"
    "to_pin g (ev_trace s) = base @ replicate (n div m) c"
    using assms(4) by (simp_all add: counted_def Let_def)
  have m: "n mod m < m" "m < 2 ^ 32"
    using assms(2) unat_u32_less [of "ee_match ?e"] e(5) by simp_all
  then have "unat (ee_match_count ?e + 1) = Suc (n mod m)"
    using e(7) by (simp add: unat_word_ariths)
  then have less: "ee_match_count ?e + 1 < ee_match ?e \<longleftrightarrow> Suc (n mod m) < m"
    and next_count: "unat (ee_match_count ?e + 1) = Suc (n mod m)"
    using e(5) by (simp_all add: word_less_nat_alt)
  show ?thesis
  proof (cases "Suc (n mod m) < m")
    case True
    then have "Suc n mod m = Suc (n mod m)" "Suc n div m = n div m"
      by (simp_all add: mod_Suc div_Suc)
    then show ?thesis
      using True less next_count e assms(1)
      by (simp add: counted_def dispatch_event_def Let_def set_entry_nth) (simp add: set_entry_def add.commute)
  next
    case False
    then have "Suc (n mod m) = m"
      using m(1) by simp
    then have "Suc n mod m = 0" "Suc n div m = Suc (n div m)"
      by (simp_all add: mod_Suc div_Suc)
    then show ?thesis
      using False less e assms(1,3)
      by (simp add: counted_def dispatch_event_def Let_def set_entry_nth replicate_append_same) (simp add: set_entry_def add.commute replicate_append_same)
  qed
qed


lemma ist_pin_counted:
  assumes "g < 28" "0 < m" "\<And>c ev. ok c ev" "counted g c m base n s"
  shows "counted g c m base (of_bool (gc_event_detected cfg g (ev_hw s)) + n) (ist_pin cfg ok g s)"
proof -
  have d: "ee_detect (entry s g) \<noteq> 0"
    using assms(4) by (simp add: counted_def Let_def)
  have c: "counted g c m base k (if b then clear_detect cfg g u else u) = counted g c m base k u" for b k u
    by simp
  define s1 where "s1 = (if ee_detect (entry s g) AND 1 \<noteq> 0 \<or> ee_detect (entry s g) AND 2 \<noteq> 0 then clear_detect cfg g s else s)"
  define s2 where "s2 = (if gc_event_detected cfg g (ev_hw s) then dispatch_event cfg ok g s1 else s1)"
  have "counted g c m base n s1"
    unfolding s1_def c by (rule assms(4))
  then have 2: "counted g c m base (of_bool (gc_event_detected cfg g (ev_hw s)) + n) s2"
    unfolding s2_def using dispatch_counted [OF assms(1-3)] by simp
  have "ist_pin cfg ok g s =
    (if ee_detect (entry s2 g) AND 4 \<noteq> 0 \<or> ee_detect (entry s2 g) AND 8 \<noteq> 0 then clear_detect cfg g s2 else s2)"
    using d unfolding ist_pin_def Let_def s1_def s2_def by simp
  then show ?thesis
    using 2 by (simp add: c del: if_split)
qed

context event_chip
begin

lemma pass_counted:
  assumes "g < 28" "0 < m" "\<And>c ev. ok c ev" "counted g c m base n s"
  shows "counted g c m base (of_bool (gc_event_detected cfg g (ev_hw s)) + n) (gpio_ist cfg ok s)"
proof -
  have len: "length (ev_table s) = 28"
    using assms(4) by (simp add: counted_def)
  obtain u where u: "pin_state cfg g u = pin_state cfg g s" "length (ev_table u) = 28"
    "pin_state cfg g (gpio_ist cfg ok s) = pin_state cfg g (ist_pin cfg ok g u)"
    using pass_on_pin [OF assms(1) len] by blast
  have "counted g c m base (of_bool (gc_event_detected cfg g (ev_hw u)) + n) (ist_pin cfg ok g u)"
    by (rule ist_pin_counted [OF assms(1-3) counted_view [OF u(1,2) assms(4)]])
  moreover have "gc_event_detected cfg g (ev_hw u) = gc_event_detected cfg g (ev_hw s)"
    using u(1) by (simp add: pin_state_def)
  moreover have "length (ev_table (gpio_ist cfg ok s)) = 28"
    using length_pass [OF gpio_ist_rel] len by simp
  ultimately show ?thesis
    using counted_view u(3) by simp
qed

lemma run_counted:
  assumes "g < 28" "0 < m"
  shows "counted g c m base n (er_ev r) \<Longrightarrow> \<forall>x \<in> set xs. all_ok x \<Longrightarrow> run_steps (event_do cfg) xs r = Some t \<Longrightarrow>
    counted g c m base (detections cfg g xs r + n) (er_ev t)"
proof (induction xs arbitrary: r n)
  case (Cons x xs)
  then obtain r' where r': "event_do cfg x r = Some r'" "run_steps (event_do cfg) xs r' = Some t"
    by (auto split: option.splits)
  have one: "counted g c m base (passes_pending cfg g x r + n) (er_ev r')"
  proof (cases x)
    case (Pass ok)
    then have "er_ev r' = gpio_ist cfg ok (er_ev r)" "\<And>c ev. ok c ev"
      using r'(1) Cons.prems(2) by (auto simp: event_do_def all_ok_def)
    then show ?thesis
      using pass_counted [OF assms _ Cons.prems(1), of ok] by (simp add: Pass passes_pending_def)
  next
    case (Latch g')
    then have "er_ev r' = (er_ev r)\<lparr>ev_hw := latch cfg g' (ev_hw (er_ev r))\<rparr>"
      using r'(1) by (auto simp: event_do_def Let_def split: if_splits)
    then show ?thesis
      using Cons.prems(1) by (simp add: Latch passes_pending_def counted_def)
  qed (use Cons.prems(2) in \<open>simp_all add: all_ok_def\<close>)
  show ?case
    using Cons.IH [OF one _ r'(2)] Cons.prems(2) r'(1) by (simp add: ac_simps)
qed simp

end

text \<open>C33. A client that registers an event with a match value of m (0 counts as 1) on a pin receives exactly one
  event for every m detections: after any sequence of latched changes and passes, on any pins, with
  deliveries that succeed, in which n passes found this pin pending, the events added to the trace
  for this pin are n div m, all sent to the receive id of the client, and the counter of the entry
  is n modulo \<open>2^32\<close>. Detections that arrive between two passes are one detection.\<close>

theorem every_match_delivered:
  assumes "cfg \<in> {gpio_config_rpi3, gpio_config_rpi4, gpio_config_rpi5}"
    and "length (ev_table s) = 28" "em_gpio msg < 28" "em_detect msg \<noteq> 0" "se_notify (em_event msg) \<noteq> SIGEV_NONE"
    and "event_add cfg ci msg s = (None, s')"
    and "\<forall>x \<in> set xs. all_ok x"
    and "run_steps (event_do cfg) xs \<lparr>er_pc = MIdle, er_ev = s'\<rparr> = Some t"
    and "n = detections cfg (em_gpio msg) xs \<lparr>er_pc = MIdle, er_ev = s'\<rparr>"
  shows "to_pin (em_gpio msg) (ev_trace (er_ev t)) =
      to_pin (em_gpio msg) (ev_trace s) @ replicate (n div max 1 (unat (em_match msg))) (ci_rcvid ci) \<and>
    ee_count (ev_table (er_ev t) ! em_gpio msg) = of_nat n"
proof -
  let ?m = "max 1 (unat (em_match msg))"
  have chip: "event_chip cfg"
    using assms(1) bcm_chip rp1_chip by blast
  have s': "s' = event_add_enable cfg msg (event_add_table ci msg (s\<lparr>ev_hw := disable_detection cfg (em_gpio msg) (ev_hw s)\<rparr>))"
    using assms(6) by (auto simp: event_add_def event_add_begin_def Let_def split: if_splits)
  have "unat (em_match msg) \<noteq> 0" if "em_match msg \<noteq> 0"
    using that by (simp add: unat_eq_zero)
  then have "counted (em_gpio msg) (ci_rcvid ci) ?m (to_pin (em_gpio msg) (ev_trace s)) 0 s'"
    using assms(2-5) by (auto simp: s' counted_def event_add_enable_def event_add_table_def set_entry_def)
  then have "counted (em_gpio msg) (ci_rcvid ci) ?m (to_pin (em_gpio msg) (ev_trace s)) n (er_ev t)"
    using event_chip.run_counted [OF chip assms(3) _ _ assms(7,8), of ?m _ _ 0] assms(9) by simp
  then show ?thesis
    by (simp add: counted_def Let_def)
qed

section \<open>After a failed delivery\<close>

definition dead_pin :: "gpio_config \<Rightarrow> nat \<Rightarrow> client_info \<Rightarrow> events \<Rightarrow> bool" where
  "dead_pin cfg g c s \<longleftrightarrow> length (ev_table s) = 28 \<and> ee_ci (entry s g) = c \<and> ee_detect (entry s g) = RPI_EVENT_NONE"

definition hands_off :: "nat \<Rightarrow> client_info \<Rightarrow> event_step \<Rightarrow> bool" where
  "hands_off g c x \<longleftrightarrow>
     (case x of AddCall ci msg \<Rightarrow> em_gpio msg = g \<longrightarrow> \<not> client_info_match c ci
      | CloseCall ci \<Rightarrow> \<not> client_info_match c ci | _ \<Rightarrow> True)"

definition pc_off :: "nat \<Rightarrow> client_info \<Rightarrow> main_pc \<Rightarrow> bool" where
  "pc_off g c pc \<longleftrightarrow>
     (case pc of MIdle \<Rightarrow> True | MAdd _ msg \<Rightarrow> em_gpio msg \<noteq> g | MEnable msg \<Rightarrow> em_gpio msg \<noteq> g
      | MClose ci \<Rightarrow> \<not> client_info_match c ci)"

lemma dead_view: "pin_state cfg g t = pin_state cfg g s \<Longrightarrow> length (ev_table t) = 28 \<Longrightarrow> dead_pin cfg g c s \<Longrightarrow> dead_pin cfg g c t"
  by (simp add: dead_pin_def pin_state_def)

context event_chip
begin

lemma failed_pass:
  assumes "g < 28" "length (ev_table s) = 28" "ee_detect (entry s g) \<noteq> 0" "gc_event_detected cfg g (ev_hw s)"
    "\<not> ee_match_count (entry s g) + 1 < ee_match (entry s g)" "se_notify (ee_sigev (entry s g)) \<noteq> SIGEV_NONE"
    "\<And>ev. \<not> ok (ci_rcvid (ee_ci (entry s g))) ev"
  shows "dead_pin cfg g (ee_ci (entry s g)) (gpio_ist cfg ok s)"
proof -
  obtain u where u: "pin_state cfg g u = pin_state cfg g s" "length (ev_table u) = 28"
    "pin_state cfg g (gpio_ist cfg ok s) = pin_state cfg g (ist_pin cfg ok g u)"
    using pass_on_pin [OF assms(1,2)] by blast
  have e: "entry u g = entry s g" "gc_event_detected cfg g (ev_hw u)"
    using u(1) assms(4) by (simp_all add: pin_state_def)
  have dead: "dead_pin cfg g (ee_ci (entry s g)) (dispatch_event cfg ok g v)" if "ev_table v = ev_table u" for v
    using that assms u(2) e by (simp add: dead_pin_def dispatch_event_def Let_def set_entry_nth) (simp add: set_entry_def)
  have "dead_pin cfg g (ee_ci (entry s g)) (ist_pin cfg ok g u)"
    using dead [of u] dead [of "clear_detect cfg g u"] e assms(3)
    by (simp add: ist_pin_def Let_def dead_pin_def clear_detect_def)
  then have "dead_pin cfg g (ee_ci (entry s g)) (ist_pin cfg ok g u)" .
  moreover have "length (ev_table (gpio_ist cfg ok s)) = 28"
    using length_pass [OF gpio_ist_rel] assms(2) by simp
  ultimately show ?thesis
    using u(3) by (simp add: dead_pin_def pin_state_def)
qed

lemma dead_step:
  assumes g: "g < 28" and c: "\<not> client_info_is_unused c" and dead: "dead_pin cfg g c (er_ev r)"
    and pc: "pc_off g c (er_pc r)" and x: "hands_off g c x" and step: "event_do cfg x r = Some r'"
    and wf: "pc_inv cfg (er_ev r) (er_pc r)"
  shows "dead_pin cfg g c (er_ev r') \<and> pc_off g c (er_pc r') \<and>
    (gc_event_detected cfg g (ev_hw (er_ev r)) \<longrightarrow> gc_event_detected cfg g (ev_hw (er_ev r')))"
proof (cases x)
  case (AddCall ci msg)
  have st: "er_pc r = MIdle" "em_gpio msg < 28"
    using step by (auto simp: AddCall event_do_def split: if_splits)
  show ?thesis
  proof (cases "em_gpio msg = g")
    case True
    then have "event_add_begin cfg ci msg (er_ev r) = (Some EBUSY, er_ev r)"
      using x c dead by (simp add: AddCall hands_off_def event_add_begin_def dead_pin_def Let_def)
    then show ?thesis
      using step dead pc by (auto simp: AddCall event_do_def split: if_splits)
  next
    case False
    then show ?thesis
      using step dead pc st g disable_other [of "em_gpio msg" g "ev_hw (er_ev r)"]
      by (auto simp: AddCall event_do_def event_add_begin_def Let_def dead_pin_def pc_off_def pin_view_def split: if_splits)
  qed
next
  case (CloseCall ci)
  have "r' = \<lparr>er_pc = MClose ci, er_ev = event_remove_disable cfg ci (er_ev r)\<rparr>"
    using step by (auto simp: CloseCall event_do_def split: if_splits)
  then show ?thesis
    using x dead g disable_fold [of 28 g "\<lambda>g. client_info_match (ee_ci (entry (er_ev r) g)) ci" "ev_hw (er_ev r)"]
    by (simp add: CloseCall hands_off_def dead_pin_def pc_off_def event_remove_disable_def pin_view_def)
next
  case Continue
  show ?thesis
  proof (cases "er_pc r")
    case (MAdd ci msg)
    then show ?thesis
      using step dead pc by (auto simp: Continue event_do_def Let_def dead_pin_def pc_off_def event_add_table_def set_entry_def)
  next
    case (MEnable msg)
    then show ?thesis
      using step dead pc wf g enable_other [of "em_gpio msg" g "em_detect msg" "ev_hw (er_ev r)"]
      by (auto simp: Continue event_do_def Let_def dead_pin_def pc_off_def event_add_enable_def pc_inv_def pin_view_def)
  next
    case (MClose ci)
    then show ?thesis
      using step dead pc g by (auto simp: Continue event_do_def Let_def dead_pin_def pc_off_def event_remove_table_def)
  qed (use step in \<open>simp add: Continue event_do_def\<close>)
next
  case (Pass ok)
  then have r': "r' = r\<lparr>er_ev := gpio_ist cfg ok (er_ev r)\<rparr>"
    using step by (simp add: event_do_def)
  have len: "length (ev_table (er_ev r)) = 28"
    using dead by (simp add: dead_pin_def)
  obtain u where u: "pin_state cfg g u = pin_state cfg g (er_ev r)" "length (ev_table u) = 28"
    "pin_state cfg g (gpio_ist cfg ok (er_ev r)) = pin_state cfg g (ist_pin cfg ok g u)"
    using pass_on_pin [OF g len] by blast
  have "ee_detect (entry u g) = 0"
    using u(1) dead by (simp add: pin_state_def dead_pin_def)
  then have "pin_state cfg g (gpio_ist cfg ok (er_ev r)) = pin_state cfg g (er_ev r)"
    using u by (simp add: ist_pin_def)
  moreover have "length (ev_table (gpio_ist cfg ok (er_ev r))) = 28"
    using length_pass [OF gpio_ist_rel] len by simp
  ultimately show ?thesis
    using dead pc by (simp add: r' dead_pin_def pin_state_def)
next
  case (Latch g')
  then have "g' < 28" "r' = r\<lparr>er_ev := (er_ev r)\<lparr>ev_hw := latch cfg g' (ev_hw (er_ev r))\<rparr>\<rparr>"
    using step by (auto simp: event_do_def Let_def split: if_splits)
  then show ?thesis
    using dead pc g latch_view [of g' g "ev_hw (er_ev r)"] by (auto simp: dead_pin_def pin_view_def)
qed

lemma dead_run:
  assumes "g < 28" "\<not> client_info_is_unused c"
  shows "event_inv cfg r \<Longrightarrow> dead_pin cfg g c (er_ev r) \<Longrightarrow> pc_off g c (er_pc r) \<Longrightarrow> gc_event_detected cfg g (ev_hw (er_ev r)) \<Longrightarrow>
    \<forall>x \<in> set xs. hands_off g c x \<Longrightarrow> run_steps (event_do cfg) xs r = Some t \<Longrightarrow>
    dead_pin cfg g c (er_ev t) \<and> gc_event_detected cfg g (ev_hw (er_ev t))"
proof (induction xs arbitrary: r)
  case (Cons x xs)
  then obtain r' where r': "event_do cfg x r = Some r'" "run_steps (event_do cfg) xs r' = Some t"
    by (auto split: option.splits)
  have "pc_inv cfg (er_ev r) (er_pc r)"
    using Cons.prems(1) by (simp add: event_inv_def)
  then show ?case
    using dead_step [OF assms Cons.prems(2,3) _ r'(1)] event_do_inv [OF Cons.prems(1) r'(1)] Cons.IH [OF _ _ _ _ _ r'(2)] Cons.prems(4,5)
    by simp
qed simp

end



section \<open>Sample runs\<close>

definition sample_hw :: hw where
  "sample_hw = \<lparr>hw_regs = \<lambda>_. 0, hw_latch = \<lambda>_. 0, hw_pwm = \<lambda>_. 0, hw_clk = \<lambda>_. 0, hw_msix = \<lambda>_. 0, hw_init_pwm_clk = True\<rparr>"

definition sample_client :: client_info where
  "sample_client = \<lparr>ci_rcvid = 5, ci_scoid = 2, ci_coid = 3\<rparr>"

definition sample_msg :: "u32 \<Rightarrow> event_msg" where
  "sample_msg m = \<lparr>em_gpio = 17, em_detect = 5, em_event = \<lparr>se_notify = 4, se_value = 0\<rparr>, em_match = m\<rparr>"

definition sample_steps :: "u32 \<Rightarrow> event_step list" where
  "sample_steps m = [AddCall sample_client (sample_msg m), Continue, Continue]"

definition sample_run :: "gpio_config \<Rightarrow> u32 \<Rightarrow> event_run" where
  "sample_run cfg m = the (run_steps (event_do cfg) (sample_steps m) (event_start cfg sample_hw))"

lemma sample_run_some: "run_steps (event_do cfg) (sample_steps m) (event_start cfg sample_hw) = Some (sample_run cfg m)"
  and sample_run_state: "er_pc (sample_run cfg m) = MIdle"
    "ev_table (er_ev (sample_run cfg m)) ! 17 = \<lparr>ee_ci = sample_client, ee_detect = 5, ee_count = 0,
       ee_match = (if m = 0 then 1 else m), ee_match_count = 0, ee_sigev = \<lparr>se_notify = 4, se_value = 0\<rparr>\<rparr>"
    "length (ev_table (er_ev (sample_run cfg m))) = 28"
  by (simp_all add: sample_run_def sample_steps_def event_start_def event_init_def event_do_def event_add_begin_def
      event_add_table_def event_add_enable_def set_entry_def sample_msg_def sample_client_def client_info_is_unused_def
      client_info_reset_def Let_def)

lemma sample_client_used: "\<not> client_info_is_unused sample_client"
  by (simp add: sample_client_def client_info_is_unused_def)

theorem enabled_detections_match_witness:
  "armed gpio_config_rpi5 0 17 (ev_hw (er_ev (sample_run gpio_config_rpi5 2))) \<and>
   \<not> armed gpio_config_rpi5 1 17 (ev_hw (er_ev (sample_run gpio_config_rpi5 2)))"
  using enabled_detections_match [OF _ sample_run_some [of gpio_config_rpi5 2], of 17 0]
    enabled_detections_match [OF _ sample_run_some [of gpio_config_rpi5 2], of 17 1]
  by (simp add: sample_run_state sample_client_used)

definition sample_added :: "gpio_config \<Rightarrow> event_run" where
  "sample_added cfg = \<lparr>er_pc = MIdle, er_ev = snd (event_add cfg sample_client (sample_msg 2) (er_ev (event_start cfg sample_hw)))\<rparr>"

definition sample_ok :: "event_step list" where
  "sample_ok = [Latch 17, Pass (\<lambda>_ _. True), Latch 17, Pass (\<lambda>_ _. True)]"

lemma sample_detections: "detections gpio_config_rpi4 17 sample_ok (sample_added gpio_config_rpi4) = 2"
  by code_simp

lemma sample_ok_runs: "run_steps (event_do cfg) sample_ok r = Some (the (run_steps (event_do cfg) sample_ok r))"
  by (simp add: sample_ok_def event_do_def Let_def)

lemma sample_add: "event_add cfg sample_client (sample_msg 2) (er_ev (event_start cfg sample_hw)) =
  (None, er_ev (sample_added cfg))"
  by (simp add: sample_added_def event_add_def event_add_begin_def event_start_def event_init_def sample_msg_def
      client_info_reset_def client_info_is_unused_def Let_def)

theorem every_match_delivered_witness:
  "to_pin 17 (ev_trace (er_ev (the (run_steps (event_do gpio_config_rpi4) sample_ok (sample_added gpio_config_rpi4))))) = [5]"
proof -
  let ?r = "\<lparr>er_pc = MIdle, er_ev = er_ev (sample_added gpio_config_rpi4)\<rparr>"
  have r: "?r = sample_added gpio_config_rpi4"
    by (simp add: sample_added_def)
  have table: "length (ev_table (er_ev (event_start gpio_config_rpi4 sample_hw))) = 28"
    and empty: "to_pin 17 (ev_trace (er_ev (event_start gpio_config_rpi4 sample_hw))) = []"
    by (simp_all add: event_start_def event_init_def to_pin_def)
  have ok: "\<forall>x \<in> set sample_ok. all_ok x"
    by (simp add: sample_ok_def all_ok_def)
  have msg: "em_gpio (sample_msg 2) < 28" "em_detect (sample_msg 2) \<noteq> 0" "se_notify (em_event (sample_msg 2)) \<noteq> 0"
    "em_gpio (sample_msg 2) = 17" "em_match (sample_msg 2) = 2" "ci_rcvid sample_client = 5"
    by (simp_all add: sample_msg_def sample_client_def)
  have d: "2 div max 1 (unat (2 :: u32)) = (1 :: nat)"
    by (simp add: max_def)
  have two: "(2 :: nat) = detections gpio_config_rpi4 (em_gpio (sample_msg 2)) sample_ok ?r"
    by (simp only: msg r sample_detections)
  show ?thesis
    using every_match_delivered [OF _ table msg(1-3) sample_add ok sample_ok_runs two]
    by (simp only: msg r empty d) simp
qed

definition sample_pending :: event_run where
  "sample_pending = the (run_steps (event_do gpio_config_rpi5) (sample_steps 1 @ [Latch 17]) (event_start gpio_config_rpi5 sample_hw))"


end
