(* ===== verification/GpioPwmRuns.thy ===== *)
theory GpioPwmRuns
  imports GpioPwm GpioBcm GpioRp1
begin

text \<open>
  Runs of the PWM code of the GPIO resource manager on every chip: the slots of software PWM stay
  with one pin each, what a duty cycle does on a pin that was not set up, and what the timer
  interrupt makes of delays.
\<close>

unbundle bit_operations_syntax

section \<open>Runs\<close>

datatype pwm_step =
    PwmSetup client_info pwm_msg
  | PwmDuty timer_env client_info nat u32
  | PwmRemove timer_env client_info
  | PwmTick bool u32 u32
  | PwmAttach

definition pwm_do :: "gpio_config \<Rightarrow> (rat \<Rightarrow> rat) \<Rightarrow> pwm_step \<Rightarrow> pwm_state \<Rightarrow> pwm_state option" where
  "pwm_do cfg fl x s =
     (case x of
        PwmSetup ci msg \<Rightarrow>
          (if pm_gpio msg < RPI_GPIO_NUM \<and> \<not> client_info_is_unused ci then map_option snd (pwm_setup cfg ci msg s) else None)
      | PwmDuty env ci g duty \<Rightarrow>
          (if g < RPI_GPIO_NUM \<and> \<not> client_info_is_unused ci
           then map_option snd (pwm_set_duty_cycle cfg fl env ci g duty s) else None)
      | PwmRemove env ci \<Rightarrow> (if client_info_is_unused ci then None else pwm_remove_client cfg fl env ci s)
      | PwmTick matched cur reload \<Rightarrow> Some (timer_isr cfg matched cur reload s)
      | PwmAttach \<Rightarrow> Some (timer_ist_attach s))"

section \<open>Slots\<close>

locale pwm_chip =
  fixes cfg :: gpio_config
  assumes setup_channel: "gc_setup_pwm_hard cfg p msg h = Some (e, p', h') \<Longrightarrow> pw_channel p' = pw_channel p"
    and duty_channel: "gc_set_pwm_duty cfg p duty h = Some (p', h') \<Longrightarrow> pw_channel p' = pw_channel p"
    and pins_channel: "(g, p) \<in> set (gc_pwm_pins cfg) \<Longrightarrow> pw_channel p \<noteq> 0 \<and> g < 28"

definition used :: "pwm_state \<Rightarrow> nat \<Rightarrow> bool" where
  "used s i \<longleftrightarrow> \<not> client_info_is_unused (pw_ci (ps_soft s ! i))"

definition hard_pins :: "gpio_config \<Rightarrow> nat set" where
  "hard_pins cfg = fst ` set (gc_pwm_pins cfg)"

definition slots_ok :: "pwm_state \<Rightarrow> bool" where
  "slots_ok s \<longleftrightarrow> length (ps_soft s) = 8 \<and> (\<forall>i<8. pw_channel (ps_soft s ! i) = 0)
     \<and> (\<forall>g i. ps_map s g = Some (Soft i) \<longrightarrow> i < 8 \<and> g < 28 \<and> pw_gpio (ps_soft s ! i) = g \<and> used s i)
     \<and> (\<forall>i<8. used s i \<longrightarrow> ps_map s (pw_gpio (ps_soft s ! i)) = Some (Soft i))
     \<and> (\<forall>i<8. pw_duty (ps_soft s ! i) \<noteq> 0 \<longrightarrow> used s i)"

definition hards_ok :: "gpio_config \<Rightarrow> pwm_state \<Rightarrow> bool" where
  "hards_ok cfg s \<longleftrightarrow> (\<forall>g g'. ps_map s g = Some (Hard g') \<longrightarrow> g' = g \<and> g \<in> hard_pins cfg)
     \<and> (\<forall>g \<in> hard_pins cfg. ps_map s g = Some (Hard g) \<and> pw_channel (ps_hard s g) \<noteq> 0)"

definition pwm_inv :: "gpio_config \<Rightarrow> pwm_state \<Rightarrow> bool" where
  "pwm_inv cfg s \<longleftrightarrow> slots_ok s \<and> hards_ok cfg s"

text \<open>A change of a slot that keeps its channel, its client and, when used, its pin, and sets no duty in a free slot.\<close>

definition same_slot :: "pwm \<Rightarrow> pwm \<Rightarrow> bool" where
  "same_slot p q \<longleftrightarrow> pw_channel q = pw_channel p \<and> pw_ci q = pw_ci p \<and> (pw_gpio q = pw_gpio p \<or> client_info_is_unused (pw_ci p))
     \<and> (pw_duty q \<noteq> 0 \<longrightarrow> pw_duty p \<noteq> 0 \<or> \<not> client_info_is_unused (pw_ci p))"

lemma slots_update:
  assumes "slots_ok s" "ps_map t = ps_map s" "length (ps_soft t) = 8" "\<And>i. i < 8 \<Longrightarrow> same_slot (ps_soft s ! i) (ps_soft t ! i)"
  shows "slots_ok t"
proof -
  have u: "used t i = used s i" "used s i \<Longrightarrow> pw_gpio (ps_soft t ! i) = pw_gpio (ps_soft s ! i)"
    "pw_channel (ps_soft t ! i) = pw_channel (ps_soft s ! i)" "pw_duty (ps_soft t ! i) \<noteq> 0 \<Longrightarrow> used s i" if "i < 8" for i
    using assms(1) assms(4) [OF that] that by (auto simp: same_slot_def used_def slots_ok_def)
  then show ?thesis
    using assms(1-3) unfolding slots_ok_def by metis
qed

lemma hards_update:
  assumes "hards_ok cfg s" "ps_map t = ps_map s" "\<And>g. pw_channel (ps_hard t g) = pw_channel (ps_hard s g)"
  shows "hards_ok cfg t"
  using assms by (simp add: hards_ok_def)

lemma isr_slot_same: "same_slot p (fst (isr_slot cfg cur p acc))"
  by (cases acc) (simp add: isr_slot_def same_slot_def Let_def)

lemma isr_slots_same:
  "length (fst (isr_slots cfg cur ps acc)) = length ps \<and>
   (\<forall>i < length ps. same_slot (ps ! i) (fst (isr_slots cfg cur ps acc) ! i))"
proof (induction ps arbitrary: acc)
  case (Cons p ps)
  obtain q acc' where q: "isr_slot cfg cur p acc = (q, acc')"
    by (meson surj_pair)
  obtain qs acc'' where qs: "isr_slots cfg cur ps acc' = (qs, acc'')"
    by (meson surj_pair)
  have "same_slot p q"
    using isr_slot_same [of p cfg cur acc] q by simp
  then show ?case
    using Cons.IH [of acc'] by (simp add: q qs nth_Cons split: nat.split)
qed simp

lemma timer_isr_inv: "pwm_inv cfg s \<Longrightarrow> pwm_inv cfg (timer_isr cfg m cur reload s)"
proof -
  assume inv: "pwm_inv cfg s"
  obtain soft nm h where r: "isr_slots cfg cur (ps_soft s) (-1, ps_hw s) = (soft, nm, h)"
    by (metis surj_pair)
  have len: "length (ps_soft s) = 8" and ok: "slots_ok s" "hards_ok cfg s"
    using inv by (simp_all add: pwm_inv_def slots_ok_def)
  have soft: "length soft = 8" "\<And>i. i < 8 \<Longrightarrow> same_slot (ps_soft s ! i) (soft ! i)"
    using isr_slots_same [of cfg cur "ps_soft s" "(-1, ps_hw s)"] by (simp_all add: r len)
  have "slots_ok t \<and> hards_ok cfg t" if "ps_map t = ps_map s" "ps_soft t = soft" "ps_hard t = ps_hard s" for t
    using slots_update [OF ok(1), of t] hards_update [OF ok(2), of t] that soft by simp
  then show "pwm_inv cfg (timer_isr cfg m cur reload s)"
    using inv by (simp add: timer_isr_def r Let_def pwm_inv_def)
qed

lemma ps_map_assign [simp]: "ps_map (assign r p s) = ps_map s"
  by (simp add: assign_def split: pwm_ref.split)

lemma slot_of_pin:
  "slots_ok s \<Longrightarrow> ps_map s g = Some (Soft i) \<Longrightarrow> i < 8 \<and> g < 28 \<and> pw_gpio (ps_soft s ! i) = g \<and> used s i"
  by (simp add: slots_ok_def)

text \<open>A hardware structure changed in place.\<close>

lemma hard_assign_inv:
  assumes "pwm_inv cfg s" "pw_channel p = pw_channel (ps_hard s g)"
  shows "pwm_inv cfg ((assign (Hard g) p s)\<lparr>ps_hw := h\<rparr>)" "pwm_inv cfg (assign (Hard g) p s)"
  using assms by (auto simp: pwm_inv_def assign_def hards_ok_def slots_ok_def used_def)

lemma soft_assign_inv:
  assumes "pwm_inv cfg s" "same_slot (ps_soft s ! i) p" "i < 8"
  shows "pwm_inv cfg (assign (Soft i) p s)"
proof -
  have ok: "slots_ok s" "hards_ok cfg s" "length (ps_soft s) = 8"
    using assms(1) by (simp_all add: pwm_inv_def slots_ok_def)
  have "same_slot q q" for q
    by (simp add: same_slot_def)
  then have "slots_ok (assign (Soft i) p s)"
    using assms(2,3) ok(3) by (intro slots_update [OF ok(1)]) (auto simp: assign_def nth_list_update)
  moreover have "hards_ok cfg (assign (Soft i) p s)"
    by (rule hards_update [OF ok(2)]) (simp_all add: assign_def)
  ultimately show ?thesis
    by (simp add: pwm_inv_def)
qed

lemma pwm_inv_cong:
  "ps_map t = ps_map s \<Longrightarrow> ps_soft t = ps_soft s \<Longrightarrow> ps_hard t = ps_hard s \<Longrightarrow> pwm_inv cfg s \<Longrightarrow> pwm_inv cfg t"
  by (simp add: pwm_inv_def slots_ok_def hards_ok_def used_def)

text \<open>A slot that becomes, or stays, the slot of a pin.\<close>

lemma soft_take_inv:
  assumes "pwm_inv cfg s" "i < 8" "g < 28" "ps_map s g = None \<and> \<not> used s i \<or> ps_map s g = Some (Soft i)"
    "pw_channel p = 0" "pw_gpio p = g" "\<not> client_info_is_unused (pw_ci p)"
  shows "pwm_inv cfg ((assign (Soft i) p s)\<lparr>ps_map := (ps_map s)(g := Some (Soft i))\<rparr>)"
proof -
  let ?t = "(assign (Soft i) p s)\<lparr>ps_map := (ps_map s)(g := Some (Soft i))\<rparr>"
  have ok: "slots_ok s" "hards_ok cfg s" "length (ps_soft s) = 8"
    using assms(1) by (simp_all add: pwm_inv_def slots_ok_def)
  have t: "ps_soft (assign (Soft i) p s) ! j = (if j = i then p else ps_soft s ! j)" "used ?t j \<longleftrightarrow> j = i \<or> used s j" for j
    using assms(2,7) ok(3) by (auto simp: assign_def used_def nth_list_update)
  have other: "j \<noteq> i" if "ps_map s g' = Some (Soft j)" "g' \<noteq> g" for g' j
    using slot_of_pin [OF ok(1)] that assms(4) by metis
  have other': "pw_gpio (ps_soft s ! j) \<noteq> g" if "j < 8" "used s j" "j \<noteq> i" for j
    using that ok(1) assms(4) unfolding slots_ok_def by auto
  have "slots_ok ?t"
    unfolding slots_ok_def
  proof (intro conjI allI impI)
    show "length (ps_soft ?t) = 8"
      using ok(3) by (simp add: assign_def)
    fix j
    show "pw_channel (ps_soft ?t ! j) = 0" if "j < 8"
      using that ok(1) assms(5) by (simp add: t slots_ok_def)
    show "used ?t j" if "j < 8" "pw_duty (ps_soft ?t ! j) \<noteq> 0"
      using that ok(1) by (auto simp: t slots_ok_def split: if_splits)
    show "ps_map ?t (pw_gpio (ps_soft ?t ! j)) = Some (Soft j)" if "j < 8" "used ?t j"
      using that ok(1) other' assms(6) by (auto simp: t slots_ok_def)
    fix g'
    assume m: "ps_map ?t g' = Some (Soft j)"
    have "j < 8 \<and> g' < 28 \<and> pw_gpio (ps_soft ?t ! j) = g' \<and> used ?t j"
    proof (cases "g' = g")
      case True
      then have "j = i"
        using m by simp
      then show ?thesis
        unfolding True using assms(2,3,6) t(1) [of i] t(2) [of i] by simp
    next
      case False
      then have "ps_map s g' = Some (Soft j)"
        using m by simp
      then show ?thesis
        using slot_of_pin [OF ok(1)] other False by (simp add: t)
    qed
    then show "j < 8" "g' < 28" "pw_gpio (ps_soft ?t ! j) = g'" "used ?t j"
      by blast+
  qed
  moreover have "hards_ok cfg ?t"
    using ok(2) assms(4) by (auto simp: hards_ok_def assign_def)
  ultimately show ?thesis
    by (simp add: pwm_inv_def)
qed

text \<open>A slot that is freed.\<close>

lemma soft_free_inv:
  assumes "pwm_inv cfg s" "ps_map s g = Some (Soft i)" "p = (ps_soft s ! i)\<lparr>pw_ci := client_info_reset\<rparr>" "pw_duty p = 0"
  shows "pwm_inv cfg ((assign (Soft i) p s)\<lparr>ps_map := (ps_map s)(g := None)\<rparr>)"
proof -
  let ?t = "(assign (Soft i) p s)\<lparr>ps_map := (ps_map s)(g := None)\<rparr>"
  have ok: "slots_ok s" "hards_ok cfg s" "length (ps_soft s) = 8"
    using assms(1) by (simp_all add: pwm_inv_def slots_ok_def)
  have i: "i < 8" "pw_gpio (ps_soft s ! i) = g"
    using ok(1) assms(2) by (auto simp: slots_ok_def)
  have p: "pw_channel p = pw_channel (ps_soft s ! i)"
    by (simp add: assms(3))
  have t: "ps_soft (assign (Soft i) p s) ! j = (if j = i then p else ps_soft s ! j)" "used ?t j \<longleftrightarrow> j \<noteq> i \<and> used s j" for j
    using i assms(3) ok(3) by (auto simp: assign_def used_def nth_list_update)
  have other: "pw_gpio (ps_soft s ! j) \<noteq> g" if "j < 8" "used s j" "j \<noteq> i" for j
    using that ok(1) assms(2) unfolding slots_ok_def by auto
  have other': "j \<noteq> i" if "ps_map s g' = Some (Soft j)" "g' \<noteq> g" for g' j
    using slot_of_pin [OF ok(1)] that assms(2) by metis
  have "slots_ok ?t"
    unfolding slots_ok_def
  proof (intro conjI allI impI)
    show "length (ps_soft ?t) = 8"
      using ok(3) by (simp add: assign_def)
    fix j
    show "pw_channel (ps_soft ?t ! j) = 0" if "j < 8"
      using that ok(1) p i(1) by (simp add: t slots_ok_def)
    show "used ?t j" if "j < 8" "pw_duty (ps_soft ?t ! j) \<noteq> 0"
      using that ok(1) assms(4) by (auto simp: t slots_ok_def split: if_splits)
    show "ps_map ?t (pw_gpio (ps_soft ?t ! j)) = Some (Soft j)" if "j < 8" "used ?t j"
      using that ok(1) other by (auto simp: t slots_ok_def)
    fix g'
    assume m: "ps_map ?t g' = Some (Soft j)"
    then have "g' \<noteq> g" "ps_map s g' = Some (Soft j)" "j \<noteq> i"
      using other' by (auto split: if_splits simp: assign_def)
    then show "j < 8" "g' < 28" "pw_gpio (ps_soft ?t ! j) = g'" "used ?t j"
      using ok(1) by (auto simp: t slots_ok_def)
  qed
  moreover have "hards_ok cfg ?t"
    using ok(2) assms(2) by (auto simp: hards_ok_def assign_def)
  ultimately show ?thesis
    by (simp add: pwm_inv_def)
qed


section \<open>The operations keep the slots apart\<close>

lemma find_slot_free: "find_slot s = Some i \<Longrightarrow> i < 8 \<and> \<not> used s i"
  unfolding find_slot_def used_def by (auto dest!: find_Some_conv)

context pwm_chip
begin

lemma setup_hard_inv:
  assumes "pwm_inv cfg s" "ps_map s g = Some (Hard g)" "pm_gpio msg = g"
    and "setup_pwm cfg ci msg (Hard g) s = Some (e, t)"
  shows "pwm_inv cfg t"
proof -
  let ?p = "(ps_hard s g)\<lparr>pw_adj_duty := 0, pw_adj_range := 0\<rparr>"
  have nz: "pw_channel ?p \<noteq> 0"
    using assms(1,2) by (auto simp: pwm_inv_def hards_ok_def)
  have step: "setup_pwm cfg ci msg (Hard g) s =
    (case gc_setup_pwm_hard cfg ?p msg (ps_hw (assign (Hard g) ?p s)) of
       None \<Rightarrow> None
     | Some (Some e, p, h) \<Rightarrow> Some (Some e, (assign (Hard g) p (assign (Hard g) ?p s))\<lparr>ps_hw := h\<rparr>)
     | Some (None, p, h) \<Rightarrow> Some (None, (assign (Hard g) (p\<lparr>pw_mode := pm_mode msg, pw_ci := ci, pw_range := pm_range msg,
         pw_frequency := pm_frequency msg\<rparr>) ((assign (Hard g) ?p s)\<lparr>ps_hw := h\<rparr>))\<lparr>ps_map := (ps_map s)(g := Some (Hard g))\<rparr>))"
    using nz assms(3) by (simp add: setup_pwm_def deref_def Let_def split: option.split prod.split)
  have base: "pwm_inv cfg (assign (Hard g) ?p s)" "ps_hard (assign (Hard g) ?p s) g = ?p"
    using hard_assign_inv(2) [OF assms(1)] by (simp_all add: assign_def)
  from assms(4) obtain e' p h where r: "gc_setup_pwm_hard cfg ?p msg (ps_hw (assign (Hard g) ?p s)) = Some (e', p, h)"
    unfolding step by (auto split: option.splits prod.splits)
  have c: "pw_channel p = pw_channel ?p"
    by (rule setup_channel [OF r])
  show ?thesis
  proof (cases e')
    case (Some x)
    then have "t = (assign (Hard g) p (assign (Hard g) ?p s))\<lparr>ps_hw := h\<rparr>"
      using assms(4) unfolding step r by simp
    then show ?thesis
      using hard_assign_inv(1) [OF base(1), of p g h] base(2) c by simp
  next
    case None
    let ?q = "p\<lparr>pw_mode := pm_mode msg, pw_ci := ci, pw_range := pm_range msg, pw_frequency := pm_frequency msg\<rparr>"
    have "t = (assign (Hard g) ?q ((assign (Hard g) ?p s)\<lparr>ps_hw := h\<rparr>))\<lparr>ps_map := (ps_map s)(g := Some (Hard g))\<rparr>"
      using assms(4) None unfolding step r by simp
    moreover have "(ps_map s)(g := Some (Hard g)) = ps_map s"
      using assms(2) by (simp add: fun_upd_idem)
    moreover have "pwm_inv cfg ((assign (Hard g) ?p s)\<lparr>ps_hw := h\<rparr>)"
      by (rule pwm_inv_cong [OF _ _ _ base(1)]) simp_all
    then have "pwm_inv cfg (assign (Hard g) ?q ((assign (Hard g) ?p s)\<lparr>ps_hw := h\<rparr>))"
      by (rule hard_assign_inv(2)) (use base(2) c in simp)
    ultimately show ?thesis
      by (simp add: pwm_inv_def slots_ok_def hards_ok_def used_def)
  qed
qed

lemma setup_soft_inv:
  assumes "pwm_inv cfg s" "i < 8" "pm_gpio msg < 28" "pw_gpio (ps_soft s ! i) = pm_gpio msg" "\<not> client_info_is_unused ci"
    "ps_map s (pm_gpio msg) = None \<and> \<not> used s i \<or> ps_map s (pm_gpio msg) = Some (Soft i)"
    and "setup_pwm cfg ci msg (Soft i) s = Some (e, t)"
  shows "pwm_inv cfg t"
proof -
  let ?p = "(ps_soft s ! i)\<lparr>pw_adj_duty := 0, pw_adj_range := 0\<rparr>"
  have z: "pw_channel ?p = 0"
    using assms(1,2) by (auto simp: pwm_inv_def slots_ok_def)
  have len: "length (ps_soft s) = 8"
    using assms(1) by (simp add: pwm_inv_def slots_ok_def)
  have base: "pwm_inv cfg (assign (Soft i) ?p s)"
    by (rule soft_assign_inv [OF assms(1) _ assms(2)]) (simp add: same_slot_def)
  let ?q = "?p\<lparr>pw_mode := pm_mode msg, pw_ci := ci, pw_range := pm_range msg, pw_frequency := pm_frequency msg\<rparr>"
  let ?s = "(assign (Soft i) ?p s)\<lparr>ps_hw := gc_set_select cfg (pm_gpio msg) 1 (ps_hw s)\<rparr>"
  have t: "t = assign (Soft i) ?p s \<or> t = (assign (Soft i) ?q ?s)\<lparr>ps_map := (ps_map s)(pm_gpio msg := Some (Soft i))\<rparr>"
    using assms(7) z by (auto simp: setup_pwm_def deref_def Let_def assign_def split: if_splits)
  have s': "pwm_inv cfg ?s"
    by (rule pwm_inv_cong [OF _ _ _ base]) simp_all
  have "used ?s j = used s j" for j
    using assms(2) len by (auto simp: used_def assign_def nth_list_update)
  then have "pwm_inv cfg ((assign (Soft i) ?q ?s)\<lparr>ps_map := (ps_map ?s)(pm_gpio msg := Some (Soft i))\<rparr>)"
    using assms(3-6) z by (intro soft_take_inv [OF s' assms(2,3)]) simp_all
  then show ?thesis
    using t base by auto
qed

lemma pwm_setup_inv:
  assumes "pwm_inv cfg s" "pm_gpio msg < 28" "\<not> client_info_is_unused ci" "pwm_setup cfg ci msg s = Some (e, t)"
  shows "pwm_inv cfg t"
proof (cases "ps_map s (pm_gpio msg)")
  case None
  show ?thesis
  proof (cases "find_slot s")
    case None
    then show ?thesis
      using assms(1,4) \<open>ps_map s (pm_gpio msg) = None\<close> by (simp add: pwm_setup_def)
  next
    case (Some i)
    let ?s = "assign (Soft i) ((ps_soft s ! i)\<lparr>pw_gpio := pm_gpio msg\<rparr>) s"
    have i: "i < 8" "\<not> used s i"
      using find_slot_free [OF Some] by simp_all
    have len: "length (ps_soft s) = 8"
      using assms(1) by (simp add: pwm_inv_def slots_ok_def)
    have s': "pwm_inv cfg ?s"
      by (rule soft_assign_inv [OF assms(1) _ i(1)]) (use i(2) in \<open>simp add: same_slot_def used_def\<close>)
    have "ps_soft ?s ! i = (ps_soft s ! i)\<lparr>pw_gpio := pm_gpio msg\<rparr>"
      using i(1) len by (simp add: assign_def)
    then show ?thesis
      using assms(2-4) None i Some by (intro setup_soft_inv [OF s' i(1)]) (auto simp: pwm_setup_def used_def)
  qed
next
  case (Some r)
  then have r: "setup_pwm cfg ci msg r s = Some (e, t) \<or> t = s"
    using assms(4) by (auto simp: pwm_setup_def split: if_splits)
  show ?thesis
  proof (cases r)
    case (Hard g)
    then have "g = pm_gpio msg"
      using assms(1) Some by (auto simp: pwm_inv_def hards_ok_def)
    then have g: "r = Hard (pm_gpio msg)" "ps_map s (pm_gpio msg) = Some (Hard (pm_gpio msg))"
      using Some Hard by simp_all
    from r show ?thesis
    proof
      assume "setup_pwm cfg ci msg r s = Some (e, t)"
      then show ?thesis
        unfolding g(1) by (rule setup_hard_inv [OF assms(1) g(2) refl])
    qed (use assms(1) in simp)
  next
    case (Soft i)
    then have i: "i < 8" "pw_gpio (ps_soft s ! i) = pm_gpio msg"
      using slot_of_pin [of s "pm_gpio msg" i] assms(1) Some by (simp_all add: pwm_inv_def)
    from r show ?thesis
    proof
      assume "setup_pwm cfg ci msg r s = Some (e, t)"
      then show ?thesis
        unfolding Soft by (rule setup_soft_inv [OF assms(1) i(1) assms(2) i(2) assms(3) disjI2 [OF Some [unfolded Soft]]])
    qed (use assms(1) in simp)
  qed
qed


text \<open>Setting a duty cycle; afterwards the pin refers to the same structure.\<close>

lemma check_done_inv: "pwm_inv cfg s \<Longrightarrow> pwm_inv cfg (timer_intr_check_done s)"
  unfolding timer_intr_check_done_def by (auto intro: pwm_inv_cong [rotated 3])

lemma intr_init_inv: "pwm_inv cfg s \<Longrightarrow> pwm_inv cfg (snd (timer_intr_init env time s))"
  unfolding timer_intr_init_def Let_def by (auto intro: pwm_inv_cong [rotated 3])

lemma soft_duty_inv:
  assumes "pwm_inv cfg s" "ps_map s g = Some (Soft i)" "soft_duty cfg fl env g duty (Soft i) s = Some (e, t)"
  shows "pwm_inv cfg t"
proof -
  have i: "i < 8" "used s i"
    using slot_of_pin assms(1,2) by (auto simp: pwm_inv_def)
  let ?p = "ps_soft s ! i"
  have a: "pwm_inv cfg ((assign (Soft i) q s)\<lparr>ps_hw := h\<rparr>)" if "same_slot ?p q" for q h
    by (rule pwm_inv_cong [OF _ _ _ soft_assign_inv [OF assms(1) that i(1)]]) simp_all
  show ?thesis
  proof (cases "duty = 0 \<or> pw_range ?p \<le> duty")
    case True
    then obtain h where "t = timer_intr_check_done ((assign (Soft i) (?p\<lparr>pw_duty := 0\<rparr>) s)\<lparr>ps_hw := h\<rparr>)"
      using assms(3) by (auto simp: soft_duty_def deref_def Let_def)
    then show ?thesis
      using check_done_inv a by (simp add: same_slot_def)
  next
    case False
    then obtain on off where times: "soft_times fl ?p duty = Some (on, off)"
      using assms(3) by (auto simp: soft_duty_def deref_def Let_def split: option.splits)
    let ?q = "?p\<lparr>pw_time_on := on, pw_time_off := off, pw_state := True, pw_last_change := te_clock env 0, pw_duty := duty\<rparr>"
    have comm: "assign (Soft i) ?q (s\<lparr>ps_hw := gc_set cfg g (ps_hw s)\<rparr>) = (assign (Soft i) ?q s)\<lparr>ps_hw := gc_set cfg g (ps_hw s)\<rparr>"
      by (simp add: assign_def)
    have "(e, t) = timer_intr_init env on (assign (Soft i) ?q (s\<lparr>ps_hw := gc_set cfg g (ps_hw s)\<rparr>))"
      using assms(3) False times by (simp add: soft_duty_def deref_def Let_def)
    from arg_cong [OF this, of snd]
    have "t = snd (timer_intr_init env on ((assign (Soft i) ?q s)\<lparr>ps_hw := gc_set cfg g (ps_hw s)\<rparr>))"
      unfolding comm by simp
    then show ?thesis
      using intr_init_inv a i(2) by (simp add: same_slot_def used_def)
  qed
qed

lemma set_duty_inv:
  assumes "pwm_inv cfg s" "g < 28" "\<not> client_info_is_unused ci" "pwm_set_duty_cycle cfg fl env ci g duty s = Some (e, t)"
  shows "pwm_inv cfg t"
proof (cases "ps_map s g")
  case None
  let ?m = "\<lparr>pm_gpio = g, pm_frequency = 1000, pm_range = 1024, pm_mode = 0\<rparr>"
  obtain e' where "pwm_setup cfg ci ?m s = Some (e', t)"
    using assms(4) None by (auto simp: pwm_set_duty_cycle_def split: option.splits prod.splits)
  then show ?thesis
    using pwm_setup_inv [OF assms(1) _ assms(3), of ?m] assms(2) by simp
next
  case (Some r)
  show ?thesis
  proof (cases r)
    case (Hard g')
    then have g: "g' = g" "pw_channel (ps_hard s g) \<noteq> 0"
      using assms(1) Some by (auto simp: pwm_inv_def hards_ok_def)
    obtain p h where p: "gc_set_pwm_duty cfg (ps_hard s g) duty (ps_hw s) = Some (p, h)"
      "t = (assign (Hard g) p s)\<lparr>ps_hw := h\<rparr>"
      using assms(4) Some Hard g by (auto simp: pwm_set_duty_cycle_def deref_def split: option.splits prod.splits)
    then show ?thesis
      using hard_assign_inv(1) [OF assms(1)] duty_channel by simp
  next
    case (Soft i)
    have "i < 8" "pw_channel (ps_soft s ! i) = 0"
      using slot_of_pin [of s g i] assms(1) Some Soft by (auto simp: pwm_inv_def slots_ok_def)
    then have "soft_duty cfg fl env g duty (Soft i) s = Some (e, t)"
      using assms(4) Some Soft by (simp add: pwm_set_duty_cycle_def deref_def)
    then show ?thesis
      using soft_duty_inv [OF assms(1)] Some Soft by simp
  qed
qed


lemma remove_pin_inv:
  assumes "pwm_inv cfg s" "g < 28" "\<not> client_info_is_unused ci" "remove_pin cfg fl env ci g s = Some t"
  shows "pwm_inv cfg t"
proof (cases "ps_map s g")
  case None
  then show ?thesis
    using assms(1,4) by (simp add: remove_pin_def)
next
  case (Some r)
  show ?thesis
  proof (cases "client_info_match (pw_ci (deref r s)) ci")
    case False
    then show ?thesis
      using assms(1,4) Some by (simp add: remove_pin_def)
  next
    case True
    then obtain e u where u: "pwm_set_duty_cycle cfg fl env ci g 0 s = Some (e, u)"
      using assms(4) Some by (auto simp: remove_pin_def split: option.splits)
    let ?q = "(deref r u)\<lparr>pw_ci := client_info_reset\<rparr>"
    have t: "t = (if pw_channel (deref r (assign r ?q u)) = 0
        then (assign r ?q u)\<lparr>ps_map := (ps_map (assign r ?q u))(g := None)\<rparr> else assign r ?q u)"
      using assms(4) Some True u by (simp add: remove_pin_def Let_def)
    have inv: "pwm_inv cfg u"
      by (rule set_duty_inv [OF assms(1-3) u])
    show ?thesis
    proof (cases r)
      case (Hard g')
      then have g: "g' = g" "pw_channel (ps_hard s g) \<noteq> 0" "g \<in> hard_pins cfg"
        using assms(1) Some by (auto simp: pwm_inv_def hards_ok_def)
      then have "pw_channel (ps_hard u g) \<noteq> 0"
        using inv by (simp add: pwm_inv_def hards_ok_def)
      then have "t = assign (Hard g) ?q u" "pw_channel ?q = pw_channel (ps_hard u g)"
        using t Hard g by (simp_all add: deref_def assign_def)
      then show ?thesis
        using hard_assign_inv(2) [OF inv] by simp
    next
      case (Soft i)
      have i: "i < 8" "pw_channel (ps_soft s ! i) = 0" "length (ps_soft s) = 8"
        using slot_of_pin [of s g i] assms(1) Some Soft by (auto simp: pwm_inv_def slots_ok_def)
      have "u = timer_intr_check_done ((assign (Soft i) ((ps_soft s ! i)\<lparr>pw_duty := 0\<rparr>) s)\<lparr>ps_hw := gc_clear cfg g (ps_hw s)\<rparr>)"
        using u Some Soft i by (simp add: pwm_set_duty_cycle_def soft_duty_def deref_def assign_def Let_def)
      then have m: "ps_map u = ps_map s" "pw_duty (ps_soft u ! i) = 0"
        using i by (auto simp: timer_intr_check_done_def assign_def)
      have len: "i < length (ps_soft u)" "pw_channel (ps_soft u ! i) = 0"
        using inv i(1) by (simp_all add: pwm_inv_def slots_ok_def)
      then have "t = (assign (Soft i) ?q u)\<lparr>ps_map := (ps_map u)(g := None)\<rparr>"
        using t Soft by (simp add: deref_def assign_def)
      moreover have "pwm_inv cfg ((assign (Soft i) ?q u)\<lparr>ps_map := (ps_map u)(g := None)\<rparr>)"
        using m Some Soft by (intro soft_free_inv [OF inv]) (simp_all add: deref_def)
      ultimately show ?thesis
        by simp
    qed
  qed
qed

lemma remove_pins_inv:
  assumes "\<not> client_info_is_unused ci"
  shows "pwm_inv cfg s \<Longrightarrow> \<forall>g \<in> set gs. g < 28 \<Longrightarrow> remove_pins cfg fl env ci gs s = Some t \<Longrightarrow> pwm_inv cfg t"
proof (induction gs arbitrary: s)
  case (Cons g gs)
  then obtain u where u: "remove_pin cfg fl env ci g s = Some u" "remove_pins cfg fl env ci gs u = Some t"
    by (auto split: option.splits)
  show ?case
    using Cons.IH [OF remove_pin_inv [OF Cons.prems(1) _ assms u(1)] _ u(2)] Cons.prems(2) by simp
qed simp

lemma pwm_do_inv:
  assumes "pwm_inv cfg s" "pwm_do cfg fl x s = Some t"
  shows "pwm_inv cfg t"
proof (cases x)
  case (PwmSetup ci msg)
  then show ?thesis
    using assms pwm_setup_inv by (auto simp: pwm_do_def split: if_splits)
next
  case (PwmDuty env ci g duty)
  then show ?thesis
    using assms set_duty_inv by (auto simp: pwm_do_def split: if_splits)
next
  case (PwmRemove env ci)
  then show ?thesis
    using assms remove_pins_inv [OF _ assms(1), of ci "[0..<28]" fl env t] by (auto simp: pwm_do_def pwm_remove_client_def split: if_splits)
next
  case (PwmTick m cur reload)
  then show ?thesis
    using assms timer_isr_inv by (auto simp: pwm_do_def)
next
  case PwmAttach
  then have "t = timer_ist_attach s"
    using assms(2) by (simp add: pwm_do_def)
  then show ?thesis
    using assms(1) by (auto simp: timer_ist_attach_def intro: pwm_inv_cong [rotated 3])
qed

lemma pwm_init_inv: "pwm_inv cfg (pwm_init cfg h)"
proof -
  have "pw_channel (ps_hard (pwm_init cfg h) g) \<noteq> 0" if "g \<in> hard_pins cfg" for g
  proof -
    have "map_of (gc_pwm_pins cfg) g \<noteq> None"
      using that unfolding hard_pins_def map_of_eq_None_iff by simp
    then obtain p where p: "map_of (gc_pwm_pins cfg) g = Some p"
      by blast
    then show ?thesis
      using pins_channel [OF map_of_SomeD [OF p]] by (simp add: pwm_init_def)
  qed
  then show ?thesis
    by (auto simp: pwm_inv_def slots_ok_def hards_ok_def used_def hard_pins_def pwm_init_def zero_pwm_def)
qed

end

sublocale pwm_chip \<subseteq> pwm_runs: step_invariant "pwm_do cfg fl" "pwm_inv cfg"
  by unfold_locales (rule pwm_do_inv)

lemma bcm_pwm:
  assumes "cfg = gpio_config_rpi4 \<or> cfg = gpio_config_rpi3"
  shows "pwm_chip cfg"
proof
  show "pw_channel p' = pw_channel p" if "gc_setup_pwm_hard cfg p msg h = Some (e, p', h')" for p msg h e p' h'
    using that assms by (auto simp: gpio_config_rpi4_def gpio_config_rpi3_def rpi2711_setup_pwm_hard_def Let_def split: if_splits)
  show "pw_channel p' = pw_channel p" if "gc_set_pwm_duty cfg p duty h = Some (p', h')" for p duty h p' h'
    using that assms by (auto simp: gpio_config_rpi4_def gpio_config_rpi3_def rpi2711_set_pwm_duty_def)
  show "pw_channel p \<noteq> 0 \<and> g < 28" if "(g, p) \<in> set (gc_pwm_pins cfg)" for g p
    using that assms by (auto simp: gpio_config_rpi4_def gpio_config_rpi3_def rpi2711_pwm_pins_def hard_pwm_def)
qed

lemma rp1_pwm: "pwm_chip gpio_config_rpi5"
proof
  show "pw_channel p' = pw_channel p" if "gc_setup_pwm_hard gpio_config_rpi5 p msg h = Some (e, p', h')" for p msg h e p' h'
    using that by (auto simp: gpio_config_rpi5_def rp1_setup_pwm_hard_def Let_def split: if_splits)
  show "pw_channel p' = pw_channel p" if "gc_set_pwm_duty gpio_config_rpi5 p duty h = Some (p', h')" for p duty h p' h'
    using that by (auto simp: gpio_config_rpi5_def rp1_set_pwm_duty_def Let_def split: if_splits)
  show "pw_channel p \<noteq> 0 \<and> g < 28" if "(g, p) \<in> set (gc_pwm_pins gpio_config_rpi5)" for g p
    using that by (auto simp: gpio_config_rpi5_def rp1_pwm_pins_def hard_pwm_def)
qed

interpretation rpi4_pwm: pwm_chip gpio_config_rpi4
  by (rule bcm_pwm) simp

interpretation rpi3_pwm: pwm_chip gpio_config_rpi3
  by (rule bcm_pwm) simp

interpretation rpi5_pwm: pwm_chip gpio_config_rpi5
  by (rule rp1_pwm)

section \<open>Slots and pins\<close>

definition soft_pins :: "pwm_state \<Rightarrow> nat set" where
  "soft_pins s = {g. g < 28 \<and> (\<exists>i<8. ps_map s g = Some (Soft i))}"

lemma find_slot_None: "find_slot s = None \<longleftrightarrow> (\<forall>i<8. used s i)"
  by (auto simp: find_slot_def used_def find_None_iff)

lemma soft_pins_card:
  assumes "slots_ok s"
  shows "card (soft_pins s) = card {i. i < 8 \<and> used s i}"
proof (rule bij_betw_same_card)
  define f where "f g = (THE i. ps_map s g = Some (Soft i))" for g
  have f: "f g = i" if "ps_map s g = Some (Soft i)" for g i
    using that by (simp add: f_def)
  show "bij_betw f (soft_pins s) {i. i < 8 \<and> used s i}"
  proof (rule bij_betw_byWitness [where f' = "\<lambda>i. pw_gpio (ps_soft s ! i)"])
    show "f ` soft_pins s \<subseteq> {i. i < 8 \<and> used s i}"
      using f slot_of_pin [OF assms] by (auto simp: soft_pins_def)
    show "(\<lambda>i. pw_gpio (ps_soft s ! i)) ` {i. i < 8 \<and> used s i} \<subseteq> soft_pins s"
      using assms slot_of_pin [OF assms] unfolding soft_pins_def slots_ok_def by blast
    show "\<forall>g \<in> soft_pins s. pw_gpio (ps_soft s ! f g) = g"
      using f slot_of_pin [OF assms] by (auto simp: soft_pins_def)
    show "\<forall>i \<in> {i. i < 8 \<and> used s i}. f (pw_gpio (ps_soft s ! i)) = i"
      using assms by (auto intro!: f simp: slots_ok_def)
  qed
qed

lemma all_slots_used:
  assumes "slots_ok s"
  shows "find_slot s = None \<longleftrightarrow> card (soft_pins s) = 8"
proof -
  let ?U = "{i. i < 8 \<and> used s i}"
  have "?U = {..<8}" if "card ?U = 8"
    by (rule card_subset_eq) (use that in auto)
  moreover have "card ?U = 8" if "?U = {..<8}"
    unfolding that by simp
  ultimately have "card ?U = 8 \<longleftrightarrow> ?U = {..<8}"
    by blast
  then show ?thesis
    unfolding find_slot_None soft_pins_card [OF assms] by auto
qed

text \<open>C35. On every chip and over any run of set-ups, duty cycles, closing clients and timer interrupts, with any
  rounding of the double arithmetic: no two pins share a PWM structure, hardware or software; the
  slot of a pin names that pin and has an owner; and for a pin that is not set up, a set-up is
  refused with EAGAIN exactly when eight pins hold a software slot. So no slot is lost or leaked,
  whichever calls fail on the way.\<close>

theorem soft_slots_exclusive:
  assumes "cfg \<in> {gpio_config_rpi3, gpio_config_rpi4, gpio_config_rpi5}"
    and "run_steps (pwm_do cfg fl) xs (pwm_init cfg h) = Some s"
  shows "(ps_map s g = Some r \<and> ps_map s g' = Some r \<longrightarrow> g = g') \<and>
    (ps_map s g = Some (Soft i) \<longrightarrow> i < 8 \<and> pw_gpio (ps_soft s ! i) = g \<and> \<not> client_info_is_unused (pw_ci (ps_soft s ! i))) \<and>
    (ps_map s (pm_gpio msg) = None \<longrightarrow>
      (pwm_setup cfg ci msg s = Some (Some EAGAIN, s) \<longleftrightarrow> card (soft_pins s) = 8))"
proof -
  have chip: "pwm_chip cfg"
    using assms(1) bcm_pwm rp1_pwm by blast
  have "pwm_inv cfg s"
    using assms rpi3_pwm.pwm_runs.run_inv rpi4_pwm.pwm_runs.run_inv rpi5_pwm.pwm_runs.run_inv pwm_chip.pwm_init_inv [OF chip]
    by blast
  then have ok: "slots_ok s" "hards_ok cfg s"
    by (simp_all add: pwm_inv_def)
  have 1: "g = g'" if "ps_map s g = Some r" "ps_map s g' = Some r"
  proof (cases r)
    case (Hard k)
    then show ?thesis
      using that ok(2) unfolding hards_ok_def by metis
  next
    case (Soft i)
    then show ?thesis
      using that slot_of_pin [OF ok(1)] by metis
  qed
  have ch: "pw_channel (ps_soft s ! i) = 0" if "i < 8" for i
    using ok(1) that by (simp add: slots_ok_def)
  have len: "length (ps_soft s) = 8"
    using ok(1) by (simp add: slots_ok_def)
  have "pwm_setup cfg ci msg s = Some (Some EAGAIN, s) \<longleftrightarrow> find_slot s = None" if "ps_map s (pm_gpio msg) = None"
  proof (cases "find_slot s")
    case (Some i)
    then have "i < 8"
      by (simp add: find_slot_free)
    then show ?thesis
      using that Some ch len by (simp add: pwm_setup_def setup_pwm_def deref_def assign_def Let_def)
  qed (simp add: that pwm_setup_def)
  then show ?thesis
    using 1 slot_of_pin [OF ok(1)] all_slots_used [OF ok(1)] by (auto simp: used_def)
qed

text \<open>In every state the manager can reach, a duty cycle for a pin without PWM set-up never succeeds:
  if eight other pins hold the software slots it is refused with EAGAIN, otherwise the default
  set-up it makes succeeds and the call goes on to read through the null pointer it fetched before
  (the result None stands for undefined behaviour). One message of one client ends the manager.\<close>

theorem duty_before_setup:
  assumes "cfg \<in> {gpio_config_rpi3, gpio_config_rpi4, gpio_config_rpi5}"
    and "run_steps (pwm_do cfg fl) xs (pwm_init cfg h) = Some s" "ps_map s g = None"
  shows "pwm_set_duty_cycle cfg fl env ci g duty s =
    (if card (soft_pins s) = 8 then Some (Some EAGAIN, s) else None)"
proof -
  have chip: "pwm_chip cfg"
    using assms(1) bcm_pwm rp1_pwm by blast
  have "pwm_inv cfg s"
    using assms(1,2) rpi3_pwm.pwm_runs.run_inv rpi4_pwm.pwm_runs.run_inv rpi5_pwm.pwm_runs.run_inv pwm_chip.pwm_init_inv [OF chip]
    by blast
  then have ok: "slots_ok s"
    by (simp add: pwm_inv_def)
  show ?thesis
  proof (cases "find_slot s")
    case None
    then show ?thesis
      using assms(3) all_slots_used [OF ok] by (simp add: pwm_set_duty_cycle_def pwm_setup_def)
  next
    case (Some i)
    then have "i < length (ps_soft s)" "pw_channel (ps_soft s ! i) = 0"
      using find_slot_free [OF Some] ok by (simp_all add: slots_ok_def)
    then show ?thesis
      using assms(3) all_slots_used [OF ok] Some
      by (simp add: pwm_set_duty_cycle_def pwm_setup_def setup_pwm_def deref_def assign_def Let_def)
  qed
qed

section \<open>Delays of the timer interrupt\<close>

definition idle_slot :: "pwm \<Rightarrow> bool" where
  "idle_slot p \<longleftrightarrow> pw_gpio p = 0 \<or> pw_duty p = 0"

lemma isr_idle: "idle_slot p \<Longrightarrow> isr_slot cfg cur p (n, h) = (p, n, h)"
  by (auto simp: isr_slot_def idle_slot_def)

lemma isr_idles: "\<forall>p \<in> set ps. idle_slot p \<Longrightarrow> isr_slots cfg cur ps acc = (ps, acc)"
  by (induction ps arbitrary: acc) (auto simp: isr_idle split: prod.split)

lemma isr_one:
  assumes "\<forall>p \<in> set xs. idle_slot p" "\<forall>p \<in> set ys. idle_slot p" "isr_slot cfg cur p acc = (q, acc')"
  shows "isr_slots cfg cur (xs @ p # ys) acc = (xs @ q # ys, acc')"
  using assms(1)
proof (induction xs)
  case Nil
  then show ?case
    using isr_idles [OF assms(2)] assms(3) by simp
next
  case (Cons x xs)
  then show ?case
    by (cases acc) (simp add: isr_idle)
qed

lemma sint_small: "sint w = int (unat w)" if "unat (w :: u32) < 2 ^ 31"
proof -
  have "uint w < 2 ^ 31"
    using that by (metis of_nat_less_iff of_nat_numeral of_nat_power of_nat_unat)
  then have "signed_take_bit 31 (uint w) = uint w"
    using uint_ge_0 [of w] by (intro signed_take_bit_int_eq_self) linarith+
  then show ?thesis
    by (simp add: sint_uint)
qed

text \<open>
  Interrupts of one software channel: each element gives the delay from the match to the first read
  of the counter and from the first to the second read.
\<close>

fun ticks :: "gpio_config \<Rightarrow> (u32 \<times> u32) list \<Rightarrow> pwm_state \<Rightarrow> pwm_state" where
  "ticks cfg [] s = s"
| "ticks cfg ((l, d) # xs) s =
     (let cur = ps_stc1 s + l in ticks cfg xs (timer_isr cfg True cur (cur + d) s))"

definition on_schedule :: "nat \<Rightarrow> pwm \<Rightarrow> nat \<Rightarrow> pwm_state \<Rightarrow> bool" where
  "on_schedule i p late s \<longleftrightarrow> i < length (ps_soft s) \<and> ps_soft s ! i = p \<and> ps_ready s
     \<and> (\<forall>j < length (ps_soft s). j \<noteq> i \<longrightarrow> idle_slot (ps_soft s ! j))
     \<and> ps_stc1 s = pw_last_change p + phase_time p + of_nat late"

definition toggled :: "pwm \<Rightarrow> pwm" where
  "toggled p = p\<lparr>pw_last_change := pw_last_change p + phase_time p, pw_state := \<not> pw_state p\<rparr>"

lemma tick_on_schedule:
  assumes s: "on_schedule i p late s" and p: "pw_gpio p \<noteq> 0" "pw_duty p \<noteq> 0"
    and times: "20 \<le> unat (pw_time_on p)" "unat (pw_time_on p) < 2 ^ 30" "20 \<le> unat (pw_time_off p)" "unat (pw_time_off p) < 2 ^ 30"
    and late: "0 < late" "late + unat l + unat d < 2 ^ 31" and cur: "cur = ps_stc1 s + l"
  shows "on_schedule i (toggled p) (late + unat l + unat d) (timer_isr cfg True cur (cur + d) s)"
proof -
  let ?T = "phase_time p" and ?N = "phase_time (toggled p)"
  have T: "20 \<le> unat ?T" "unat ?T < 2 ^ 30" "20 \<le> unat ?N" "unat ?N < 2 ^ 30"
    using times by (simp_all add: phase_time_def toggled_def)
  have i: "i < length (ps_soft s)" "ps_soft s ! i = p" "ps_ready s"
    and others: "\<And>j. j < length (ps_soft s) \<Longrightarrow> j \<noteq> i \<Longrightarrow> idle_slot (ps_soft s ! j)"
    and stc1: "ps_stc1 s = pw_last_change p + ?T + of_nat late"
    using s by (auto simp: on_schedule_def)
  have elapsed: "cur - pw_last_change p = ?T + of_nat late + l"
    by (simp add: cur stc1)
  have un: "unat (?T + of_nat late + l) = unat ?T + late + unat l"
  proof -
    have "unat (of_nat late :: u32) = late"
      using late by (simp add: unat_of_nat take_bit_nat_eq_self)
    then have "unat (?T + of_nat late) = unat ?T + late"
      using T late by (simp add: unat_word_ariths)
    then show ?thesis
      using T late by (simp add: unat_word_ariths)
  qed
  then have toggles: "cur - pw_last_change p > ?T"
    using late by (simp add: elapsed word_less_nat_alt)
  have small: "?N < -1"
    using T(4) by (simp add: word_less_nat_alt unsigned_minus_1_eq_mask mask_eq_exp_minus_1)
  obtain h where one: "isr_slot cfg cur p (-1, ps_hw s) = (toggled p, ?N, h)"
    using p toggles small by (auto simp: isr_slot_def toggled_def Let_def phase_time_def split: if_splits)
  define xs ys where "xs = take i (ps_soft s)" and "ys = drop (Suc i) (ps_soft s)"
  have soft: "ps_soft s = xs @ p # ys"
    using id_take_nth_drop [OF i(1)] i(2) by (simp add: xs_def ys_def)
  have "\<forall>q \<in> set xs. idle_slot q" "\<forall>q \<in> set ys. idle_slot q"
    using others i(1) by (auto simp: xs_def ys_def in_set_conv_nth)
  then have isr: "isr_slots cfg cur (ps_soft s) (-1, ps_hw s) = (xs @ toggled p # ys, ?N, h)"
    unfolding soft by (intro isr_one one)
  have "20 \<le> uint ?N"
    using T(3) by (metis of_nat_le_iff of_nat_numeral of_nat_unat)
  then have "\<not> ?N <s 20"
    using T by (simp add: word_sless_alt sint_small)
  then have t: "timer_isr cfg True cur (cur + d) s =
      s\<lparr>ps_soft := xs @ toggled p # ys, ps_hw := h, ps_stc1 := cur + d + ?N, ps_intrs := ps_intrs s + 1\<rparr>"
    using i(3) isr by (simp add: timer_isr_def)
  have upd: "xs @ toggled p # ys = (ps_soft s)[i := toggled p]"
    using i(1) by (simp add: xs_def ys_def upd_conv_take_nth_drop)
  have "cur + d + ?N = pw_last_change (toggled p) + ?N + of_nat (late + unat l + unat d)"
    by (simp add: cur stc1 toggled_def)
  then show ?thesis
    unfolding t upd using i others by (simp add: on_schedule_def nth_list_update)
qed


definition total_delay :: "(u32 \<times> u32) list \<Rightarrow> nat" where
  "total_delay xs = (\<Sum>(l, d)\<leftarrow>xs. unat l + unat d)"

lemma toggled_fields [simp]:
  "pw_gpio (toggled p) = pw_gpio p" "pw_duty (toggled p) = pw_duty p"
  "pw_time_on (toggled p) = pw_time_on p" "pw_time_off (toggled p) = pw_time_off p"
  "pw_state (toggled p) \<longleftrightarrow> \<not> pw_state p"
  by (simp_all add: toggled_def)

lemma ticks_on_schedule:
  assumes "pw_gpio p \<noteq> 0" "pw_duty p \<noteq> 0" "20 \<le> unat (pw_time_on p)" "unat (pw_time_on p) < 2 ^ 30"
    "20 \<le> unat (pw_time_off p)" "unat (pw_time_off p) < 2 ^ 30"
  shows "on_schedule i p late s \<Longrightarrow> 0 < late \<Longrightarrow> late + total_delay xs < 2 ^ 31 \<Longrightarrow>
    on_schedule i ((toggled ^^ length xs) p) (late + total_delay xs) (ticks cfg xs s)"
  using assms
proof (induction xs arbitrary: p late s)
  case (Cons x xs)
  obtain l d where x: "x = (l, d)"
    by fastforce
  have total: "total_delay (x # xs) = unat l + unat d + total_delay xs"
    by (simp add: total_delay_def x)
  have "on_schedule i (toggled p) (late + unat l + unat d) (timer_isr cfg True (ps_stc1 s + l) (ps_stc1 s + l + d) s)"
    using Cons.prems total by (intro tick_on_schedule) simp_all
  then have "on_schedule i ((toggled ^^ length xs) (toggled p)) (late + unat l + unat d + total_delay xs)
      (ticks cfg xs (timer_isr cfg True (ps_stc1 s + l) (ps_stc1 s + l + d) s))"
    using Cons.prems total by (intro Cons.IH) simp_all
  then show ?case
    by (simp add: x total funpow_swap1 add.assoc Let_def total_delay_def)
qed (simp add: total_delay_def)

lemma toggled_twice: "(toggled ^^ (2 * m)) p = p\<lparr>pw_last_change := pw_last_change p + of_nat m * (pw_time_on p + pw_time_off p)\<rparr>"
proof (induction m)
  case (Suc m)
  have two: "toggled (toggled q) = q\<lparr>pw_last_change := pw_last_change q + (pw_time_on q + pw_time_off q)\<rparr>" for q
    by (cases "pw_state q") (simp_all add: toggled_def phase_time_def add.assoc add.commute)
  have "(toggled ^^ (2 * Suc m)) p = toggled (toggled ((toggled ^^ (2 * m)) p))"
    by simp
  then show ?case
    unfolding Suc two by (simp add: algebra_simps)
qed simp

text \<open>C36. Software PWM drifts. With one channel running, every timer interrupt makes exactly one edge, and
  the time recorded for it is the ideal one: after 2m interrupts the record has advanced by exactly
  m periods. But the comparator is reloaded with a whole phase from the moment of the interrupt, so
  what each interrupt was late (the delay before the counter is read and the one before it is read
  again) is never made up: the next edge is due late by the sum of all delays since the start, for
  any delays. The phases are at least 20 microseconds, the minimal interval, and the sum stays below
  half the range of the counter.\<close>

theorem soft_pwm_delays_add_up:
  assumes "on_schedule i p late s" "pw_gpio p \<noteq> 0" "pw_duty p \<noteq> 0" "20 \<le> unat (pw_time_on p)" "unat (pw_time_on p) < 2 ^ 30"
    "20 \<le> unat (pw_time_off p)" "unat (pw_time_off p) < 2 ^ 30"
    and "0 < late" "late + total_delay xs < 2 ^ 31" "length xs = 2 * m"
  shows "let s' = ticks cfg xs s; p' = ps_soft s' ! i
    in pw_last_change p' = pw_last_change p + of_nat m * (pw_time_on p + pw_time_off p) \<and>
       pw_state p' = pw_state p \<and>
       ps_stc1 s' = pw_last_change p' + phase_time p + of_nat (late + total_delay xs)"
  using ticks_on_schedule [OF assms(2-7,1,8,9), of cfg]
  by (simp add: assms(10) toggled_twice on_schedule_def phase_time_def Let_def)

definition sample_channel :: pwm where
  "sample_channel = zero_pwm\<lparr>pw_gpio := 17, pw_duty := 1, pw_state := True, pw_time_on := 500, pw_time_off := 1500\<rparr>"

definition sample_channels :: pwm_state where
  "sample_channels =
     \<lparr>ps_hard = \<lambda>_. zero_pwm, ps_soft = sample_channel # replicate 7 zero_pwm, ps_map = \<lambda>_. None, ps_attached = True,
      ps_threads = 1, ps_ready = True, ps_intrs = 0, ps_stc1 = 503,
      ps_hw = \<lparr>hw_regs = \<lambda>_. 0, hw_latch = \<lambda>_. 0, hw_pwm = \<lambda>_. 0, hw_clk = \<lambda>_. 0, hw_msix = \<lambda>_. 0, hw_init_pwm_clk = True\<rparr>\<rparr>"

theorem soft_pwm_delays_add_up_witness:
  "ps_stc1 (ticks gpio_config_rpi4 [(4, 1), (5, 1)] sample_channels) = 2000 + 500 + 14"
proof -
  have idle: "idle_slot (ps_soft sample_channels ! j)" if "j < 8" "j \<noteq> 0" for j
    using that by (cases j) (simp_all add: sample_channels_def idle_slot_def zero_pwm_def)
  have "on_schedule 0 sample_channel 3 sample_channels"
    using idle by (simp add: on_schedule_def) (simp add: sample_channels_def sample_channel_def phase_time_def zero_pwm_def)
  then show ?thesis
    using soft_pwm_delays_add_up [of 0 sample_channel 3 sample_channels "[(4, 1), (5, 1)]" 1 gpio_config_rpi4]
    by (simp add: sample_channel_def total_delay_def phase_time_def Let_def zero_pwm_def del: ticks.simps)
qed

section \<open>What the interrupt never does\<close>

text \<open>The slot of pin 0 is taken for unused: its level never changes by an interrupt.\<close>

theorem pin_0_never_toggles: "pw_gpio p = 0 \<Longrightarrow> isr_slot cfg cur p acc = (p, acc)"
  by (cases acc) (simp add: isr_slot_def)

text \<open>The times of a channel in PWM mode do not depend on the period asked for as they should.\<close>

theorem pwm_mode_times:
  "soft_times id (zero_pwm\<lparr>pw_frequency := 50, pw_range := 1000, pw_mode := 0\<rparr>) 500 = Some (25, 25)"
  "soft_times id (zero_pwm\<lparr>pw_frequency := 50, pw_range := 1000, pw_mode := 1\<rparr>) 500 = Some (10000, 10000)"
  by (simp_all add: soft_times_def both_def to_unsigned_def zero_pwm_def Let_def)

section \<open>Sample runs of slots\<close>

definition sample_owner :: client_info where
  "sample_owner = \<lparr>ci_rcvid = 5, ci_scoid = 2, ci_coid = 3\<rparr>"

definition one_setup :: pwm_state where
  "one_setup = the (run_steps (pwm_do gpio_config_rpi4 id)
     [PwmSetup sample_owner \<lparr>pm_gpio = 17, pm_frequency = 50, pm_range = 1000, pm_mode = 1\<rparr>]
     (pwm_init gpio_config_rpi4 (ps_hw sample_channels)))"

lemma one_setup_run: "run_steps (pwm_do gpio_config_rpi4 id)
     [PwmSetup sample_owner \<lparr>pm_gpio = 17, pm_frequency = 50, pm_range = 1000, pm_mode = 1\<rparr>]
     (pwm_init gpio_config_rpi4 (ps_hw sample_channels)) = Some one_setup"
  and one_setup_map: "ps_map one_setup 17 = Some (Soft 0)" "ps_map one_setup 22 = None"
    "g \<notin> {12, 13, 17, 18, 19} \<Longrightarrow> ps_map one_setup g = None" "\<forall>g \<in> {12, 13, 18, 19}. ps_map one_setup g = Some (Hard g)"
  by (simp_all add: one_setup_def pwm_do_def pwm_setup_def find_slot_def setup_pwm_def pwm_init_def
      sample_owner_def client_info_is_unused_def client_info_reset_def deref_def assign_def zero_pwm_def Let_def
      gpio_config_rpi4_def rpi2711_pwm_pins_def hard_pwm_def upt_rec numeral_nat)

lemma one_setup_pins: "card (soft_pins one_setup) \<noteq> 8"
proof -
  have "soft_pins one_setup \<subseteq> {17}"
  proof
    fix g
    assume g: "g \<in> soft_pins one_setup"
    have "g \<in> {12, 13, 17, 18, 19}"
      by (rule ccontr) (use g one_setup_map(3) [of g] in \<open>simp add: soft_pins_def\<close>)
    moreover have "g \<notin> {12, 13, 18, 19}"
      using g one_setup_map(4) by (auto simp: soft_pins_def)
    ultimately show "g \<in> {17}"
      by blast
  qed
  then have "card (soft_pins one_setup) \<le> card {17 :: nat}"
    by (intro card_mono) simp_all
  then show ?thesis
    by simp
qed

theorem soft_slots_exclusive_witness:
  "pwm_setup gpio_config_rpi4 sample_owner \<lparr>pm_gpio = 22, pm_frequency = 50, pm_range = 1000, pm_mode = 1\<rparr> one_setup
     \<noteq> Some (Some EAGAIN, one_setup) \<and> pw_gpio (ps_soft one_setup ! 0) = 17"
  using soft_slots_exclusive [OF _ one_setup_run, of 17 "Soft 0" 17 0
      "\<lparr>pm_gpio = 22, pm_frequency = 50, pm_range = 1000, pm_mode = 1\<rparr>" sample_owner]
  by (simp add: one_setup_map one_setup_pins)

theorem duty_before_setup_witness:
  "pwm_set_duty_cycle gpio_config_rpi4 id \<lparr>te_clock = \<lambda>_. 0, te_thread = True\<rparr> sample_owner 22 100 one_setup = None"
  using duty_before_setup [OF _ one_setup_run, of 22] by (simp add: one_setup_map one_setup_pins)

end
