(* ===== verification/GpioMgrRuns.thy ===== *)
theory GpioMgrRuns
  imports GpioMgr GpioEventRuns GpioPwmRuns
begin

text \<open>
  The GPIO resource manager as a whole, on every chip: its state stays well-formed over any run of
  messages, text commands, closing clients and interrupts; PWM and pin functions do not disturb event
  detection; text nodes and structured messages agree; a pin function set by a message reads back.
\<close>

unbundle bit_operations_syntax

section \<open>Nothing but registrations changes event detection\<close>

abbreviation view :: "gpio_config \<Rightarrow> nat \<Rightarrow> hw \<Rightarrow> bool \<times> bool list" where
  "view cfg g h \<equiv> fst (pin_view cfg g h)"

locale gpio_chip = event_chip + pwm_chip +
  assumes select_view: "g < 28 \<Longrightarrow> g' < 28 \<Longrightarrow> view cfg g' (gc_set_select cfg g v h) = view cfg g' h"
    and set_view: "g < 28 \<Longrightarrow> g' < 28 \<Longrightarrow> view cfg g' (gc_set cfg g h) = view cfg g' h"
    and clear_view: "g < 28 \<Longrightarrow> g' < 28 \<Longrightarrow> view cfg g' (gc_clear cfg g h) = view cfg g' h"
    and pud_view: "g < 28 \<Longrightarrow> g' < 28 \<Longrightarrow> view cfg g' (snd (gc_set_pud cfg g v h)) = view cfg g' h"
    and setup_view: "pw_gpio p < 28 \<Longrightarrow> g' < 28 \<Longrightarrow> gc_setup_pwm_hard cfg p msg h = Some (e, p', h') \<Longrightarrow>
      view cfg g' h' = view cfg g' h"
    and duty_view: "g' < 28 \<Longrightarrow> gc_set_pwm_duty cfg p duty h = Some (p', h') \<Longrightarrow> view cfg g' h' = view cfg g' h"
    and hard_gpio: "gc_setup_pwm_hard cfg p msg h = Some (e, p', h') \<Longrightarrow> pw_gpio p' = pw_gpio p"
    and hard_gpio': "gc_set_pwm_duty cfg p duty h = Some (p', h') \<Longrightarrow> pw_gpio p' = pw_gpio p"
    and pins_gpio: "(g, p) \<in> set (gc_pwm_pins cfg) \<Longrightarrow> pw_gpio p = g"
begin

end

lemma bcm_view:
  assumes "gc_version cfg \<noteq> RPI_VER_5" "\<And>r. r \<in> {19, 22, 25, 28} \<Longrightarrow> hw_regs h r = hw_regs h' r"
  shows "view cfg g h = view cfg g h'"
proof -
  have "hw_regs h ([19, 22, 25, 28] ! k) = hw_regs h' ([19, 22, 25, 28] ! k)" if "k < 4" for k
    using that assms(2) nth_mem [of k "[19, 22, 25, 28]"] by simp
  then show ?thesis
    using assms(1) by (simp add: pin_view_def quiet_def armed_def)
qed

lemma store_pud [simp]: "hw_regs (snd (rpi_bcm2835_gpio_set_pud g v h)) r = hw_regs h r" if "g < 28" "r \<in> {19, 22, 25, 28}"
  using that by (auto simp: rpi_bcm2835_gpio_set_pud_def Let_def store_regs)

lemma store_pud' [simp]: "hw_regs (snd (rpi2711_gpio_set_pud_bcm2711 g v h)) r = hw_regs h r" if "r \<in> {19, 22, 25, 28}"
  using that by (auto simp: rpi2711_gpio_set_pud_bcm2711_def Let_def store_regs)

lemma store_select [simp]: "hw_regs (rpi2711_gpio_set_select g v h) r = hw_regs h r" if "g < 28" "r \<in> {19, 22, 25, 28}"
proof -
  have "g div 10 < 3"
    using that(1) by simp
  then show ?thesis
    using that(2) by (auto simp: rpi2711_gpio_set_select_def Let_def store_regs)
qed

lemma pwm_stores [simp]: "hw_regs (pwm_store r v h) = hw_regs h" "hw_regs (clk_store r v h) = hw_regs h"
  by (simp_all add: pwm_store_def clk_store_def)

lemma bcm_gpio_chip:
  assumes cfg: "cfg = gpio_config_rpi4 \<or> cfg = gpio_config_rpi3"
  shows "gpio_chip cfg"
proof (intro gpio_chip.intro gpio_chip_axioms.intro)
  show "event_chip cfg" "pwm_chip cfg"
    by (rule bcm_chip [OF cfg], rule bcm_pwm [OF cfg])
  have v: "gc_version cfg \<noteq> RPI_VER_5"
    using cfg by (auto simp: gpio_config_rpi4_def gpio_config_rpi3_def)
  note view = bcm_view [OF v]
  note cfgs = gpio_config_rpi4_def gpio_config_rpi3_def
  fix g g' :: nat and h h' v p p' msg e duty
  show "view cfg g' (gc_set_select cfg g v h) = view cfg g' h" if "g < 28"
    using cfg that by (intro view) (auto simp: cfgs)
  show "view cfg g' (gc_set cfg g h) = view cfg g' h" if "g < 28"
    using cfg that by (intro view) (auto simp: cfgs rpi2711_gpio_set_def store_regs)
  show "view cfg g' (gc_clear cfg g h) = view cfg g' h" if "g < 28"
    using cfg that by (intro view) (auto simp: cfgs rpi2711_gpio_clear_def store_regs)
  show "view cfg g' (snd (gc_set_pud cfg g v h)) = view cfg g' h" if "g < 28"
    using cfg that by (intro view) (auto simp: cfgs)
  show "view cfg g' h' = view cfg g' h" if "pw_gpio p < 28" "gc_setup_pwm_hard cfg p msg h = Some (e, p', h')"
    using cfg that by (intro view) (auto simp: cfgs rpi2711_setup_pwm_hard_def Let_def split: if_splits)
  show "view cfg g' h' = view cfg g' h" if "gc_set_pwm_duty cfg p duty h = Some (p', h')"
    using cfg that by (intro view) (auto simp: cfgs rpi2711_set_pwm_duty_def)
  show "pw_gpio p' = pw_gpio p" if "gc_setup_pwm_hard cfg p msg h = Some (e, p', h')"
    using cfg that by (auto simp: cfgs rpi2711_setup_pwm_hard_def Let_def split: if_splits)
  show "pw_gpio p' = pw_gpio p" if "gc_set_pwm_duty cfg p duty h = Some (p', h')"
    using cfg that by (auto simp: cfgs rpi2711_set_pwm_duty_def)
  show "pw_gpio p = g" if "(g, p) \<in> set (gc_pwm_pins cfg)"
    using cfg that by (auto simp: cfgs rpi2711_pwm_pins_def hard_pwm_def)
qed

interpretation rpi4_chip: gpio_chip gpio_config_rpi4
  by (rule bcm_gpio_chip) simp

interpretation rpi3_chip: gpio_chip gpio_config_rpi3
  by (rule bcm_gpio_chip) simp


lemma rp1_view:
  assumes "\<And>n. 20 \<le> n \<Longrightarrow> n < 24 \<Longrightarrow> bit (hw_regs h (RP1_GPIO_IO_REG_CTRL_OFFSET g)) n = bit (hw_regs h' (RP1_GPIO_IO_REG_CTRL_OFFSET g)) n"
    and "bit (hw_regs h 0x11c) g = bit (hw_regs h' 0x11c) g"
  shows "view gpio_config_rpi5 g h = view gpio_config_rpi5 g h'"
proof -
  have v: "gc_version gpio_config_rpi5 = RPI_VER_5"
    by (simp add: gpio_config_rpi5_def)
  have "bit (hw_regs h (RP1_GPIO_IO_REG_CTRL_OFFSET g)) ([21, 20, 23, 22] ! k) =
      bit (hw_regs h' (RP1_GPIO_IO_REG_CTRL_OFFSET g)) ([21, 20, 23, 22] ! k)" if "k < 4" for k
    using that assms(1) nth_mem [of k "[21, 20, 23, 22 :: nat]"] by (intro assms(1)) auto
  then show ?thesis
    using assms(2) by (simp add: pin_view_def quiet_def armed_def v)
qed

lemma rp1_select_view: "view gpio_config_rpi5 g' (rp1_gpio_set_select g v h) = view gpio_config_rpi5 g' h"
  if "g < 28" "g' < 28"
proof (cases "rp1_value v")
  case None
  then show ?thesis
    by (simp add: rp1_gpio_set_select_def)
next
  case (Some w)
  have b: "RP1_GPIO_IO_REG_CTRL_OFFSET g' < 0x20000" "RP1_GPIO_IO_REG_CTRL_OFFSET g' \<noteq> 0x10004"
    "RP1_GPIO_IO_REG_CTRL_OFFSET g' \<noteq> 0x124"
    using ctrl_bound [OF that(2)] by simp_all
  show ?thesis
  proof (rule rp1_view)
    fix n :: nat
    assume n: "20 \<le> n" "n < 24"
    show "bit (hw_regs (rp1_gpio_set_select g v h) (RP1_GPIO_IO_REG_CTRL_OFFSET g')) n =
        bit (hw_regs h (RP1_GPIO_IO_REG_CTRL_OFFSET g')) n"
      unfolding set_select_regs [OF that(1) Some b(1)] write_ctrl [OF that(1)] mask_5
      using n b(2,3) that by (auto simp: oe_step_regs bit_and_iff bit_or_iff bit_not_iff bit_mask_iff)
  next
    show "bit (hw_regs (rp1_gpio_set_select g v h) 0x11c) g' = bit (hw_regs h 0x11c) g'"
      using set_select_regs [OF that(1) Some, of "0x11c"] ctrl_neq [OF that(1)] that(1) by (simp add: write_ctrl oe_step_regs)
  qed
qed

lemma rp1_other_view:
  assumes "hw_regs t = hw_regs (reg_write r v h)" "\<not> is_pin_ctrl r" "r \<noteq> 0x11c" "g' < 28"
  shows "view gpio_config_rpi5 g' t = view gpio_config_rpi5 g' h"
  using assms(2-4) ctrl_is_pin [OF assms(4)] by (intro rp1_view) (auto simp: assms(1) write_other)

lemma rp1_regs_view: "hw_regs t = hw_regs h \<Longrightarrow> view gpio_config_rpi5 g' t = view gpio_config_rpi5 g' h"
  by (intro rp1_view) simp_all

lemma rp1_pwm_stores [simp]: "hw_regs (pwm_out32 r v h) = hw_regs h" "hw_regs (clk_out32 r v h) = hw_regs h"
  by (simp_all add: pwm_out32_def clk_out32_def)

lemma out_stores:
  "out32 0x12000 v h = reg_write 0x10000 (hw_regs h 0x10000 OR v) h"
  "out32 0x13000 v h = reg_write 0x10000 (hw_regs h 0x10000 AND NOT v) h"
  using out32_set [of "0x10000" v h] out32_clr [of "0x10000" v h] by simp_all

lemma out_not_ctrl [simp]: "\<not> is_pin_ctrl 0x10000"
  by (simp add: is_pin_ctrl_def)

lemma rp1_gpio_chip: "gpio_chip gpio_config_rpi5"
proof (intro gpio_chip.intro gpio_chip_axioms.intro)
  show "event_chip gpio_config_rpi5" "pwm_chip gpio_config_rpi5"
    by (rule rp1_chip, rule rp1_pwm)
  let ?c = gpio_config_rpi5
  note c = gpio_config_rpi5_def
  fix g g' :: nat and h h' v p p' msg e duty
  show "view ?c g' (gc_set_select ?c g v h) = view ?c g' h" if "g < 28" "g' < 28"
    using rp1_select_view [OF that] by (simp add: c)
  have set_eq: "gc_set ?c g h = reg_write 0x10000 (hw_regs h 0x10000 OR bit_mask g) h" if "g < 28"
    using that by (simp add: c rp1_gpio_set_def out_stores)
  show "view ?c g' (gc_set ?c g h) = view ?c g' h" if "g < 28" "g' < 28"
    unfolding set_eq [OF that(1)] by (rule rp1_other_view [OF refl out_not_ctrl _ that(2)]) simp
  have clear_eq: "gc_clear ?c g h = reg_write 0x10000 (hw_regs h 0x10000 AND NOT (bit_mask g)) h" if "g < 28"
    using that by (simp add: c rp1_gpio_clear_def out_stores)
  show "view ?c g' (gc_clear ?c g h) = view ?c g' h" if "g < 28" "g' < 28"
    unfolding clear_eq [OF that(1)] by (rule rp1_other_view [OF refl out_not_ctrl _ that(2)]) simp
  have pud_eq: "snd (gc_set_pud ?c g v h) = h \<or> (\<exists>w. snd (gc_set_pud ?c g v h) =
      reg_write (0x20000 + RP1_GPIO_PADS_REG_OFFSET g) w h)" if "g < 28"
    using that by (auto simp: c rp1_gpio_set_pud_def pads_replace Let_def)
  show "view ?c g' (snd (gc_set_pud ?c g v h)) = view ?c g' h" if "g < 28" "g' < 28"
    using pud_eq [OF that(1)] rp1_other_view [OF refl oe_not_ctrl(2) _ that(2)] by auto
  show "view ?c g' h' = view ?c g' h" if "pw_gpio p < 28" "g' < 28" "gc_setup_pwm_hard ?c p msg h = Some (e, p', h')"
  proof -
    have "hw_regs (rp1_program_channel a b d (rp1_enable_clock h)) = hw_regs h" for a b d
      by (simp add: rp1_program_channel_def rp1_enable_clock_def Let_def)
    then have same: "view ?c g' (rp1_program_channel a b d (rp1_enable_clock h)) = view ?c g' h" for a b d
      by (intro rp1_regs_view) simp
    have "h' = h \<or> (\<exists>a b d. h' = rp1_gpio_set_select (pw_gpio p) (pw_func p) (rp1_program_channel a b d (rp1_enable_clock h)))"
      using that(3) by (auto simp: c rp1_setup_pwm_hard_def Let_def split: if_splits)
    then show ?thesis
      using same rp1_select_view [OF that(1,2)] by auto
  qed
  show "view ?c g' h' = view ?c g' h" if "gc_set_pwm_duty ?c p duty h = Some (p', h')"
    using that by (intro rp1_regs_view) (auto simp: c rp1_set_pwm_duty_def Let_def split: if_splits)
  show "pw_gpio p' = pw_gpio p" if "gc_setup_pwm_hard ?c p msg h = Some (e, p', h')"
    using that by (auto simp: c rp1_setup_pwm_hard_def Let_def split: if_splits)
  show "pw_gpio p' = pw_gpio p" if "gc_set_pwm_duty ?c p duty h = Some (p', h')"
    using that by (auto simp: c rp1_set_pwm_duty_def Let_def split: if_splits)
  show "pw_gpio p = g" if "(g, p) \<in> set (gc_pwm_pins ?c)"
    using that by (auto simp: c rp1_pwm_pins_def hard_pwm_def)
qed

interpretation rpi5_chip: gpio_chip gpio_config_rpi5
  by (rule rp1_gpio_chip)

section \<open>PWM does not disturb event detection\<close>

definition gpios_ok :: "gpio_config \<Rightarrow> pwm_state \<Rightarrow> bool" where
  "gpios_ok cfg s \<longleftrightarrow> (\<forall>p \<in> set (ps_soft s). pw_gpio p < 28) \<and> (\<forall>g \<in> hard_pins cfg. pw_gpio (ps_hard s g) = g)"

definition keeps :: "gpio_config \<Rightarrow> pwm_state \<Rightarrow> pwm_state \<Rightarrow> bool" where
  "keeps cfg s t \<longleftrightarrow> (gpios_ok cfg s \<longrightarrow> gpios_ok cfg t \<and> (\<forall>g<28. view cfg g (ps_hw t) = view cfg g (ps_hw s)))"

lemma keeps_refl [simp]: "keeps cfg s s"
  by (simp add: keeps_def)

lemma keeps_trans: "keeps cfg s t \<Longrightarrow> keeps cfg t u \<Longrightarrow> keeps cfg s u"
  by (simp add: keeps_def)

lemma keeps_same: "ps_soft t = ps_soft s \<Longrightarrow> ps_hard t = ps_hard s \<Longrightarrow> ps_hw t = ps_hw s \<Longrightarrow> keeps cfg s t"
  by (simp add: keeps_def gpios_ok_def)

lemma keeps_hw:
  "(\<And>g. g < 28 \<Longrightarrow> view cfg g h = view cfg g (ps_hw s)) \<Longrightarrow> keeps cfg s (s\<lparr>ps_hw := h\<rparr>)"
  by (simp add: keeps_def gpios_ok_def)

lemma ps_hw_assign [simp]: "ps_hw (assign r p s) = ps_hw s"
  by (simp add: assign_def split: pwm_ref.split)

lemma keeps_assign:
  assumes "pw_gpio p = pw_gpio (deref r s) \<or> (\<exists>i. r = Soft i) \<and> pw_gpio p < 28"
    and "\<And>i. r = Soft i \<Longrightarrow> i < length (ps_soft s)"
  shows "keeps cfg s (assign r p s)"
proof (cases r)
  case (Soft i)
  then have "pw_gpio p < 28" if "gpios_ok cfg s"
    using that assms by (auto simp: gpios_ok_def deref_def)
  then show ?thesis
    using Soft by (auto simp: keeps_def gpios_ok_def assign_def dest!: set_update_subset_insert [THEN subsetD])
qed (use assms in \<open>auto simp: keeps_def gpios_ok_def assign_def deref_def\<close>)

lemma deref_same [simp]: "deref r (s\<lparr>ps_hw := h\<rparr>) = deref r s" "deref r (s\<lparr>ps_map := m\<rparr>) = deref r s"
  by (simp_all add: deref_def split: pwm_ref.split)

lemma deref_assign [simp]: "(\<And>i. r = Soft i \<Longrightarrow> i < length (ps_soft s)) \<Longrightarrow> deref r (assign r p s) = p"
  by (auto simp: deref_def assign_def split: pwm_ref.split)

lemma soft_assign_length [simp]: "length (ps_soft (assign r p s)) = length (ps_soft s)"
  by (simp add: assign_def split: pwm_ref.split)

lemma ref_soft:
  assumes "pwm_inv cfg s" "ps_map s g = Some (Soft i) \<or> i < 8"
  shows "i < 8" "i < length (ps_soft s)" "pw_channel (ps_soft s ! i) = 0"
proof -
  have ok: "slots_ok s" "length (ps_soft s) = 8"
    using assms(1) by (simp_all add: pwm_inv_def slots_ok_def)
  show 1: "i < 8"
    using slot_of_pin [OF ok(1), of g i] assms(2) by blast
  then show "i < length (ps_soft s)"
    using ok(2) by simp
  show "pw_channel (ps_soft s ! i) = 0"
    using 1 ok(1) unfolding slots_ok_def by blast
qed

lemma ref_hard:
  assumes "pwm_inv cfg s" "ps_map s g = Some (Hard g')"
  shows "g' = g" "g' \<in> hard_pins cfg"
  using assms unfolding pwm_inv_def hards_ok_def by blast+

context gpio_chip
begin

lemma isr_slot_view:
  assumes "pw_gpio p < 28" "g < 28"
  shows "view cfg g (snd (snd (isr_slot cfg cur p acc))) = view cfg g (snd acc)"
  using assms set_view clear_view by (cases acc) (auto simp: isr_slot_def Let_def)

lemma isr_slots_view:
  assumes "\<forall>p \<in> set ps. pw_gpio p < 28" "g < 28"
  shows "view cfg g (snd (snd (isr_slots cfg cur ps acc))) = view cfg g (snd acc)"
  using assms(1)
proof (induction ps arbitrary: acc)
  case (Cons p ps)
  obtain q acc' where q: "isr_slot cfg cur p acc = (q, acc')"
    by (meson surj_pair)
  obtain qs acc'' where qs: "isr_slots cfg cur ps acc' = (qs, acc'')"
    by (meson surj_pair)
  show ?case
    using isr_slot_view [of p g cur acc] Cons.IH [of acc'] Cons.prems assms(2) by (simp add: q qs)
qed simp

lemma isr_slot_gpio: "pw_gpio (fst (isr_slot cfg cur p acc)) = pw_gpio p"
  by (cases acc) (simp add: isr_slot_def Let_def)

lemma isr_slots_gpio: "map pw_gpio (fst (isr_slots cfg cur ps acc)) = map pw_gpio ps"
proof (induction ps arbitrary: acc)
  case (Cons p ps)
  obtain q acc' where q: "isr_slot cfg cur p acc = (q, acc')"
    by (meson surj_pair)
  obtain qs acc'' where qs: "isr_slots cfg cur ps acc' = (qs, acc'')"
    by (meson surj_pair)
  show ?case
    using isr_slot_gpio [of cur p acc] Cons.IH [of acc'] by (simp add: q qs)
qed simp

lemma timer_isr_keeps: "keeps cfg s (timer_isr cfg m cur reload s)"
proof -
  obtain soft nm h where r: "isr_slots cfg cur (ps_soft s) (-1, ps_hw s) = (soft, nm, h)"
    by (metis surj_pair)
  have "map pw_gpio soft = map pw_gpio (ps_soft s)"
    using isr_slots_gpio [of cur "ps_soft s" "(-1, ps_hw s)"] by (simp add: r)
  then have "pw_gpio ` set soft = pw_gpio ` set (ps_soft s)"
    by (metis list.set_map)
  then have gp: "(\<forall>p \<in> set soft. pw_gpio p < 28) \<longleftrightarrow> (\<forall>p \<in> set (ps_soft s). pw_gpio p < 28)"
    by (metis (no_types, opaque_lifting) image_iff)
  have "view cfg g h = view cfg g (ps_hw s)" if "\<forall>p \<in> set (ps_soft s). pw_gpio p < 28" "g < 28" for g
    using isr_slots_view [OF that, of cur "(-1, ps_hw s)"] by (simp add: r)
  then show ?thesis
    using gp by (simp add: keeps_def gpios_ok_def timer_isr_def r Let_def)
qed


lemma setup_keeps:
  assumes inv: "pwm_inv cfg s" and r: "ps_map s (pm_gpio msg) = Some r \<or> (\<exists>i<8. r = Soft i)"
    and g: "pm_gpio msg < 28" and step: "setup_pwm cfg ci msg r s = Some (e, t)"
  shows "keeps cfg s t"
proof -
  let ?p = "(deref r s)\<lparr>pw_adj_duty := 0, pw_adj_range := 0\<rparr>"
  let ?s = "assign r ?p s"
  let ?fin = "\<lambda>p u. (assign r (p\<lparr>pw_mode := pm_mode msg, pw_ci := ci, pw_range := pm_range msg, pw_frequency := pm_frequency msg\<rparr>) u)
    \<lparr>ps_map := (ps_map u)(pm_gpio msg := Some r)\<rparr>"
  have len: "i < length (ps_soft s)" if "r = Soft i" for i
    using ref_soft(2) [OF inv, of "pm_gpio msg" i] r that by blast
  have 1: "keeps cfg s ?s"
    by (rule keeps_assign) (use len in simp_all)
  have fin: "keeps cfg u (?fin p u)" if "pw_gpio p = pw_gpio (deref r u)" "length (ps_soft u) = length (ps_soft s)" for p u
  proof -
    have "keeps cfg u (assign r (p\<lparr>pw_mode := pm_mode msg, pw_ci := ci, pw_range := pm_range msg, pw_frequency := pm_frequency msg\<rparr>) u)"
      by (rule keeps_assign) (use len that in simp_all)
    then show ?thesis
      by (simp add: keeps_def gpios_ok_def)
  qed
  have d: "deref r ?s = ?p"
    using len by simp
  consider (hard) p h e' where "gc_setup_pwm_hard cfg ?p msg (ps_hw s) = Some (e', p, h)" "pw_channel ?p \<noteq> 0"
      "t = (assign r p ?s)\<lparr>ps_hw := h\<rparr> \<or> t = ?fin p (?s\<lparr>ps_hw := h\<rparr>)"
    | (soft) "t = ?s \<or> t = ?fin ?p (?s\<lparr>ps_hw := gc_set_select cfg (pm_gpio msg) 1 (ps_hw s)\<rparr>)"
    using step by (auto simp: setup_pwm_def Let_def split: if_splits option.splits prod.splits)
  then show ?thesis
  proof cases
    case hard
    have "pw_channel (deref r s) = 0" if "r = Soft i" for i
      using ref_soft(3) [OF inv, of "pm_gpio msg" i] r that by (simp add: deref_def)
    then obtain g' where "r = Hard g'"
      using hard(2) by (cases r) simp_all
    then have g': "r = Hard g'" "g' \<in> hard_pins cfg"
      using ref_hard(2) [OF inv] r by simp_all
    have "g' < 28"
      using g'(2) pins_channel by (auto simp: hard_pins_def)
    then have "view cfg q h = view cfg q (ps_hw s)" if "gpios_ok cfg s" "q < 28" for q
      using setup_view [OF _ that(2) hard(1)] that(1) g' by (simp add: gpios_ok_def deref_def)
    then have 2: "keeps cfg s (?s\<lparr>ps_hw := h\<rparr>)"
      using 1 by (simp add: keeps_def gpios_ok_def)
    have p: "pw_gpio p = pw_gpio (deref r (?s\<lparr>ps_hw := h\<rparr>))"
      using hard_gpio [OF hard(1)] d by simp
    have "keeps cfg (?s\<lparr>ps_hw := h\<rparr>) (assign r p (?s\<lparr>ps_hw := h\<rparr>))"
      by (rule keeps_assign) (use len p in simp_all)
    moreover have "assign r p (?s\<lparr>ps_hw := h\<rparr>) = (assign r p ?s)\<lparr>ps_hw := h\<rparr>"
      by (simp add: assign_def split: pwm_ref.split)
    ultimately show ?thesis
      using hard(3) keeps_trans [OF 2] fin [OF p] by auto
  next
    case soft
    have 2: "keeps cfg ?s (?s\<lparr>ps_hw := gc_set_select cfg (pm_gpio msg) 1 (ps_hw s)\<rparr>)"
      by (rule keeps_hw) (simp add: select_view g)
    show ?thesis
      using soft 1 keeps_trans [OF 1 keeps_trans [OF 2 fin]] d by auto
  qed
qed

lemma pwm_setup_keeps:
  assumes inv: "pwm_inv cfg s" and g: "pm_gpio msg < 28" and step: "pwm_setup cfg ci msg s = Some (e, t)"
  shows "keeps cfg s t"
proof (cases "ps_map s (pm_gpio msg)")
  case (Some r)
  then have "t = s \<or> setup_pwm cfg ci msg r s = Some (e, t)"
    using step by (auto simp: pwm_setup_def split: if_splits)
  then show ?thesis
    using setup_keeps [OF inv _ g, of r] Some by auto
next
  case None
  show ?thesis
  proof (cases "find_slot s")
    case None
    then show ?thesis
      using step \<open>ps_map s (pm_gpio msg) = None\<close> by (simp add: pwm_setup_def)
  next
    case (Some i)
    let ?s = "assign (Soft i) ((ps_soft s ! i)\<lparr>pw_gpio := pm_gpio msg\<rparr>) s"
    have i: "i < 8" "\<not> used s i" "i < length (ps_soft s)"
      using find_slot_free [OF Some] inv by (simp_all add: pwm_inv_def slots_ok_def)
    have "pwm_inv cfg ?s"
      by (rule soft_assign_inv [OF inv _ i(1)]) (use i(2) in \<open>simp add: same_slot_def used_def\<close>)
    moreover have "keeps cfg s ?s"
      by (rule keeps_assign) (use g i(3) in simp_all)
    moreover have "setup_pwm cfg ci msg (Soft i) ?s = Some (e, t)"
      using step Some None by (simp add: pwm_setup_def)
    ultimately show ?thesis
      using setup_keeps [OF _ _ g, of ?s "Soft i"] keeps_trans i(1) by blast
  qed
qed

end

lemma timer_same [simp]:
  "ps_soft (timer_intr_check_done s) = ps_soft s" "ps_hard (timer_intr_check_done s) = ps_hard s"
  "ps_hw (timer_intr_check_done s) = ps_hw s"
  "ps_soft (snd (timer_intr_init env time s)) = ps_soft s" "ps_hard (snd (timer_intr_init env time s)) = ps_hard s"
  "ps_hw (snd (timer_intr_init env time s)) = ps_hw s"
  by (simp_all add: timer_intr_check_done_def timer_intr_init_def Let_def)

lemma keeps_assign_hw:
  assumes "keeps cfg s (s\<lparr>ps_hw := h\<rparr>)" "pw_gpio p = pw_gpio (deref r s)" "\<And>i. r = Soft i \<Longrightarrow> i < length (ps_soft s)"
    "ps_soft t = ps_soft (assign r p s)" "ps_hard t = ps_hard (assign r p s)" "ps_hw t = h"
  shows "keeps cfg s t"
proof -
  have "keeps cfg s (assign r p s)"
    using assms(2,3) by (intro keeps_assign) simp_all
  then show ?thesis
    using assms(1,4-6) by (simp add: keeps_def gpios_ok_def)
qed

context gpio_chip
begin

lemma set_keeps: "g < 28 \<Longrightarrow> keeps cfg s (s\<lparr>ps_hw := gc_set cfg g (ps_hw s)\<rparr>)"
  by (rule keeps_hw) (simp add: set_view)

lemma clear_keeps: "g < 28 \<Longrightarrow> keeps cfg s (s\<lparr>ps_hw := gc_clear cfg g (ps_hw s)\<rparr>)"
  by (rule keeps_hw) (simp add: clear_view)

lemma soft_duty_keeps:
  assumes g: "g < 28" and len: "\<And>i. r = Soft i \<Longrightarrow> i < length (ps_soft s)"
    and step: "soft_duty cfg fl env g duty r s = Some (e, t)"
  shows "keeps cfg s t"
proof (cases "duty = 0 \<or> pw_range (deref r s) \<le> duty")
  case True
  let ?h = "if duty = 0 then gc_clear cfg g (ps_hw s) else gc_set cfg g (ps_hw s)"
  have t: "t = timer_intr_check_done ((assign r ((deref r s)\<lparr>pw_duty := 0\<rparr>) s)\<lparr>ps_hw := ?h\<rparr>)"
    using step True by (auto simp: soft_duty_def Let_def)
  have "keeps cfg s (s\<lparr>ps_hw := ?h\<rparr>)"
    using set_keeps [OF g] clear_keeps [OF g] by simp
  then show ?thesis
    by (rule keeps_assign_hw [where p = "(deref r s)\<lparr>pw_duty := 0\<rparr>" and r = r]) (use len in \<open>simp_all add: t\<close>)
next
  case False
  then obtain on off where times: "soft_times fl (deref r s) duty = Some (on, off)"
    using step by (auto simp: soft_duty_def Let_def split: option.splits)
  let ?q = "(deref r s)\<lparr>pw_time_on := on, pw_time_off := off, pw_state := True, pw_last_change := te_clock env 0, pw_duty := duty\<rparr>"
  have "timer_intr_init env on (assign r ?q (s\<lparr>ps_hw := gc_set cfg g (ps_hw s)\<rparr>)) = (e, t)"
    using step False times by (simp add: soft_duty_def Let_def)
  then have t: "t = snd (timer_intr_init env on (assign r ?q (s\<lparr>ps_hw := gc_set cfg g (ps_hw s)\<rparr>)))"
    by simp
  show ?thesis
    by (rule keeps_assign_hw [OF set_keeps [OF g], where p = ?q and r = r])
      (use len in \<open>simp_all add: t assign_def split: pwm_ref.split\<close>)
qed

lemma set_duty_keeps:
  assumes inv: "pwm_inv cfg s" and g: "g < 28" and step: "pwm_set_duty_cycle cfg fl env ci g duty s = Some (e, t)"
  shows "keeps cfg s t"
proof (cases "ps_map s g")
  case None
  let ?m = "\<lparr>pm_gpio = g, pm_frequency = 1000, pm_range = 1024, pm_mode = 0\<rparr>"
  obtain e' where "pwm_setup cfg ci ?m s = Some (e', t)"
    using step None by (auto simp: pwm_set_duty_cycle_def split: option.splits prod.splits)
  then show ?thesis
    using pwm_setup_keeps [OF inv, of ?m] g by simp
next
  case (Some r)
  have len: "i < length (ps_soft s)" if "r = Soft i" for i
    using ref_soft(2) [OF inv, of g i] Some that by blast
  show ?thesis
  proof (cases "pw_channel (deref r s) = 0")
    case True
    then have "soft_duty cfg fl env g duty r s = Some (e, t)"
      using step Some by (simp add: pwm_set_duty_cycle_def)
    from soft_duty_keeps [OF g len this] show ?thesis
      by simp
  next
    case False
    then obtain p h where p: "gc_set_pwm_duty cfg (deref r s) duty (ps_hw s) = Some (p, h)" "t = (assign r p s)\<lparr>ps_hw := h\<rparr>"
      using step Some by (auto simp: pwm_set_duty_cycle_def split: option.splits prod.splits)
    show ?thesis
      by (rule keeps_assign_hw [where p = p and r = r and h = h])
        (use p len hard_gpio' [OF p(1)] keeps_hw duty_view [OF _ p(1)] in \<open>simp_all\<close>)
  qed
qed

lemma remove_pin_keeps:
  assumes inv: "pwm_inv cfg s" and g: "g < 28" and ci: "\<not> client_info_is_unused ci"
    and step: "remove_pin cfg fl env ci g s = Some t"
  shows "keeps cfg s t"
proof (cases "ps_map s g")
  case None
  then show ?thesis
    using step by (simp add: remove_pin_def)
next
  case (Some r)
  show ?thesis
  proof (cases "client_info_match (pw_ci (deref r s)) ci")
    case True
    then obtain e u where u: "pwm_set_duty_cycle cfg fl env ci g 0 s = Some (e, u)"
      using step Some by (auto simp: remove_pin_def split: option.splits)
    let ?q = "(deref r u)\<lparr>pw_ci := client_info_reset\<rparr>"
    have t: "t = (if pw_channel (deref r (assign r ?q u)) = 0
        then (assign r ?q u)\<lparr>ps_map := (ps_map (assign r ?q u))(g := None)\<rparr> else assign r ?q u)"
      using step Some True u by (simp add: remove_pin_def Let_def)
    have i: "i < length (ps_soft u)" if "r = Soft i" for i
      using ref_soft(1) [OF inv, of g i] ref_soft(2) [OF set_duty_inv [OF inv g ci u], of g i] Some that by blast
    have "keeps cfg u t"
      by (rule keeps_assign_hw [where p = ?q and r = r and h = "ps_hw u"]) (use i t in simp_all)
    then show ?thesis
      using keeps_trans [OF set_duty_keeps [OF inv g u]] by blast
  qed (use step Some in \<open>simp add: remove_pin_def\<close>)
qed

lemma remove_pins_keeps:
  assumes ci: "\<not> client_info_is_unused ci"
  shows "pwm_inv cfg s \<Longrightarrow> \<forall>g \<in> set gs. g < 28 \<Longrightarrow> remove_pins cfg fl env ci gs s = Some t \<Longrightarrow> keeps cfg s t"
proof (induction gs arbitrary: s)
  case (Cons g gs)
  then obtain u where u: "remove_pin cfg fl env ci g s = Some u" "remove_pins cfg fl env ci gs u = Some t"
    by (auto split: option.splits)
  have g: "g < 28" "\<forall>g \<in> set gs. g < 28"
    using Cons.prems(2) by simp_all
  have "keeps cfg s u" "pwm_inv cfg u"
    by (rule remove_pin_keeps [OF Cons.prems(1) g(1) ci u(1)], rule remove_pin_inv [OF Cons.prems(1) g(1) ci u(1)])
  then show ?case
    using Cons.IH [OF _ g(2) u(2)] keeps_trans by blast
qed simp

end

section \<open>Runs of the manager\<close>

text \<open>
  One turn of the main loop, a round of the service thread, a timer interrupt, the attachment of the
  timer thread, or a detection latched by the chip. Clients are those the message layer can name, and
  the control block of a request is one \<open>open_gpio\<close> created.
\<close>

datatype mgr_step =
  MgrMsg timer_env client_info io_msg ocb
| MgrWrite "errno option" string ocb
| MgrClose timer_env client_info
| MgrPass delivery
| MgrTick bool u32 u32
| MgrAttach
| MgrLatch nat

definition opened :: "ocb \<Rightarrow> bool" where
  "opened o1 \<longleftrightarrow> oc_node o1 \<in> insert Directory (snd ` set gpio_entries)"

definition mgr_do :: "gpio_config \<Rightarrow> (rat \<Rightarrow> rat) \<Rightarrow> nat \<Rightarrow> mgr_step \<Rightarrow> gpio_mgr \<Rightarrow> gpio_mgr option" where
  "mgr_do cfg fl sigevent_size x m =
     (case x of
        MgrMsg env ci msg o1 \<Rightarrow>
          (if client_info_is_unused ci \<or> \<not> opened o1 then None
           else map_option snd (msg_gpio cfg fl env sigevent_size ci msg o1 m))
      | MgrWrite verify data o1 \<Rightarrow>
          (if \<not> opened o1 then None else map_option snd (write_gpio cfg verify data o1 m))
      | MgrClose env ci \<Rightarrow> (if client_info_is_unused ci then None else close_gpio cfg fl env ci m)
      | MgrPass ok \<Rightarrow> Some (snd (with_events (\<lambda>s. ((), gpio_ist cfg ok s)) m))
      | MgrTick matched cur reload \<Rightarrow> map_option snd (with_pwm (\<lambda>s. Some ((), timer_isr cfg matched cur reload s)) m)
      | MgrAttach \<Rightarrow> map_option snd (with_pwm (\<lambda>s. Some ((), timer_ist_attach s)) m)
      | MgrLatch g \<Rightarrow> (if g < RPI_GPIO_NUM then Some (with_chip (latch cfg g) m) else None))"

definition mgr_events :: "gpio_mgr \<Rightarrow> event_run" where
  "mgr_events m = \<lparr>er_pc = MIdle, er_ev = (gm_events m)\<lparr>ev_hw := gm_hw m\<rparr>\<rparr>"

definition mgr_inv :: "gpio_config \<Rightarrow> gpio_mgr \<Rightarrow> bool" where
  "mgr_inv cfg m \<longleftrightarrow> event_inv cfg (mgr_events m) \<and> pwm_inv cfg (gm_pwm m) \<and> gpios_ok cfg (gm_pwm m)"

lemma opened_pin: "opened o1 \<Longrightarrow> oc_node o1 = PinNode g \<Longrightarrow> g < 28"
  by (auto simp: opened_def gpio_entries_def)

lemma gpios_ok_hw [simp]: "gpios_ok cfg (s\<lparr>ps_hw := h\<rparr>) = gpios_ok cfg s"
  by (simp add: gpios_ok_def)

lemma pwm_inv_hw [simp]: "pwm_inv cfg (s\<lparr>ps_hw := h\<rparr>) = pwm_inv cfg s"
  by (simp add: pwm_inv_def slots_ok_def hards_ok_def used_def)

lemma view_event_inv:
  assumes "event_inv cfg \<lparr>er_pc = MIdle, er_ev = s\<rparr>" "\<And>g. g < 28 \<Longrightarrow> view cfg g h = view cfg g (ev_hw s)"
  shows "event_inv cfg \<lparr>er_pc = MIdle, er_ev = s\<lparr>ev_hw := h\<rparr>\<rparr>"
proof -
  have "pin_inv cfg (s\<lparr>ev_hw := h\<rparr>) MIdle g = pin_inv cfg s MIdle g" if "g < 28" for g
    using view_armed [OF assms(2) [OF that]] by (simp add: pin_inv_def busy_def)
  then show ?thesis
    using assms(1) by (simp add: event_inv_def pc_inv_def)
qed

lemma chip_inv:
  assumes "mgr_inv cfg m" "\<And>g. g < 28 \<Longrightarrow> view cfg g (f (gm_hw m)) = view cfg g (gm_hw m)"
  shows "mgr_inv cfg (with_chip f m)"
  using assms view_event_inv [of cfg "(gm_events m)\<lparr>ev_hw := gm_hw m\<rparr>" "f (gm_hw m)"]
  by (simp add: mgr_inv_def mgr_events_def with_chip_def)

lemma pwm_part_inv:
  assumes "mgr_inv cfg m" "with_pwm f m = Some (r, m')"
    and step: "\<And>s r t. pwm_inv cfg s \<Longrightarrow> f s = Some (r, t) \<Longrightarrow> pwm_inv cfg t \<and> keeps cfg s t"
  shows "mgr_inv cfg m'"
proof -
  obtain t where t: "f ((gm_pwm m)\<lparr>ps_hw := gm_hw m\<rparr>) = Some (r, t)" "m' = m\<lparr>gm_pwm := t, gm_hw := ps_hw t\<rparr>"
    using assms(2) by (auto simp: with_pwm_def split: option.splits)
  have "pwm_inv cfg t" "keeps cfg ((gm_pwm m)\<lparr>ps_hw := gm_hw m\<rparr>) t"
    using step [OF _ t(1)] assms(1) by (simp_all add: mgr_inv_def)
  moreover from this(2) have "gpios_ok cfg t" "\<forall>g<28. view cfg g (ps_hw t) = view cfg g (gm_hw m)"
    using assms(1) by (simp_all add: keeps_def mgr_inv_def)
  ultimately show ?thesis
    using assms(1) view_event_inv [of cfg "(gm_events m)\<lparr>ev_hw := gm_hw m\<rparr>" "ps_hw t"]
    by (simp add: mgr_inv_def mgr_events_def t(2))
qed

lemma event_part_inv:
  assumes "mgr_inv cfg m" "with_events f m = (r, m')"
    and step: "\<And>s r t. event_inv cfg \<lparr>er_pc = MIdle, er_ev = s\<rparr> \<Longrightarrow> f s = (r, t) \<Longrightarrow> event_inv cfg \<lparr>er_pc = MIdle, er_ev = t\<rparr>"
  shows "mgr_inv cfg m'"
proof -
  obtain t where t: "f ((gm_events m)\<lparr>ev_hw := gm_hw m\<rparr>) = (r, t)" "m' = m\<lparr>gm_events := t, gm_hw := ev_hw t\<rparr>"
    using assms(2) by (auto simp: with_events_def split: prod.splits)
  have "event_inv cfg \<lparr>er_pc = MIdle, er_ev = t\<rparr>"
    using step [OF _ t(1)] assms(1) by (simp add: mgr_inv_def mgr_events_def)
  then show ?thesis
    using assms(1) by (simp add: mgr_inv_def mgr_events_def t(2))
qed

context gpio_chip
begin

lemma event_add_inv:
  assumes inv: "event_inv cfg \<lparr>er_pc = MIdle, er_ev = s\<rparr>" and add: "event_add cfg ci msg s = (e, t)"
    and g: "em_gpio msg < 28" "\<not> client_info_is_unused ci"
  shows "event_inv cfg \<lparr>er_pc = MIdle, er_ev = t\<rparr>"
proof (cases "event_add_begin cfg ci msg s")
  case (Pair x u)
  show ?thesis
  proof (cases x)
    case (Some y)
    then have "event_do cfg (AddCall ci msg) \<lparr>er_pc = MIdle, er_ev = s\<rparr> = Some \<lparr>er_pc = MIdle, er_ev = t\<rparr>"
      using add g Pair [unfolded Some] by (auto simp: event_do_def event_add_def)
    then show ?thesis
      by (rule event_do_inv [OF inv])
  next
    case None
    then have "run_steps (event_do cfg) [AddCall ci msg, Continue, Continue] \<lparr>er_pc = MIdle, er_ev = s\<rparr>
        = Some \<lparr>er_pc = MIdle, er_ev = t\<rparr>"
      using add g Pair by (simp add: event_do_def event_add_def)
    then show ?thesis
      by (rule runs.run_inv [OF inv])
  qed
qed

lemma event_close_inv:
  assumes inv: "event_inv cfg \<lparr>er_pc = MIdle, er_ev = s\<rparr>" and ci: "\<not> client_info_is_unused ci"
  shows "event_inv cfg \<lparr>er_pc = MIdle, er_ev = event_remove_client cfg ci s\<rparr>"
proof -
  have "run_steps (event_do cfg) [CloseCall ci, Continue] \<lparr>er_pc = MIdle, er_ev = s\<rparr>
      = Some \<lparr>er_pc = MIdle, er_ev = event_remove_client cfg ci s\<rparr>"
    using ci by (simp add: event_do_def event_remove_client_def)
  then show ?thesis
    by (rule runs.run_inv [OF inv])
qed

lemma event_pass_inv:
  assumes inv: "event_inv cfg \<lparr>er_pc = MIdle, er_ev = s\<rparr>"
  shows "event_inv cfg \<lparr>er_pc = MIdle, er_ev = gpio_ist cfg ok s\<rparr>"
  using event_do_inv [OF inv, of "Pass ok"] by (simp add: event_do_def)

lemma msg_act_inv:
  assumes inv: "mgr_inv cfg m" and g: "unat (im_gpio msg) < 28" and ci: "\<not> client_info_is_unused ci"
    and step: "msg_act cfg fl env ci msg m = Some (r, m')"
  shows "mgr_inv cfg m'"
proof -
  let ?g = "unat (im_gpio msg)" and ?v = "im_word msg" and ?sub = "im_subtype msg"
  let ?e = "\<lparr>em_gpio = ?g, em_detect = ?v, em_event = im_event msg, em_match = im_match msg\<rparr>"
  let ?p = "\<lparr>pm_gpio = ?g, pm_frequency = ?v, pm_range = im_range msg, pm_mode = im_mode msg\<rparr>"
  note views = select_view [OF g] set_view [OF g] clear_view [OF g] pud_view [OF g]
  consider (chip) f where "m' = with_chip f m" "\<And>g' h. g' < 28 \<Longrightarrow> view cfg g' (f h) = view cfg g' h"
    | (ev) rc where "with_events (event_add cfg ci ?e) m = (rc, m')"
    | (conf) rc where "with_pwm (pwm_setup cfg ci ?p) m = Some (rc, m')"
    | (duty) rc where "with_pwm (pwm_set_duty_cycle cfg fl env ci ?g ?v) m = Some (rc, m')"
  proof (cases "?sub \<in> {4, 5, 6}")
    case True
    then show ?thesis
      using step that(2-4) unfolding msg_act_def Let_def by (auto split: if_splits prod.splits)
  next
    case False
    then have "m' = m \<or> m' = with_chip (gc_set_select cfg ?g ?v) m \<or> m' = with_chip (gc_set cfg ?g) m
        \<or> m' = with_chip (gc_clear cfg ?g) m \<or> m' = with_chip (\<lambda>h. snd (gc_set_pud cfg ?g ?v h)) m"
      using step unfolding msg_act_def Let_def with_chip_def by (auto split: if_splits prod.splits)
    moreover have "m = with_chip (\<lambda>h. h) m"
      by (simp add: with_chip_def)
    ultimately show ?thesis
      using that(1) views by metis
  qed
  then show ?thesis
  proof cases
    case ev
    then show ?thesis
    proof (rule event_part_inv [OF inv])
      fix s e t
      assume s: "event_inv cfg \<lparr>er_pc = MIdle, er_ev = s\<rparr>" "event_add cfg ci ?e s = (e, t)"
      show "event_inv cfg \<lparr>er_pc = MIdle, er_ev = t\<rparr>"
        by (rule event_add_inv [OF s]) (use g ci in simp_all)
    qed
  next
    case conf
    then show ?thesis
    proof (rule pwm_part_inv [OF inv])
      fix s e t
      assume "pwm_inv cfg s" "pwm_setup cfg ci ?p s = Some (e, t)"
      then show "pwm_inv cfg t \<and> keeps cfg s t"
        using pwm_setup_inv [of s ?p ci e t] pwm_setup_keeps [of s ?p ci e t] g ci by simp
    qed
  next
    case duty
    then show ?thesis
      by (rule pwm_part_inv [OF inv]) (use set_duty_inv set_duty_keeps g ci in blast)
  qed (use chip_inv [OF inv] in simp)
qed

lemma mgr_do_inv:
  assumes inv: "mgr_inv cfg m" and step: "mgr_do cfg fl n x m = Some m'"
  shows "mgr_inv cfg m'"
proof (cases x)
  case (MgrMsg env ci msg o1)
  then obtain r where r: "msg_gpio cfg fl env n ci msg o1 m = Some (r, m')" and ci: "\<not> client_info_is_unused ci"
    using step by (auto simp: mgr_do_def split: if_splits)
  show ?thesis
  proof (cases "msg_check n msg o1")
    case None
    then have "unat (im_gpio msg) < 28"
      by (auto simp: msg_check_def split: if_splits)
    moreover have "msg_act cfg fl env ci msg m = Some (r, m') \<or> m' = m"
      using r None by (auto simp: msg_gpio_def split: node.splits)
    ultimately show ?thesis
      using msg_act_inv [OF inv _ ci] inv by blast
  qed (use r inv in \<open>simp add: msg_gpio_def\<close>)
next
  case (MgrWrite verify data o1)
  then obtain r where r: "write_gpio cfg verify data o1 m = Some (r, m')" and o1: "opened o1"
    using step by (auto simp: mgr_do_def split: if_splits)
  consider (same) "m' = m" | (chip) g f where "oc_node o1 = PinNode g" "m' = with_chip f m"
      "f = gc_set_select cfg g 0 \<or> f = gc_set_select cfg g 1 \<or> f = gc_set cfg g \<or> f = gc_clear cfg g"
    using r unfolding write_gpio_def Let_def by (auto split: option.splits node.splits if_splits)
  then show ?thesis
    using inv opened_pin [OF o1] by cases (auto intro!: chip_inv simp: select_view set_view clear_view)
next
  case (MgrClose env ci)
  then have ci: "\<not> client_info_is_unused ci" and c: "close_gpio cfg fl env ci m = Some m'"
    using step by (auto simp: mgr_do_def split: if_splits)
  obtain u where u: "with_events (\<lambda>s. ((), event_remove_client cfg ci s)) m = ((), u)"
    by (metis surj_pair old.unit.exhaust)
  have "mgr_inv cfg u"
    by (rule event_part_inv [OF inv u]) (use event_close_inv [OF _ ci] in auto)
  moreover obtain r where "with_pwm (\<lambda>s. map_option (Pair ()) (pwm_remove_client cfg fl env ci s)) u = Some (r, m')"
    using c by (auto simp: close_gpio_def u)
  ultimately show ?thesis
  proof (rule pwm_part_inv)
    fix s r t
    assume s: "pwm_inv cfg s" and "map_option (Pair ()) (pwm_remove_client cfg fl env ci s) = Some (r, t)"
    then have t: "remove_pins cfg fl env ci [0..<28] s = Some t"
      by (auto simp: pwm_remove_client_def)
    have "\<forall>g \<in> set [0..<28]. g < 28"
      by simp
    then show "pwm_inv cfg t \<and> keeps cfg s t"
      using remove_pins_inv [OF ci s _ t] remove_pins_keeps [OF ci s _ t] by blast
  qed
next
  case (MgrPass ok)
  then have "with_events (\<lambda>s. ((), gpio_ist cfg ok s)) m = ((), m')"
    using step by (simp add: mgr_do_def prod_eq_iff)
  then show ?thesis
    by (rule event_part_inv [OF inv]) (use event_pass_inv in auto)
next
  case (MgrTick matched cur reload)
  then obtain r where "with_pwm (\<lambda>s. Some ((), timer_isr cfg matched cur reload s)) m = Some (r, m')"
    using step by (auto simp: mgr_do_def)
  then show ?thesis
    by (rule pwm_part_inv [OF inv]) (use timer_isr_keeps timer_isr_inv in auto)
next
  case MgrAttach
  then obtain r where "with_pwm (\<lambda>s. Some ((), timer_ist_attach s)) m = Some (r, m')"
    using step by (auto simp: mgr_do_def)
  then show ?thesis
  proof (rule pwm_part_inv [OF inv])
    fix s r t
    assume s: "pwm_inv cfg s" "Some ((), timer_ist_attach s) = Some (r, t)"
    then have t: "ps_soft t = ps_soft s" "ps_hard t = ps_hard s" "ps_hw t = ps_hw s" "ps_map t = ps_map s"
      by (auto simp: timer_ist_attach_def)
    show "pwm_inv cfg t \<and> keeps cfg s t"
      using keeps_same [OF t(1-3)] pwm_inv_cong [OF t(4,1,2)] s(1) t by simp
  qed
next
  case (MgrLatch g)
  then have "m' = with_chip (latch cfg g) m" "g < 28"
    using step by (auto simp: mgr_do_def split: if_splits)
  then show ?thesis
    using inv by (auto intro!: chip_inv simp: latch_view)
qed

end


sublocale gpio_chip \<subseteq> mgr_runs: step_invariant "mgr_do cfg fl n" "mgr_inv cfg"
  by unfold_locales (rule mgr_do_inv)

lemma gpio_chips: "cfg \<in> {gpio_config_rpi3, gpio_config_rpi4, gpio_config_rpi5} \<Longrightarrow> gpio_chip cfg"
  using bcm_gpio_chip rp1_gpio_chip by blast

lemma mgr_start_inv:
  assumes "gpio_chip cfg"
  shows "mgr_inv cfg (gpio_mgr_start cfg h)"
proof -
  have e: "event_chip cfg" "pwm_chip cfg"
    using assms by (simp_all add: gpio_chip_def)
  have "event_inv cfg (mgr_events (gpio_mgr_start cfg h))"
    using event_chip.event_start_inv [OF e(1), of h] by (simp add: mgr_events_def gpio_mgr_start_def event_start_def Let_def)
  moreover have "pw_gpio (ps_hard (pwm_init cfg h') g) = g" if "g \<in> hard_pins cfg" for g h'
  proof -
    have "map_of (gc_pwm_pins cfg) g \<noteq> None"
      using that unfolding map_of_eq_None_iff hard_pins_def by simp
    then obtain p where "map_of (gc_pwm_pins cfg) g = Some p"
      by blast
    then show ?thesis
      using gpio_chip.pins_gpio [OF assms map_of_SomeD] by (simp add: pwm_init_def)
  qed
  then have "gpios_ok cfg (pwm_init cfg h')" for h'
    by (simp add: gpios_ok_def) (simp add: pwm_init_def zero_pwm_def)
  ultimately show ?thesis
    using pwm_chip.pwm_init_inv [OF e(2)] by (simp add: mgr_inv_def gpio_mgr_start_def Let_def)
qed

lemma mgr_reachable_inv:
  assumes "cfg \<in> {gpio_config_rpi3, gpio_config_rpi4, gpio_config_rpi5}"
    and "run_steps (mgr_do cfg fl n) xs (gpio_mgr_start cfg h) = Some m"
  shows "mgr_inv cfg m"
  using assms mgr_start_inv [OF gpio_chips [OF assms(1)]] rpi3_chip.mgr_runs.run_inv rpi4_chip.mgr_runs.run_inv
    rpi5_chip.mgr_runs.run_inv
  by blast


section \<open>Text and messages\<close>

text \<open>The functions of a pin that text and messages read differently: 3, 5, 7 and 9.\<close>

lemma write_command_line:
  assumes "NUL \<notin> set c" "NEWLINE \<notin> set c" "c \<noteq> []"
  shows "write_command (c @ [NEWLINE]) = c" "write_command c = c"
proof -
  have "last c \<noteq> NEWLINE"
    using assms(2,3) by (metis last_in_set)
  then show "write_command (c @ [NEWLINE]) = c" "write_command c = c"
    using assms(1) by (simp_all add: write_command_def cstr_id)
qed


text \<open>A pin with an odd alternate function: text takes it for an output, WRITE does not.\<close>

theorem text_on_with_odd_function:
  assumes "gc_get_select cfg g (gm_hw m) \<in> {3, 5, 7, 9}" "oc_node o1 = PinNode g" "oc_node o2 = MsgNode"
    and "unat (im_gpio msg) = g" "msg_check n msg o2 = None" "im_subtype msg = RPI_GPIO_WRITE"
  shows "write_gpio cfg None ''on'' o1 m = Some (Written 2, with_chip (gc_set cfg g) m)"
    "msg_gpio cfg fl env n ci msg o2 m = Some (Refused ENXIO, m)"
proof -
  have "write_command ''on'' = ''on''"
    by (rule write_command_line(2)) simp_all
  moreover have "gc_get_select cfg g (gm_hw m) AND 1 \<noteq> 0"
    using assms(1) by auto
  ultimately show "write_gpio cfg None ''on'' o1 m = Some (Written 2, with_chip (gc_set cfg g) m)"
    using assms(2) by (simp add: write_gpio_def Let_def)
  show "msg_gpio cfg fl env n ci msg o2 m = Some (Refused ENXIO, m)"
    using assms by (auto simp: msg_gpio_def msg_act_def Let_def)
qed

section \<open>A pin function reads back\<close>

lemma chip_select_reads_back:
  assumes "cfg \<in> {gpio_config_rpi3, gpio_config_rpi4, gpio_config_rpi5}" "g < 28" "g' < 28" "v \<le> gc_max_funcs cfg"
    "cfg = gpio_config_rpi5 \<longrightarrow> v \<noteq> 2"
  shows "gc_get_select cfg g' (gc_set_select cfg g v h) = (if g' = g then v else gc_get_select cfg g' h)"
proof -
  have "g < 54" "g' < 54"
    using assms(2,3) by simp_all
  note bcm = bcm_select_reads_back [OF this, of v h] and rp1 = rp1_select_reads_back [OF assms(2,3), of v h]
  show ?thesis
    using assms(1)
  proof (elim insertE emptyE)
    assume "cfg = gpio_config_rpi3"
    then show ?thesis
      using bcm assms(4) by (simp add: gpio_config_rpi3_def)
  next
    assume "cfg = gpio_config_rpi4"
    then show ?thesis
      using bcm assms(4) by (simp add: gpio_config_rpi4_def)
  next
    assume c: "cfg = gpio_config_rpi5"
    then show ?thesis
      using rp1 assms(4,5) by (simp add: gpio_config_rpi5_def)
  qed
qed

text \<open>On every chip, a SET_SELECT message the checks let through, with a function up to the chip's maximum,
  answers with the function the pin had and is not refused; a GET_SELECT message right after, from
  any client, answers with the function just set when it names the same pin, and with that pin's
  unchanged function otherwise. On the Raspberry Pi 5 this excludes ALT 5 (the value 2), which
  reads back as input or output.\<close>

theorem select_message_reads_back:
  assumes "cfg \<in> {gpio_config_rpi3, gpio_config_rpi4, gpio_config_rpi5}" "oc_node o1 = MsgNode" "oc_node o2 = MsgNode"
    and "msg_check n wr o1 = None" "im_subtype wr = RPI_GPIO_SET_SELECT" "im_word wr \<le> gc_max_funcs cfg"
    and "cfg = gpio_config_rpi5 \<longrightarrow> im_word wr \<noteq> RPI_GPIO_FUNC_ALT_5"
    and "msg_check n rd o2 = None" "im_subtype rd = RPI_GPIO_GET_SELECT"
  shows "\<exists>m'. msg_gpio cfg fl env n ci wr o1 m = Some (Value (gc_get_select cfg (unat (im_gpio wr)) (gm_hw m)), m') \<and>
    msg_gpio cfg fl env' n ci' rd o2 m' =
      Some (Value (if im_gpio rd = im_gpio wr then im_word wr else gc_get_select cfg (unat (im_gpio rd)) (gm_hw m)), m')"
proof -
  have g: "unat (im_gpio wr) < 28" "unat (im_gpio rd) < 28"
    using assms(4,8) by (auto simp: msg_check_def split: if_splits)
  have "gc_get_select cfg (unat (im_gpio rd)) (gc_set_select cfg (unat (im_gpio wr)) (im_word wr) (gm_hw m)) =
      (if im_gpio rd = im_gpio wr then im_word wr else gc_get_select cfg (unat (im_gpio rd)) (gm_hw m))"
    using chip_select_reads_back [OF assms(1) g assms(6,7), of "gm_hw m"] by (simp add: word_unat_eq_iff [of "im_gpio rd" "im_gpio wr"])
  then show ?thesis
    using assms(2-6,8,9) by (cases "im_gpio rd = im_gpio wr") (simp_all add: msg_gpio_def msg_act_def with_chip_def Let_def linorder_not_less)
qed


section \<open>Sample requests\<close>

definition sample_env :: timer_env where
  "sample_env = \<lparr>te_clock = \<lambda>_. 0, te_thread = True\<rparr>"

definition sample_io :: "nat \<Rightarrow> u32 \<Rightarrow> io_msg" where
  "sample_io sub v = \<lparr>im_ours = True, im_offset = 0, im_subtype = sub, im_size = 64, im_gpio = 17, im_word = v,
     im_range = 0, im_mode = 0, im_event = \<lparr>se_notify = 4, se_value = 0\<rparr>, im_match = 1\<rparr>"

definition sample_ocb :: "node \<Rightarrow> ocb" where
  "sample_ocb k = \<lparr>oc_node = k, oc_offset = 0, oc_rd = True, oc_wr = True\<rparr>"

lemma sample_fields [simp]:
  "im_subtype (sample_io sub v) = sub" "im_word (sample_io sub v) = v" "im_gpio (sample_io sub v) = 17"
  "im_event (sample_io sub v) = \<lparr>se_notify = 4, se_value = 0\<rparr>" "im_match (sample_io sub v) = 1"
  "oc_node (sample_ocb k) = k" "oc_offset (sample_ocb k) = 0"
  by (simp_all add: sample_io_def sample_ocb_def)

lemma sample_checks: "sub \<in> {0, 1, 2, 3, 4} \<Longrightarrow> msg_check 16 (sample_io sub v) (sample_ocb k) = None"
  by (auto simp: msg_check_def min_size_def sample_io_def sample_ocb_def)

text \<open>A registration for rising edges and a high level on pin 17, which then becomes an output.\<close>

definition sample_requests :: "mgr_step list" where
  "sample_requests =
     [MgrMsg sample_env sample_client (sample_io 4 5) (sample_ocb MsgNode),
      MgrWrite None ''out'' (sample_ocb (PinNode 17))]"

definition sample_mgr :: gpio_mgr where
  "sample_mgr = the (run_steps (mgr_do gpio_config_rpi5 id 16) sample_requests (gpio_mgr_start gpio_config_rpi5 sample_hw))"

lemma sample_opened: "opened (sample_ocb (PinNode 17))" "opened (sample_ocb MsgNode)"
  by (simp_all add: opened_def gpio_entries_def sample_ocb_def image_Un image_image)

lemma sample_mgr_some:
    "run_steps (mgr_do gpio_config_rpi5 id 16) sample_requests (gpio_mgr_start gpio_config_rpi5 sample_hw) = Some sample_mgr"
  and sample_mgr_entry: "ee_ci (ev_table (gm_events sample_mgr) ! 17) = sample_client"
    "ee_detect (ev_table (gm_events sample_mgr) ! 17) = 5"
  using write_command_line(2) [of "''out''"]
  by (simp_all add: sample_mgr_def sample_requests_def mgr_do_def sample_opened sample_client_used msg_gpio_def sample_checks
      msg_act_def with_events_def event_add_def event_add_begin_def event_add_table_def event_add_enable_def set_entry_def
      gpio_mgr_start_def event_init_def write_gpio_def with_chip_def Let_def)


definition sample_start :: "gpio_config \<Rightarrow> gpio_mgr" where
  "sample_start cfg = with_chip (gc_set_select cfg 17 1) (gpio_mgr_start cfg sample_hw)"

lemma sample_start_out: "gc_get_select gpio_config_rpi4 17 (gm_hw (sample_start gpio_config_rpi4)) = 1"
  using chip_select_reads_back [of gpio_config_rpi4 17 17 1]
  by (simp add: sample_start_def with_chip_def gpio_config_rpi4_def)


theorem select_message_reads_back_witness:
  "\<exists>r m'. msg_gpio gpio_config_rpi5 id sample_env 16 sample_client (sample_io 0 4) (sample_ocb MsgNode) (sample_start gpio_config_rpi5) = Some (r, m') \<and>
     msg_gpio gpio_config_rpi5 id sample_env 16 sample_client (sample_io 1 0) (sample_ocb MsgNode) m' = Some (Value 4, m')"
proof -
  have "4 \<le> gc_max_funcs gpio_config_rpi5"
    by (simp add: gpio_config_rpi5_def)
  then show ?thesis
    using select_message_reads_back [of gpio_config_rpi5 "sample_ocb MsgNode" "sample_ocb MsgNode" 16 "sample_io 0 4" "sample_io 1 0"
        id sample_env sample_client "sample_start gpio_config_rpi5" sample_env sample_client]
    by (auto simp: sample_checks)
qed

end
