(* ===== verification/GpioClientRuns.thy ===== *)
theory GpioClientRuns
  imports GpioClient GpioMgrRuns MotorController
begin

text \<open>
  The GPIO client library on top of the manager: what a program reads back, what happens after the
  library was cleaned up, and the data-ready line of the motor controller
  (\<open>dataready_arm_pin\<close> of motor_controller.c) armed through library, manager and chip.
\<close>

unbundle bit_operations_syntax

section \<open>Messages of the library\<close>

lemma pin_word: "0 \<le> pin \<Longrightarrow> pin < 28 \<Longrightarrow> unat (word_of_int pin :: u32) = nat pin"
  by (simp add: unat_eq_nat_uint uint_word_of_int_eq take_bit_int_eq_self)

lemma plain_fields [simp]:
  "im_subtype (plain_msg sub pin v) = sub" "im_word (plain_msg sub pin v) = v" "im_gpio (plain_msg sub pin v) = word_of_int pin"
  "im_size (plain_msg sub pin v) = 16" "im_match (plain_msg sub pin v) = 0" "oc_node client_ocb = MsgNode"
  by (simp_all add: plain_msg_def client_ocb_def)

lemma plain_check:
  assumes "0 \<le> pin" "pin < 28" "sub \<noteq> 4" "sub \<noteq> 5"
  shows "msg_check n (plain_msg sub pin v) client_ocb = None"
  using pin_word [OF assms(1,2)] assms by (simp add: msg_check_def min_size_def plain_msg_def client_ocb_def)

lemma send_plain:
  assumes "cl_live c" "0 \<le> pin" "pin < 28" "sub \<noteq> 4" "sub \<noteq> 5"
  shows "MsgSend sv (plain_msg sub pin v) c m =
    map_option (apfst (\<lambda>r. case r of Refused e \<Rightarrow> None | Done \<Rightarrow> Some None | Value v \<Rightarrow> Some (Some v)))
      (msg_act (sv_cfg sv) (sv_fl sv) (sv_env sv) (sv_ci sv) (plain_msg sub pin v) m)"
  using assms by (simp add: MsgSend_def msg_gpio_def plain_check)

lemma send_select:
  assumes "cl_live c" "0 \<le> pin" "pin < 28" "v \<le> gc_max_funcs (sv_cfg sv)"
  shows "send sv (plain_msg 0 pin v) (c, m) = Some (0, c, with_chip (gc_set_select (sv_cfg sv) (nat pin) v) m)"
  using assms by (simp add: send_def gpio_send_msg_def send_plain msg_act_def Let_def pin_word linorder_not_less)

lemma chip_pud:
  assumes "cfg \<in> {gpio_config_rpi3, gpio_config_rpi4, gpio_config_rpi5}" "v \<in> {0, 1, 2}"
  shows "fst (gc_set_pud cfg g v h)"
  using assms(1)
proof (elim insertE emptyE)
  assume "cfg = gpio_config_rpi3"
  then show ?thesis
    using assms(2) by (auto simp: gpio_config_rpi3_def rpi_bcm2835_gpio_set_pud_def Let_def)
next
  assume "cfg = gpio_config_rpi4"
  then show ?thesis
    using assms(2) by (auto simp: gpio_config_rpi4_def rpi2711_gpio_set_pud_bcm2711_def Let_def)
next
  assume "cfg = gpio_config_rpi5"
  then show ?thesis
    using assms(2) by (auto simp: gpio_config_rpi5_def rp1_gpio_set_pud_def Let_def split: prod.split)
qed

lemma send_pud:
  assumes "cl_live c" "0 \<le> pin" "pin < 28" "sv_cfg sv \<in> {gpio_config_rpi3, gpio_config_rpi4, gpio_config_rpi5}" "v \<in> {0, 1, 2}"
  shows "send sv (plain_msg 7 pin v) (c, m) = Some (0, c, with_chip (\<lambda>h. snd (gc_set_pud (sv_cfg sv) (nat pin) v h)) m)"
  using assms chip_pud [OF assms(4,5), of "nat pin" "gm_hw m"]
  by (auto simp: send_def gpio_send_msg_def send_plain msg_act_def Let_def pin_word with_chip_def split: prod.splits)

lemma send_event:
  assumes "cl_live c" "0 \<le> pin" "pin < 28" "n = sv_event_size sv"
    and "event_add (sv_cfg sv) (sv_ci sv) \<lparr>em_gpio = nat pin, em_detect = d, em_event = ev, em_match = 0\<rparr>
      ((gm_events m)\<lparr>ev_hw := gm_hw m\<rparr>) = (None, s)"
  shows "send sv ((plain_msg 4 pin d)\<lparr>im_size := 24 + n, im_event := ev\<rparr>) (c, m) = Some (0, c, m\<lparr>gm_events := s, gm_hw := ev_hw s\<rparr>)"
proof -
  have "msg_check n ((plain_msg 4 pin d)\<lparr>im_size := 24 + n, im_event := ev\<rparr>) client_ocb = None"
    using pin_word [OF assms(2,3)] assms(2,3) by (simp add: msg_check_def min_size_def plain_msg_def client_ocb_def)
  then show ?thesis
    using assms by (simp add: send_def gpio_send_msg_def MsgSend_def msg_gpio_def msg_act_def Let_def pin_word with_events_def of_rc_def)
qed

lemma connect_live: "cl_fd c \<noteq> -1 \<Longrightarrow> gpio_msg_connect fd c = (0, c)"
  by (simp add: gpio_msg_connect_def)

lemma on_pin_live: "cl_fd c \<noteq> -1 \<Longrightarrow> 0 \<le> pin \<Longrightarrow> pin < 28 \<Longrightarrow> on_pin fd pin e k (c, m) = k (c, m)"
  by (simp add: on_pin_def connect_live)

text \<open>Connecting the first time, or reusing the descriptor.\<close>

definition ready :: "int \<Rightarrow> gpio_client \<Rightarrow> gpio_client \<Rightarrow> bool" where
  "ready fd c c' \<longleftrightarrow> cl_live c' \<and> cl_fd c' \<noteq> -1 \<and> gpio_msg_connect fd c = (0, c')"

lemma on_pin_ready: "ready fd c c' \<Longrightarrow> 0 \<le> pin \<Longrightarrow> pin < 28 \<Longrightarrow> on_pin fd pin e k (c, m) = k (c', m)"
  by (simp add: on_pin_def ready_def)

lemma ready_again: "ready fd c c' \<Longrightarrow> ready fd' c' c'"
  by (simp add: ready_def connect_live)

lemma ready_start: "fd \<noteq> -1 \<Longrightarrow> ready fd gpio_client_start \<lparr>cl_fd = fd, cl_live = True\<rparr>"
  by (simp add: ready_def gpio_msg_connect_def gpio_client_start_def)

section \<open>Reading back through the library\<close>

lemma max_funcs_1: "cfg \<in> {gpio_config_rpi3, gpio_config_rpi4, gpio_config_rpi5} \<Longrightarrow> 7 \<le> gc_max_funcs cfg"
  by (auto simp: gpio_config_rpi3_def gpio_config_rpi4_def gpio_config_rpi5_def)

lemma setup_ok:
  assumes "sv_cfg sv \<in> {gpio_config_rpi3, gpio_config_rpi4, gpio_config_rpi5}" "ready fd c c'" "0 \<le> pin" "pin < 28" "v \<in> {0, 1}"
  shows "rpi_gpio_setup sv fd pin v (c, m) = Some (0, c', with_chip (gc_set_select (sv_cfg sv) (nat pin) v) m)"
proof -
  have "v \<le> gc_max_funcs (sv_cfg sv)"
    using assms(5) order_trans [OF _ max_funcs_1 [OF assms(1)], of 1] by auto
  then show ?thesis
    using assms send_select [of c' pin v sv m] by (auto simp: rpi_gpio_setup_def on_pin_ready ready_def)
qed

lemma get_setup_value:
  assumes "ready fd c c'" "0 \<le> pin" "pin < 28" "gc_get_select (sv_cfg sv) (nat pin) (gm_hw m) = v" "v \<in> {0, 1}"
  shows "rpi_gpio_get_setup sv fd pin (c, m) = Some ((0, Some v), c', m)"
  using assms by (auto simp: rpi_gpio_get_setup_def on_pin_ready gpio_send_receive_msg_def send_plain ready_def
      msg_act_def Let_def pin_word)



section \<open>After cleaning up\<close>

text \<open>Once the library was cleaned up it never works again in the process: every call for a pin in range
  fails without changing the manager, since the closed descriptor is kept and no call opens a new
  one; and a second clean-up fails as well. (The header promises no such restriction.)\<close>

theorem cleanup_is_final:
  assumes "cl_live c" "cl_fd c \<noteq> -1" "rpi_gpio_cleanup True c = (GPIO_SUCCESS, c')"
    and "0 \<le> pin" "pin < 28" "v \<in> {GPIO_IN, GPIO_OUT}" "level \<in> {GPIO_LOW, GPIO_HIGH}" "detect_mask event \<noteq> 0" "mode \<in> {0, 1}"
    and "0 \<le> percentage" "percentage \<le> 100"
  shows "rpi_gpio_setup sv fd pin v (c', m) = Some (GPIO_ERROR_MSG_NOT_SENT, c', m) \<and>
    rpi_gpio_setup_pull sv fd pin v d (c', m) = Some (GPIO_ERROR_NOT_CONNECTED, c', m) \<and>
    rpi_gpio_get_setup sv fd pin (c', m) = Some ((GPIO_ERROR_MSG_NOT_SENT, None), c', m) \<and>
    rpi_gpio_output sv fd pin level (c', m) = Some (GPIO_ERROR_MSG_NOT_SENT, c', m) \<and>
    rpi_gpio_input sv fd pin (c', m) = Some ((GPIO_ERROR_MSG_NOT_SENT, None), c', m) \<and>
    rpi_gpio_add_event_detect sv fd pulse registered pin event event_id (c', m) =
      Some (GPIO_ERROR_MSG_EVENT_NOT_REGISTERED, c', m) \<and>
    rpi_gpio_setup_pwm sv fd pin frequency mode (c', m) = Some (GPIO_ERROR_MSG_NOT_SENT, c', m) \<and>
    rpi_gpio_set_pwm_duty_cycle sv fd pin percentage (c', m) = Some (GPIO_ERROR_MSG_NOT_SENT, c', m) \<and>
    rpi_gpio_cleanup close_ok c' = (GPIO_ERROR_CLEANING_UP, c')"
proof -
  have c': "\<not> cl_live c'" "cl_fd c' \<noteq> -1"
    using assms(1-3) by (auto simp: rpi_gpio_cleanup_def)
  then have off: "MsgSend sv msg c' m = Some (None, m)" for msg
    by (simp add: MsgSend_def)
  have pin': "on_pin fd pin e k (c', m) = k (c', m)" for e and k :: "int gpio_call"
    by (rule on_pin_live [OF c'(2) assms(4,5)])
  have pin'': "on_pin fd pin e k (c', m) = k (c', m)" for e and k :: "(int \<times> u32 option) gpio_call"
    by (rule on_pin_live [OF c'(2) assms(4,5)])
  have s: "send sv msg (c', m) = Some (GPIO_ERROR_MSG_NOT_SENT, c', m)" for msg
    by (simp add: send_def gpio_send_msg_def off)
  have conf: "rpi_gpio_setup sv fd pin v (c', m) = Some (GPIO_ERROR_MSG_NOT_SENT, c', m)"
    using assms(6) by (auto simp: rpi_gpio_setup_def pin' s)
  then have pull: "rpi_gpio_setup_pull sv fd pin v d (c', m) = Some (GPIO_ERROR_NOT_CONNECTED, c', m)"
    by (simp add: rpi_gpio_setup_pull_def)
  have out: "rpi_gpio_output sv fd pin level (c', m) = Some (GPIO_ERROR_MSG_NOT_SENT, c', m)"
    using assms(7) by (auto simp: rpi_gpio_output_def pin' s)
  have pwm: "rpi_gpio_setup_pwm sv fd pin frequency mode (c', m) = Some (GPIO_ERROR_MSG_NOT_SENT, c', m)"
    using assms(9) by (auto simp: rpi_gpio_setup_pwm_def pin' s)
  show ?thesis
    using conf pull out pwm assms(8,10,11) c'
    by (simp add: rpi_gpio_get_setup_def rpi_gpio_input_def rpi_gpio_add_event_detect_def rpi_gpio_set_pwm_duty_cycle_def
        pin' pin'' s gpio_send_receive_msg_def off connect_live rpi_gpio_cleanup_def)
qed

section \<open>The data-ready line of the motor controller\<close>

text \<open>
  \<open>dataready_arm_pin\<close> of motor_controller.c on top of the library: the input of MotorController's
  model (\<open>gpio_results\<close>) is what these calls return. The result says whether the pin was armed.
\<close>

definition arm_pin_calls ::
  "server \<Rightarrow> int \<Rightarrow> int \<Rightarrow> pi_config \<Rightarrow> dataready \<Rightarrow> gpio_client \<times> gpio_mgr \<Rightarrow> ((bool \<times> dataready) \<times> gpio_client \<times> gpio_mgr) option" where
  "arm_pin_calls sv fd pulse p d cm =
     (let d = d\<lparr>dr_pin := pi_dataready_pin p\<rparr>
      in case rpi_gpio_setup sv fd (dr_pin d) GPIO_IN cm of
           None \<Rightarrow> None
         | Some (status, cm) \<Rightarrow>
             if status \<noteq> GPIO_SUCCESS then Some ((False, d), cm)
             else case rpi_gpio_add_event_detect sv fd pulse True (dr_pin d) GPIO_RISING 1 cm of
                    None \<Rightarrow> None
                  | Some (status, cm) \<Rightarrow>
                      if status \<noteq> GPIO_SUCCESS then Some ((False, d), cm)
                      else case rpi_gpio_setup_pull sv fd (dr_pin d) GPIO_IN GPIO_PUD_DOWN cm of
                             None \<Rightarrow> None
                           | Some (_, cm) \<Rightarrow>
                               (case rpi_gpio_input sv fd (dr_pin d) cm of
                                  None \<Rightarrow> None
                                | Some (_, cm) \<Rightarrow> Some ((True, d), cm)))"

lemma arm_pin_calls_refine:
  assumes "arm_pin_calls sv fd pulse p d cm = Some (r, cm')"
  shows "\<exists>io. dataready_arm_pin io p d = r"
proof -
  have "r = (False, d\<lparr>dr_pin := pi_dataready_pin p\<rparr>) \<or> r = (True, d\<lparr>dr_pin := pi_dataready_pin p\<rparr>)"
    using assms by (auto simp: arm_pin_calls_def Let_def split: option.splits prod.splits if_splits)
  then show ?thesis
  proof
    assume "r = (False, d\<lparr>dr_pin := pi_dataready_pin p\<rparr>)"
    then have "dataready_arm_pin \<lparr>gr_setup_ok = False, gr_add_ok = False\<rparr> p d = r"
      by (simp add: dataready_arm_pin_def Let_def)
    then show ?thesis ..
  next
    assume "r = (True, d\<lparr>dr_pin := pi_dataready_pin p\<rparr>)"
    then have "dataready_arm_pin \<lparr>gr_setup_ok = True, gr_add_ok = True\<rparr> p d = r"
      by (simp add: dataready_arm_pin_def Let_def)
    then show ?thesis ..
  qed
qed

lemma bcm_pud_select:
  assumes "g < 28" "g' < 28"
  shows "rpi2711_gpio_get_select g' (snd (rpi_bcm2835_gpio_set_pud g v h)) = rpi2711_gpio_get_select g' h"
    "rpi2711_gpio_get_select g' (snd (rpi2711_gpio_set_pud_bcm2711 g v h)) = rpi2711_gpio_get_select g' h"
proof -
  have "g' div 10 < 3" "g div 32 = 0"
    using assms by simp_all
  then show "rpi2711_gpio_get_select g' (snd (rpi_bcm2835_gpio_set_pud g v h)) = rpi2711_gpio_get_select g' h"
    "rpi2711_gpio_get_select g' (snd (rpi2711_gpio_set_pud_bcm2711 g v h)) = rpi2711_gpio_get_select g' h"
    by (auto simp: rpi2711_gpio_get_select_def rpi_bcm2835_gpio_set_pud_def rpi2711_gpio_set_pud_bcm2711_def Let_def store_regs)
qed

lemma rp1_pud_select:
  assumes "g < 28" "g' < 28"
  shows "rp1_gpio_get_select g' (snd (rp1_gpio_set_pud g v h)) = rp1_gpio_get_select g' h"
proof -
  have "snd (rp1_gpio_set_pud g v h) = h \<or> (\<exists>w. snd (rp1_gpio_set_pud g v h) = reg_write (0x20000 + RP1_GPIO_PADS_REG_OFFSET g) w h)"
    using assms(1) by (auto simp: rp1_gpio_set_pud_def pads_replace Let_def)
  moreover have "0x10004 \<noteq> 0x20000 + RP1_GPIO_PADS_REG_OFFSET g"
    by simp
  ultimately show ?thesis
    using pads_regs [OF assms(2), of g] write_other [OF oe_not_ctrl(2), of g]
    by (auto simp: get_select_function [OF assms(2)])
qed

lemma chip_pud_select:
  assumes "cfg \<in> {gpio_config_rpi3, gpio_config_rpi4, gpio_config_rpi5}" "g < 28" "g' < 28"
  shows "gc_get_select cfg g' (snd (gc_set_pud cfg g v h)) = gc_get_select cfg g' h"
  using assms(1)
proof (elim insertE emptyE)
  assume "cfg = gpio_config_rpi3"
  then show ?thesis
    using bcm_pud_select(1) [OF assms(2,3)] by (simp add: gpio_config_rpi3_def)
next
  assume "cfg = gpio_config_rpi4"
  then show ?thesis
    using bcm_pud_select(2) [OF assms(2,3)] by (simp add: gpio_config_rpi4_def)
next
  assume "cfg = gpio_config_rpi5"
  then show ?thesis
    using rp1_pud_select [OF assms(2,3)] by (simp add: gpio_config_rpi5_def)
qed

text \<open>On the Raspberry Pi 5 a pull-down request sets the pull-up bit (3) and clears the pull-down bit (2).\<close>

theorem rp1_pull_down_pulls_up:
  assumes "g < 28"
  shows "bit (hw_regs (snd (rp1_gpio_set_pud g RPI_GPIO_PUD_DOWN h)) (0x20000 + RP1_GPIO_PADS_REG_OFFSET g)) 3"
    "\<not> bit (hw_regs (snd (rp1_gpio_set_pud g RPI_GPIO_PUD_DOWN h)) (0x20000 + RP1_GPIO_PADS_REG_OFFSET g)) 2"
  using assms by (simp_all add: rp1_gpio_set_pud_def Let_def pads_replace write_other in32_def bit_or_iff bit_and_iff bit_not_iff)

text \<open>C38. From every state the manager can reach, on every chip, the motor controller's arming of its
  data-ready pin works as its model assumes (\<open>dataready_arm_pin\<close> with both results true), provided
  the pin is within the range the configuration loader enforces and no other client has registered
  an event for it: afterwards the pin is an input, the registration is the controller's, and of the
  four detections exactly the rising edge is enabled. The later calls of the sequence, which set the
  function again and the pull, do not undo the detection.\<close>

theorem data_ready_armed:
  assumes "sv_cfg sv \<in> {gpio_config_rpi3, gpio_config_rpi4, gpio_config_rpi5}" "\<not> client_info_is_unused (sv_ci sv)"
    and "run_steps (mgr_do (sv_cfg sv) fl n) xs (gpio_mgr_start (sv_cfg sv) h) = Some m"
    and "ready fd c c'" "0 \<le> pi_dataready_pin p" "pi_dataready_pin p < 28" "g = nat (pi_dataready_pin p)"
    and "client_info_is_unused (ee_ci (ev_table (gm_events m) ! g)) \<or> client_info_match (ee_ci (ev_table (gm_events m) ! g)) (sv_ci sv)"
  shows "\<exists>m'. arm_pin_calls sv fd pulse p d (c, m) =
      Some (dataready_arm_pin \<lparr>gr_setup_ok = True, gr_add_ok = True\<rparr> p d, c', m') \<and>
    fst (dataready_arm_pin \<lparr>gr_setup_ok = True, gr_add_ok = True\<rparr> p d) \<and>
    gc_get_select (sv_cfg sv) g (gm_hw m') = RPI_GPIO_FUNC_IN \<and>
    ee_ci (ev_table (gm_events m') ! g) = sv_ci sv \<and>
    (\<forall>k<4. armed (sv_cfg sv) k g (gm_hw m') \<longleftrightarrow> k = 0)"
proof -
  let ?cfg = "sv_cfg sv" and ?pin = "pi_dataready_pin p"
  note chip = gpio_chips [OF assms(1)]
  have g: "g < 28"
    using assms(6,7) by simp
  have live: "cl_live c'" "ready fd c' c'"
    using assms(4) ready_again [OF assms(4)] by (simp_all add: ready_def)
  have inv: "mgr_inv ?cfg m"
    by (rule mgr_reachable_inv [OF assms(1,3)])
  note select_inv = chip_inv [of ?cfg _ "gc_set_select ?cfg g 0", OF _ gpio_chip.select_view [OF chip g]]
  note pud_inv = chip_inv [of ?cfg _ "\<lambda>h. snd (gc_set_pud ?cfg g 1 h)", OF _ gpio_chip.pud_view [OF chip g]]
  define m1 where "m1 = with_chip (gc_set_select ?cfg g 0) m"
  have 1: "rpi_gpio_setup sv fd ?pin 0 (c, m) = Some (0, c', m1)"
    unfolding m1_def assms(7) by (rule setup_ok [OF assms(1,4-6)]) simp
  have m1: "mgr_inv ?cfg m1" "gm_events m1 = gm_events m"
    unfolding m1_def by (rule select_inv [OF inv], assumption) (simp add: with_chip_def)
  let ?ev = "\<lparr>se_notify = pulse, se_value = 1\<rparr>"
  let ?msg = "\<lparr>em_gpio = g, em_detect = 1, em_event = ?ev, em_match = 0\<rparr>"
  let ?s1 = "(gm_events m1)\<lparr>ev_hw := gm_hw m1\<rparr>"
  define s where "s = event_add_enable ?cfg ?msg (event_add_table (sv_ci sv) ?msg
    (?s1\<lparr>ev_hw := disable_detection ?cfg g (gm_hw m1)\<rparr>))"
  have add: "event_add ?cfg (sv_ci sv) ?msg ?s1 = (None, s)"
    using assms(8) m1(2) by (auto simp: event_add_def event_add_begin_def s_def Let_def)
  define m2 where "m2 = m1\<lparr>gm_events := s, gm_hw := ev_hw s\<rparr>"
  have mask: "detect_mask 1 = 1"
    by (simp add: detect_mask_def Let_def)
  have 2: "rpi_gpio_add_event_detect sv fd pulse True ?pin 1 1 (c', m1) = Some (0, c', m2)"
    using send_event [OF live(1) assms(5,6) refl, of sv 1 ?ev m1 s] add
    by (simp add: rpi_gpio_add_event_detect_def on_pin_ready [OF live(2) assms(5,6)] mask live(1) m2_def assms(7))
  have "event_inv ?cfg \<lparr>er_pc = MIdle, er_ev = ?s1\<rparr>"
    using m1(1) by (simp add: mgr_inv_def mgr_events_def)
  then have "event_inv ?cfg \<lparr>er_pc = MIdle, er_ev = s\<rparr>"
    by (rule gpio_chip.event_add_inv [OF chip _ add]) (use g assms(2) in simp_all)
  then have m2: "mgr_inv ?cfg m2"
    using m1(1) by (simp add: mgr_inv_def mgr_events_def m2_def)
  define m3 where "m3 = with_chip (gc_set_select ?cfg g 0) m2"
  have 3: "rpi_gpio_setup sv fd ?pin 0 (c', m2) = Some (0, c', m3)"
    unfolding m3_def assms(7) by (rule setup_ok [OF assms(1) live(2) assms(5,6)]) simp
  define m4 where "m4 = with_chip (\<lambda>h. snd (gc_set_pud ?cfg g 1 h)) m3"
  have 4: "rpi_gpio_setup_pull sv fd ?pin 0 2 (c', m2) = Some (0, c', m4)"
    using send_pud [OF live(1) assms(5,6,1), of 1 m3] assms(5,6) by (simp add: rpi_gpio_setup_pull_def 3 m4_def assms(7))
  have "mgr_inv ?cfg m3"
    unfolding m3_def by (rule select_inv [OF m2])
  then have m4: "mgr_inv ?cfg m4"
    unfolding m4_def by (rule pud_inv)
  have "gc_get_select ?cfg g (gm_hw m3) = 0"
    using chip_select_reads_back [OF assms(1) g g, of 0 "gm_hw m2"] by (simp add: m3_def with_chip_def)
  then have sel: "gc_get_select ?cfg g (gm_hw m4) = 0"
    using chip_pud_select [OF assms(1) g g, of 1 "gm_hw m3"] by (simp add: m4_def with_chip_def)
  have len: "length (ev_table (gm_events m)) = 28"
    using inv by (simp add: mgr_inv_def event_inv_def mgr_events_def)
  have ent: "ee_ci (ev_table (gm_events m4) ! g) = sv_ci sv" "ee_detect (ev_table (gm_events m4) ! g) = 1"
    using len g m1(2) by (simp_all add: m4_def m3_def m2_def with_chip_def s_def event_add_enable_def event_add_table_def set_entry_def)
  have "pin_inv ?cfg ((gm_events m4)\<lparr>ev_hw := gm_hw m4\<rparr>) MIdle g"
    using m4 g by (simp add: mgr_inv_def event_inv_def mgr_events_def)
  then have armed: "\<forall>k<4. armed ?cfg k g (gm_hw m4) \<longleftrightarrow> k = 0"
    using ent assms(2) by (auto simp: pin_inv_def busy_def bit_1_iff)
  have 5: "\<exists>r. rpi_gpio_input sv fd ?pin (c', m4) = Some (r, c', m4)"
    using sel live(1) assms(5,6) unfolding rpi_gpio_input_def on_pin_ready [OF live(2) assms(5,6)]
    by (auto simp: gpio_send_receive_msg_def send_plain msg_act_def Let_def pin_word assms(7))
  then have "arm_pin_calls sv fd pulse p d (c, m) = Some ((True, d\<lparr>dr_pin := ?pin\<rparr>), c', m4)"
    by (auto simp: arm_pin_calls_def Let_def 1 2 4)
  then show ?thesis
    using sel ent armed by (auto simp: dataready_arm_pin_def Let_def)
qed

section \<open>Sample calls\<close>

definition sample_server :: "gpio_config \<Rightarrow> server" where
  "sample_server cfg = \<lparr>sv_cfg = cfg, sv_fl = id, sv_env = sample_env, sv_event_size = 16, sv_ci = sample_client\<rparr>"

definition sample_connected :: gpio_client where
  "sample_connected = \<lparr>cl_fd = 3, cl_live = True\<rparr>"

lemma sample_ready: "ready 3 gpio_client_start sample_connected"
  unfolding sample_connected_def by (rule ready_start) simp


theorem cleanup_is_final_witness:
  "rpi_gpio_output (sample_server gpio_config_rpi5) 3 17 GPIO_HIGH (sample_connected\<lparr>cl_live := False\<rparr>, sample_mgr) =
     Some (GPIO_ERROR_MSG_NOT_SENT, sample_connected\<lparr>cl_live := False\<rparr>, sample_mgr)"
  using cleanup_is_final [of sample_connected "sample_connected\<lparr>cl_live := False\<rparr>" 17 0 8 1 0 50 "sample_server gpio_config_rpi5" 3 sample_mgr 0 0 True 0 0 True]
  by (simp add: sample_connected_def rpi_gpio_cleanup_def detect_mask_def Let_def)

lemma sample_start_free: "client_info_is_unused (ee_ci (ev_table (gm_events (gpio_mgr_start cfg h)) ! 17))"
  by (simp add: gpio_mgr_start_def event_init_def Let_def)

theorem data_ready_armed_witness:
  "\<exists>m'. arm_pin_calls (sample_server gpio_config_rpi5) 3 4 (fc_pi CONFIG_DEFAULTS) \<lparr>dr_pin = 0, dr_chid = 1, dr_coid = 2, dr_poll_ns = 0\<rparr>
      (gpio_client_start, gpio_mgr_start gpio_config_rpi5 sample_hw) =
      Some ((True, \<lparr>dr_pin = 17, dr_chid = 1, dr_coid = 2, dr_poll_ns = 0\<rparr>), sample_connected, m') \<and>
    armed gpio_config_rpi5 0 17 (gm_hw m')"
proof -
  have p: "pi_dataready_pin (fc_pi CONFIG_DEFAULTS) = 17"
    by (simp add: CONFIG_DEFAULTS_def)
  have s: "sv_cfg (sample_server cfg) = cfg" "sv_ci (sample_server cfg) = sample_client" for cfg
    by (simp_all add: sample_server_def)
  show ?thesis
    using data_ready_armed [OF _ _ _ sample_ready, of "sample_server gpio_config_rpi5" id 16 "[]" sample_hw _ "fc_pi CONFIG_DEFAULTS" 17
        4 "\<lparr>dr_pin = 0, dr_chid = 1, dr_coid = 2, dr_poll_ns = 0\<rparr>"]
    by (auto simp: p s sample_client_used sample_start_free dataready_arm_pin_def Let_def)
qed

end
