(* ===== verification/SpiClient.thy ===== *)
theory SpiClient
  imports MotorController
begin

text \<open>
  src/src/giga_spi_8adc/rpi_spi.c: the SPI calls of the motor controller. A table holds a descriptor
  per bus and device, opened by the first call that needs it. What \<open>open\<close>, \<open>close\<close>, \<open>malloc\<close> and
  \<open>devctl\<close> return is the record \<open>spi_io\<close>; what was opened, closed and sent is a trace. A call is None
  where the C code has no defined behaviour: an index outside the table, a buffer shorter than the
  size given with it.
\<close>

section \<open>The descriptor table\<close>

abbreviation (input) SPI_SUCCESS :: int where "SPI_SUCCESS \<equiv> 0"
abbreviation (input) SPI_ERROR_NOT_CONNECTED :: int where "SPI_ERROR_NOT_CONNECTED \<equiv> -1"
abbreviation (input) SPI_ERROR_BAD_ARGUMENT :: int where "SPI_ERROR_BAD_ARGUMENT \<equiv> -2"
abbreviation (input) SPI_ERROR_OPERATION_FAILED :: int where "SPI_ERROR_OPERATION_FAILED \<equiv> -3"
abbreviation (input) MAX_SPI_BUSES :: nat where "MAX_SPI_BUSES \<equiv> 6"
abbreviation (input) MAX_SPI_BUS_DEVICES :: nat where "MAX_SPI_BUS_DEVICES \<equiv> 10"
abbreviation (input) SPI_DEVICE_FILENAME_LENGTH :: nat where "SPI_DEVICE_FILENAME_LENGTH \<equiv> 40"

text \<open>The messages to the driver: the mode and clock of a configuration, the bytes of an exchange.\<close>

datatype spi_request = GetDrvInfo | GetDevInfo | SetConfig u32 u32 | Exchange "u8 list"

datatype spi_event = SpiOpened nat nat string | SpiClosed nat nat | SpiSent int spi_request

record spi_client =
  sc_fd :: "int list list"
  sc_trace :: "spi_event list"

text \<open>\<open>devctl\<close> answers None for an error, otherwise with the bytes it puts into the message.\<close>

record spi_io =
  si_open :: "nat option"
  si_close :: bool
  si_alloc :: bool
  si_devctl :: "spi_request \<Rightarrow> u8 list option"

definition spi_client_start :: spi_client where
  "spi_client_start = \<lparr>sc_fd = replicate MAX_SPI_BUSES (replicate MAX_SPI_BUS_DEVICES (-1)), sc_trace = []\<rparr>"

definition fd_at :: "nat \<Rightarrow> nat \<Rightarrow> spi_client \<Rightarrow> int" where
  "fd_at bus dev s = sc_fd s ! bus ! dev"

definition set_fd :: "nat \<Rightarrow> nat \<Rightarrow> int \<Rightarrow> spi_client \<Rightarrow> spi_client" where
  "set_fd bus dev fd s = s\<lparr>sc_fd := (sc_fd s)[bus := (sc_fd s ! bus)[dev := fd]]\<rparr>"

definition log_spi :: "spi_event \<Rightarrow> spi_client \<Rightarrow> spi_client" where
  "log_spi e s = s\<lparr>sc_trace := sc_trace s @ [e]\<rparr>"

definition spi_device_name :: "nat \<Rightarrow> nat \<Rightarrow> string" where
  "spi_device_name bus dev =
     bounded_copy SPI_DEVICE_FILENAME_LENGTH (''/dev/io-spi/spi'' @ dec bus @ ''/dev'' @ dec dev)"

definition open_spi_device_fd :: "spi_io \<Rightarrow> nat \<Rightarrow> nat \<Rightarrow> spi_client \<Rightarrow> (int \<times> spi_client) option" where
  "open_spi_device_fd io bus dev s =
     (if bus \<ge> MAX_SPI_BUSES \<or> dev \<ge> MAX_SPI_BUS_DEVICES then None
      else if fd_at bus dev s = -1
      then case si_open io of
             None \<Rightarrow> Some (SPI_ERROR_NOT_CONNECTED, s)
           | Some fd \<Rightarrow> Some (SPI_SUCCESS, log_spi (SpiOpened bus dev (spi_device_name bus dev)) (set_fd bus dev (int fd) s))
      else Some (SPI_SUCCESS, s))"

definition close_spi_device_fd :: "spi_io \<Rightarrow> nat \<Rightarrow> nat \<Rightarrow> spi_client \<Rightarrow> (int \<times> spi_client) option" where
  "close_spi_device_fd io bus dev s =
     (if bus \<ge> MAX_SPI_BUSES \<or> dev \<ge> MAX_SPI_BUS_DEVICES then None
      else if fd_at bus dev s \<noteq> -1
      then if \<not> si_close io then Some (SPI_ERROR_NOT_CONNECTED, s)
           else Some (SPI_SUCCESS, log_spi (SpiClosed bus dev) (set_fd bus dev (-1) s))
      else Some (SPI_SUCCESS, s))"

section \<open>The calls\<close>

definition spi_devctl :: "spi_io \<Rightarrow> nat \<Rightarrow> nat \<Rightarrow> spi_request \<Rightarrow> spi_client \<Rightarrow> u8 list option \<times> spi_client" where
  "spi_devctl io bus dev req s = (si_devctl io req, log_spi (SpiSent (fd_at bus dev s) req) s)"

text \<open>The two inquiries; \<open>given\<close>: whether the caller gave a place for the answer.\<close>

definition rpi_spi_get_driver_info :: "spi_io \<Rightarrow> nat \<Rightarrow> nat \<Rightarrow> bool \<Rightarrow> spi_client \<Rightarrow> (int \<times> u8 list option \<times> spi_client) option" where
  "rpi_spi_get_driver_info io bus dev given s =
     (case open_spi_device_fd io bus dev s of
        None \<Rightarrow> None
      | Some (err, s) \<Rightarrow>
          if err \<noteq> 0 then Some (SPI_ERROR_NOT_CONNECTED, None, s)
          else if \<not> given then Some (SPI_ERROR_BAD_ARGUMENT, None, s)
          else case spi_devctl io bus dev GetDrvInfo s of
                 (None, s) \<Rightarrow> Some (SPI_ERROR_OPERATION_FAILED, None, s)
               | (Some info, s) \<Rightarrow> Some (SPI_SUCCESS, Some info, s))"

definition rpi_spi_get_device_info :: "spi_io \<Rightarrow> nat \<Rightarrow> nat \<Rightarrow> bool \<Rightarrow> spi_client \<Rightarrow> (int \<times> u8 list option \<times> spi_client) option" where
  "rpi_spi_get_device_info io bus dev given s =
     (case open_spi_device_fd io bus dev s of
        None \<Rightarrow> None
      | Some (err, s) \<Rightarrow>
          if err \<noteq> 0 then Some (SPI_ERROR_NOT_CONNECTED, None, s)
          else if \<not> given then Some (SPI_ERROR_BAD_ARGUMENT, None, s)
          else case spi_devctl io bus dev GetDevInfo s of
                 (None, s) \<Rightarrow> Some (SPI_ERROR_OPERATION_FAILED, None, s)
               | (Some info, s) \<Rightarrow> Some (SPI_SUCCESS, Some info, s))"

definition rpi_spi_configure_device :: "spi_io \<Rightarrow> nat \<Rightarrow> nat \<Rightarrow> u32 \<Rightarrow> u32 \<Rightarrow> spi_client \<Rightarrow> (int \<times> spi_client) option" where
  "rpi_spi_configure_device io bus dev mode speed_hz s =
     (case open_spi_device_fd io bus dev s of
        None \<Rightarrow> None
      | Some (err, s) \<Rightarrow>
          if err \<noteq> 0 then Some (SPI_ERROR_NOT_CONNECTED, s)
          else case spi_devctl io bus dev (SetConfig mode speed_hz) s of
                 (None, s) \<Rightarrow> Some (SPI_ERROR_OPERATION_FAILED, s)
               | (Some _, s) \<Rightarrow> Some (SPI_SUCCESS, s))"

text \<open>The message after the driver wrote its answer over the first bytes.\<close>

definition exchanged :: "u8 list \<Rightarrow> u8 list \<Rightarrow> u8 list" where
  "exchanged sent reply = take (length sent) (reply @ drop (length reply) sent)"

text \<open>The buffers are None for null pointers; the second result is the read buffer afterwards.\<close>

definition rpi_spi_write_read_data ::
  "spi_io \<Rightarrow> nat \<Rightarrow> nat \<Rightarrow> u8 list option \<Rightarrow> u8 list option \<Rightarrow> nat \<Rightarrow> spi_client \<Rightarrow> (int \<times> u8 list option \<times> spi_client) option" where
  "rpi_spi_write_read_data io bus dev wbuf rbuf data_size s =
     (case open_spi_device_fd io bus dev s of
        None \<Rightarrow> None
      | Some (err, s) \<Rightarrow>
          if err \<noteq> 0 then Some (SPI_ERROR_NOT_CONNECTED, rbuf, s)
          else if data_size < 1 then Some (SPI_ERROR_BAD_ARGUMENT, rbuf, s)
          else case wbuf of
                 None \<Rightarrow> Some (SPI_ERROR_BAD_ARGUMENT, rbuf, s)
               | Some w \<Rightarrow>
                   if \<not> si_alloc io then Some (-1, rbuf, s)
                   else if length w < data_size then None
                   else case spi_devctl io bus dev (Exchange (take data_size w)) s of
                          (None, s) \<Rightarrow> Some (SPI_ERROR_OPERATION_FAILED, rbuf, s)
                        | (Some reply, s) \<Rightarrow>
                            (case rbuf of
                               None \<Rightarrow> Some (SPI_SUCCESS, None, s)
                             | Some r \<Rightarrow>
                                 if length r < data_size then None
                                 else Some (SPI_SUCCESS, Some (exchanged (take data_size w) reply @ drop data_size r), s)))"

definition rpi_spi_cleanup_device :: "spi_io \<Rightarrow> nat \<Rightarrow> nat \<Rightarrow> spi_client \<Rightarrow> (int \<times> spi_client) option" where
  "rpi_spi_cleanup_device io bus dev s =
     (case close_spi_device_fd io bus dev s of
        None \<Rightarrow> None
      | Some (err, s) \<Rightarrow> if err \<noteq> 0 then Some (SPI_ERROR_NOT_CONNECTED, s) else Some (SPI_SUCCESS, s))"

text \<open>The calls a program makes, each with what the system answers.\<close>

datatype spi_call =
  DriverInfo nat nat bool | DeviceInfo nat nat bool | Configure nat nat u32 u32
| WriteRead nat nat "u8 list option" "u8 list option" nat | Cleanup nat nat

definition spi_do :: "spi_io \<times> spi_call \<Rightarrow> spi_client \<Rightarrow> spi_client option" where
  "spi_do x s =
     (case x of (io, c) \<Rightarrow>
        (case c of
           DriverInfo bus dev given \<Rightarrow> map_option (\<lambda>(_, _, s). s) (rpi_spi_get_driver_info io bus dev given s)
         | DeviceInfo bus dev given \<Rightarrow> map_option (\<lambda>(_, _, s). s) (rpi_spi_get_device_info io bus dev given s)
         | Configure bus dev mode speed \<Rightarrow> map_option snd (rpi_spi_configure_device io bus dev mode speed s)
         | WriteRead bus dev w r n \<Rightarrow> map_option (\<lambda>(_, _, s). s) (rpi_spi_write_read_data io bus dev w r n s)
         | Cleanup bus dev \<Rightarrow> map_option snd (rpi_spi_cleanup_device io bus dev s)))"

section \<open>Every descriptor is opened once\<close>

definition opens :: "nat \<Rightarrow> nat \<Rightarrow> spi_client \<Rightarrow> nat" where
  "opens bus dev s = length (filter (\<lambda>e. \<exists>n. e = SpiOpened bus dev n) (sc_trace s))"

definition closes :: "nat \<Rightarrow> nat \<Rightarrow> spi_client \<Rightarrow> nat" where
  "closes bus dev s = length (filter (\<lambda>e. e = SpiClosed bus dev) (sc_trace s))"

definition table_ok :: "spi_client \<Rightarrow> bool" where
  "table_ok s \<longleftrightarrow> length (sc_fd s) = MAX_SPI_BUSES \<and> (\<forall>bus < MAX_SPI_BUSES. length (sc_fd s ! bus) = MAX_SPI_BUS_DEVICES)"

definition balanced :: "nat \<Rightarrow> nat \<Rightarrow> spi_client \<Rightarrow> bool" where
  "balanced bus dev s \<longleftrightarrow> opens bus dev s = closes bus dev s + (if fd_at bus dev s = -1 then 0 else 1)"

definition spi_inv :: "spi_client \<Rightarrow> bool" where
  "spi_inv s \<longleftrightarrow> table_ok s \<and> (\<forall>bus < MAX_SPI_BUSES. \<forall>dev < MAX_SPI_BUS_DEVICES. balanced bus dev s)"

lemma spi_counts [simp]:
  "opens b d (set_fd bus dev fd s) = opens b d s" "closes b d (set_fd bus dev fd s) = closes b d s"
  "opens b d (log_spi e s) = opens b d s + (if \<exists>n. e = SpiOpened b d n then 1 else 0)"
  "closes b d (log_spi e s) = closes b d s + (if e = SpiClosed b d then 1 else 0)"
  by (simp_all add: opens_def closes_def set_fd_def log_spi_def)

lemma fd_at_log [simp]: "fd_at b d (log_spi e s) = fd_at b d s" "table_ok (log_spi e s) = table_ok s"
  by (simp_all add: fd_at_def log_spi_def table_ok_def)

lemma fd_at_set [simp]:
  assumes "table_ok s" "bus < MAX_SPI_BUSES" "dev < MAX_SPI_BUS_DEVICES" "b < MAX_SPI_BUSES" "d < MAX_SPI_BUS_DEVICES"
  shows "fd_at b d (set_fd bus dev fd s) = (if b = bus \<and> d = dev then fd else fd_at b d s)"
  using assms by (simp add: fd_at_def set_fd_def table_ok_def nth_list_update)

lemma table_ok_set [simp]: "table_ok s \<Longrightarrow> bus < MAX_SPI_BUSES \<Longrightarrow> table_ok (set_fd bus dev fd s)"
  by (simp add: set_fd_def table_ok_def nth_list_update)

lemma open_balanced:
  assumes "table_ok s" "balanced b d s" "b < MAX_SPI_BUSES" "d < MAX_SPI_BUS_DEVICES"
    "open_spi_device_fd io bus dev s = Some (err, t)"
  shows "balanced b d t"
  using assms by (auto simp: open_spi_device_fd_def balanced_def split: if_splits option.splits)

lemma close_balanced:
  assumes "table_ok s" "balanced b d s" "b < MAX_SPI_BUSES" "d < MAX_SPI_BUS_DEVICES"
    "close_spi_device_fd io bus dev s = Some (err, t)"
  shows "balanced b d t"
  using assms by (auto simp: close_spi_device_fd_def balanced_def split: if_splits)

lemma open_inv:
  assumes "spi_inv s" "open_spi_device_fd io bus dev s = Some (err, t)"
  shows "spi_inv t"
proof -
  have "table_ok t"
    using assms by (auto simp: spi_inv_def open_spi_device_fd_def split: if_splits option.splits)
  then show ?thesis
    using assms open_balanced by (simp add: spi_inv_def) blast
qed

lemma close_inv:
  assumes "spi_inv s" "close_spi_device_fd io bus dev s = Some (err, t)"
  shows "spi_inv t"
proof -
  have "table_ok t"
    using assms by (auto simp: spi_inv_def close_spi_device_fd_def split: if_splits)
  then show ?thesis
    using assms close_balanced by (simp add: spi_inv_def) blast
qed

lemma devctl_inv: "spi_inv s \<Longrightarrow> spi_devctl io bus dev req s = (r, t) \<Longrightarrow> spi_inv t"
  by (auto simp: spi_devctl_def spi_inv_def balanced_def)

lemma spi_do_inv:
  assumes "spi_inv s" "spi_do x s = Some t"
  shows "spi_inv t"
proof -
  obtain io c where "x = (io, c)" by (cases x)
  with assms show ?thesis
    by (cases c)
      (auto simp: spi_do_def rpi_spi_get_driver_info_def rpi_spi_get_device_info_def rpi_spi_configure_device_def
        rpi_spi_write_read_data_def rpi_spi_cleanup_device_def
        split: option.splits prod.splits if_splits dest: open_inv close_inv devctl_inv)
qed

interpretation sp: step_invariant spi_do spi_inv
  by unfold_locales (rule spi_do_inv)

lemma spi_start_inv: "spi_inv spi_client_start"
  by (simp add: spi_inv_def balanced_def spi_client_start_def table_ok_def opens_def closes_def fd_at_def)

text \<open>
  Whatever calls a program makes, each descriptor is opened again only after it was closed, and one
  that is not held has been closed as often as it was opened.
\<close>

theorem spi_opened_once:
  assumes "run_steps spi_do xs spi_client_start = Some s" "bus < MAX_SPI_BUSES" "dev < MAX_SPI_BUS_DEVICES"
  shows "opens bus dev s = closes bus dev s + (if fd_at bus dev s = -1 then 0 else 1)"
  using sp.run_inv [OF spi_start_inv assms(1)] assms(2,3) by (simp add: spi_inv_def balanced_def)

section \<open>The motor controller's calls\<close>

text \<open>\<open>open_spi\<close> and \<open>close_spi\<close> of motor_controller.c with the calls they make.\<close>

definition open_spi_calls :: "spi_io \<Rightarrow> pi_config \<Rightarrow> spi_link \<Rightarrow> spi_client \<Rightarrow> ((bool \<times> spi_link) \<times> spi_client) option" where
  "open_spi_calls io p l s =
     map_option (\<lambda>(err, s). (if err \<noteq> SPI_SUCCESS then (False, l\<lparr>sl_configured := False\<rparr>)
                              else (True, l\<lparr>sl_bus := pi_spi_bus p, sl_dev := pi_spi_dev p, sl_configured := True\<rparr>), s))
       (rpi_spi_configure_device io (nat (pi_spi_bus p)) (nat (pi_spi_dev p)) (word_of_int (pi_spi_mode p)) (pi_spi_clock_hz p) s)"

definition close_spi_calls :: "spi_io \<Rightarrow> spi_link \<Rightarrow> spi_client \<Rightarrow> (spi_link \<times> spi_client) option" where
  "close_spi_calls io l s =
     (if sl_configured l
      then map_option (\<lambda>(_, s). (l\<lparr>sl_configured := False\<rparr>, s))
             (rpi_spi_cleanup_device io (nat (sl_bus l)) (nat (sl_dev l)) s)
      else Some (l, s))"

lemma open_defined: "open_spi_device_fd io bus dev s \<noteq> None \<longleftrightarrow> bus < MAX_SPI_BUSES \<and> dev < MAX_SPI_BUS_DEVICES"
  by (auto simp: open_spi_device_fd_def split: option.splits)

lemma configure_defined:
  "rpi_spi_configure_device io bus dev mode speed s \<noteq> None \<longleftrightarrow> bus < MAX_SPI_BUSES \<and> dev < MAX_SPI_BUS_DEVICES"
  using open_defined [of io bus dev s]
  by (auto simp: rpi_spi_configure_device_def split: option.splits prod.splits)

text \<open>
  C39. The loader accepts more buses than the descriptor table has: with an accepted configuration the
  controller's SPI set-up has defined behaviour exactly if the bus is below six, and then does to the
  link what \<open>open_spi\<close> says; buses six and seven are accepted and index past the table.
\<close>

theorem accepted_bus_in_table:
  assumes "config_load_file cJSON_Parse f = Ok c"
  shows "(open_spi_calls io (fc_pi c) l s \<noteq> None) = (pi_spi_bus (fc_pi c) < 6) \<and>
         (\<forall>r t. open_spi_calls io (fc_pi c) l s = Some (r, t) \<longrightarrow> r = open_spi (fst r) (fc_pi c) l)"
proof -
  have "config_ok c"
    by (rule accepted_config_ok [OF assms])
  then have p: "0 \<le> pi_spi_bus (fc_pi c)" "0 \<le> pi_spi_dev (fc_pi c)" "pi_spi_dev (fc_pi c) \<le> 7"
    by (simp_all add: config_ok_def pi_hw_ok_def)
  have "open_spi_calls io (fc_pi c) l s \<noteq> None \<longleftrightarrow> nat (pi_spi_bus (fc_pi c)) < 6 \<and> nat (pi_spi_dev (fc_pi c)) < 10"
    using configure_defined by (simp add: open_spi_calls_def)
  with p show ?thesis
    by (auto simp: open_spi_calls_def open_spi_def)
qed

definition bus_parse :: "string \<Rightarrow> json option" where
  "bus_parse s = (if s = ''{}'' then Some (JObject [(''pi'', JObject [(''spi_bus'', JNumber (Finite 7))])]) else None)"

lemma bus_seven_accepted:
  "config_load_file bus_parse empty_config_file = Ok (CONFIG_DEFAULTS\<lparr>fc_pi := (fc_pi CONFIG_DEFAULTS)\<lparr>pi_spi_bus := 7\<rparr>\<rparr>)"
  by (simp add: config_load_file_def empty_config_file_def bus_parse_def cstr_def load_root_def load_pi_def
      CONFIG_DEFAULTS_def j_int_def j_uint_def trunc_def)

theorem accepted_bus_in_table_witness:
  "config_load_file bus_parse empty_config_file = Ok (CONFIG_DEFAULTS\<lparr>fc_pi := (fc_pi CONFIG_DEFAULTS)\<lparr>pi_spi_bus := 7\<rparr>\<rparr>) \<and>
   (\<forall>io l. open_spi_calls io (fc_pi (CONFIG_DEFAULTS\<lparr>fc_pi := (fc_pi CONFIG_DEFAULTS)\<lparr>pi_spi_bus := 7\<rparr>\<rparr>)) l spi_client_start = None)"
proof (intro conjI allI)
  fix io l
  show "open_spi_calls io (fc_pi (CONFIG_DEFAULTS\<lparr>fc_pi := (fc_pi CONFIG_DEFAULTS)\<lparr>pi_spi_bus := 7\<rparr>\<rparr>)) l spi_client_start = None"
    using conjunct1 [OF accepted_bus_in_table [OF bus_seven_accepted, of io l spi_client_start]] by (simp del: not_None_eq)
qed (rule bus_seven_accepted)

text \<open>
  An exchange with buffers as long as its size sends the written bytes and leaves the driver's answer
  in the read buffer, the pair the controller's loop relies on.
\<close>

lemma spi_exchange:
  assumes "bus < MAX_SPI_BUSES" "dev < MAX_SPI_BUS_DEVICES" "fd_at bus dev s \<noteq> -1 \<or> si_open io \<noteq> None"
    "w \<noteq> []" "length r = length w" "si_alloc io" "si_devctl io (Exchange w) = Some reply" "length reply = length w"
  shows "\<exists>t. rpi_spi_write_read_data io bus dev (Some w) (Some r) (length w) s = Some (SPI_SUCCESS, Some reply, t) \<and>
             last (sc_trace t) = SpiSent (fd_at bus dev t) (Exchange w)"
proof -
  obtain t where "open_spi_device_fd io bus dev s = Some (SPI_SUCCESS, t)"
    using assms(1-3) by (cases "fd_at bus dev s = -1") (auto simp: open_spi_device_fd_def)
  then show ?thesis
    using assms(4-8)
    by (cases w) (simp_all add: rpi_spi_write_read_data_def spi_devctl_def exchanged_def log_spi_def fd_at_def)
qed

end
