(* ===== verification/AiResult.thy ===== *)
theory AiResult
  imports Seqlock CText
begin

text \<open>
  The result writer of the AI client: src/src/motor_ai_client/client/src/ai_result_writer.c with the
  region of ai_result_shm.h. The strings are arrays of 256 characters in place; what the system
  calls of an open return are arguments. \<open>ai_publish\<close> is the operation as a function on the
  snapshot, \<open>ai_publish_stores\<close> the same operation as the single stores a reader can see, in the
  form of theory Seqlock.
\<close>

section \<open>The region\<close>

abbreviation (input) AI_RESULT_SHM_MAGIC :: u32 where "AI_RESULT_SHM_MAGIC \<equiv> 0x41495200"
abbreviation (input) AI_RESULT_VERSION :: u16 where "AI_RESULT_VERSION \<equiv> 1"
abbreviation (input) AI_RESULT_STR_LEN :: nat where "AI_RESULT_STR_LEN \<equiv> 256"

record ai_snapshot =
  ai_seqlock :: u32
  ai_timestamp :: u64
  ai_producer_seq :: u32
  ai_flags :: u16
  ai_pad :: u16
  ai_anomaly :: string
  ai_fault :: string
  ai_maint :: string

record ai_region =
  ar_magic :: u32
  ar_version :: u16
  ar_pad0 :: u16
  ar_snapshot :: ai_snapshot

definition ai_wf :: "ai_snapshot \<Rightarrow> bool" where
  "ai_wf s \<longleftrightarrow> length (ai_anomaly s) = AI_RESULT_STR_LEN \<and> length (ai_fault s) = AI_RESULT_STR_LEN \<and>
     length (ai_maint s) = AI_RESULT_STR_LEN"

section \<open>Opening\<close>

text \<open>
  The results of allocating the handle, opening and sizing the object and mapping it; the mapped
  memory is a region with what the object held before. None when a call fails.
\<close>

definition ai_result_writer_open :: "bool \<Rightarrow> bool \<Rightarrow> bool \<Rightarrow> ai_region option \<Rightarrow> ai_region option" where
  "ai_result_writer_open alloc_ok shm_ok truncate_ok mapped =
     (if \<not> alloc_ok then None
      else if \<not> shm_ok then None
      else if \<not> truncate_ok then None
      else case mapped of
             None \<Rightarrow> None
           | Some r \<Rightarrow> Some (r\<lparr>ar_magic := AI_RESULT_SHM_MAGIC, ar_version := AI_RESULT_VERSION, ar_pad0 := 0,
                             ar_snapshot := (ar_snapshot r)\<lparr>ai_seqlock := 0\<rparr>\<rparr>))"

text \<open>Closing: what is left under the object's name, and whether the region stays mapped.\<close>

definition ai_result_writer_close :: "bool \<Rightarrow> bool \<times> ai_region option \<Rightarrow> bool \<times> ai_region option" where
  "ai_result_writer_close given st = (if \<not> given then st else (False, None))"

section \<open>Publishing\<close>

text \<open>The characters a string is cut to, and the copy with its terminator into an array.\<close>

definition ai_cut :: "string \<Rightarrow> string" where
  "ai_cut s = (let len = length (cstr s)
               in take (if len \<ge> AI_RESULT_STR_LEN then AI_RESULT_STR_LEN - 1 else len) (cstr s))"

definition ai_put :: "string \<Rightarrow> string \<Rightarrow> string" where
  "ai_put s dst = ai_cut s @ [NUL] @ drop (Suc (length (ai_cut s))) dst"

definition ai_publish :: "u64 \<Rightarrow> u32 \<Rightarrow> u16 \<Rightarrow> string \<Rightarrow> string \<Rightarrow> string \<Rightarrow> ai_snapshot \<Rightarrow> ai_snapshot" where
  "ai_publish timestamp producer_seq flags anomaly fault maint s =
     (let s0 = ai_seqlock s;
          s = s\<lparr>ai_seqlock := s0 + 1\<rparr>;
          s = s\<lparr>ai_timestamp := timestamp, ai_producer_seq := producer_seq, ai_flags := flags, ai_pad := 0\<rparr>;
          s = s\<lparr>ai_anomaly := ai_put anomaly (ai_anomaly s)\<rparr>;
          s = s\<lparr>ai_fault := ai_put fault (ai_fault s)\<rparr>;
          s = s\<lparr>ai_maint := ai_put maint (ai_maint s)\<rparr>
      in s\<lparr>ai_seqlock := s0 + 2\<rparr>)"

text \<open>The memory cells a reader copies, and the stores in the order of the code.\<close>

definition text_cells :: "string \<Rightarrow> u64 list" where
  "text_cells s = map of_char s"

definition ai_cells :: "ai_snapshot \<Rightarrow> u64 list" where
  "ai_cells s = [ai_timestamp s, ucast (ai_producer_seq s), ucast (ai_flags s), ucast (ai_pad s)] @
     text_cells (ai_anomaly s) @ text_cells (ai_fault s) @ text_cells (ai_maint s)"

definition put_stores :: "nat \<Rightarrow> string \<Rightarrow> u64 store list" where
  "put_stores off s = store_cells off (text_cells (ai_cut s @ [NUL]))"

definition ai_publish_stores :: "u32 \<Rightarrow> u64 \<Rightarrow> u32 \<Rightarrow> u16 \<Rightarrow> string \<Rightarrow> string \<Rightarrow> string \<Rightarrow> u64 store list" where
  "ai_publish_stores s0 timestamp producer_seq flags anomaly fault maint =
     publish_stores s0
       (store_cells 0 [timestamp, ucast producer_seq, ucast flags, 0] @
        put_stores 4 anomaly @ put_stores 260 fault @ put_stores 516 maint)"

section \<open>Lengths\<close>

lemma ai_cut_length: "length (ai_cut s) < AI_RESULT_STR_LEN"
  by (simp add: ai_cut_def Let_def)

lemma ai_put_length [simp]: "length dst = AI_RESULT_STR_LEN \<Longrightarrow> length (ai_put s dst) = AI_RESULT_STR_LEN"
  using ai_cut_length [of s] by (simp add: ai_put_def)

lemma ai_cut_no_nul: "NUL \<notin> set (ai_cut s)"
  using cstr_no_nul [of s] by (auto simp: ai_cut_def Let_def dest: in_set_takeD)

lemma cstr_put: "cstr (ai_put s dst) = ai_cut s"
proof -
  have "\<forall>c \<in> set (ai_cut s). c \<noteq> NUL"
    using ai_cut_no_nul [of s] by metis
  then show ?thesis
    by (simp add: ai_put_def cstr_def)
qed

lemma ai_publish_wf: "ai_wf s \<Longrightarrow> ai_wf (ai_publish t q f a b c s)"
  by (simp add: ai_wf_def ai_publish_def Let_def)

section \<open>Publishing is a sequence-lock write\<close>

lemma exec_put:
  assumes "length dst = AI_RESULT_STR_LEN" "length front = off"
  shows "fold exec_store (put_stores off s) (q, front @ text_cells dst @ back) =
    (q, front @ text_cells (ai_put s dst) @ back)"
proof -
  have l: "length (ai_cut s) < 256"
    by (rule ai_cut_length)
  then show ?thesis
    using assms unfolding put_stores_def
    by (subst exec_store_cells) (simp_all add: text_cells_def ai_put_def drop_map)
qed

lemma put_stores_range: "off + 256 \<le> n \<Longrightarrow> \<forall>st \<in> set (put_stores off s). store_in_range n st"
  using ai_cut_length [of s] by (auto simp: put_stores_def store_cells_def text_cells_def)

lemma length_text [simp]: "length (text_cells s) = length s"
  by (simp add: text_cells_def)

lemma exec_append: "fold exec_store (xs @ ys) mem = fold exec_store ys (fold exec_store xs mem)"
  by simp

lemma ai_body_correct:
  assumes "ai_wf s"
  shows "fold exec_store (store_cells 0 [t, ucast (q :: u32), ucast (f :: u16), 0] @
        put_stores 4 a @ put_stores 260 b @ put_stores 516 c) (v, ai_cells s) =
    (v, ai_cells (s\<lparr>ai_timestamp := t, ai_producer_seq := q, ai_flags := f, ai_pad := 0, ai_anomaly := ai_put a (ai_anomaly s),
        ai_fault := ai_put b (ai_fault s), ai_maint := ai_put c (ai_maint s)\<rparr>))"
proof -
  have l: "length (ai_anomaly s) = 256" "length (ai_fault s) = 256" "length (ai_maint s) = 256"
    using assms by (simp_all add: ai_wf_def)
  let ?h = "[t, ucast q, ucast f, 0]" and ?A = "text_cells (ai_anomaly s)" and ?B = "text_cells (ai_fault s)" and ?C = "text_cells (ai_maint s)"
  let ?A' = "text_cells (ai_put a (ai_anomaly s))" and ?B' = "text_cells (ai_put b (ai_fault s))" and ?C' = "text_cells (ai_put c (ai_maint s))"
  have head: "fold exec_store (store_cells 0 ?h) (v, ai_cells s) = (v, ?h @ ?A @ ?B @ ?C)"
    by (subst exec_store_cells) (simp_all add: ai_cells_def)
  have 1: "fold exec_store (put_stores 4 a) (v, ?h @ ?A @ ?B @ ?C) = (v, ?h @ ?A' @ ?B @ ?C)"
    using exec_put [OF l(1), of ?h 4 a v "?B @ ?C"] by simp
  have 2: "fold exec_store (put_stores 260 b) (v, ?h @ ?A' @ ?B @ ?C) = (v, ?h @ ?A' @ ?B' @ ?C)"
    using exec_put [OF l(2), of "?h @ ?A'" 260 b v "?C"] l by simp
  have 3: "fold exec_store (put_stores 516 c) (v, ?h @ ?A' @ ?B' @ ?C) = (v, ?h @ ?A' @ ?B' @ ?C')"
    using exec_put [OF l(3), of "?h @ ?A' @ ?B'" 516 c v "[]"] l by simp
  show ?thesis
    unfolding exec_append head 1 2 3 by (simp add: ai_cells_def)
qed

text \<open>Publishing a result is a sequence-lock write of the form theory Seqlock analyses under every
  interleaving: an odd sequence word, stores to cells of the snapshot only, and the next even word; and
  running these stores one by one leaves the sequence word and every cell as the operation computes them,
  including the old characters behind each terminator. So a reader that copies under the protocol
  gets a result that was published whole.\<close>

theorem ai_publish_is_store_program:
  assumes "ai_wf s"
  shows "(\<exists>body. ai_publish_stores (ai_seqlock s) t q f a b c = publish_stores (ai_seqlock s) body \<and>
      (\<forall>st \<in> set body. store_in_range (length (ai_cells s)) st)) \<and>
    fold exec_store (ai_publish_stores (ai_seqlock s) t q f a b c) (ai_seqlock s, ai_cells s) =
      (ai_seqlock (ai_publish t q f a b c s), ai_cells (ai_publish t q f a b c s))"
proof
  have len: "length (ai_cells s) = 772"
    using assms by (simp add: ai_wf_def ai_cells_def)
  let ?body = "store_cells 0 [t, ucast q, ucast f, 0] @ put_stores 4 a @ put_stores 260 b @ put_stores 516 c"
  have "\<forall>st \<in> set (store_cells 0 [t, ucast q, ucast f, 0 :: u64]). store_in_range 772 st"
    by (auto simp: store_cells_def)
  then have "\<forall>st \<in> set ?body. store_in_range 772 st"
    using put_stores_range [of 4 772 a] put_stores_range [of 260 772 b] put_stores_range [of 516 772 c] by auto
  then show "\<exists>body. ai_publish_stores (ai_seqlock s) t q f a b c = publish_stores (ai_seqlock s) body \<and>
      (\<forall>st \<in> set body. store_in_range (length (ai_cells s)) st)"
    unfolding ai_publish_stores_def len by blast
  show "fold exec_store (ai_publish_stores (ai_seqlock s) t q f a b c) (ai_seqlock s, ai_cells s) =
      (ai_seqlock (ai_publish t q f a b c s), ai_cells (ai_publish t q f a b c s))"
    unfolding ai_publish_stores_def exec_publish_stores ai_body_correct [OF assms]
    by (simp add: ai_publish_def ai_cells_def Let_def)
qed

text \<open>What a reader finds: the strings cut to 255 characters, as C strings.\<close>

theorem published_result_reads_back:
  assumes "ai_wf s"
  shows "cstr (ai_anomaly (ai_publish t q f a b c s)) = take 255 (cstr a)"
    "cstr (ai_fault (ai_publish t q f a b c s)) = take 255 (cstr b)"
    "cstr (ai_maint (ai_publish t q f a b c s)) = take 255 (cstr c)"
proof -
  have "ai_cut x = take 255 (cstr x)" for x
    by (simp add: ai_cut_def Let_def)
  then show "cstr (ai_anomaly (ai_publish t q f a b c s)) = take 255 (cstr a)"
    "cstr (ai_fault (ai_publish t q f a b c s)) = take 255 (cstr b)"
    "cstr (ai_maint (ai_publish t q f a b c s)) = take 255 (cstr c)"
    by (simp_all add: ai_publish_def Let_def cstr_put)
qed

text \<open>
  Opening the object again starts the sequence word at 0, so the first result after it always has the
  word 2, as the first result before it had: a reader whose copy spans the restart can accept a mixture.
\<close>

theorem restart_repeats_sequence:
  assumes "ai_result_writer_open True True True (Some r) = Some r'"
  shows "ai_seqlock (ai_publish t q f a b c (ar_snapshot r')) = 2"
  using assms by (auto simp: ai_result_writer_open_def ai_publish_def Let_def)

definition sample_snapshot :: ai_snapshot where
  "sample_snapshot = \<lparr>ai_seqlock = 4, ai_timestamp = 0, ai_producer_seq = 0, ai_flags = 0, ai_pad = 0,
     ai_anomaly = replicate 256 NUL, ai_fault = replicate 256 NUL, ai_maint = replicate 256 NUL\<rparr>"

theorem ai_publish_is_store_program_witness:
  "fold exec_store (ai_publish_stores 4 1 2 3 ''normal'' ''none'' ''none'') (4, ai_cells sample_snapshot) =
     (6, ai_cells (ai_publish 1 2 3 ''normal'' ''none'' ''none'' sample_snapshot))"
proof -
  have "ai_wf sample_snapshot" "ai_seqlock sample_snapshot = 4" "ai_seqlock (ai_publish 1 2 3 a b c sample_snapshot) = 6" for a b c
    by (simp_all add: ai_wf_def sample_snapshot_def ai_publish_def Let_def)
  then show ?thesis
    using ai_publish_is_store_program [of sample_snapshot 1 2 3 "''normal''" "''none''" "''none''"] by metis
qed

end
