(* ===== verification/WifiService.thy ===== *)
theory WifiService
  imports CText
begin

text \<open>
  src/src/wifi/wifi_service/main.c: the service that joins a real network if it has credentials and
  otherwise a phone's hotspot, from which it fetches them. The state machine runs in the main thread;
  every attempt starts a monitor thread, every stay on the hotspot a receiver thread. The threads
  share the state, the running flag and the received credentials. A step is one critical section, or
  one stretch of a thread between two of them. Commands, files, the LED's level and answers of
  programs and sockets are the trace, a map and arguments; time passes only by steps that say so.
\<close>

section \<open>Configuration files\<close>

abbreviation (input) DEFAULT_CONF :: string where "DEFAULT_CONF \<equiv> ''/etc/wifi/wpa_supplicant_default.conf''"
abbreviation (input) REAL_CONF :: string where "REAL_CONF \<equiv> ''/etc/wifi/wpa_supplicant_real.conf''"
abbreviation (input) DEFAULT_SSID :: string where "DEFAULT_SSID \<equiv> ''QNX_wifi''"
abbreviation (input) DEFAULT_PASS :: string where "DEFAULT_PASS \<equiv> ''123456789''"
abbreviation (input) WIFI_IFACE :: string where "WIFI_IFACE \<equiv> ''bcm0''"

definition conf_text :: "string \<Rightarrow> string \<Rightarrow> string" where
  "conf_text ssid pass =
     ''ctrl_interface=/var/run/wpa_supplicant'' @ [NEWLINE] @ ''ap_scan=1'' @ [NEWLINE] @ ''network={'' @ [NEWLINE] @
     ''    ssid='' @ [DQUOTE] @ ssid @ [DQUOTE, NEWLINE] @ ''    psk='' @ [DQUOTE] @ pass @ [DQUOTE, NEWLINE] @
     ''    key_mgmt=WPA-PSK'' @ [NEWLINE] @ ''}'' @ [NEWLINE]"

type_synonym wifi_files = "string \<rightharpoonup> string"

text \<open>\<open>writable\<close>: whether the file can be opened for writing.\<close>

definition write_default_conf :: "bool \<Rightarrow> wifi_files \<Rightarrow> wifi_files" where
  "write_default_conf writable fs = (if writable then fs(DEFAULT_CONF \<mapsto> conf_text DEFAULT_SSID DEFAULT_PASS) else fs)"

definition write_real_conf :: "bool \<Rightarrow> string \<Rightarrow> string \<Rightarrow> wifi_files \<Rightarrow> wifi_files" where
  "write_real_conf writable ssid pass fs = (if writable then fs(REAL_CONF \<mapsto> conf_text ssid pass) else fs)"

definition conf_exists :: "string \<Rightarrow> wifi_files \<Rightarrow> bool" where
  "conf_exists path fs \<longleftrightarrow> fs path \<noteq> None"

section \<open>Parsing\<close>

text \<open>\<open>strstr\<close> and \<open>strchr\<close> with their result: the rest of the string from the match on.\<close>

fun find_text :: "string \<Rightarrow> string \<Rightarrow> string option" where
  "find_text needle s =
     (if prefix needle s then Some s else case s of [] \<Rightarrow> None | _ # t \<Rightarrow> find_text needle t)"

declare find_text.simps [simp del]

definition find_char :: "char \<Rightarrow> string \<Rightarrow> string option" where
  "find_char c s = (if c \<in> set s then Some (dropWhile (\<lambda>d. d \<noteq> c) s) else None)"

definition phone_field :: "string \<Rightarrow> string \<Rightarrow> string" where
  "phone_field key buf =
     (case find_text ([DQUOTE] @ key @ [DQUOTE]) buf of
        None \<Rightarrow> []
      | Some p \<Rightarrow>
          (case find_char (CHR '':'') p of
             None \<Rightarrow> []
           | Some p \<Rightarrow>
               take 127 (takeWhile (\<lambda>c. c \<noteq> DQUOTE) (dropWhile (\<lambda>c. c = CHR '' '' \<or> c = TAB \<or> c = DQUOTE) (tl p)))))"

text \<open>The line received from the phone, as \<open>fgets\<close> returned it, without its newline.\<close>

definition credentials :: "string \<Rightarrow> string \<times> string" where
  "credentials line =
     (let buf = takeWhile (\<lambda>c. c \<noteq> NEWLINE) (cstr line)
      in (phone_field ''ssid'' buf, phone_field ''password'' buf))"

definition acknowledgement :: "string \<Rightarrow> string" where
  "acknowledgement ssid =
     bounded_copy 256 (''{'' @ dq ''status'' @ '':'' @ dq ''received'' @ '','' @ dq ''ssid'' @ '':'' @ dq ssid @ ''}'' @ [NEWLINE])"

text \<open>\<open>get_gateway_ip\<close>: the second word of the route's line, if it has only digits and dots.\<close>

definition get_gateway_ip :: "string option \<Rightarrow> nat \<Rightarrow> string option" where
  "get_gateway_ip line len =
     (case line of
        None \<Rightarrow> None
      | Some line \<Rightarrow>
          let p = dropWhile (\<lambda>c. c = CHR '' '') (cstr line);
              p = dropWhile (\<lambda>c. c \<noteq> CHR '' '') p;
              p = dropWhile (\<lambda>c. c = CHR '' '') p
          in if p = [] then None
             else let gw = takeWhile (\<lambda>c. c \<noteq> CHR '' '' \<and> c \<noteq> NEWLINE) p
             in if \<exists>c \<in> set gw. \<not> is_digit c \<and> c \<noteq> CHR ''.'' then None
                else Some (bounded_copy len gw))"

text \<open>The address with its last part replaced by 1; None when it has no dot, \<open>Some None\<close> when the replacement runs past the buffer.\<close>

definition guess_gateway_from_ip :: "string \<Rightarrow> nat \<Rightarrow> string option option" where
  "guess_gateway_from_ip my_ip gw_len =
     (let gw = bounded_copy gw_len my_ip
      in if CHR ''.'' \<notin> set gw then None
         else let front = rev (dropWhile (\<lambda>c. c \<noteq> CHR ''.'') (rev gw))
         in if length front + 2 > gw_len then Some None else Some (Some (front @ ''1'')))"

text \<open>The address in a line of \<open>ifconfig\<close>.\<close>

definition inet_address :: "string \<Rightarrow> string option" where
  "inet_address line =
     map_option (\<lambda>p. takeWhile (\<lambda>c. c \<noteq> CHR '' '') (dropWhile (\<lambda>c. c = CHR '' '') (drop 5 p))) (find_text ''inet '' (cstr line))"

text \<open>
  Up to six tries, each with the answers of the two programs (None when one gives none) and whether
  the service is still running: no address, \<open>Some None\<close> for an overrun buffer, or the address.
\<close>

fun find_phone_ip :: "(bool \<times> string option \<times> string option) list \<Rightarrow> string option option" where
  "find_phone_ip [] = None"
| "find_phone_ip ((running, route, inet) # tries) =
     (if \<not> running then None
      else case get_gateway_ip route 64 of
             Some gw \<Rightarrow> Some (Some gw)
           | None \<Rightarrow>
               (case (case inet of None \<Rightarrow> None | Some line \<Rightarrow> inet_address line) of
                  None \<Rightarrow> find_phone_ip tries
                | Some ip \<Rightarrow>
                    (case guess_gateway_from_ip ip 64 of
                       None \<Rightarrow> find_phone_ip tries
                     | Some r \<Rightarrow> Some r)))"

section \<open>Radio\<close>

definition wifi_stop_cmds :: "string list" where
  "wifi_stop_cmds = [''slay -f wpa_supplicant 2>/dev/null'', ''dhcpcd -k '' @ WIFI_IFACE @ '' 2>/dev/null'']"

text \<open>The polls for the interface being up, at most ten, change nothing.\<close>

definition wifi_start_cmds :: "string \<Rightarrow> string list" where
  "wifi_start_cmds conf_path =
     wifi_stop_cmds @
     [''ifconfig '' @ WIFI_IFACE @ '' down 2>/dev/null'', ''gpio-rp1 set 32 op pd dl 2>/dev/null'',
      ''gpio-rp1 set 32 op pd dh 2>/dev/null'', ''ifconfig '' @ WIFI_IFACE @ '' up 2>/dev/null'',
      ''mkdir -p /var/run/wpa_supplicant'',
      bounded_copy 256 (''wpa_supplicant -D qwdi -i '' @ WIFI_IFACE @ '' -c '' @ conf_path @ '' -B''),
      ''dhcpcd -b '' @ WIFI_IFACE]"

section \<open>State\<close>

datatype wifi_state = STATE_INIT | STATE_TRY_REAL | STATE_ON_REAL | STATE_TRY_DEFAULT | STATE_ON_DEFAULT | STATE_EXIT

text \<open>
  Where the main thread is: at the top of its loop, before or after its first look for a connection, between the wait and
  the look at its result, before the fallback after a failed attempt, on a network, looking for the
  phone, between taking the flag and writing the file, before going back to the real network, done.
\<close>

datatype main_at =
  Top | WaitReal bool | JudgeReal bool | FallToDefault | OnReal
| WaitDefault bool | JudgeDefault bool | FallToReal | FindPhone | RetryDefault | OnDefault | WriteCreds | GoReal | Exited

text \<open>A monitor between two polls, or between its poll and its reaction; a receiver likewise.\<close>

datatype monitor = Polling bool | Reacting bool bool wifi_state
datatype receiver = Connecting string | Receiving string | Finished

record wifi =
  wf_state :: wifi_state
  wf_running :: bool
  wf_creds :: bool
  wf_ssid :: string
  wf_pass :: string
  wf_files :: wifi_files
  wf_led :: bool
  wf_cmds :: "string list"
  wf_at :: main_at
  wf_monitors :: "monitor list"
  wf_receivers :: "receiver list"

definition set_state :: "wifi_state \<Rightarrow> wifi \<Rightarrow> wifi" where
  "set_state st w = w\<lparr>wf_state := st\<rparr>"

definition led_set :: "bool \<Rightarrow> bool \<Rightarrow> wifi \<Rightarrow> wifi" where
  "led_set available on w = (if available then w\<lparr>wf_led := on\<rparr> else w)"

definition wifi_stop :: "wifi \<Rightarrow> wifi" where
  "wifi_stop w = w\<lparr>wf_cmds := wf_cmds w @ wifi_stop_cmds\<rparr>"

definition wifi_start :: "string \<Rightarrow> wifi \<Rightarrow> wifi" where
  "wifi_start conf w = w\<lparr>wf_cmds := wf_cmds w @ wifi_start_cmds conf\<rparr>"

definition start_wpa_monitor :: "wifi \<Rightarrow> wifi" where
  "start_wpa_monitor w = w\<lparr>wf_monitors := wf_monitors w @ [Polling False]\<rparr>"

definition connected_state :: "wifi_state \<Rightarrow> bool" where
  "connected_state st \<longleftrightarrow> st = STATE_ON_REAL \<or> st = STATE_ON_DEFAULT"

text \<open>\<open>main\<close> up to its loop.\<close>

definition wifi_service_start :: "bool \<Rightarrow> wifi_files \<Rightarrow> wifi" where
  "wifi_service_start writable fs =
     \<lparr>wf_state = STATE_INIT, wf_running = True, wf_creds = False, wf_ssid = [], wf_pass = [],
      wf_files = write_default_conf writable fs, wf_led = False, wf_cmds = [], wf_at = Top,
      wf_monitors = [], wf_receivers = []\<rparr>"

section \<open>The main thread\<close>

text \<open>One turn of the loop, up to the first wait of the state's function; \<open>io\<close>: whether files can be written.\<close>

definition main_top :: "bool \<Rightarrow> wifi \<Rightarrow> wifi" where
  "main_top writable w =
     (if \<not> wf_running w then (wifi_stop w)\<lparr>wf_at := Exited\<rparr>
      else case wf_state w of
             STATE_INIT \<Rightarrow> set_state STATE_TRY_REAL w
           | STATE_TRY_REAL \<Rightarrow>
               (if \<not> conf_exists REAL_CONF (wf_files w) then set_state STATE_TRY_DEFAULT w
                else (start_wpa_monitor (wifi_start REAL_CONF w))\<lparr>wf_at := WaitReal False\<rparr>)
           | STATE_ON_REAL \<Rightarrow> w\<lparr>wf_at := OnReal\<rparr>
           | STATE_TRY_DEFAULT \<Rightarrow>
               (start_wpa_monitor (wifi_start DEFAULT_CONF (w\<lparr>wf_files := write_default_conf writable (wf_files w)\<rparr>)))
                 \<lparr>wf_at := WaitDefault False\<rparr>
           | STATE_ON_DEFAULT \<Rightarrow> w\<lparr>wf_at := FindPhone\<rparr>
           | STATE_EXIT \<Rightarrow> w\<lparr>wf_running := False\<rparr>)"

text \<open>
  \<open>wait_for_connect\<close>: the look before the first wait, or the one after a wait and whether that wait
  timed out. None while it waits on.
\<close>

definition wait_for_connect :: "bool \<Rightarrow> bool \<Rightarrow> wifi \<Rightarrow> bool option" where
  "wait_for_connect waited timed_out w =
     (if waited then if timed_out then Some False
                     else if connected_state (wf_state w) then Some True
                     else if \<not> wf_running w then Some False else None
      else if \<not> wf_running w then Some False
      else if connected_state (wf_state w) then Some True else None)"

text \<open>
  What happens next in the main thread: \<open>timed_out\<close> is for the waits, \<open>gpio\<close> and \<open>writable\<close> for the
  devices, \<open>tries\<close> for the phone's address. None when the thread has to wait, or when it overruns a buffer.
\<close>

record main_input =
  mi_timed_out :: bool
  mi_gpio :: bool
  mi_writable :: bool
  mi_tries :: "(bool \<times> string option \<times> string option) list"

definition main_step :: "main_input \<Rightarrow> wifi \<Rightarrow> wifi option" where
  "main_step io w =
     (case wf_at w of
        Top \<Rightarrow> Some (main_top (mi_writable io) w)
      | WaitReal waited \<Rightarrow>
          (case wait_for_connect waited (mi_timed_out io) w of
             Some ok \<Rightarrow> Some (w\<lparr>wf_at := JudgeReal ok\<rparr>)
           | None \<Rightarrow> if waited then None else Some (w\<lparr>wf_at := WaitReal True\<rparr>))
      | JudgeReal ok \<Rightarrow>
          (if ok \<and> wf_state w = STATE_ON_REAL then Some ((led_set (mi_gpio io) True w)\<lparr>wf_at := Top\<rparr>)
           else Some ((wifi_stop w)\<lparr>wf_at := FallToDefault\<rparr>))
      | FallToDefault \<Rightarrow> Some ((set_state STATE_TRY_DEFAULT w)\<lparr>wf_at := Top\<rparr>)
      | OnReal \<Rightarrow>
          (if wf_state w = STATE_ON_REAL \<and> wf_running w then None
           else Some ((wifi_stop (led_set (mi_gpio io) False w))\<lparr>wf_at := Top\<rparr>))
      | WaitDefault waited \<Rightarrow>
          (case wait_for_connect waited (mi_timed_out io) w of
             Some ok \<Rightarrow> Some (w\<lparr>wf_at := JudgeDefault ok\<rparr>)
           | None \<Rightarrow> if waited then None else Some (w\<lparr>wf_at := WaitDefault True\<rparr>))
      | JudgeDefault ok \<Rightarrow>
          (if ok \<and> wf_state w = STATE_ON_DEFAULT then Some (w\<lparr>wf_at := Top\<rparr>)
           else Some ((wifi_stop w)\<lparr>wf_at := FallToReal\<rparr>))
      | FallToReal \<Rightarrow> Some ((set_state STATE_TRY_REAL w)\<lparr>wf_at := Top\<rparr>)
      | FindPhone \<Rightarrow>
          (case find_phone_ip (take 6 (mi_tries io)) of
             None \<Rightarrow> Some (w\<lparr>wf_at := RetryDefault\<rparr>)
           | Some None \<Rightarrow> None
           | Some (Some ip) \<Rightarrow> Some (w\<lparr>wf_receivers := wf_receivers w @ [Connecting ip], wf_at := OnDefault\<rparr>))
      | RetryDefault \<Rightarrow> Some ((set_state STATE_TRY_DEFAULT w)\<lparr>wf_at := Top\<rparr>)
      | OnDefault \<Rightarrow>
          (if wf_state w = STATE_ON_DEFAULT \<and> wf_running w \<and> \<not> wf_creds w then None
           else if wf_creds w then Some (w\<lparr>wf_creds := False, wf_at := WriteCreds\<rparr>)
           else Some ((wifi_stop w)\<lparr>wf_at := Top\<rparr>))
      | WriteCreds \<Rightarrow>
          Some ((wifi_stop (w\<lparr>wf_files := write_real_conf (mi_writable io) (wf_ssid w) (wf_pass w) (wf_files w),
                             wf_ssid := [], wf_pass := []\<rparr>))\<lparr>wf_at := GoReal\<rparr>)
      | GoReal \<Rightarrow> Some ((set_state STATE_TRY_REAL w)\<lparr>wf_at := Top\<rparr>)
      | Exited \<Rightarrow> None)"

section \<open>The other threads\<close>

text \<open>A poll with its answer and the state read after it, then the reaction.\<close>

definition monitor_step :: "bool \<Rightarrow> nat \<Rightarrow> wifi \<Rightarrow> wifi option" where
  "monitor_step connected i w =
     (if i \<ge> length (wf_monitors w) then None
      else case wf_monitors w ! i of
             Polling was \<Rightarrow>
               (if \<not> wf_running w then None
                else Some (w\<lparr>wf_monitors := (wf_monitors w)[i := Reacting was connected (wf_state w)]\<rparr>))
           | Reacting was conn s \<Rightarrow>
               (let w = (if conn \<and> \<not> was
                         then if s = STATE_TRY_REAL then set_state STATE_ON_REAL w
                              else if s = STATE_TRY_DEFAULT then set_state STATE_ON_DEFAULT w else w
                         else if \<not> conn \<and> was
                         then if s = STATE_ON_REAL then set_state STATE_TRY_DEFAULT w
                              else if s = STATE_ON_DEFAULT then set_state STATE_TRY_REAL w else w
                         else w)
                in Some (w\<lparr>wf_monitors := (wf_monitors w)[i := Polling conn]\<rparr>)))"

text \<open>The check before an attempt, then its outcome: no line, or the line the phone sent.\<close>

definition receiver_step :: "string option \<Rightarrow> nat \<Rightarrow> wifi \<Rightarrow> wifi option" where
  "receiver_step line i w =
     (if i \<ge> length (wf_receivers w) then None
      else case wf_receivers w ! i of
             Connecting ip \<Rightarrow>
               (if wf_running w \<and> wf_state w = STATE_ON_DEFAULT
                then Some (w\<lparr>wf_receivers := (wf_receivers w)[i := Receiving ip]\<rparr>)
                else Some (w\<lparr>wf_receivers := (wf_receivers w)[i := Finished]\<rparr>))
           | Receiving ip \<Rightarrow>
               (case line of
                  None \<Rightarrow> Some (w\<lparr>wf_receivers := (wf_receivers w)[i := Connecting ip]\<rparr>)
                | Some line \<Rightarrow>
                    let (ssid, pass) = credentials line
                    in if ssid \<noteq> []
                       then Some (w\<lparr>wf_creds := True, wf_ssid := ssid, wf_pass := pass,
                                    wf_receivers := (wf_receivers w)[i := Finished]\<rparr>)
                       else Some (w\<lparr>wf_receivers := (wf_receivers w)[i := Connecting ip]\<rparr>))
           | Finished \<Rightarrow> None)"

definition sighandler :: "wifi \<Rightarrow> wifi" where
  "sighandler w = w\<lparr>wf_running := False\<rparr>"

datatype wifi_step = Main main_input | Monitor bool nat | Receiver "string option" nat | Signal

definition wifi_do :: "wifi_step \<Rightarrow> wifi \<Rightarrow> wifi option" where
  "wifi_do x w =
     (case x of
        Main io \<Rightarrow> main_step io w
      | Monitor connected i \<Rightarrow> monitor_step connected i w
      | Receiver line i \<Rightarrow> receiver_step line i w
      | Signal \<Rightarrow> Some (sighandler w))"

end
