(* ===== verification/WifiRuns.thy ===== *)
theory WifiRuns
  imports WifiService
begin

text \<open>
  What the Wi-Fi service does: credentials a phone sends reach the configuration of the real network;
  monitors are never ended; and two races of its threads.
\<close>

section \<open>Reading the credentials\<close>

lemma find_text_step: "\<not> prefix needle (c # s) \<Longrightarrow> find_text needle (c # s) = find_text needle s"
  by (simp add: find_text.simps [of needle "c # s"])

lemma find_text_here: "find_text needle (needle @ s) = Some (needle @ s)"
  by (subst find_text.simps) simp

lemma find_text_skip:
  "\<forall>c \<in> set front. c \<noteq> d \<Longrightarrow> find_text (d # needle) (front @ s) = find_text (d # needle) s"
  by (induction front) (auto simp: find_text_step)

lemma takeWhile_stop: "d \<notin> set x \<Longrightarrow> takeWhile (\<lambda>c. c \<noteq> d) (x @ d # y) = x"
  by (induction x) auto

lemma prefix_quoted:
  assumes "DQUOTE \<notin> set k" "DQUOTE \<notin> set s" "prefix (k @ [DQUOTE]) (s @ DQUOTE # r)"
  shows "s = k"
proof -
  obtain t where t: "s @ DQUOTE # r = k @ DQUOTE # t"
    using assms(3) by (auto simp: prefix_def)
  then have "takeWhile (\<lambda>c. c \<noteq> DQUOTE) (s @ DQUOTE # r) = takeWhile (\<lambda>c. c \<noteq> DQUOTE) (k @ DQUOTE # t)"
    by simp
  then show ?thesis
    unfolding takeWhile_stop [OF assms(1)] takeWhile_stop [OF assms(2)] .
qed

definition blank :: "string \<Rightarrow> bool" where
  "blank s \<longleftrightarrow> (\<forall>c \<in> set s. c = CHR '' '' \<or> c = TAB)"

text \<open>What a value may hold: no quote, newline or NUL, no blank at its start, 1 to 127 characters.\<close>

definition plain_value :: "string \<Rightarrow> bool" where
  "plain_value s \<longleftrightarrow> s \<noteq> [] \<and> length s \<le> 127 \<and> DQUOTE \<notin> set s \<and> NEWLINE \<notin> set s \<and> NUL \<notin> set s \<and>
     hd s \<noteq> CHR '' '' \<and> hd s \<noteq> TAB"

lemma blank_chars: "blank w \<Longrightarrow> c \<noteq> CHR '' '' \<Longrightarrow> c \<noteq> TAB \<Longrightarrow> c \<notin> set w"
  by (auto simp: blank_def)

lemma read_value:
  assumes "blank w" "plain_value s"
  shows "take 127 (takeWhile (\<lambda>c. c \<noteq> DQUOTE)
    (dropWhile (\<lambda>c. c = CHR '' '' \<or> c = TAB \<or> c = DQUOTE) (w @ DQUOTE # s @ DQUOTE # r))) = s"
proof -
  obtain c t where s: "s = c # t" "c \<noteq> CHR '' ''" "c \<noteq> TAB" "c \<noteq> DQUOTE"
    using assms(2) by (cases s) (auto simp: plain_value_def)
  have "dropWhile (\<lambda>c. c = CHR '' '' \<or> c = TAB \<or> c = DQUOTE) (w @ DQUOTE # s @ DQUOTE # r) = s @ DQUOTE # r"
    using assms(1) s(2-4) unfolding s(1) by (subst dropWhile_append2) (auto simp: blank_def)
  moreover have "takeWhile (\<lambda>c. c \<noteq> DQUOTE) (s @ DQUOTE # r) = s"
    using assms(2) by (intro takeWhile_stop) (simp add: plain_value_def)
  ultimately show ?thesis
    using assms(2) by (simp add: plain_value_def)
qed

lemma find_colon: "CHR '':'' \<notin> set k \<Longrightarrow> find_char (CHR '':'') (k @ CHR '':'' # r) = Some (CHR '':'' # r)"
  by (subgoal_tac "dropWhile (\<lambda>d. d \<noteq> CHR '':'') (k @ CHR '':'' # r) = CHR '':'' # r")
    (auto simp: find_char_def intro: dropWhile_append2 [THEN trans])

text \<open>The line a phone sends; the blanks are those a JSON writer may put in.\<close>

definition phone_line :: "string \<Rightarrow> string \<Rightarrow> string \<Rightarrow> string \<Rightarrow> string \<Rightarrow> string" where
  "phone_line w1 w2 w3 ssid pass =
     ''{'' @ dq ''ssid'' @ '':'' @ w1 @ dq ssid @ '','' @ w2 @ dq ''password'' @ '':'' @ w3 @ dq pass @ ''}'' @ [NEWLINE]"

lemma credentials_phone_line:
  assumes "plain_value ssid" "plain_value pass" "blank w1" "blank w2" "blank w3" "ssid \<noteq> ''password''"
  shows "credentials (phone_line w1 w2 w3 ssid pass) = (ssid, pass)"
proof -
  define rest where "rest = '':'' @ w3 @ dq pass @ ''}''"
  define tail where "tail = '','' @ w2 @ dq ''password'' @ rest"
  define buf where "buf = ''{'' @ dq ''ssid'' @ '':'' @ w1 @ dq ssid @ tail"
  note blanks = blank_chars [OF assms(3)] blank_chars [OF assms(4)] blank_chars [OF assms(5)]
  have free: "NUL \<notin> set buf" "NEWLINE \<notin> set buf"
    using assms(1,2) blanks by (simp_all add: buf_def tail_def rest_def dq_def plain_value_def)
  have line: "phone_line w1 w2 w3 ssid pass = buf @ [NEWLINE]"
    by (simp add: phone_line_def buf_def tail_def rest_def)
  have "cstr (buf @ [NEWLINE]) = buf @ [NEWLINE]"
    using free(1) by (intro cstr_id) simp
  then have cut: "takeWhile (\<lambda>c. c \<noteq> NEWLINE) (cstr (phone_line w1 w2 w3 ssid pass)) = buf"
    unfolding line using takeWhile_stop [OF free(2), of "[]"] by simp
  have "find_text (dq ''ssid'') buf = Some (dq ''ssid'' @ '':'' @ w1 @ dq ssid @ tail)"
    using find_text_here [of "dq ''ssid''" "'':'' @ w1 @ dq ssid @ tail"] by (simp add: buf_def dq_def find_text_step)
  moreover have "find_char (CHR '':'') (dq ''ssid'' @ '':'' @ w1 @ dq ssid @ tail) = Some ('':'' @ w1 @ dq ssid @ tail)"
    using find_colon [of "dq ''ssid''" "w1 @ dq ssid @ tail"] by (simp add: dq_def)
  ultimately have 1: "phone_field ''ssid'' buf = ssid"
    using read_value [OF assms(3,1), of tail] by (simp add: phone_field_def dq_def)
  have q: "DQUOTE \<notin> set w1" "DQUOTE \<notin> set w2" "DQUOTE \<notin> set ssid"
    using assms(1) blanks by (simp_all add: plain_value_def)
  let ?n = "DQUOTE # ''password'' @ [DQUOTE]"
  note skip = find_text_skip [where d = DQUOTE and needle = "''password'' @ [DQUOTE]"]
  have "find_text ?n buf = find_text ?n (dq ''ssid'' @ '':'' @ w1 @ dq ssid @ tail)"
    by (simp add: buf_def find_text_step)
  also have "\<dots> = find_text ?n ([DQUOTE] @ '':'' @ w1 @ dq ssid @ tail)"
    by (simp add: dq_def find_text_step)
  also have "\<dots> = find_text ?n (w1 @ dq ssid @ tail)"
    by (simp add: find_text_step)
  also have "\<dots> = find_text ?n (dq ssid @ tail)"
    using q(1) by (intro skip) metis
  also have "\<dots> = find_text ?n (ssid @ DQUOTE # tail)"
  proof -
    have "\<not> prefix ?n (DQUOTE # ssid @ DQUOTE # tail)"
      using prefix_quoted [of "''password''" ssid tail] q(3) assms(6) by auto
    then show ?thesis
      unfolding dq_def by (simp add: find_text_step)
  qed
  also have "\<dots> = find_text ?n (DQUOTE # tail)"
    using q(3) by (intro skip) metis
  also have "\<dots> = find_text ?n (w2 @ dq ''password'' @ rest)"
    by (simp add: tail_def find_text_step)
  also have "\<dots> = find_text ?n (dq ''password'' @ rest)"
    using q(2) by (intro skip) metis
  also have "\<dots> = Some (dq ''password'' @ rest)"
    using find_text_here [of ?n rest] by (simp add: dq_def)
  finally have "find_text ?n buf = Some (dq ''password'' @ rest)" .
  moreover have "find_char (CHR '':'') (dq ''password'' @ rest) = Some rest"
    using find_colon [of "dq ''password''" "w3 @ dq pass @ ''}''"] by (simp add: dq_def rest_def)
  ultimately have 2: "phone_field ''password'' buf = pass"
    using read_value [OF assms(5,2), of "''}''"] by (simp add: phone_field_def dq_def rest_def)
  show ?thesis
    by (simp add: credentials_def cut 1 2)
qed

text \<open>An empty password is not read as empty: the quotes are skipped together.\<close>

theorem empty_password_misread:
  "credentials (phone_line [] [] [] ''cafe'' []) = (''cafe'', ''}'')"
  by code_simp

section \<open>Credentials are installed\<close>

definition quiet_input :: main_input where
  "quiet_input = \<lparr>mi_timed_out = False, mi_gpio = True, mi_writable = True, mi_tries = []\<rparr>"

text \<open>The service on the hotspot, with a receiver on its connection to the phone.\<close>

definition awaiting_credentials :: "nat \<Rightarrow> wifi \<Rightarrow> bool" where
  "awaiting_credentials i w \<longleftrightarrow>
     wf_running w \<and> wf_state w = STATE_ON_DEFAULT \<and> wf_at w = OnDefault \<and> \<not> wf_creds w \<and>
     i < length (wf_receivers w) \<and> (\<exists>ip. wf_receivers w ! i = Receiving ip)"

lemma receiver_delivers:
  assumes "awaiting_credentials i w" "credentials line = (ssid, pass)" "ssid \<noteq> []"
  shows "receiver_step (Some line) i w = Some (w\<lparr>wf_creds := True, wf_ssid := ssid, wf_pass := pass,
    wf_receivers := (wf_receivers w)[i := Finished]\<rparr>)"
  using assms by (auto simp: awaiting_credentials_def receiver_step_def)


definition on_hotspot :: wifi where
  "on_hotspot = (wifi_service_start True Map.empty)
     \<lparr>wf_state := STATE_ON_DEFAULT, wf_at := OnDefault, wf_receivers := [Receiving ''192.168.43.1'']\<rparr>"


section \<open>Monitors are never ended\<close>

definition attempts :: "wifi \<Rightarrow> nat" where
  "attempts w = length (filter (prefix ''wpa_supplicant '') (wf_cmds w))"

text \<open>
  A monitor for every start of wpa_supplicant, the initial state only before the first turn, never the
  state of leaving, and no file but the two configurations touched.
\<close>

fun monitor_read_ok :: "monitor \<Rightarrow> bool" where
  "monitor_read_ok (Polling was) = True"
| "monitor_read_ok (Reacting was conn s) = (s \<noteq> STATE_INIT \<and> s \<noteq> STATE_EXIT)"

definition wifi_inv :: "wifi_files \<Rightarrow> wifi \<Rightarrow> bool" where
  "wifi_inv fs w \<longleftrightarrow>
     length (wf_monitors w) = attempts w \<and>
     wf_state w \<noteq> STATE_EXIT \<and>
     (wf_state w = STATE_INIT \<longrightarrow> wf_at w \<in> {Top, Exited} \<and> wf_monitors w = []) \<and>
     (\<forall>m \<in> set (wf_monitors w). monitor_read_ok m) \<and>
     (\<forall>p. p \<noteq> DEFAULT_CONF \<longrightarrow> p \<noteq> REAL_CONF \<longrightarrow> wf_files w p = fs p) \<and>
     (wf_files w DEFAULT_CONF = fs DEFAULT_CONF \<or> wf_files w DEFAULT_CONF = Some (conf_text DEFAULT_SSID DEFAULT_PASS))"

lemma attempts_cmds [simp]:
  "filter (prefix ''wpa_supplicant '') wifi_stop_cmds = []"
  "length (filter (prefix ''wpa_supplicant '') (wifi_start_cmds REAL_CONF)) = 1"
  "length (filter (prefix ''wpa_supplicant '') (wifi_start_cmds DEFAULT_CONF)) = 1"
  by (code_simp)+

named_theorems wifi_inv_intros

lemma wifi_inv_at [wifi_inv_intros]:
  "wifi_inv fs w \<Longrightarrow> wf_state w \<noteq> STATE_INIT \<or> a \<in> {Top, Exited} \<Longrightarrow> wifi_inv fs (w\<lparr>wf_at := a\<rparr>)"
  by (auto simp: wifi_inv_def attempts_def)

lemma wifi_inv_fields [wifi_inv_intros]:
  "wifi_inv fs w \<Longrightarrow> wifi_inv fs (w\<lparr>wf_creds := c\<rparr>)"
  "wifi_inv fs w \<Longrightarrow> wifi_inv fs (w\<lparr>wf_ssid := x\<rparr>)"
  "wifi_inv fs w \<Longrightarrow> wifi_inv fs (w\<lparr>wf_pass := x\<rparr>)"
  "wifi_inv fs w \<Longrightarrow> wifi_inv fs (w\<lparr>wf_running := r\<rparr>)"
  "wifi_inv fs w \<Longrightarrow> wifi_inv fs (w\<lparr>wf_receivers := rs\<rparr>)"
  "wifi_inv fs w \<Longrightarrow> wifi_inv fs (led_set gpio on w)"
  "wifi_inv fs w \<Longrightarrow> wifi_inv fs (wifi_stop w)"
  "wifi_inv fs w \<Longrightarrow> wifi_inv fs (w\<lparr>wf_files := write_real_conf b ssid pass (wf_files w)\<rparr>)"
  "wifi_inv fs w \<Longrightarrow> wifi_inv fs (w\<lparr>wf_files := write_default_conf b (wf_files w)\<rparr>)"
  by (simp_all add: wifi_inv_def attempts_def led_set_def wifi_stop_def write_real_conf_def write_default_conf_def)

lemma wifi_inv_set_state [wifi_inv_intros]:
  "wifi_inv fs w \<Longrightarrow> st \<noteq> STATE_INIT \<Longrightarrow> st \<noteq> STATE_EXIT \<Longrightarrow> wifi_inv fs (set_state st w)"
  by (simp add: wifi_inv_def attempts_def set_state_def)

lemma wifi_inv_attempt [wifi_inv_intros]:
  "wifi_inv fs w \<Longrightarrow> wf_state w \<noteq> STATE_INIT \<Longrightarrow> c = REAL_CONF \<or> c = DEFAULT_CONF \<Longrightarrow>
   wifi_inv fs (start_wpa_monitor (wifi_start c w))"
  by (elim disjE) (simp_all add: wifi_inv_def attempts_def start_wpa_monitor_def wifi_start_def)

lemma wifi_keeps_state [simp]:
  "wf_state (led_set gpio on w) = wf_state w" "wf_state (wifi_stop w) = wf_state w"
  "wf_state (wifi_start c w) = wf_state w" "wf_state (start_wpa_monitor w) = wf_state w"
  "wf_state (set_state st w) = st"
  by (simp_all add: led_set_def wifi_stop_def wifi_start_def start_wpa_monitor_def set_state_def)

lemma wifi_inv_state: "wifi_inv fs w \<Longrightarrow> wf_at w \<noteq> Top \<Longrightarrow> wf_at w \<noteq> Exited \<Longrightarrow> wf_state w \<noteq> STATE_INIT"
  by (auto simp: wifi_inv_def)

lemma main_top_inv: "wifi_inv fs w \<Longrightarrow> wifi_inv fs (main_top b w)"
  by (cases "wf_state w") (auto simp: main_top_def intro!: wifi_inv_intros)

lemma wifi_main_inv:
  assumes "wifi_inv fs w" "main_step io w = Some t"
  shows "wifi_inv fs t"
proof (cases "wf_at w")
  case (WaitReal waited)
  then show ?thesis
    using assms wifi_inv_state [OF assms(1)]
    by (auto simp: main_step_def split: option.splits if_splits intro!: wifi_inv_intros)
next
  case (WaitDefault waited)
  then show ?thesis
    using assms wifi_inv_state [OF assms(1)]
    by (auto simp: main_step_def split: option.splits if_splits intro!: wifi_inv_intros)
next
  case FindPhone
  then show ?thesis
    using assms wifi_inv_state [OF assms(1)]
    by (auto simp: main_step_def split: option.splits intro!: wifi_inv_intros)
next
  case WriteCreds
  have "wf_state w \<noteq> STATE_INIT"
    using wifi_inv_state [OF assms(1)] WriteCreds by simp
  with WriteCreds show ?thesis
    using assms
    by (auto simp: main_step_def intro!: wifi_inv_intros)
qed (use assms wifi_inv_state [OF assms(1)] in
  \<open>auto simp: main_step_def main_top_inv split: if_splits intro!: wifi_inv_intros\<close>)

lemma set_update_all: "\<forall>m \<in> set ms. P m \<Longrightarrow> P x \<Longrightarrow> \<forall>m \<in> set (ms[i := x]). P m"
  using set_update_subset_insert [of ms i x] by blast

lemma wifi_inv_monitor [wifi_inv_intros]:
  assumes "wifi_inv fs w" "wf_state w \<noteq> STATE_INIT" "monitor_read_ok m"
  shows "wifi_inv fs (w\<lparr>wf_monitors := (wf_monitors w)[i := m]\<rparr>)"
  using assms set_update_all [of "wf_monitors w" monitor_read_ok m i] by (simp add: wifi_inv_def attempts_def)

lemma monitor_step_inv:
  assumes "wifi_inv fs w" "monitor_step connected i w = Some t"
  shows "wifi_inv fs t"
proof -
  have i: "i < length (wf_monitors w)"
    using assms(2) by (auto simp: monitor_step_def split: if_splits)
  then have nz: "wf_state w \<noteq> STATE_INIT" "wf_state w \<noteq> STATE_EXIT"
    using assms(1) unfolding wifi_inv_def by force+
  show ?thesis
  proof (cases "wf_monitors w ! i")
    case (Polling was)
    then have "t = w\<lparr>wf_monitors := (wf_monitors w)[i := Reacting was connected (wf_state w)]\<rparr>"
      using assms(2) i by (simp add: monitor_step_def split: if_splits)
    with assms(1) nz show ?thesis
      by (simp add: wifi_inv_monitor)
  next
    case (Reacting was conn s)
    then obtain st where "t = w\<lparr>wf_monitors := (wf_monitors w)[i := Polling conn]\<rparr> \<or>
        t = (set_state st w)\<lparr>wf_monitors := (wf_monitors (set_state st w))[i := Polling conn]\<rparr>"
      "st \<noteq> STATE_INIT" "st \<noteq> STATE_EXIT"
      using assms(2) i by (auto simp: monitor_step_def Let_def split: if_splits)
    with assms(1) nz show ?thesis
      by (elim disjE) (simp_all only:, auto intro!: wifi_inv_intros)
  qed
qed

lemma receiver_step_inv: "wifi_inv fs w \<Longrightarrow> receiver_step line i w = Some t \<Longrightarrow> wifi_inv fs t"
  by (cases "wf_receivers w ! i")
    (auto simp: receiver_step_def wifi_inv_fields split: if_splits option.splits prod.splits)

interpretation wf: step_invariant wifi_do "wifi_inv fs"
proof
  fix w x t
  assume w: "wifi_inv fs w" and t: "wifi_do x w = Some t"
  show "wifi_inv fs t"
  proof (cases x)
    case (Main io)
    with t wifi_main_inv [OF w] show ?thesis by (simp add: wifi_do_def)
  next
    case (Monitor connected i)
    with t monitor_step_inv [OF w] show ?thesis by (simp add: wifi_do_def)
  next
    case (Receiver line i)
    with t receiver_step_inv [OF w] show ?thesis by (simp add: wifi_do_def)
  next
    case Signal
    with w t show ?thesis by (auto simp: wifi_do_def sighandler_def wifi_inv_fields)
  qed
qed

text \<open>
  No monitor is ever ended or reused: in every run of the service, whatever the threads'
  interleaving, there are as many monitors as there were starts of wpa_supplicant, all of them
  polling. The service never enters its state of leaving, and touches no file but its two
  configurations, of which the hotspot's always holds its fixed text or what was there before.
\<close>

theorem monitor_per_attempt:
  assumes "run_steps wifi_do xs (wifi_service_start writable fs) = Some w"
  shows "length (wf_monitors w) = attempts w \<and> wf_state w \<noteq> STATE_EXIT \<and>
         (\<forall>p. p \<noteq> DEFAULT_CONF \<longrightarrow> p \<noteq> REAL_CONF \<longrightarrow> wf_files w p = fs p) \<and>
         (wf_files w DEFAULT_CONF = fs DEFAULT_CONF \<or>
          wf_files w DEFAULT_CONF = Some (conf_text DEFAULT_SSID DEFAULT_PASS))"
proof -
  have "wifi_inv fs (wifi_service_start writable fs)"
    by (simp add: wifi_inv_def wifi_service_start_def attempts_def write_default_conf_def)
  from wf.run_inv [OF this assms] show ?thesis
    by (simp add: wifi_inv_def)
qed

section \<open>Two races\<close>

definition phone_found :: main_input where
  "phone_found = quiet_input\<lparr>mi_tries := [(True, Some ''default 192.168.43.1 UG'', None)]\<rparr>"

definition timeout :: main_input where
  "timeout = quiet_input\<lparr>mi_timed_out := True\<rparr>"

text \<open>A monitor's poll and its reaction; the main thread from a start to the wait for credentials.\<close>

definition polls :: "bool \<Rightarrow> nat \<Rightarrow> wifi_step list" where
  "polls connected i = [Monitor connected i, Monitor connected i]"

definition reach_hotspot :: "nat \<Rightarrow> wifi_step list" where
  "reach_hotspot i = [Main quiet_input] @ polls True i @ [Main quiet_input, Main quiet_input, Main quiet_input, Main phone_found]"

definition losing_real :: "wifi_step list" where
  "losing_real = [Main quiet_input, Main quiet_input] @ polls True 0 @ [Main quiet_input, Main quiet_input] @ polls False 0 @ reach_hotspot 1"

theorem monitor_per_attempt_witness:
  "\<exists>w. run_steps wifi_do losing_real (wifi_service_start True [REAL_CONF \<mapsto> conf_text [] []]) = Some w \<and> length (wf_monitors w) = attempts w"
proof -
  have "\<not> Option.is_none (run_steps wifi_do losing_real (wifi_service_start True [REAL_CONF \<mapsto> conf_text [] []]))"
    by code_simp
  then obtain w where "run_steps wifi_do losing_real (wifi_service_start True [REAL_CONF \<mapsto> conf_text [] []]) = Some w"
    by (auto simp: Option.is_none_def)
  then show ?thesis
    using monitor_per_attempt by blast
qed

text \<open>
  The LED can stay on while the real network is lost: when the connection drops between the
  check that turns the LED on and the main thread's next turn, the turn goes straight to the hotspot,
  and only the function of the connected state turns the LED off.
\<close>

theorem led_left_on:
  "map_option (\<lambda>w. (wf_led w, wf_state w, wf_at w, length (wf_monitors w)))
     (run_steps wifi_do losing_real (wifi_service_start True [REAL_CONF \<mapsto> conf_text ''cafe'' ''latte12'']))
   = Some (True, STATE_ON_DEFAULT, OnDefault, 2)"
  by code_simp

definition two_phones :: "wifi_step list" where
  "two_phones = [Main quiet_input, Main quiet_input] @ reach_hotspot 0 @ [Receiver None 0] @ polls False 0 @
     [Main quiet_input, Main quiet_input] @ reach_hotspot 1 @ [Receiver None 1] @
     [Receiver (Some (phone_line [] [] [] ''home'' ''secret99'')) 1, Main quiet_input,
      Receiver (Some (phone_line [] [] [] ''cafe'' ''latte12'')) 0, Main quiet_input]"

definition next_hotspot :: "wifi_step list" where
  "next_hotspot = [Main quiet_input, Main quiet_input, Main quiet_input, Main timeout, Main quiet_input, Main quiet_input] @
     reach_hotspot 3 @ [Main quiet_input, Main quiet_input]"

text \<open>
  A receiver that outlived its stay on the hotspot delivers between the main thread's taking of the
  flag and its clearing of the credentials: they are cleared and the flag stays set, so the next stay
  on the hotspot writes a configuration with an empty name and password over the good one.
\<close>

theorem late_receiver_erases:
  "map_option (\<lambda>w. (wf_files w REAL_CONF, wf_creds w, wf_ssid w)) (run_steps wifi_do two_phones (wifi_service_start True Map.empty))
     = Some (Some (conf_text ''cafe'' ''latte12''), True, [])"
  "map_option (\<lambda>w. wf_files w REAL_CONF) (run_steps wifi_do (two_phones @ next_hotspot) (wifi_service_start True Map.empty))
     = Some (Some (conf_text [] []))"
  by code_simp+

end
