(* ===== verification/JsonParse.thy ===== *)
theory JsonParse
  imports MotorConfig
begin

text \<open>
  The parser of src/src/giga_spi_8adc/cJSON.c, which reads the configuration file of theory
  MotorConfig. The content is the text with its terminating NUL, a position is an offset into it.
  Every read and every write is checked against its buffer; the outcome \<open>Overrun\<close> stands for one
  outside, \<open>Unfinished\<close> for a loop that used up its bound. Memory comes from \<open>alloc\<close>, asked for each
  allocation of a run by the offset it is made at. The nesting depth counts down from its limit;
  strings are C strings, so they end at their first NUL.
\<close>

unbundle bit_operations_syntax

section \<open>The parse buffer\<close>

datatype 'a parse = Parsed 'a nat | Refused nat | Overrun | Unfinished

datatype alloc_site = RootItem | ItemAt nat | NumberAt nat | StringAt nat

abbreviation (input) CJSON_NESTING_LIMIT :: nat where "CJSON_NESTING_LIMIT \<equiv> 1000"

definition can_access :: "string \<Rightarrow> nat \<Rightarrow> bool" where
  "can_access content off \<longleftrightarrow> off < length content"

definition buffer_at :: "string \<Rightarrow> nat \<Rightarrow> char option" where
  "buffer_at content off = (if can_access content off then Some (content ! off) else None)"

definition starts_with :: "string \<Rightarrow> nat \<Rightarrow> string \<Rightarrow> bool" where
  "starts_with content off word \<longleftrightarrow> off + length word \<le> length content \<and> take (length word) (drop off content) = word"

definition buffer_skip_whitespace :: "string \<Rightarrow> nat \<Rightarrow> nat" where
  "buffer_skip_whitespace content off =
     (if \<not> can_access content off then off
      else let off = off + length (takeWhile (\<lambda>c. (of_char c :: nat) \<le> 32) (drop off content))
           in if off = length content then off - 1 else off)"

definition skip_utf8_bom :: "string \<Rightarrow> nat" where
  "skip_utf8_bom content =
     (if can_access content 4 \<and> starts_with content 0 [CHR 0xEF, CHR 0xBB, CHR 0xBF] then 3 else 0)"

section \<open>Numbers\<close>

text \<open>Rounding to the nearest double, ties to even: 53 bits, subnormals below \<open>2 ^ -1022\<close>, infinities from \<open>2 ^ 1024\<close>.\<close>

definition round_double :: "rat \<Rightarrow> double" where
  "round_double x =
     (case find (\<lambda>e. \<bar>x\<bar> < pow2 (e + 1)) [-1022..1023] of
        None \<Rightarrow> Infinite (x < 0)
      | Some e \<Rightarrow>
          let q = pow2 (e - 52); r = of_int (round_half_even (x / q)) * q
          in if \<bar>r\<bar> < pow2 1024 then Finite r else Infinite (x < 0))"

definition pow10 :: "int \<Rightarrow> rat" where
  "pow10 e = (if e \<ge> 0 then 10 ^ nat e else 1 / 10 ^ nat (- e))"

text \<open>A sign and what follows it.\<close>

fun read_sign :: "string \<Rightarrow> bool \<times> string" where
  "read_sign (c # s) = (if c = CHR ''-'' then (True, s) else if c = CHR ''+'' then (False, s) else (False, c # s))"
| "read_sign [] = (False, [])"

text \<open>An exponent, if one is complete, and the length it takes.\<close>

definition read_exponent :: "string \<Rightarrow> int \<times> nat" where
  "read_exponent s =
     (case s of
        [] \<Rightarrow> (0, 0)
      | c # t \<Rightarrow>
          if c \<noteq> CHR ''e'' \<and> c \<noteq> CHR ''E'' then (0, 0)
          else let (neg, u) = read_sign t; ds = takeWhile is_digit u
               in if ds = [] then (0, 0)
                  else (if neg then - int (digits_value ds) else int (digits_value ds),
                        1 + (length t - length u) + length ds))"

text \<open>\<open>strtod\<close> on the characters of a number: the value and how many characters it took, 0 when there is none.\<close>

definition strtod :: "string \<Rightarrow> double \<times> nat" where
  "strtod s =
     (let (neg, t) = read_sign s;
          ip = takeWhile is_digit t;
          rest = dropWhile is_digit t;
          (fp, point) = (case rest of c # u \<Rightarrow> if c = CHR ''.'' then (takeWhile is_digit u, 1) else ([], 0) | [] \<Rightarrow> ([], 0))
      in if ip = [] \<and> fp = [] then (Finite 0, 0)
         else let used = (length s - length t) + length ip + point + length fp;
                  (ex, exlen) = read_exponent (drop used s);
                  x = of_nat (digits_value (ip @ fp)) * pow10 (ex - int (length fp))
              in (round_double (if neg then - x else x), used + exlen))"

definition number_char :: "char \<Rightarrow> bool" where
  "number_char c \<longleftrightarrow> is_digit c \<or> c \<in> {CHR ''+'', CHR ''-'', CHR ''e'', CHR ''E'', CHR ''.''}"

definition parse_number :: "(alloc_site \<Rightarrow> bool) \<Rightarrow> string \<Rightarrow> nat \<Rightarrow> json parse" where
  "parse_number alloc content off =
     (if \<not> alloc (NumberAt off) then Refused off
      else let (number, len) = strtod (takeWhile number_char (drop off content))
           in if len = 0 then Refused off else Parsed (JNumber number) (off + len))"

section \<open>Strings\<close>

definition hex_value :: "char \<Rightarrow> u32 option" where
  "hex_value c =
     (let n = (of_char c :: nat)
      in if 48 \<le> n \<and> n \<le> 57 then Some (of_nat (n - 48))
         else if 65 \<le> n \<and> n \<le> 70 then Some (of_nat (10 + n - 65))
         else if 97 \<le> n \<and> n \<le> 102 then Some (of_nat (10 + n - 97))
         else None)"

text \<open>The digits still to read; an invalid one makes the result 0.\<close>

fun hex_loop :: "u32 \<Rightarrow> string \<Rightarrow> u32" where
  "hex_loop h [] = h"
| "hex_loop h (c # cs) =
     (case hex_value c of
        None \<Rightarrow> 0
      | Some d \<Rightarrow> let h = h + d in hex_loop (if cs \<noteq> [] then push_bit 4 h else h) cs)"

definition parse_hex4 :: "string \<Rightarrow> nat \<Rightarrow> u32" where
  "parse_hex4 content off = hex_loop 0 (take 4 (drop off content))"

text \<open>The bytes from the last to the first.\<close>

fun utf8_loop :: "nat \<Rightarrow> u8 \<Rightarrow> u64 \<Rightarrow> u8 list" where
  "utf8_loop 0 mark codepoint = [ucast ((codepoint OR ucast mark) AND 0xFF)]"
| "utf8_loop (Suc n) mark codepoint =
     utf8_loop n mark (drop_bit 6 codepoint) @ [ucast ((codepoint OR 0x80) AND 0xBF)]"

definition encode_utf8 :: "u64 \<Rightarrow> u8 list option" where
  "encode_utf8 codepoint =
     (if codepoint < 0x80 then Some [ucast (codepoint AND 0x7F)]
      else if codepoint < 0x800 then Some (utf8_loop 1 0xC0 codepoint)
      else if codepoint < 0x10000 then Some (utf8_loop 2 0xE0 codepoint)
      else if codepoint \<le> 0x10FFFF then Some (utf8_loop 3 0xF0 codepoint)
      else None)"

text \<open>The length of the sequence and its bytes, None for the code's 0. \<open>input_end\<close> is the closing quote.\<close>

definition utf16_literal_to_utf8 :: "string \<Rightarrow> nat \<Rightarrow> nat \<Rightarrow> (nat \<times> u8 list) option" where
  "utf16_literal_to_utf8 content input_pointer input_end =
     (if input_end - input_pointer < 6 then None
      else let first_code = parse_hex4 content (input_pointer + 2)
      in if 0xDC00 \<le> first_code \<and> first_code \<le> 0xDFFF then None
         else if 0xD800 \<le> first_code \<and> first_code \<le> 0xDBFF
         then let second_sequence = input_pointer + 6
              in if input_end - second_sequence < 6 then None
                 else if content ! second_sequence \<noteq> BACKSLASH \<or> content ! (second_sequence + 1) \<noteq> CHR ''u'' then None
                 else let second_code = parse_hex4 content (second_sequence + 2)
                      in if second_code < 0xDC00 \<or> second_code > 0xDFFF then None
                         else map_option (Pair 12)
                           (encode_utf8 (0x10000 + (push_bit 10 (ucast (first_code AND 0x3FF)) OR ucast (second_code AND 0x3FF))))
         else map_option (Pair 6) (encode_utf8 (ucast first_code)))"

text \<open>
  What it reads is inside the content: the digits of the first sequence once six characters are left,
  the second sequence once twelve are.
\<close>

definition utf16_readable :: "string \<Rightarrow> nat \<Rightarrow> nat \<Rightarrow> bool" where
  "utf16_readable content input_pointer input_end \<longleftrightarrow>
     (6 \<le> input_end - input_pointer \<longrightarrow> can_access content (input_pointer + 5)) \<and>
     (12 \<le> input_end - input_pointer \<longrightarrow> can_access content (input_pointer + 11))"

lemma utf16_length: "utf16_literal_to_utf8 content p e = Some (n, bs) \<Longrightarrow> n = 6 \<or> n = 12"
  by (auto simp: utf16_literal_to_utf8_def Let_def split: if_splits)

text \<open>How far the closing quote is, and how many escapes come before it.\<close>

fun scan_string :: "string \<Rightarrow> (nat \<times> nat) option" where
  "scan_string [] = None"
| "scan_string (c # s) =
     (if c = DQUOTE then Some (0, 0)
      else if c = BACKSLASH
      then case s of
             [] \<Rightarrow> None
           | _ # t \<Rightarrow> map_option (\<lambda>(n, skipped). (n + 2, skipped + 1)) (scan_string t)
      else map_option (\<lambda>(n, skipped). (n + 1, skipped)) (scan_string s))"

definition unescaped :: "char \<Rightarrow> char option" where
  "unescaped c =
     (if c = CHR ''b'' then Some (CHR 0x08) else if c = CHR ''f'' then Some (CHR 0x0C)
      else if c = CHR ''n'' then Some (CHR 0x0A) else if c = CHR ''r'' then Some (CHR 0x0D)
      else if c = CHR ''t'' then Some (CHR 0x09)
      else if c = DQUOTE \<or> c = BACKSLASH \<or> c = CHR ''/'' then Some c
      else None)"

function unescape :: "string \<Rightarrow> nat \<Rightarrow> nat \<Rightarrow> string \<Rightarrow> string parse" where
  "unescape content input_pointer input_end output =
     (if \<not> input_pointer < input_end then Parsed output input_pointer
      else case buffer_at content input_pointer of
        None \<Rightarrow> Overrun
      | Some c \<Rightarrow>
          if c \<noteq> BACKSLASH then unescape content (input_pointer + 1) input_end (output @ [c])
          else case buffer_at content (input_pointer + 1) of
            None \<Rightarrow> Overrun
          | Some e \<Rightarrow>
              if e = CHR ''u''
              then if \<not> utf16_readable content input_pointer input_end then Overrun
                   else case utf16_literal_to_utf8 content input_pointer input_end of
                     None \<Rightarrow> Refused input_pointer
                   | Some (sequence_length, bytes) \<Rightarrow>
                       unescape content (input_pointer + sequence_length) input_end (output @ map (\<lambda>b. char_of (unat b)) bytes)
              else case unescaped e of
                     None \<Rightarrow> Refused input_pointer
                   | Some x \<Rightarrow> unescape content (input_pointer + 2) input_end (output @ [x]))"
  by pat_completeness auto
termination
  by (relation "measure (\<lambda>(_, p, e, _). e - p)") (auto dest: utf16_length)

declare unescape.simps [simp del]

text \<open>The value of a string literal at \<open>off\<close>; the output has to fit what was allocated for it.\<close>

definition parse_string :: "(alloc_site \<Rightarrow> bool) \<Rightarrow> string \<Rightarrow> nat \<Rightarrow> string parse" where
  "parse_string alloc content off =
     (case buffer_at content off of
        None \<Rightarrow> Overrun
      | Some c \<Rightarrow>
          if c \<noteq> DQUOTE then Refused (off + 1)
          else case scan_string (drop (off + 1) content) of
                 None \<Rightarrow> Refused (off + 1)
               | Some (n, skipped_bytes) \<Rightarrow>
                   let input_end = off + 1 + n;
                       allocation_length = (input_end - off) - skipped_bytes
                   in if \<not> alloc (StringAt off) then Refused (off + 1)
                      else case unescape content (off + 1) input_end [] of
                             Parsed output _ \<Rightarrow>
                               if length output + 1 > allocation_length + 1 then Overrun
                               else Parsed (cstr output) (input_end + 1)
                           | r \<Rightarrow> r)"

section \<open>Values\<close>

text \<open>The loops over the elements of an array and the members of an object; \<open>pv\<close> parses a value.\<close>

fun array_items :: "(nat \<Rightarrow> json parse) \<Rightarrow> (alloc_site \<Rightarrow> bool) \<Rightarrow> string \<Rightarrow> nat \<Rightarrow> nat \<Rightarrow> json list parse" where
  "array_items pv alloc content 0 off = Unfinished"
| "array_items pv alloc content (Suc fuel) off =
     (if \<not> alloc (ItemAt off) then Refused off
      else case pv (buffer_skip_whitespace content (off + 1)) of
             Parsed j off \<Rightarrow>
               let off = buffer_skip_whitespace content off
               in if buffer_at content off = Some (CHR '','')
                  then case array_items pv alloc content fuel off of
                         Parsed js off \<Rightarrow> Parsed (j # js) off
                       | r \<Rightarrow> r
                  else if buffer_at content off \<noteq> Some (CHR '']'') then Refused off
                  else Parsed [j] off
           | Refused off \<Rightarrow> Refused off
           | Overrun \<Rightarrow> Overrun
           | Unfinished \<Rightarrow> Unfinished)"

definition parse_array :: "(nat \<Rightarrow> json parse) \<Rightarrow> (alloc_site \<Rightarrow> bool) \<Rightarrow> string \<Rightarrow> nat \<Rightarrow> json parse" where
  "parse_array pv alloc content off =
     (case buffer_at content off of
        None \<Rightarrow> Overrun
      | Some c \<Rightarrow>
          if c \<noteq> CHR ''['' then Refused off
          else let off = buffer_skip_whitespace content (off + 1)
               in if buffer_at content off = Some (CHR '']'') then Parsed (JArray []) (off + 1)
                  else if \<not> can_access content off then Refused (off - 1)
                  else case array_items pv alloc content (length content) (off - 1) of
                         Parsed js off \<Rightarrow> Parsed (JArray js) (off + 1)
                       | Refused off \<Rightarrow> Refused off
                       | Overrun \<Rightarrow> Overrun
                       | Unfinished \<Rightarrow> Unfinished)"

fun object_members ::
  "(nat \<Rightarrow> json parse) \<Rightarrow> (alloc_site \<Rightarrow> bool) \<Rightarrow> string \<Rightarrow> nat \<Rightarrow> nat \<Rightarrow> (string \<times> json) list parse" where
  "object_members pv alloc content 0 off = Unfinished"
| "object_members pv alloc content (Suc fuel) off =
     (if \<not> alloc (ItemAt off) then Refused off
      else if \<not> can_access content (off + 1) then Refused off
      else case parse_string alloc content (buffer_skip_whitespace content (off + 1)) of
             Parsed name off \<Rightarrow>
               let off = buffer_skip_whitespace content off
               in if buffer_at content off \<noteq> Some (CHR '':'') then Refused off
                  else (case pv (buffer_skip_whitespace content (off + 1)) of
                          Parsed j off \<Rightarrow>
                            let off = buffer_skip_whitespace content off
                            in if buffer_at content off = Some (CHR '','')
                               then case object_members pv alloc content fuel off of
                                      Parsed ms off \<Rightarrow> Parsed ((name, j) # ms) off
                                    | r \<Rightarrow> r
                               else if buffer_at content off \<noteq> Some (CHR ''}'') then Refused off
                               else Parsed [(name, j)] off
                        | Refused off \<Rightarrow> Refused off
                        | Overrun \<Rightarrow> Overrun
                        | Unfinished \<Rightarrow> Unfinished)
           | Refused off \<Rightarrow> Refused off
           | Overrun \<Rightarrow> Overrun
           | Unfinished \<Rightarrow> Unfinished)"

definition parse_object :: "(nat \<Rightarrow> json parse) \<Rightarrow> (alloc_site \<Rightarrow> bool) \<Rightarrow> string \<Rightarrow> nat \<Rightarrow> json parse" where
  "parse_object pv alloc content off =
     (if buffer_at content off \<noteq> Some (CHR ''{'') then Refused off
      else let off = buffer_skip_whitespace content (off + 1)
           in if buffer_at content off = Some (CHR ''}'') then Parsed (JObject []) (off + 1)
              else if \<not> can_access content off then Refused (off - 1)
              else case object_members pv alloc content (length content) (off - 1) of
                     Parsed ms off \<Rightarrow> Parsed (JObject ms) (off + 1)
                   | Refused off \<Rightarrow> Refused off
                   | Overrun \<Rightarrow> Overrun
                   | Unfinished \<Rightarrow> Unfinished)"

text \<open>\<open>parse_value\<close> with the parsers of arrays and objects one level down.\<close>

definition value_at :: "(nat \<Rightarrow> json parse) \<Rightarrow> (nat \<Rightarrow> json parse) \<Rightarrow> (alloc_site \<Rightarrow> bool) \<Rightarrow> string \<Rightarrow> nat \<Rightarrow> json parse" where
  "value_at array obj alloc content off =
     (if starts_with content off ''null'' then Parsed JNull (off + 4)
      else if starts_with content off ''false'' then Parsed (JBool False) (off + 5)
      else if starts_with content off ''true'' then Parsed (JBool True) (off + 4)
      else case buffer_at content off of
             None \<Rightarrow> Refused off
           | Some c \<Rightarrow>
               if c = DQUOTE
               then (case parse_string alloc content off of
                       Parsed s off \<Rightarrow> Parsed (JString s) off
                     | Refused off \<Rightarrow> Refused off
                     | Overrun \<Rightarrow> Overrun
                     | Unfinished \<Rightarrow> Unfinished)
               else if c = CHR ''-'' \<or> is_digit c then parse_number alloc content off
               else if c = CHR ''['' then array off
               else if c = CHR ''{'' then obj off
               else Refused off)"

text \<open>The number is how many levels may still be entered; at 0 arrays and objects are refused.\<close>

primrec parse_value :: "(alloc_site \<Rightarrow> bool) \<Rightarrow> string \<Rightarrow> nat \<Rightarrow> nat \<Rightarrow> json parse" where
  "parse_value alloc content 0 off = value_at Refused Refused alloc content off"
| "parse_value alloc content (Suc n) off =
     value_at (parse_array (parse_value alloc content n) alloc content)
       (parse_object (parse_value alloc content n) alloc content) alloc content off"

definition cJSON_ParseWithLengthOpts :: "(alloc_site \<Rightarrow> bool) \<Rightarrow> string \<Rightarrow> bool \<Rightarrow> json parse" where
  "cJSON_ParseWithLengthOpts alloc content require_null_terminated =
     (if content = [] then Refused 0
      else if \<not> alloc RootItem then Refused 0
      else case parse_value alloc content CJSON_NESTING_LIMIT (buffer_skip_whitespace content (skip_utf8_bom content)) of
             Parsed j off \<Rightarrow>
               if require_null_terminated
               then let off = buffer_skip_whitespace content off
                    in if buffer_at content off \<noteq> Some NUL then Refused off else Parsed j off
               else Parsed j off
           | r \<Rightarrow> r)"

text \<open>Where the message of a refused text points.\<close>

definition error_position :: "string \<Rightarrow> nat \<Rightarrow> nat" where
  "error_position content off =
     (if off < length content then off else if length content > 0 then length content - 1 else 0)"

definition cJSON_ParseWithOpts :: "(alloc_site \<Rightarrow> bool) \<Rightarrow> string \<Rightarrow> bool \<Rightarrow> json parse" where
  "cJSON_ParseWithOpts alloc value require_null_terminated =
     cJSON_ParseWithLengthOpts alloc (cstr value @ [NUL]) require_null_terminated"

definition cJSON_Parse :: "(alloc_site \<Rightarrow> bool) \<Rightarrow> string \<Rightarrow> json option" where
  "cJSON_Parse alloc value = (case cJSON_ParseWithOpts alloc value False of Parsed j _ \<Rightarrow> Some j | _ \<Rightarrow> None)"

end
