(* ===== verification/JsonSafety.thy ===== *)
theory JsonSafety
  imports JsonParse
begin

text \<open>
  The parser stays within its buffers and ends, whatever the text and whatever allocations fail.
\<close>

unbundle bit_operations_syntax

section \<open>Positions\<close>

lemma skip_outside [simp]: "\<not> can_access content off \<Longrightarrow> buffer_skip_whitespace content off = off"
  by (simp add: buffer_skip_whitespace_def)

lemma skip_inside:
  assumes "can_access content off"
  shows "off \<le> buffer_skip_whitespace content off" "can_access content (buffer_skip_whitespace content off)"
proof -
  let ?k = "length (takeWhile (\<lambda>c. (of_char c :: nat) \<le> 32) (drop off content))"
  have "?k \<le> length content - off"
    using length_takeWhile_le [of _ "drop off content"] by simp
  with assms show "off \<le> buffer_skip_whitespace content off" "can_access content (buffer_skip_whitespace content off)"
    by (auto simp: buffer_skip_whitespace_def can_access_def Let_def)
qed

lemma skip_ge: "off \<le> buffer_skip_whitespace content off"
  by (cases "can_access content off") (simp_all add: skip_inside)

lemma skip_le: "off \<le> length content \<Longrightarrow> buffer_skip_whitespace content off \<le> length content"
  using skip_inside(2) [of content off] by (cases "can_access content off") (auto simp: can_access_def)

lemma buffer_at_iff: "buffer_at content off = Some c \<longleftrightarrow> off < length content \<and> content ! off = c"
  by (auto simp: buffer_at_def can_access_def)

text \<open>The results a parser may have from \<open>off\<close> on: one that consumed something within the content, or a refusal.\<close>

fun fits :: "string \<Rightarrow> nat \<Rightarrow> 'a parse \<Rightarrow> bool" where
  "fits content off (Parsed _ next_off) = (off < next_off \<and> next_off \<le> length content)"
| "fits content off (Refused _) = True"
| "fits content off Overrun = False"
| "fits content off Unfinished = False"

section \<open>Numbers\<close>

lemma read_sign_length: "read_sign s = (neg, t) \<Longrightarrow> length t \<le> length s"
  by (cases s) (auto split: if_splits)

lemma read_exponent_length: "read_exponent s = (e, n) \<Longrightarrow> n \<le> length s"
proof (cases s)
  case (Cons c t)
  moreover obtain neg u where "read_sign t = (neg, u)" by (cases "read_sign t")
  moreover assume "read_exponent s = (e, n)"
  ultimately show ?thesis
    using read_sign_length [of t neg u] length_takeWhile_le [of is_digit u]
    by (auto simp: read_exponent_def Let_def split: if_splits)
qed (simp add: read_exponent_def)

lemma strtod_length:
  assumes "strtod s = (x, n)"
  shows "n \<le> length s"
proof -
  obtain neg t where t: "read_sign s = (neg, t)" by (cases "read_sign s")
  define ip rest where "ip = takeWhile is_digit t" and "rest = dropWhile is_digit t"
  obtain fp point where fp: "(case rest of c # u \<Rightarrow> if c = CHR ''.'' then (takeWhile is_digit u, 1 :: nat) else ([], 0) | [] \<Rightarrow> ([], 0)) = (fp, point)"
    by (metis prod.exhaust)
  define used where "used = (length s - length t) + length ip + point + length fp"
  obtain e k where e: "read_exponent (drop used s) = (e, k)" by (cases "read_exponent (drop used s)")
  have "n = 0 \<or> n = used + k"
    using assms e by (auto simp: strtod_def t Let_def fp used_def simp flip: ip_def rest_def split: if_splits)
  moreover have "point + length fp \<le> length rest"
  proof (cases rest)
    case (Cons c u)
    then show ?thesis
      using fp length_takeWhile_le [of is_digit u] by (auto split: if_splits)
  qed (use fp in simp)
  moreover have "length ip + length rest = length t"
    unfolding ip_def rest_def by (metis length_append takeWhile_dropWhile_id)
  ultimately show ?thesis
    using read_sign_length [OF t] read_exponent_length [OF e] unfolding used_def by auto
qed

lemma parse_number_within: "off \<le> length content \<Longrightarrow> fits content off (parse_number alloc content off)"
  using strtod_length [of "takeWhile number_char (drop off content)"]
    length_takeWhile_le [of number_char "drop off content"]
  by (fastforce simp: parse_number_def Let_def split: prod.split)

section \<open>Strings\<close>

text \<open>The value of a hexadecimal digit, and of four of them.\<close>

definition hex_nat :: "char \<Rightarrow> nat option" where
  "hex_nat c =
     (let n = of_char c
      in if 48 \<le> n \<and> n \<le> 57 then Some (n - 48)
         else if 65 \<le> n \<and> n \<le> 70 then Some (n - 55)
         else if 97 \<le> n \<and> n \<le> 102 then Some (n - 87)
         else None)"

lemma hex_value_nat: "hex_value c = map_option of_nat (hex_nat c)"
  by (simp add: hex_value_def hex_nat_def Let_def)

lemma hex_nat_less: "hex_nat c = Some n \<Longrightarrow> n < 16"
  by (auto simp: hex_nat_def Let_def split: if_splits)

definition hex4_nat :: "string \<Rightarrow> nat option" where
  "hex4_nat s =
     (case map hex_nat s of
        [Some a, Some b, Some c, Some d] \<Rightarrow> Some (((a * 16 + b) * 16 + c) * 16 + d)
      | _ \<Rightarrow> None)"

lemma hex_loop_step: "hex_loop h (c # cs) =
    (case hex_nat c of None \<Rightarrow> 0 | Some n \<Rightarrow> if cs = [] then h + of_nat n else hex_loop ((h + of_nat n) * 16) cs)"
  by (simp add: hex_value_nat push_bit_eq_mult Let_def split: option.split)

lemma hex_loop_cases: "\<exists>n < 65536. hex_loop 0 (take 4 s) = of_nat n"
proof -
  have step: "\<exists>n < 16 ^ (k + length s). hex_loop (of_nat (m * 16)) s = of_nat n"
    if "m < 16 ^ k" "s \<noteq> []" for m k s
    using that
  proof (induction s arbitrary: m k)
    case (Cons c s)
    show ?case
    proof (cases "hex_nat c")
      case (Some n)
      have n: "m * 16 + n < 16 ^ Suc k"
        using hex_nat_less [OF Some] Cons.prems(1) by simp
      have eq: "(of_nat (m * 16) + of_nat n :: u32) = of_nat (m * 16 + n)"
        by simp
      show ?thesis
      proof (cases "s = []")
        case True
        then show ?thesis
          using n Some by (auto simp: hex_loop_step eq simp del: of_nat_add of_nat_mult hex_loop.simps(2) intro!: exI [of _ "m * 16 + n"])
      next
        case False
        have "hex_loop (of_nat (m * 16)) (c # s) = hex_loop (of_nat ((m * 16 + n) * 16)) s"
          using Some False by (simp add: hex_loop_step eq del: hex_loop.simps(2))
        with Cons.IH [OF n False] show ?thesis
          by simp
      qed
    qed (auto simp: hex_loop_step simp del: hex_loop.simps(2) intro!: exI [of _ 0])
  qed simp
  show ?thesis
  proof (cases "take 4 s = []")
    case True
    then show ?thesis by (intro exI [of _ 0]) simp
  next
    case False
    obtain n where "n < 16 ^ length (take 4 s)" "hex_loop 0 (take 4 s) = of_nat n"
      using step [of 0 0 "take 4 s"] False by auto
    moreover have "(16 :: nat) ^ length (take 4 s) \<le> 16 ^ 4"
      by (rule power_increasing) simp_all
    ultimately show ?thesis
      by (intro exI [of _ n]) simp
  qed
qed

lemma parse_hex4_less: "parse_hex4 content off < 65536"
proof -
  obtain n where "n < 65536" "parse_hex4 content off = of_nat n"
    using hex_loop_cases by (auto simp: parse_hex4_def)
  then show ?thesis
    by (simp add: word_less_nat_alt unat_of_nat)
qed

lemma utf8_loop_length: "length (utf8_loop n mark c) = n + 1"
  by (induction n arbitrary: c) simp_all

lemma encode_utf8_length: "encode_utf8 c = Some bs \<Longrightarrow> length bs \<le> 4"
  by (auto simp: encode_utf8_def utf8_loop_length split: if_splits)

lemma encode_utf8_short: "encode_utf8 c = Some bs \<Longrightarrow> c < 0x10000 \<Longrightarrow> length bs \<le> 3"
  by (auto simp: encode_utf8_def utf8_loop_length split: if_splits)

lemma utf16_bounds:
  assumes "utf16_literal_to_utf8 content p e = Some (n, bs)"
  shows "p + n \<le> e \<and> (n = 6 \<and> length bs \<le> 3 \<or> n = 12 \<and> length bs \<le> 4)"
proof -
  have "(ucast (parse_hex4 content (p + 2)) :: u64) < 0x10000"
    using parse_hex4_less [of content "p + 2"] by (simp add: word_less_nat_alt unsigned_ucast_eq take_bit_nat_eq_self)
  then show ?thesis
    using assms encode_utf8_length encode_utf8_short
    by (auto simp: utf16_literal_to_utf8_def Let_def split: if_splits)
qed

text \<open>
  A position of the unescaping loop as the scan sees it: at the start of a character or escape, or
  (after an invalid \<open>u\<close> literal) at the second character of an escape; \<open>k\<close> escapes follow.
\<close>

definition scanned :: "string \<Rightarrow> nat \<Rightarrow> nat \<Rightarrow> nat \<Rightarrow> bool" where
  "scanned content p e k \<longleftrightarrow>
     p \<le> e \<and> scan_string (drop p content) = Some (e - p, k) \<or>
     p < e \<and> scan_string (drop (Suc p) content) = Some (e - Suc p, k)"

lemma scan_at:
  assumes "scan_string (drop p content) = Some (n, k)"
  shows "p + n < length content \<and> content ! (p + n) = DQUOTE"
  using assms
proof (induction n arbitrary: p k rule: less_induct)
  case (less n)
  obtain c s where d: "drop p content = c # s"
    using less.prems by (cases "drop p content") auto
  then have p: "p < length content" "content ! p = c" "s = drop (Suc p) content"
    by (metis drop_eq_Nil2 leI list.distinct(1), metis nth_via_drop, metis drop_Suc list.sel(3) tl_drop)
  consider (quote) "c = DQUOTE" "n = 0"
    | (escape) x t m j where "c = BACKSLASH" "s = x # t" "scan_string t = Some (m, j)" "n = m + 2"
    | (plain) m j where "scan_string s = Some (m, j)" "n = m + 1"
  proof (cases "c = DQUOTE")
    case True
    then show ?thesis using less.prems d quote by simp
  next
    case False
    then show ?thesis
      using less.prems d escape plain by (cases "c = BACKSLASH"; cases s) auto
  qed
  then show ?case
  proof cases
    case quote
    then show ?thesis using p by simp
  next
    case (escape x t m j)
    then have "t = drop (p + 2) content"
      using p(3) by (metis add_2_eq_Suc' drop_Suc list.sel(3) tl_drop)
    then show ?thesis
      using less.IH [of m "p + 2" j] escape by simp
  next
    case (plain m j)
    then show ?thesis
      using less.IH [of m "Suc p" j] p(3) by simp
  qed
qed

text \<open>Moving on by one character passes at most one escape, and by two at most one if the first is aligned.\<close>

lemma scan_step:
  assumes "scan_string (drop p content) = Some (e - p, k)" "p < e"
  shows "p < length content \<and>
    (content ! p \<noteq> BACKSLASH \<and> content ! p \<noteq> DQUOTE \<and> scan_string (drop (Suc p) content) = Some (e - Suc p, k) \<or>
     content ! p = BACKSLASH \<and> p + 2 \<le> e \<and> (\<exists>j. k = Suc j \<and> scan_string (drop (p + 2) content) = Some (e - (p + 2), j)))"
proof -
  obtain c s where d: "drop p content = c # s"
    using assms by (cases "drop p content") auto
  then have p: "p < length content" "content ! p = c" "s = drop (Suc p) content"
    by (metis drop_eq_Nil2 leI list.distinct(1), metis nth_via_drop, metis drop_Suc list.sel(3) tl_drop)
  have "drop (p + 2) content = tl s"
    unfolding p(3) by (simp add: drop_Suc tl_drop)
  then show ?thesis
    using assms d p by (auto split: if_splits list.splits)
qed

lemma scanned_advance:
  assumes "scan_string (drop p content) = Some (e - p, k)" "p + d \<le> e"
  shows "\<exists>j. scanned content (p + d) e j \<and> 2 * k \<le> 2 * j + d + 1"
  using assms
proof (induction d arbitrary: p k rule: less_induct)
  case (less d)
  show ?case
  proof (cases "d = 0")
    case True
    then show ?thesis
      using less.prems by (auto simp: scanned_def)
  next
    case False
    then have "p < e"
      using less.prems(2) by simp
    from scan_step [OF less.prems(1) this] show ?thesis
    proof (elim conjE disjE exE)
      assume "scan_string (drop (Suc p) content) = Some (e - Suc p, k)"
      then show ?thesis
        using less.IH [of "d - 1" "Suc p" k] less.prems(2) False by (auto intro: le_trans)
    next
      fix j
      assume j: "k = Suc j" "scan_string (drop (p + 2) content) = Some (e - (p + 2), j)" "p + 2 \<le> e"
      show ?thesis
      proof (cases "d = 1")
        case True
        then have "scanned content (p + d) e j"
          using j \<open>p < e\<close> by (simp add: scanned_def)
        then show ?thesis
          using j True by auto
      next
        case False
        then have "\<exists>d'. d = d' + 2" using \<open>d \<noteq> 0\<close> by presburger
        then obtain d' where d: "d = d' + 2" ..
        have "p + 2 + d' \<le> e"
          using less.prems(2) d by simp
        with less.IH [of d' "p + 2" j] j(2) d
        obtain i where "scanned content (p + 2 + d') e i" "2 * j \<le> 2 * i + d' + 1"
          by auto
        moreover have "p + 2 + d' = p + d" "2 * k = 2 * j + 2"
          using d j(1) by simp_all
        ultimately show ?thesis
          using d by (intro exI [of _ i]) simp
      qed
    qed
  qed
qed

text \<open>What the loop may produce from \<open>p\<close> on, with \<open>k\<close> escapes ahead of it in the scan.\<close>

definition output_fits :: "nat \<Rightarrow> nat \<Rightarrow> nat \<Rightarrow> string \<Rightarrow> string parse \<Rightarrow> bool" where
  "output_fits p e k out r \<longleftrightarrow>
     (case r of Parsed out' _ \<Rightarrow> length out' + k \<le> length out + (e - p) | Refused _ \<Rightarrow> True | _ \<Rightarrow> False)"

lemma output_fits_weaken:
  assumes "output_fits p' e k' out' r" "length out' + (e - p') + k \<le> length out + (e - p) + k'"
  shows "output_fits p e k out r"
  using assms by (cases r) (auto simp: output_fits_def)

lemma scan_end: "scan_string (drop e content) = Some (0, k) \<Longrightarrow> k = 0"
  by (cases "drop e content") (auto split: if_splits list.splits)

lemma scanned_end: "scanned content e e k \<Longrightarrow> k = 0"
  by (auto simp: scanned_def dest: scan_end)

text \<open>One turn of the loop: a plain character, an escape and a \<open>u\<close> literal.\<close>

lemma scanned_plain:
  assumes "scanned content p e k" "p < e" "content ! p \<noteq> BACKSLASH"
  shows "scanned content (Suc p) e k"
  using assms scan_step [of p content e k] unfolding scanned_def by auto

lemma scanned_escape:
  assumes "scanned content p e k" "p + 2 \<le> e" "content ! p = BACKSLASH"
  shows "\<exists>j. scanned content (p + 2) e j \<and> k \<le> j + 1"
proof (cases "scan_string (drop p content) = Some (e - p, k)")
  case True
  then show ?thesis
    using scan_step [OF True] assms(2,3) by (auto simp: scanned_def)
next
  case False
  then have "scan_string (drop (Suc p) content) = Some (e - Suc p, k)"
    using assms(1) by (simp add: scanned_def)
  from scanned_advance [OF this, of 1] assms(2) show ?thesis
    by auto
qed

lemma scanned_literal:
  assumes "scanned content p e k" "p + n \<le> e" "n = 6 \<or> n = 12" "content ! p = BACKSLASH"
  shows "\<exists>j. scanned content (p + n) e j \<and> k \<le> j + n div 2"
proof (cases "scan_string (drop p content) = Some (e - p, k)")
  case True
  from scan_step [OF True] assms(2-4)
  obtain i where i: "k = Suc i" "scan_string (drop (p + 2) content) = Some (e - (p + 2), i)"
    by auto
  have pos: "p + 2 + (n - 2) = p + n"
    using assms(3) by auto
  from scanned_advance [OF i(2), of "n - 2"] assms(2)
  obtain j where "scanned content (p + n) e j" "2 * i \<le> 2 * j + (n - 2) + 1"
    unfolding pos by blast
  then show ?thesis
    using i(1) assms(3) by (intro exI [of _ j]) auto
next
  case False
  then have "scan_string (drop (Suc p) content) = Some (e - Suc p, k)"
    using assms(1) by (simp add: scanned_def)
  have pos: "Suc p + (n - 1) = p + n"
    using assms(3) by auto
  from scanned_advance [OF \<open>scan_string (drop (Suc p) content) = _\<close>, of "n - 1"] assms(2)
  obtain j where "scanned content (p + n) e j" "2 * k \<le> 2 * j + (n - 1) + 1"
    unfolding pos by blast
  then show ?thesis
    using assms(3) by (intro exI [of _ j]) auto
qed

lemma utf16_readable_inside: "e \<le> length content \<Longrightarrow> utf16_readable content p e"
  by (auto simp: utf16_readable_def can_access_def)

lemma unescape_fits:
  assumes "scanned content p e k" "e < length content" "content ! e = DQUOTE"
  shows "output_fits p e k out (unescape content p e out)"
  using assms
proof (induction content p e out arbitrary: k rule: unescape.induct)
  case (1 content p e out)
  note prems = "1.prems"
  show ?case
  proof (cases "p < e")
    case False
    then have "p = e" "k = 0"
      using prems(1) scanned_end by (auto simp: scanned_def)
    then show ?thesis
      by (simp add: unescape.simps output_fits_def)
  next
    case True
    define c d where "c = content ! p" and "d = content ! Suc p"
    have at: "buffer_at content p = Some c" "buffer_at content (p + 1) = Some d"
      using True prems(2) by (simp_all add: buffer_at_iff c_def d_def)
    note unfold = unescape.simps [of content p e out]
    consider (plain) "c \<noteq> BACKSLASH" | (literal) "c = BACKSLASH" "d = CHR ''u''"
      | (escape) "c = BACKSLASH" "d \<noteq> CHR ''u''"
      by blast
    then show ?thesis
    proof cases
      case plain
      have "output_fits (p + 1) e k (out @ [c]) (unescape content (p + 1) e (out @ [c]))"
        using "1.IH"(1) [of c k] True at plain scanned_plain [OF prems(1) True] prems(2,3) c_def by simp
      then show ?thesis
        using True at plain by (simp add: unfold output_fits_weaken)
    next
      case literal
      have inside: "utf16_readable content p e"
        using prems(2) by (intro utf16_readable_inside) simp
      show ?thesis
      proof (cases "utf16_literal_to_utf8 content p e")
        case None
        then show ?thesis using True at literal inside by (simp add: unfold output_fits_def)
      next
        case (Some r)
        then obtain n bs where u: "utf16_literal_to_utf8 content p e = Some (n, bs)"
          by (cases r) auto
        note b = utf16_bounds [OF u]
        obtain j where j: "scanned content (p + n) e j" "k \<le> j + n div 2"
          using scanned_literal [OF prems(1), of n] b literal(1) c_def by auto
        let ?out = "out @ map (\<lambda>b. char_of (unat b)) bs"
        have "output_fits (p + n) e j ?out (unescape content (p + n) e ?out)"
          using "1.IH"(2) [of c d "(n, bs)" n bs j] True at literal inside u j(1) prems(2,3) by simp
        then have "output_fits p e k out (unescape content (p + n) e ?out)"
          by (rule output_fits_weaken) (use b j(2) in auto)
        then show ?thesis
          using True at literal inside u by (simp add: unfold)
      qed
    next
      case escape
      show ?thesis
      proof (cases "unescaped d")
        case None
        then show ?thesis using True at escape by (simp add: unfold output_fits_def)
      next
        case (Some x)
        show ?thesis
        proof (cases "p + 2 \<le> e")
          case True2: True
          obtain j where j: "scanned content (p + 2) e j" "k \<le> j + 1"
            using scanned_escape [OF prems(1) True2] escape(1) c_def by auto
          have "output_fits (p + 2) e j (out @ [x]) (unescape content (p + 2) e (out @ [x]))"
            using "1.IH"(3) [of c d x j] True at escape Some j(1) prems(2,3) by simp
          then have "output_fits p e k out (unescape content (p + 2) e (out @ [x]))"
            by (rule output_fits_weaken) (use True2 j(2) in auto)
          then show ?thesis
            using True at escape Some by (simp add: unfold)
        next
          case False
          then have e: "e = Suc p" using True by simp
          have "k = 0"
            using prems(1) scan_step [of p content e k] scan_end [of e content k] escape(1) e
            by (auto simp: scanned_def c_def)
          then show ?thesis
            using True at escape Some e by (simp add: unfold [unfolded e] unescape.simps [of content "Suc (Suc p)"] output_fits_def)
        qed
      qed
    qed
  qed
qed

lemma parse_string_fits: "off < length content \<Longrightarrow> fits content off (parse_string alloc content off)"
proof -
  assume off: "off < length content"
  show ?thesis
  proof (cases "scan_string (drop (off + 1) content)")
    case None
    then show ?thesis
      using off by (simp add: parse_string_def buffer_at_def can_access_def)
  next
    case (Some nk)
    then obtain n k where s: "scan_string (drop (Suc off) content) = Some (n, k)"
      by (cases nk) auto
    let ?e = "Suc off + n"
    have e: "?e < length content" "content ! ?e = DQUOTE"
      using scan_at [OF s] by simp_all
    have "output_fits (Suc off) ?e k [] (unescape content (Suc off) ?e [])"
      using s e by (intro unescape_fits) (simp_all add: scanned_def)
    then show ?thesis
      using off s e by (cases "unescape content (Suc off) ?e []")
        (auto simp: parse_string_def buffer_at_def can_access_def output_fits_def Let_def)
  qed
qed

section \<open>Values\<close>

text \<open>The result of a loop: it ends at a bracket within the content.\<close>

fun ends_inside :: "string \<Rightarrow> nat \<Rightarrow> 'a parse \<Rightarrow> bool" where
  "ends_inside content off (Parsed _ next_off) = (off < next_off \<and> next_off < length content)"
| "ends_inside content off (Refused _) = True"
| "ends_inside content off Overrun = False"
| "ends_inside content off Unfinished = False"

lemma array_items_fits:
  assumes pv: "\<And>off. off \<le> length content \<Longrightarrow> fits content off (pv off)"
    and "off < length content" "length content \<le> off + fuel"
  shows "ends_inside content off (array_items pv alloc content fuel off)"
  using assms(2,3)
proof (induction fuel arbitrary: off)
  case 0
  then show ?case by simp
next
  case (Suc fuel)
  let ?o = "buffer_skip_whitespace content (Suc off)"
  have o: "off < ?o" "?o \<le> length content"
    using skip_ge [of "Suc off" content] skip_le [of "Suc off" content] Suc.prems(1) by simp_all
  show ?case
  proof (cases "pv ?o")
    case (Parsed j n)
    let ?n = "buffer_skip_whitespace content n"
    have n: "?o < n" "n \<le> length content"
      using pv [OF o(2)] Parsed by simp_all
    then have n': "n \<le> ?n" "?n \<le> length content"
      using skip_ge skip_le by simp_all
    have "ends_inside content ?n (array_items pv alloc content fuel ?n)" if "?n < length content"
      using that n n' o Suc.prems(2) by (intro Suc.IH) simp_all
    then show ?thesis
      using Parsed o n n' by (cases "array_items pv alloc content fuel ?n") (auto simp: buffer_at_iff Let_def)
  qed (use pv [OF o(2)] in simp_all)
qed

lemma object_members_fits:
  assumes pv: "\<And>off. off \<le> length content \<Longrightarrow> fits content off (pv off)"
    and "off < length content" "length content \<le> off + fuel"
  shows "ends_inside content off (object_members pv alloc content fuel off)"
  using assms(2,3)
proof (induction fuel arbitrary: off)
  case 0
  then show ?case by simp
next
  case (Suc fuel)
  let ?o = "buffer_skip_whitespace content (Suc off)"
  show ?case
  proof (cases "can_access content (Suc off)")
    case False
    then show ?thesis by simp
  next
    case access: True
    then have o: "off < ?o" "?o < length content"
      using skip_inside [OF access] by (auto simp: can_access_def)
    show ?thesis
    proof (cases "parse_string alloc content ?o")
      case (Parsed name m)
      let ?m = "buffer_skip_whitespace content m"
      have m: "?o < m" "m \<le> ?m" "?m \<le> length content"
        using parse_string_fits [OF o(2), of alloc] Parsed skip_ge [of m content] skip_le [of m content] by simp_all
      let ?v = "buffer_skip_whitespace content (Suc ?m)"
      show ?thesis
      proof (cases "buffer_at content ?m = Some (CHR '':'')")
        case False
        then show ?thesis using Parsed access by (simp add: Let_def)
      next
        case colon: True
        then have v: "?m < ?v" "?v \<le> length content"
          using skip_ge [of "Suc ?m" content] skip_le [of "Suc ?m" content] by (simp_all add: buffer_at_iff)
        show ?thesis
        proof (cases "pv ?v")
          case PV: (Parsed j n)
          let ?n = "buffer_skip_whitespace content n"
          have n: "?v < n" "n \<le> ?n" "?n \<le> length content"
            using pv [OF v(2)] PV skip_ge [of n content] skip_le [of n content] by simp_all
          have "ends_inside content ?n (object_members pv alloc content fuel ?n)" if "?n < length content"
            using that n m v o Suc.prems(2) by (intro Suc.IH) simp_all
          then show ?thesis
            using Parsed PV access colon o m v n
            by (cases "object_members pv alloc content fuel ?n") (auto simp: buffer_at_iff Let_def)
        qed (use pv [OF v(2)] Parsed access colon in \<open>simp_all add: Let_def\<close>)
      qed
    qed (use parse_string_fits [OF o(2), of alloc] access in simp_all)
  qed
qed

lemma parse_array_fits:
  assumes pv: "\<And>off. off \<le> length content \<Longrightarrow> fits content off (pv off)" and "off < length content"
  shows "fits content off (parse_array pv alloc content off)"
proof -
  let ?o = "buffer_skip_whitespace content (Suc off)"
  have o: "Suc off \<le> ?o" by (rule skip_ge)
  show ?thesis
  proof (cases "can_access content ?o")
    case True
    then have "ends_inside content (?o - 1) (array_items pv alloc content (length content) (?o - 1))"
      using o by (intro array_items_fits pv) (auto simp: can_access_def)
    then show ?thesis
      using o True assms(2)
      by (cases "array_items pv alloc content (length content) (?o - 1)")
        (auto simp: parse_array_def buffer_at_def can_access_def Let_def)
  qed (use assms(2) in \<open>auto simp: parse_array_def buffer_at_def can_access_def Let_def\<close>)
qed

lemma parse_object_fits:
  assumes pv: "\<And>off. off \<le> length content \<Longrightarrow> fits content off (pv off)" and "off < length content"
  shows "fits content off (parse_object pv alloc content off)"
proof -
  let ?o = "buffer_skip_whitespace content (Suc off)"
  have o: "Suc off \<le> ?o" by (rule skip_ge)
  show ?thesis
  proof (cases "can_access content ?o")
    case True
    then have "ends_inside content (?o - 1) (object_members pv alloc content (length content) (?o - 1))"
      using o by (intro object_members_fits pv) (auto simp: can_access_def)
    then show ?thesis
      using o True assms(2)
      by (cases "object_members pv alloc content (length content) (?o - 1)")
        (auto simp: parse_object_def buffer_at_def can_access_def Let_def)
  qed (use assms(2) in \<open>auto simp: parse_object_def buffer_at_def can_access_def Let_def\<close>)
qed

lemma value_at_fits:
  assumes "off \<le> length content"
    and "off < length content \<Longrightarrow> fits content off (array off)" "off < length content \<Longrightarrow> fits content off (obj off)"
  shows "fits content off (value_at array obj alloc content off)"
proof (cases "off < length content")
  case True
  then show ?thesis
    using assms parse_number_within [OF assms(1), of alloc] parse_string_fits [OF True, of alloc]
    by (cases "parse_string alloc content off")
      (auto simp: value_at_def starts_with_def buffer_at_def can_access_def)
qed (use assms(1) in \<open>auto simp: value_at_def starts_with_def buffer_at_def can_access_def\<close>)

lemma parse_value_fits: "off \<le> length content \<Longrightarrow> fits content off (parse_value alloc content n off)"
  by (induction n arbitrary: off) (simp_all add: value_at_fits parse_array_fits parse_object_fits)

text \<open>
  C13. The parser is safe and ends on every text: whatever bytes the content holds, closed by its NUL or
  not, and whichever allocations fail, it reads nothing outside the content, writes nothing past
  what it allocated for a string, leaves no loop unfinished, and either accepts a value that ends
  within the content or refuses.
\<close>

theorem parser_stays_inside:
  "case cJSON_ParseWithLengthOpts alloc content require of
     Parsed j off \<Rightarrow> 0 < off \<and> off \<le> length content
   | Refused off \<Rightarrow> content = [] \<or> error_position content off < length content
   | Overrun \<Rightarrow> False
   | Unfinished \<Rightarrow> False"
proof (cases "content = [] \<or> \<not> alloc RootItem")
  case True
  then show ?thesis by (auto simp: cJSON_ParseWithLengthOpts_def error_position_def)
next
  case False
  let ?o = "buffer_skip_whitespace content (skip_utf8_bom content)"
  have "?o \<le> length content"
    by (rule skip_le) (auto simp: skip_utf8_bom_def can_access_def)
  then have f: "fits content ?o (parse_value alloc content CJSON_NESTING_LIMIT ?o)"
    by (rule parse_value_fits)
  have e: "error_position content off < length content" for off
    using False by (auto simp: error_position_def)
  show ?thesis
  proof (cases "parse_value alloc content CJSON_NESTING_LIMIT ?o")
    case (Parsed j n)
    then show ?thesis
      using f False e skip_ge [of n content] skip_le [of n content]
      by (auto simp: cJSON_ParseWithLengthOpts_def Let_def)
  qed (use f False e in \<open>simp_all add: cJSON_ParseWithLengthOpts_def\<close>)
qed

end
