(* ===== verification/JsonGrammar.thy ===== *)
theory JsonGrammar
  imports JsonSafety
begin

text \<open>
  JSON as a grammar: which text denotes which value. The parser accepts every text of the grammar
  that is nested no deeper than its limit, with the value it denotes, and so does the
  configuration loader above it. Characters outside ASCII are the bytes of their encoding.
\<close>

unbundle bit_operations_syntax

section \<open>The grammar\<close>

definition json_space :: "string \<Rightarrow> bool" where
  "json_space w \<longleftrightarrow> set w \<subseteq> {CHR '' '', TAB, NEWLINE, CHR 0x0D}"

text \<open>The bytes of a code point, and the code point of a surrogate pair.\<close>

definition utf8 :: "nat \<Rightarrow> nat list" where
  "utf8 c =
     (if c < 128 then [c]
      else if c < 2048 then [192 + c div 64, 128 + c mod 64]
      else if c < 65536 then [224 + c div 4096, 128 + c div 64 mod 64, 128 + c mod 64]
      else [240 + c div 262144, 128 + c div 4096 mod 64, 128 + c div 64 mod 64, 128 + c mod 64])"

definition surrogates :: "nat \<Rightarrow> nat \<Rightarrow> nat" where
  "surrogates high low = 65536 + (high - 55296) * 1024 + (low - 56320)"

inductive json_char :: "string \<Rightarrow> string \<Rightarrow> bool" where
  plain: "c \<noteq> DQUOTE \<Longrightarrow> c \<noteq> BACKSLASH \<Longrightarrow> 32 \<le> (of_char c :: nat) \<Longrightarrow> json_char [c] [c]"
| escape: "(e, c) \<in> {(DQUOTE, DQUOTE), (BACKSLASH, BACKSLASH), (CHR ''/'', CHR ''/''), (CHR ''b'', CHR 0x08),
    (CHR ''f'', CHR 0x0C), (CHR ''n'', CHR 0x0A), (CHR ''r'', CHR 0x0D), (CHR ''t'', CHR 0x09)} \<Longrightarrow>
    json_char [BACKSLASH, e] [c]"
| unicode: "hex4_nat h = Some c \<Longrightarrow> c < 55296 \<or> 57343 < c \<Longrightarrow>
    json_char (BACKSLASH # CHR ''u'' # h) (map char_of (utf8 c))"
| pair: "hex4_nat h = Some high \<Longrightarrow> 55296 \<le> high \<Longrightarrow> high < 56320 \<Longrightarrow>
    hex4_nat l = Some low \<Longrightarrow> 56320 \<le> low \<Longrightarrow> low < 57344 \<Longrightarrow>
    json_char (BACKSLASH # CHR ''u'' # h @ BACKSLASH # CHR ''u'' # l) (map char_of (utf8 (surrogates high low)))"

inductive json_chars :: "string \<Rightarrow> string \<Rightarrow> bool" where
  no_chars: "json_chars [] []"
| more_chars: "json_char s t \<Longrightarrow> json_chars ss ts \<Longrightarrow> json_chars (s @ ss) (t @ ts)"

text \<open>A number: sign, integer part without superfluous zeros, fraction, exponent; and its value.\<close>

definition digits :: "string \<Rightarrow> bool" where
  "digits ds \<longleftrightarrow> ds \<noteq> [] \<and> (\<forall>c \<in> set ds. is_digit c)"

inductive json_exponent :: "string \<Rightarrow> int \<Rightarrow> bool" where
  no_exponent: "json_exponent [] 0"
| exponent: "c \<in> {CHR ''e'', CHR ''E''} \<Longrightarrow> s \<in> {[], ''+'', ''-''} \<Longrightarrow> digits ds \<Longrightarrow>
    json_exponent (c # s @ ds) (if s = ''-'' then - int (digits_value ds) else int (digits_value ds))"

inductive json_number :: "string \<Rightarrow> rat \<Rightarrow> bool" where
  number: "digits ip \<Longrightarrow> hd ip = CHR ''0'' \<longrightarrow> tl ip = [] \<Longrightarrow> fp = [] \<or> digits fp \<Longrightarrow> json_exponent es e \<Longrightarrow>
    json_number ((if neg then ''-'' else []) @ ip @ (if fp = [] then [] else CHR ''.'' # fp) @ es)
      ((if neg then -1 else 1) * of_nat (digits_value (ip @ fp)) * pow10 (e - int (length fp)))"

text \<open>Values, nested at most \<open>n\<close> deep, and the elements and members between the brackets.\<close>

inductive json_text :: "nat \<Rightarrow> json \<Rightarrow> string \<Rightarrow> bool"
  and json_elements :: "nat \<Rightarrow> json list \<Rightarrow> string \<Rightarrow> bool"
  and json_members :: "nat \<Rightarrow> (string \<times> json) list \<Rightarrow> string \<Rightarrow> bool" where
  text_null: "json_text n JNull ''null''"
| text_false: "json_text n (JBool False) ''false''"
| text_true: "json_text n (JBool True) ''true''"
| text_number: "json_number s x \<Longrightarrow> json_text n (JNumber (round_double x)) s"
| text_string: "json_chars s t \<Longrightarrow> json_text n (JString (cstr t)) (DQUOTE # s @ [DQUOTE])"
| text_empty_array: "json_space w \<Longrightarrow> json_text (Suc n) (JArray []) (CHR ''['' # w @ '']'')"
| text_array: "json_elements n js s \<Longrightarrow> json_text (Suc n) (JArray js) (CHR ''['' # s @ '']'')"
| text_empty_object: "json_space w \<Longrightarrow> json_text (Suc n) (JObject []) (CHR ''{'' # w @ ''}'')"
| text_object: "json_members n ms s \<Longrightarrow> json_text (Suc n) (JObject ms) (CHR ''{'' # s @ ''}'')"
| one_element: "json_space w \<Longrightarrow> json_text n j s \<Longrightarrow> json_space w' \<Longrightarrow> json_elements n [j] (w @ s @ w')"
| more_elements: "json_space w \<Longrightarrow> json_text n j s \<Longrightarrow> json_space w' \<Longrightarrow> json_elements n js ss \<Longrightarrow>
    json_elements n (j # js) (w @ s @ w' @ CHR '','' # ss)"
| one_member: "json_space w1 \<Longrightarrow> json_chars s t \<Longrightarrow> json_space w2 \<Longrightarrow> json_space w3 \<Longrightarrow> json_text n j v \<Longrightarrow> json_space w4 \<Longrightarrow>
    json_members n [(cstr t, j)] (w1 @ DQUOTE # s @ DQUOTE # w2 @ CHR '':'' # w3 @ v @ w4)"
| more_members: "json_space w1 \<Longrightarrow> json_chars s t \<Longrightarrow> json_space w2 \<Longrightarrow> json_space w3 \<Longrightarrow> json_text n j v \<Longrightarrow> json_space w4 \<Longrightarrow>
    json_members n ms rest \<Longrightarrow>
    json_members n ((cstr t, j) # ms) (w1 @ DQUOTE # s @ DQUOTE # w2 @ CHR '':'' # w3 @ v @ w4 @ CHR '','' # rest)"

section \<open>Characters\<close>

lemma unat_or_mark:
  assumes "\<And>i. bit (m :: u8) i \<Longrightarrow> k \<le> i" "k \<le> 7" "unat m + 2 ^ k \<le> 256"
  shows "unat (m OR ucast (take_bit k (c :: u64))) = unat m + unat c mod 2 ^ k"
proof -
  have "m OR ucast (take_bit k c) = m + ucast (take_bit k c)"
    by (rule disjunctive_add [symmetric]) (use assms(1) in \<open>auto simp: bit_simps not_le [symmetric]\<close>)
  moreover have u: "unat (ucast (take_bit k c) :: u8) = unat c mod 2 ^ k"
  proof -
    have "unat (ucast (take_bit k c) :: u8) = take_bit 8 (unat (take_bit k c))"
      by (simp add: unsigned_ucast_eq)
    also have "unat (take_bit k c) = unat c mod 2 ^ k"
      by (subst unsigned_take_bit_eq) (simp add: take_bit_eq_mod)
    finally have "unat (ucast (take_bit k c) :: u8) = take_bit 8 (unat c mod 2 ^ k)" .
    moreover have "unat c mod 2 ^ k < 2 ^ 8"
    proof -
      have "(2 :: nat) ^ k < 2 ^ 8"
        by (rule power_strict_increasing) (use assms(2) in simp_all)
      moreover have "unat c mod 2 ^ k < 2 ^ k"
        by simp
      ultimately show ?thesis
        by (rule order.strict_trans [rotated])
    qed
    ultimately show ?thesis
      by (simp add: take_bit_nat_eq_self)
  qed
  moreover have "unat m + unat (ucast (take_bit k c) :: u8) < 2 ^ LENGTH(8)"
  proof -
    have "unat c mod 2 ^ k < 2 ^ k" by simp
    then have "unat m + unat c mod 2 ^ k < 256"
      using assms(3) by linarith
    then show ?thesis
      unfolding u by simp
  qed
  ultimately show ?thesis
    by (simp add: unat_word_ariths(1) del: len_num0)
qed

lemma continuation_byte: "unat (ucast ((c OR 0x80) AND 0xBF) :: u8) = 128 + unat (c :: u64) mod 64"
proof -
  have "(ucast ((c OR 0x80) AND 0xBF) :: u8) = 0x80 OR ucast (take_bit 6 c)"
    by (rule bit_word_eqI) (auto simp: bit_simps numeral_eq_Suc less_Suc_eq)
  moreover have "unat (0x80 OR ucast (take_bit 6 c) :: u8) = unat (0x80 :: u8) + unat c mod 2 ^ 6"
    by (rule unat_or_mark) ((auto simp: bit_simps numeral_eq_Suc less_Suc_eq)[1], simp_all)
  ultimately show ?thesis
    by simp
qed

lemma first_byte:
  assumes "(m, k) \<in> {(0xC0, 5), (0xE0, 4), (0xF0, 3)}" "unat c < 2 ^ k"
  shows "unat (ucast ((c OR ucast (m :: u8)) AND 0xFF) :: u8) = unat m + unat (c :: u64)"
proof -
  have c: "c = take_bit k c"
    using assms(2) by (simp only: word_unat_eq_iff unsigned_take_bit_eq take_bit_nat_eq_self)
  have "(ucast ((c OR ucast m) AND 0xFF) :: u8) = m OR ucast c"
    by (rule bit_word_eqI) (auto simp: bit_simps numeral_eq_Suc less_Suc_eq)
  then have "(ucast ((c OR ucast m) AND 0xFF) :: u8) = m OR ucast (take_bit k c)"
    by (subst c [symmetric])
  moreover have "unat (m OR ucast (take_bit k c)) = unat m + unat c mod 2 ^ k"
    by (rule unat_or_mark) ((use assms(1) in \<open>auto simp: bit_simps numeral_eq_Suc less_Suc_eq\<close>)[1],
      use assms(1) in auto)
  ultimately show ?thesis
    using assms(2) by simp
qed

lemma first_bytes:
  "unat (c :: u64) < 32 \<Longrightarrow> unat (ucast ((c OR 192) AND 255) :: u8) = 192 + unat c"
  "unat c < 16 \<Longrightarrow> unat (ucast ((c OR 224) AND 255) :: u8) = 224 + unat c"
  "unat c < 8 \<Longrightarrow> unat (ucast ((c OR 240) AND 255) :: u8) = 240 + unat c"
  using first_byte [of "0xC0" 5 c] first_byte [of "0xE0" 4 c] first_byte [of "0xF0" 3 c] by simp_all

lemma unat_drop6:
  "unat (drop_bit 6 (c :: u64)) = unat c div 64" "unat (drop_bit 12 c) = unat c div 4096"
  "unat (drop_bit 18 c) = unat c div 262144"
  by (simp_all add: drop_bit_eq_div unat_div)

lemma utf8_bytes:
  "map unat (utf8_loop 1 m c) = [unat (ucast ((drop_bit 6 c OR ucast m) AND 0xFF) :: u8), unat (ucast ((c OR 0x80) AND 0xBF) :: u8)]"
  "map unat (utf8_loop 2 m c) = map unat (utf8_loop 1 m (drop_bit 6 c)) @ [unat (ucast ((c OR 0x80) AND 0xBF) :: u8)]"
  "map unat (utf8_loop 3 m c) = map unat (utf8_loop 2 m (drop_bit 6 c)) @ [unat (ucast ((c OR 0x80) AND 0xBF) :: u8)]"
  by (simp_all only: One_nat_def numeral_2_eq_2 numeral_3_eq_3 utf8_loop.simps map_append list.map append.simps)

text \<open>The code's bit operations give the bytes of the definition.\<close>

lemma encode_utf8_correct:
  assumes "unat c < 1114112"
  shows "\<exists>bs. encode_utf8 c = Some bs \<and> map unat bs = utf8 (unat c)"
proof -
  have less: "c < 0x80 \<longleftrightarrow> unat c < 128" "c < 0x800 \<longleftrightarrow> unat c < 2048" "c < 0x10000 \<longleftrightarrow> unat c < 65536"
    "c \<le> 0x10FFFF \<longleftrightarrow> unat c \<le> 1114111"
    by (simp_all add: word_less_nat_alt word_le_nat_alt)
  consider "unat c < 128" | "128 \<le> unat c" "unat c < 2048" | "2048 \<le> unat c" "unat c < 65536" | "65536 \<le> unat c"
    by linarith
  then show ?thesis
  proof cases
    case 1
    have "unat (ucast (c AND 0x7F) :: u8) = unat c"
    proof -
      have "c AND 0x7F = take_bit 7 c"
        by (simp add: take_bit_eq_mask mask_eq_exp_minus_1)
      moreover have "take_bit 7 c = c"
        using 1 by (simp add: word_unat_eq_iff unsigned_take_bit_eq take_bit_nat_eq_self)
      ultimately show ?thesis
        using 1 by (simp add: unsigned_ucast_eq take_bit_nat_eq_self)
    qed
    with 1 show ?thesis
      by (simp add: encode_utf8_def less utf8_def)
  next
    case 2
    have "unat c div 64 < 2 ^ 5"
      using 2(2) by simp
    with 2 show ?thesis
      by (simp add: encode_utf8_def less utf8_def utf8_bytes continuation_byte unat_drop6 first_bytes)
  next
    case 3
    have "unat c div 4096 < 16"
      using 3(2) by simp
    with 3 show ?thesis
      by (simp add: encode_utf8_def less utf8_def utf8_bytes continuation_byte unat_drop6 first_bytes)
  next
    case 4
    have "unat c div 262144 < 8"
      using assms by simp
    with 4 assms show ?thesis
      by (simp add: encode_utf8_def less utf8_def utf8_bytes continuation_byte unat_drop6 first_bytes)
  qed
qed

section \<open>Strings\<close>

lemma hex4_cases:
  assumes "hex4_nat h = Some n"
  obtains a b c d x y z w where "h = [a, b, c, d]" "hex_nat a = Some x" "hex_nat b = Some y" "hex_nat c = Some z" "hex_nat d = Some w"
    "n = ((x * 16 + y) * 16 + z) * 16 + w"
  using assms unfolding hex4_nat_def by (auto split: list.splits option.splits simp: map_eq_Cons_conv)

lemma hex4_less: "hex4_nat h = Some n \<Longrightarrow> n < 65536"
  by (elim hex4_cases) (auto dest!: hex_nat_less)

lemma hex4_length: "hex4_nat h = Some n \<Longrightarrow> length h = 4"
  by (elim hex4_cases) simp

lemma parse_hex4_at:
  assumes "drop p content = h @ r" "hex4_nat h = Some n"
  shows "parse_hex4 content p = of_nat n"
proof -
  have "take 4 (drop p content) = h"
    using assms(1) hex4_length [OF assms(2)] by simp
  with assms(2) show ?thesis
    by (elim hex4_cases) (simp add: parse_hex4_def hex_loop_step del: hex_loop.simps(2))
qed

lemma hex_not_special: "hex_nat c = Some n \<Longrightarrow> c \<noteq> DQUOTE \<and> c \<noteq> BACKSLASH"
  by (auto simp: hex_nat_def)

text \<open>The scan passes the text of characters.\<close>

lemma scan_hex: "hex4_nat h = Some n \<Longrightarrow> scan_string (h @ s) = map_option (\<lambda>(n, k). (n + 4, k)) (scan_string s)"
  by (cases "scan_string s"; elim hex4_cases) (auto dest!: hex_not_special)

lemma scan_char:
  assumes "json_char s t" "scan_string r = Some (n, k)"
  shows "\<exists>j. scan_string (s @ r) = Some (length s + n, k + j)"
  using assms
proof cases
  case (unicode h c)
  then show ?thesis
    using assms(2) hex4_length by (auto simp: scan_hex)
next
  case (pair h high l low)
  then show ?thesis
    using assms(2) hex4_length by (auto simp: scan_hex)
qed (use assms(2) in auto)

lemma scan_chars:
  assumes "json_chars s t"
  shows "\<exists>k. scan_string (s @ DQUOTE # r) = Some (length s, k)"
  using assms
proof induction
  case (more_chars s t ss ts)
  then obtain k where "scan_string (ss @ DQUOTE # r) = Some (length ss, k)"
    by blast
  from scan_char [OF more_chars(1) this] show ?case
    by auto
qed simp

lemma drop_past: "drop p content = s @ r \<Longrightarrow> drop (p + length s) content = r"
  by (metis append_eq_conv_conj drop_drop add.commute)

lemma drop_one: "drop p content = c # r \<Longrightarrow> drop (Suc p) content = r"
  using drop_past [of p content "[c]" r] by simp

lemma unat_u32: "n < 65536 \<Longrightarrow> unat (of_nat n :: u32) = n"
  by (simp add: unat_of_nat)

lemma low_bits: "unat ((of_nat n :: u32) AND 0x3FF) = n mod 1024" if "n < 65536"
proof -
  have "(of_nat n :: u32) AND 0x3FF = take_bit 10 (of_nat n)"
    by (simp add: take_bit_eq_mask mask_eq_exp_minus_1)
  also have "unat \<dots> = take_bit 10 (unat (of_nat n :: u32))"
    by (rule unsigned_take_bit_eq)
  finally show ?thesis
    using that by (simp add: unat_u32 take_bit_eq_mod)
qed

lemma mod_block: "k * 1024 \<le> n \<Longrightarrow> n < (k + 1) * 1024 \<Longrightarrow> n mod 1024 = n - k * 1024" for n k :: nat
  by (auto simp: le_iff_add)

lemma pair_codepoint:
  assumes "55296 \<le> high" "high < 56320" "56320 \<le> low" "low < 57344"
  shows "unat (0x10000 + (push_bit 10 (ucast ((of_nat high :: u32) AND 0x3FF)) OR ucast ((of_nat low :: u32) AND 0x3FF)) :: u64)
         = surrogates high low"
proof -
  define a b where "a = (ucast ((of_nat high :: u32) AND 0x3FF) :: u64)" and "b = (ucast ((of_nat low :: u32) AND 0x3FF) :: u64)"
  have ua: "unat a = high - 55296" and ub: "unat b = low - 56320"
  proof -
    have "high mod 1024 = high - 55296" "low mod 1024 = low - 56320"
      using assms mod_block [of 54 high] mod_block [of 55 low] by simp_all
    then show "unat a = high - 55296" "unat b = low - 56320"
      using assms low_bits [of high] low_bits [of low] unfolding a_def b_def
      by (simp_all add: unsigned_ucast_eq take_bit_nat_eq_self)
  qed
  have "b = take_bit 10 b"
    using ub assms by (simp add: word_unat_eq_iff unsigned_take_bit_eq take_bit_nat_eq_self)
  then have "\<not> bit b n" if "10 \<le> n" for n
    using that by (metis bit_take_bit_iff not_le)
  then have or: "push_bit 10 a OR b = push_bit 10 a + b"
    by (intro disjunctive_add [symmetric]) (metis bit_push_bit_iff)
  have "unat (push_bit 10 a) = (high - 55296) * 1024"
    using ua assms by (simp add: push_bit_eq_mult unat_word_ariths(2) )
  then have "unat (push_bit 10 a + b) = (high - 55296) * 1024 + (low - 56320)"
    using ub assms by (simp add: unat_word_ariths(1))
  then have "unat (0x10000 + (push_bit 10 a + b)) = 65536 + ((high - 55296) * 1024 + (low - 56320))"
    using assms by (simp add: unat_word_ariths(1))
  then show ?thesis
    unfolding a_def [symmetric] b_def [symmetric] or surrogates_def by simp
qed

lemma encode_utf8_nat:
  assumes "n < 1114112" "unat c = n"
  shows "\<exists>bs. encode_utf8 c = Some bs \<and> map (\<lambda>b. char_of (unat b)) bs = map char_of (utf8 n)"
proof -
  obtain bs where "encode_utf8 c = Some bs" "map unat bs = utf8 n"
    using encode_utf8_correct [of c] assms by auto
  then show ?thesis
    by (metis (no_types, lifting) map_map comp_def map_eq_conv)
qed

lemma utf16_unicode:
  assumes "drop (p + 2) content = h @ r" "hex4_nat h = Some c" "c < 55296 \<or> 57343 < c" "p + 6 \<le> e"
  shows "\<exists>bs. utf16_literal_to_utf8 content p e = Some (6, bs) \<and> map (\<lambda>b. char_of (unat b)) bs = map char_of (utf8 c)"
proof -
  have c: "c < 65536" by (rule hex4_less [OF assms(2)])
  have "unat (ucast (of_nat c :: u32) :: u64) = c"
    using c by (simp add: unsigned_ucast_eq unat_u32 take_bit_nat_eq_self)
  from encode_utf8_nat [OF _ this] c obtain bs where
    "encode_utf8 (ucast (of_nat c :: u32)) = Some bs" "map (\<lambda>b. char_of (unat b)) bs = map char_of (utf8 c)"
    by auto
  moreover have "\<not> (0xDC00 \<le> (of_nat c :: u32) \<and> (of_nat c :: u32) \<le> 0xDFFF)"
    "\<not> (0xD800 \<le> (of_nat c :: u32) \<and> (of_nat c :: u32) \<le> 0xDBFF)"
    using assms(3) c by (auto simp: word_le_nat_alt unat_u32)
  moreover have "parse_hex4 content (p + 2) = of_nat c"
    by (rule parse_hex4_at [OF assms(1,2)])
  moreover have "\<not> e - p < 6"
    using assms(4) by simp
  ultimately show ?thesis
    unfolding utf16_literal_to_utf8_def Let_def by (simp only: if_False if_True simp_thms option.map) simp
qed

lemma utf16_pair:
  assumes "drop (p + 2) content = h @ BACKSLASH # CHR ''u'' # l @ r" "hex4_nat h = Some high" "hex4_nat l = Some low"
    and "55296 \<le> high" "high < 56320" "56320 \<le> low" "low < 57344" "p + 12 \<le> e"
  shows "\<exists>bs. utf16_literal_to_utf8 content p e = Some (12, bs) \<and>
    map (\<lambda>b. char_of (unat b)) bs = map char_of (utf8 (surrogates high low))"
proof -
  have h: "length h = 4" by (rule hex4_length [OF assms(2)])
  have d: "drop (p + 6) content = BACKSLASH # CHR ''u'' # l @ r"
    using drop_past [OF assms(1)] h by (simp add: add.commute)
  have d7: "drop (p + 7) content = CHR ''u'' # l @ r"
    using drop_one [OF d] by (simp add: add.commute)
  have d8: "drop (p + 8) content = l @ r"
    using drop_one [OF d7] by (simp add: add.commute)
  have at: "content ! (p + 6) = BACKSLASH" "content ! (p + 7) = CHR ''u''"
    using nth_via_drop [OF d] nth_via_drop [OF d7] by simp_all
  have c: "surrogates high low < 1114112"
    using assms(4-7) by (simp add: surrogates_def)
  obtain bs where "encode_utf8 (0x10000 + (push_bit 10 (ucast ((of_nat high :: u32) AND 0x3FF)) OR ucast ((of_nat low :: u32) AND 0x3FF)) :: u64) = Some bs"
    "map (\<lambda>b. char_of (unat b)) bs = map char_of (utf8 (surrogates high low))"
    using encode_utf8_nat [OF c pair_codepoint [OF assms(4-7)]] by auto
  moreover have "parse_hex4 content (p + 2) = of_nat high" "parse_hex4 content (p + 8) = of_nat low"
    using parse_hex4_at [OF assms(1,2)] parse_hex4_at [OF d8 assms(3)] by simp_all
  moreover have "\<not> (0xDC00 \<le> (of_nat high :: u32) \<and> (of_nat high :: u32) \<le> 0xDFFF)"
    "0xD800 \<le> (of_nat high :: u32) \<and> (of_nat high :: u32) \<le> 0xDBFF"
    "\<not> ((of_nat low :: u32) < 0xDC00 \<or> (of_nat low :: u32) > 0xDFFF)"
    using assms(4-7) by (auto simp: word_le_nat_alt word_less_nat_alt unat_u32)
  moreover have "\<not> e - p < 6" "\<not> e - (p + 6) < 6" "p + 6 + 1 = p + 7" "p + 6 + 2 = p + 8"
    using assms(8) by simp_all
  ultimately show ?thesis
    unfolding utf16_literal_to_utf8_def Let_def by (simp only: at if_False if_True simp_thms option.map) simp
qed

lemma buffer_at_drop: "drop p content = c # r \<Longrightarrow> buffer_at content p = Some c"
  by (cases "p < length content") (simp_all add: buffer_at_def can_access_def nth_via_drop)

lemma unescape_char:
  assumes "json_char s t" "drop p content = s @ r" "p + length s \<le> e" "e \<le> length content"
  shows "unescape content p e out = unescape content (p + length s) e (out @ t)"
  using assms(1)
proof cases
  case (plain c)
  then show ?thesis
    using assms(2,3) by (subst unescape.simps) (simp add: buffer_at_drop)
next
  case (escape x c)
  have "drop (p + 1) content = x # r"
    using drop_one [of p content] assms(2) escape(1) by simp
  then show ?thesis
    using assms(2,3) escape by (subst unescape.simps) (auto simp: buffer_at_drop unescaped_def)
next
  case (unicode h c)
  have d: "drop (p + 1) content = CHR ''u'' # h @ r" "drop (p + 2) content = h @ r"
    using drop_past [of p content "[BACKSLASH]"] drop_past [of p content "[BACKSLASH, CHR ''u'']"] assms(2) unicode(1) by simp_all
  show ?thesis
    using assms(2,3) unicode utf16_unicode [OF d(2) unicode(3,4), of e] hex4_length [OF unicode(3)] d(1)
    by (subst unescape.simps) (auto simp: buffer_at_drop utf16_readable_inside [OF assms(4)])
next
  case (pair h high l low)
  have d: "drop (p + 1) content = CHR ''u'' # h @ BACKSLASH # CHR ''u'' # l @ r"
    "drop (p + 2) content = h @ BACKSLASH # CHR ''u'' # l @ r"
    using drop_past [of p content "[BACKSLASH]"] drop_past [of p content "[BACKSLASH, CHR ''u'']"] assms(2) pair(1) by simp_all
  show ?thesis
    using assms(2,3) pair utf16_pair [OF d(2) pair(3,6,4,5,7,8), of e] hex4_length [OF pair(3)] hex4_length [OF pair(6)] d(1)
    by (subst unescape.simps) (auto simp: buffer_at_drop utf16_readable_inside [OF assms(4)])
qed

lemma unescape_chars:
  assumes "json_chars s t" "drop p content = s @ r" "p + length s = e" "e \<le> length content"
  shows "unescape content p e out = Parsed (out @ t) e"
  using assms
proof (induction arbitrary: p out)
  case no_chars
  then show ?case by (subst unescape.simps) simp
next
  case (more_chars s t ss ts)
  have "drop (p + length s) content = ss @ r"
    using drop_past [of p content s "ss @ r"] more_chars.prems(1) by simp
  with more_chars show ?case
    using unescape_char [OF more_chars(1), of p content "ss @ r" e out] by simp
qed

lemma parse_string_chars:
  assumes "json_chars s t" "drop off content = DQUOTE # s @ DQUOTE # r"
  shows "parse_string (\<lambda>_. True) content off = Parsed (cstr t) (off + length s + 2)"
proof -
  have d: "drop (Suc off) content = s @ DQUOTE # r"
    using drop_one [OF assms(2)] .
  obtain k where k: "scan_string (s @ DQUOTE # r) = Some (length s, k)"
    using scan_chars [OF assms(1)] by blast
  have u: "unescape content (Suc off) (Suc off + length s) [] = Parsed t (Suc off + length s)"
    using unescape_chars [OF assms(1) d, of "Suc off + length s" "[]"] arg_cong [where f = length, OF d] by simp
  have "fits content off (parse_string (\<lambda>_. True) content off)"
    using assms(2) by (intro parse_string_fits) (metis drop_eq_Nil2 leI list.distinct(1))
  then show ?thesis
    using assms(2) d k u by (auto simp: parse_string_def buffer_at_drop Let_def split: if_splits)
qed

section \<open>Numbers\<close>

lemma not_digit [simp]:
  "\<not> is_digit (CHR ''-'')" "\<not> is_digit (CHR ''+'')" "\<not> is_digit (CHR ''.'')" "\<not> is_digit (CHR ''e'')" "\<not> is_digit (CHR ''E'')"
  by (simp_all add: is_digit_def)

lemma digits_take:
  assumes "\<forall>c \<in> set ds. is_digit c" "r = [] \<or> \<not> is_digit (hd r)"
  shows "takeWhile is_digit (ds @ r) = ds" "dropWhile is_digit (ds @ r) = r"
  using assms by (induction ds; cases r; simp)+

lemma exponent_hd: "json_exponent es e \<Longrightarrow> es = [] \<or> hd es \<in> {CHR ''e'', CHR ''E''}"
  by (auto elim: json_exponent.cases)

lemma exponent_no_digit: "json_exponent es e \<Longrightarrow> es = [] \<or> \<not> is_digit (hd es)"
  by (drule exponent_hd) auto

lemma read_sign_digits: "\<forall>c \<in> set ds. is_digit c \<Longrightarrow> ds \<noteq> [] \<Longrightarrow> read_sign (ds @ r) = (False, ds @ r)"
  by (cases ds) auto

lemma read_exponent_text:
  assumes "json_exponent es e"
  shows "read_exponent es = (e, length es)"
  using assms
proof cases
  case (exponent c s ds)
  then have d: "takeWhile is_digit ds = ds" "ds \<noteq> []"
    using digits_take [of ds "[]"] by (simp_all add: digits_def)
  have "read_sign ds = (False, ds)"
    using read_sign_digits [of ds "[]"] exponent by (simp add: digits_def)
  with exponent d(2) show ?thesis
    by (auto simp: read_exponent_def Let_def d(1))
qed (simp add: read_exponent_def)

lemma strtod_number:
  assumes "json_number s x"
  shows "strtod s = (round_double x, length s)"
  using assms
proof cases
  case (number ip fp es e neg)
  define t where "t = ip @ (if fp = [] then [] else CHR ''.'' # fp) @ es"
  define rest where "rest = (if fp = [] then [] else CHR ''.'' # fp) @ es"
  have ip: "ip \<noteq> []" "\<forall>c \<in> set ip. is_digit c"
    using number(3) by (simp_all add: digits_def)
  have sign: "read_sign s = (neg, t)"
    using read_sign_digits [OF ip(2,1), of rest] number(1) by (simp add: t_def rest_def)
  have es: "es = [] \<or> \<not> is_digit (hd es)"
    by (rule exponent_no_digit [OF number(6)])
  have "rest = [] \<or> \<not> is_digit (hd rest)"
    using es by (simp add: rest_def)
  from digits_take [OF ip(2) this] have int: "takeWhile is_digit t = ip" "dropWhile is_digit t = rest"
    by (simp_all add: t_def rest_def)
  have frac: "(case rest of c # u \<Rightarrow> if c = CHR ''.'' then (takeWhile is_digit u, 1 :: nat) else ([], 0) | [] \<Rightarrow> ([], 0))
    = (fp, if fp = [] then 0 else 1)"
  proof (cases "fp = []")
    case True
    then show ?thesis
      using exponent_hd [OF number(6)] by (cases es) (auto simp: rest_def)
  next
    case False
    then have "\<forall>c \<in> set fp. is_digit c"
      using number(5) by (simp add: digits_def)
    from digits_take(1) [OF this es] False show ?thesis
      by (simp add: rest_def)
  qed
  define used where "used = (length s - length t) + length ip + (if fp = [] then 0 else 1) + length fp"
  have used: "drop used s = es" "used + length es = length s"
    using number(1) by (auto simp: used_def t_def)
  have "strtod s = (round_double x, used + length es)"
    using ip(1) number(2) read_exponent_text [OF number(6)] used(1)
    unfolding strtod_def sign by (simp add: Let_def int frac flip: used_def)
  then show ?thesis
    by (simp add: used(2))
qed

lemma number_chars: "json_number s x \<Longrightarrow> \<forall>c \<in> set s. number_char c"
  by (auto elim!: json_number.cases json_exponent.cases simp: digits_def number_char_def)

lemma number_hd: "json_number s x \<Longrightarrow> \<exists>c t. s = c # t \<and> (c = CHR ''-'' \<or> is_digit c)"
proof (elim json_number.cases)
  fix ip fp es :: string and neg :: bool
  assume "s = (if neg then ''-'' else []) @ ip @ (if fp = [] then [] else CHR ''.'' # fp) @ es" "digits ip"
  then show ?thesis
    by (cases ip; cases neg) (auto simp: digits_def)
qed

text \<open>What may come after a value: something that is no part of a number.\<close>

definition stops :: "string \<Rightarrow> bool" where
  "stops r \<longleftrightarrow> r \<noteq> [] \<and> \<not> number_char (hd r)"

lemma parse_number_text:
  assumes "json_number s x" "drop off content = s @ r" "stops r"
  shows "parse_number (\<lambda>_. True) content off = Parsed (JNumber (round_double x)) (off + length s)"
proof -
  have "takeWhile number_char (s @ r) = s"
    using number_chars [OF assms(1)] assms(3) by (cases r) (auto simp: stops_def)
  then show ?thesis
    using assms strtod_number [OF assms(1)] number_hd [OF assms(1)] by (auto simp: parse_number_def)
qed

section \<open>Values\<close>

lemma skip_space:
  assumes "json_space w" "drop off content = w @ c # r" "32 < (of_char c :: nat)"
  shows "buffer_skip_whitespace content off = off + length w"
proof -
  have "off < length content"
    using assms(2) by (metis append_is_Nil_conv drop_eq_Nil2 leI list.distinct(1))
  moreover have "takeWhile (\<lambda>c. (of_char c :: nat) \<le> 32) (w @ c # r) = w"
    using assms(1,3) by (subst takeWhile_append2) (auto simp: json_space_def)
  moreover have "off + length w < length content"
    using drop_past [OF assms(2)] by (metis drop_eq_Nil2 leI list.distinct(1))
  ultimately show ?thesis
    using assms(2) by (simp add: buffer_skip_whitespace_def can_access_def Let_def)
qed

text \<open>How a value starts: not with a blank, a comma or a closing bracket.\<close>

lemma text_hd: "json_text n j s \<Longrightarrow> \<exists>c t. s = c # t \<and> 32 < (of_char c :: nat) \<and> c \<noteq> CHR '']'' \<and> c \<noteq> CHR ''}''"
proof (erule json_text.cases)
  fix s' x
  assume "s = s'" "json_number s' x"
  then obtain c t where "s = c # t" "c = CHR ''-'' \<or> is_digit c"
    using number_hd by blast
  then show ?thesis
    by (auto simp: is_digit_def)
qed simp_all

lemma space_stops: "json_space w \<Longrightarrow> c \<in> {CHR '']'', CHR ''}'', CHR '',''} \<Longrightarrow> stops (w @ c # r)"
  by (cases w) (auto simp: stops_def json_space_def number_char_def is_digit_def)

lemma drop_can_access: "drop off content = c # r \<Longrightarrow> can_access content off"
  by (metis can_access_def drop_eq_Nil2 leI list.distinct(1))

text \<open>The positions a value between blanks is read at, when \<open>c\<close> follows the second blanks.\<close>

lemma value_between:
  assumes "json_space w" "json_text n j s" "json_space w'" "drop b content = w @ s @ w' @ c # r"
    and "c \<in> {CHR '']'', CHR ''}'', CHR '',''}"
    and pv: "\<And>off r. drop off content = s @ r \<Longrightarrow> stops r \<Longrightarrow> parse_value (\<lambda>_. True) content n off = Parsed j (off + length s)"
  shows "parse_value (\<lambda>_. True) content n (buffer_skip_whitespace content b) = Parsed j (b + length w + length s)"
    "buffer_skip_whitespace content (b + length w + length s) = b + length w + length s + length w'"
    "buffer_at content (b + length w + length s + length w') = Some c"
    "drop (Suc (b + length w + length s + length w')) content = r"
proof -
  obtain x t where x: "s = x # t" "32 < (of_char x :: nat)"
    using text_hd [OF assms(2)] by auto
  have 1: "buffer_skip_whitespace content b = b + length w"
    using skip_space [OF assms(1), of b content x] assms(4) x by simp
  have d: "drop (b + length w) content = s @ w' @ c # r"
    using drop_past [OF assms(4)] .
  show "parse_value (\<lambda>_. True) content n (buffer_skip_whitespace content b) = Parsed j (b + length w + length s)"
    unfolding 1 by (rule pv [OF d space_stops [OF assms(3,5)]])
  have d': "drop (b + length w + length s) content = w' @ c # r"
    using drop_past [OF d] by simp
  show "buffer_skip_whitespace content (b + length w + length s) = b + length w + length s + length w'"
    by (rule skip_space [OF assms(3) d']) (use assms(5) in auto)
  have d'': "drop (b + length w + length s + length w') content = c # r"
    using drop_past [OF d'] by simp
  then show "buffer_at content (b + length w + length s + length w') = Some c"
    "drop (Suc (b + length w + length s + length w')) content = r"
    by (rule buffer_at_drop, rule drop_one)
qed

text \<open>The same for the name of a member and its colon.\<close>

lemma name_between:
  assumes "json_space w" "json_chars s t" "json_space w'" "drop b content = w @ DQUOTE # s @ DQUOTE # w' @ CHR '':'' # r"
  shows "parse_string (\<lambda>_. True) content (buffer_skip_whitespace content b) = Parsed (cstr t) (b + length w + length s + 2)"
    "buffer_skip_whitespace content (b + length w + length s + 2) = b + length w + length s + 2 + length w'"
    "buffer_at content (b + length w + length s + 2 + length w') = Some (CHR '':'')"
    "drop (Suc (b + length w + length s + 2 + length w')) content = r"
proof -
  have 1: "buffer_skip_whitespace content b = b + length w"
    using skip_space [OF assms(1), of b content DQUOTE] assms(4) by simp
  have d: "drop (b + length w) content = DQUOTE # s @ DQUOTE # w' @ CHR '':'' # r"
    using drop_past [OF assms(4)] .
  show "parse_string (\<lambda>_. True) content (buffer_skip_whitespace content b) = Parsed (cstr t) (b + length w + length s + 2)"
    unfolding 1 by (rule parse_string_chars [OF assms(2) d])
  have d': "drop (b + length w + length s + 2) content = w' @ CHR '':'' # r"
    using drop_past [of "b + length w" content "DQUOTE # s @ [DQUOTE]"] d by simp
  show "buffer_skip_whitespace content (b + length w + length s + 2) = b + length w + length s + 2 + length w'"
    by (rule skip_space [OF assms(3) d']) simp
  have d'': "drop (b + length w + length s + 2 + length w') content = CHR '':'' # r"
    using drop_past [OF d'] .
  then show "buffer_at content (b + length w + length s + 2 + length w') = Some (CHR '':'')"
    "drop (Suc (b + length w + length s + 2 + length w')) content = r"
    by (rule buffer_at_drop, rule drop_one)
qed

lemma elements_hd: "json_elements n js s \<Longrightarrow> \<exists>w c t. s = w @ c # t \<and> json_space w \<and> 32 < (of_char c :: nat) \<and> c \<noteq> CHR '']''"
  by (erule json_elements.cases; drule text_hd; elim exE conjE; simp; blast)

lemma members_hd: "json_members n ms s \<Longrightarrow> \<exists>w t. s = w @ DQUOTE # t \<and> json_space w"
  by (erule json_members.cases) auto

section \<open>Every text of the grammar is accepted\<close>

lemma starts_with_word: "drop off content = word @ r \<Longrightarrow> word \<noteq> [] \<Longrightarrow> starts_with content off word"
  by (cases "off < length content")
    (auto simp: starts_with_def dest: arg_cong [where f = length] intro: le_diff_conv2 [THEN iffD1])

lemma starts_with_other: "drop off content = c # r \<Longrightarrow> word = d # w \<Longrightarrow> c \<noteq> d \<Longrightarrow> \<not> starts_with content off word"
  by (simp add: starts_with_def)

lemma parse_value_at: "\<exists>array obj. parse_value alloc content n off = value_at array obj alloc content off"
  by (cases n) auto

lemma value_at_word:
  "drop off content = ''null'' @ r \<Longrightarrow> value_at array obj alloc content off = Parsed JNull (off + 4)"
  "drop off content = ''false'' @ r \<Longrightarrow> value_at array obj alloc content off = Parsed (JBool False) (off + 5)"
  "drop off content = ''true'' @ r \<Longrightarrow> value_at array obj alloc content off = Parsed (JBool True) (off + 4)"
  using starts_with_word [of off content "''null''" r] starts_with_word [of off content "''false''" r]
    starts_with_word [of off content "''true''" r]
  by (simp_all add: value_at_def starts_with_other)

lemma value_at_number:
  "drop off content = c # r \<Longrightarrow> c = CHR ''-'' \<or> is_digit c \<Longrightarrow> value_at array obj alloc content off = parse_number alloc content off"
proof -
  assume d: "drop off content = c # r" and c: "c = CHR ''-'' \<or> is_digit c"
  then have "c \<noteq> CHR ''n''" "c \<noteq> CHR ''f''" "c \<noteq> CHR ''t''" "c \<noteq> DQUOTE"
    by (auto simp: is_digit_def)
  then show ?thesis
    using c by (auto simp: value_at_def starts_with_other [OF d] buffer_at_drop [OF d])
qed

lemma value_at_string:
  "drop off content = DQUOTE # r \<Longrightarrow> parse_string alloc content off = Parsed s off' \<Longrightarrow>
   value_at array obj alloc content off = Parsed (JString s) off'"
  by (simp add: value_at_def starts_with_other buffer_at_drop)

lemma value_at_bracket:
  "drop off content = CHR ''['' # r \<Longrightarrow> value_at array obj alloc content off = array off"
  "drop off content = CHR ''{'' # r \<Longrightarrow> value_at array obj alloc content off = obj off"
  by (simp_all add: value_at_def starts_with_def buffer_at_drop is_digit_def)

lemma parse_items:
  assumes "drop off content = CHR ''['' # s @ CHR '']'' # r"
    and "s = w @ c # t" "json_space w" "32 < (of_char c :: nat)" "c \<noteq> CHR '']''"
    and items: "\<And>fuel o'. length s \<le> fuel \<Longrightarrow>
      buffer_skip_whitespace content (Suc o') = buffer_skip_whitespace content (Suc off) \<Longrightarrow>
      array_items pv (\<lambda>_. True) content fuel o' = Parsed js (Suc off + length s)"
  shows "parse_array pv (\<lambda>_. True) content off = Parsed (JArray js) (off + length s + 2)"
proof -
  let ?o = "Suc off + length w"
  have d: "drop (Suc off) content = w @ c # t @ CHR '']'' # r"
    using drop_one [OF assms(1)] assms(2) by simp
  have skip: "buffer_skip_whitespace content (Suc off) = ?o"
    by (rule skip_space [OF assms(3) d assms(4)])
  have d': "drop ?o content = c # t @ CHR '']'' # r"
    using drop_past [OF d] .
  then have again: "buffer_skip_whitespace content ?o = ?o"
    using skip_space [of "[]" ?o content c] assms(4) by (simp add: json_space_def)
  have "length s \<le> length content"
    using arg_cong [where f = length, OF assms(1)] by simp
  then have "array_items pv (\<lambda>_. True) content (length content) (?o - 1) = Parsed js (Suc off + length s)"
    using skip again by (intro items) simp_all
  then show ?thesis
    using buffer_at_drop [OF assms(1)] skip buffer_at_drop [OF d'] drop_can_access [OF d'] assms(5)
    by (simp add: parse_array_def Let_def)
qed

lemma parse_members:
  assumes "drop off content = CHR ''{'' # s @ CHR ''}'' # r" "s = w @ DQUOTE # t" "json_space w"
    and members: "\<And>fuel o'. length s \<le> fuel \<Longrightarrow> can_access content (Suc o') \<Longrightarrow>
      buffer_skip_whitespace content (Suc o') = buffer_skip_whitespace content (Suc off) \<Longrightarrow>
      object_members pv (\<lambda>_. True) content fuel o' = Parsed ms (Suc off + length s)"
  shows "parse_object pv (\<lambda>_. True) content off = Parsed (JObject ms) (off + length s + 2)"
proof -
  let ?o = "Suc off + length w"
  have d: "drop (Suc off) content = w @ DQUOTE # t @ CHR ''}'' # r"
    using drop_one [OF assms(1)] assms(2) by simp
  have skip: "buffer_skip_whitespace content (Suc off) = ?o"
    by (rule skip_space [OF assms(3) d]) simp
  have d': "drop ?o content = DQUOTE # t @ CHR ''}'' # r"
    using drop_past [OF d] .
  then have again: "buffer_skip_whitespace content ?o = ?o"
    using skip_space [of "[]" ?o content DQUOTE] by (simp add: json_space_def)
  have "length s \<le> length content"
    using arg_cong [where f = length, OF assms(1)] by simp
  then have "object_members pv (\<lambda>_. True) content (length content) (?o - 1) = Parsed ms (Suc off + length s)"
    using skip again drop_can_access [OF d'] by (intro members) simp_all
  then show ?thesis
    using buffer_at_drop [OF assms(1)] skip buffer_at_drop [OF d'] drop_can_access [OF d']
    by (simp add: parse_object_def Let_def)
qed

lemma parse_empty:
  assumes "json_space w"
  shows "drop off content = CHR ''['' # w @ CHR '']'' # r \<Longrightarrow> parse_array pv alloc content off = Parsed (JArray []) (off + length w + 2)"
    "drop off content = CHR ''{'' # w @ CHR ''}'' # r \<Longrightarrow> parse_object pv alloc content off = Parsed (JObject []) (off + length w + 2)"
proof -
  have go: "buffer_skip_whitespace content (Suc off) = Suc off + length w \<and> buffer_at content (Suc off + length w) = Some c"
    if "drop off content = b # w @ c # r" "32 < (of_char c :: nat)" for b c
    using skip_space [OF assms drop_one [OF that(1)] that(2)] buffer_at_drop [OF drop_past [OF drop_one [OF that(1)]]] by simp
  show "drop off content = CHR ''['' # w @ CHR '']'' # r \<Longrightarrow> parse_array pv alloc content off = Parsed (JArray []) (off + length w + 2)"
    using go [of "CHR ''[''" "CHR '']''"] by (auto simp: parse_array_def buffer_at_drop Let_def)
  show "drop off content = CHR ''{'' # w @ CHR ''}'' # r \<Longrightarrow> parse_object pv alloc content off = Parsed (JObject []) (off + length w + 2)"
    using go [of "CHR ''{''" "CHR ''}''"] by (auto simp: parse_object_def buffer_at_drop Let_def)
qed

lemma parse_grammar:
  "json_text n j s \<Longrightarrow> drop off content = s @ r \<Longrightarrow> stops r \<Longrightarrow>
     parse_value (\<lambda>_. True) content n off = Parsed j (off + length s)"
  "json_elements n js s \<Longrightarrow> drop b content = s @ CHR '']'' # r \<Longrightarrow> length s \<le> fuel \<Longrightarrow>
     buffer_skip_whitespace content (Suc off) = buffer_skip_whitespace content b \<Longrightarrow>
     array_items (parse_value (\<lambda>_. True) content n) (\<lambda>_. True) content fuel off = Parsed js (b + length s)"
  "json_members n ms s \<Longrightarrow> drop b content = s @ CHR ''}'' # r \<Longrightarrow> length s \<le> fuel \<Longrightarrow> can_access content (Suc off) \<Longrightarrow>
     buffer_skip_whitespace content (Suc off) = buffer_skip_whitespace content b \<Longrightarrow>
     object_members (parse_value (\<lambda>_. True) content n) (\<lambda>_. True) content fuel off = Parsed ms (b + length s)"
proof (induction arbitrary: off r and b fuel off r and b fuel off r rule: json_text_json_elements_json_members.inducts)
  case (text_null n)
  obtain array obj where "parse_value (\<lambda>_. True) content n off = value_at array obj (\<lambda>_. True) content off"
    using parse_value_at by blast
  then show ?case
    using value_at_word(1) [of off content r] text_null by simp
next
  case (text_false n)
  obtain array obj where "parse_value (\<lambda>_. True) content n off = value_at array obj (\<lambda>_. True) content off"
    using parse_value_at by blast
  then show ?case
    using value_at_word(2) [of off content r] text_false by simp
next
  case (text_true n)
  obtain array obj where "parse_value (\<lambda>_. True) content n off = value_at array obj (\<lambda>_. True) content off"
    using parse_value_at by blast
  then show ?case
    using value_at_word(3) [of off content r] text_true by simp
next
  case (text_number s x n)
  obtain c t where c: "s = c # t" "c = CHR ''-'' \<or> is_digit c"
    using number_hd [OF text_number(1)] by blast
  obtain array obj where "parse_value (\<lambda>_. True) content n off = value_at array obj (\<lambda>_. True) content off"
    using parse_value_at by blast
  then show ?case
    using value_at_number [of off content c] parse_number_text [OF text_number] text_number(2) c by simp
next
  case (text_string s t n)
  obtain array obj where "parse_value (\<lambda>_. True) content n off = value_at array obj (\<lambda>_. True) content off"
    using parse_value_at by blast
  then show ?case
    using value_at_string parse_string_chars [OF text_string(1), of off content r] text_string(2) by simp
next
  case (text_empty_array w n)
  then show ?case
    using value_at_bracket(1) parse_empty(1) by simp
next
  case (text_array n js s)
  obtain w c t where s: "s = w @ c # t" "json_space w" "32 < (of_char c :: nat)" "c \<noteq> CHR '']''"
    using elements_hd [OF text_array(1)] by blast
  have d: "drop off content = CHR ''['' # s @ CHR '']'' # r"
    using text_array.prems(1) by simp
  have "parse_array (parse_value (\<lambda>_. True) content n) (\<lambda>_. True) content off = Parsed (JArray js) (off + length s + 2)"
    by (rule parse_items [OF d s]) (rule text_array.IH [OF drop_one [OF d]])
  then show ?case
    using value_at_bracket(1) [OF d] by simp
next
  case (text_empty_object w n)
  then show ?case
    using value_at_bracket(2) parse_empty(2) by simp
next
  case (text_object n ms s)
  obtain w t where s: "s = w @ DQUOTE # t" "json_space w"
    using members_hd [OF text_object(1)] by blast
  have d: "drop off content = CHR ''{'' # s @ CHR ''}'' # r"
    using text_object.prems(1) by simp
  have "parse_object (parse_value (\<lambda>_. True) content n) (\<lambda>_. True) content off = Parsed (JObject ms) (off + length s + 2)"
    by (rule parse_members [OF d s]) (rule text_object.IH [OF drop_one [OF d]])
  then show ?case
    using value_at_bracket(2) [OF d] by simp
next
  case (one_element w n j s w')
  note v = value_between [OF one_element.hyps, of b content "CHR '']''" r, OF _ _ one_element.IH]
  have d: "drop b content = w @ s @ w' @ CHR '']'' # r"
    using one_element.prems(1) by simp
  obtain fuel' where "fuel = Suc fuel'"
    using one_element.prems(2) text_hd [OF one_element.hyps(2)] by (cases fuel) auto
  then show ?case
    using v(1-3) [OF d] one_element.prems(3) by (simp add: Let_def)
next
  case (more_elements w n j s w' js ss)
  note v = value_between [OF more_elements.hyps(1-3), of b content "CHR '',''" "ss @ CHR '']'' # r", OF _ _ more_elements.IH(1)]
  have d: "drop b content = w @ s @ w' @ CHR '','' # ss @ CHR '']'' # r"
    using more_elements.prems(1) by simp
  obtain fuel' where f: "fuel = Suc fuel'"
    using more_elements.prems(2) by (cases fuel) auto
  have "array_items (parse_value (\<lambda>_. True) content n) (\<lambda>_. True) content fuel' (b + length w + length s + length w')
      = Parsed js (Suc (b + length w + length s + length w') + length ss)"
    by (rule more_elements.IH(2) [OF v(4) [OF d]]) (use more_elements.prems(2) f in simp_all)
  then show ?case
    using v(1-3) [OF d] more_elements.prems(3) f by (simp add: Let_def)
next
  case (one_member w1 s t w2 w3 n j v w4)
  let ?e = "b + length w1 + length s + 2 + length w2"
  note nm = name_between [OF one_member.hyps(1-3), of b content "w3 @ v @ w4 @ CHR ''}'' # r"]
  note v = value_between [OF one_member.hyps(4-6), of "Suc ?e" content "CHR ''}''" r, OF _ _ one_member.IH]
  have d: "drop b content = w1 @ DQUOTE # s @ DQUOTE # w2 @ CHR '':'' # w3 @ v @ w4 @ CHR ''}'' # r"
    using one_member.prems(1) by simp
  obtain fuel' where "fuel = Suc fuel'"
    using one_member.prems(2) by (cases fuel) auto
  then show ?case
    using nm(1-3) [OF d] v(1-3) [OF nm(4) [OF d]] one_member.prems(3,4) by (simp add: Let_def)
next
  case (more_members w1 s t w2 w3 n j v w4 ms rest)
  let ?e = "b + length w1 + length s + 2 + length w2"
  let ?f = "Suc ?e + length w3 + length v + length w4"
  note nm = name_between [OF more_members.hyps(1-3), of b content "w3 @ v @ w4 @ CHR '','' # rest @ CHR ''}'' # r"]
  note v = value_between [OF more_members.hyps(4-6), of "Suc ?e" content "CHR '',''" "rest @ CHR ''}'' # r", OF _ _ more_members.IH(1)]
  have d: "drop b content = w1 @ DQUOTE # s @ DQUOTE # w2 @ CHR '':'' # w3 @ v @ w4 @ CHR '','' # rest @ CHR ''}'' # r"
    using more_members.prems(1) by simp
  obtain fuel' where f: "fuel = Suc fuel'"
    using more_members.prems(2) by (cases fuel) auto
  have d': "drop (Suc ?f) content = rest @ CHR ''}'' # r"
    by (rule v(4)) (use nm(4) [OF d] in simp_all)
  have "can_access content (Suc ?f)"
    using arg_cong [where f = length, OF d'] by (simp add: can_access_def)
  then have "object_members (parse_value (\<lambda>_. True) content n) (\<lambda>_. True) content fuel' ?f = Parsed ms (Suc ?f + length rest)"
    by (intro more_members.IH(2) [OF d']) (use more_members.prems(2) f in simp_all)
  then show ?case
    using nm(1-3) [OF d] v(1-3) [OF nm(4) [OF d]] more_members.prems(3,4) f by (simp add: Let_def)
qed

section \<open>Documents\<close>

lemma hex4_no_nul: "hex4_nat h = Some n \<Longrightarrow> NUL \<notin> set h"
  by (elim hex4_cases) (auto simp: hex_nat_def)

lemma space_no_nul: "json_space w \<Longrightarrow> NUL \<notin> set w"
  by (auto simp: json_space_def)

lemma chars_no_nul: "json_chars s t \<Longrightarrow> NUL \<notin> set s"
proof (induction rule: json_chars.induct)
  case (more_chars s t ss ts)
  from more_chars(1) have "NUL \<notin> set s"
    by cases (auto dest: hex4_no_nul)
  with more_chars show ?case
    by simp
qed simp

lemma number_no_nul: "json_number s x \<Longrightarrow> NUL \<notin> set s"
  by (drule number_chars) (auto simp: number_char_def is_digit_def)

lemma text_no_nul:
  "json_text n j s \<Longrightarrow> NUL \<notin> set s"
  "json_elements n js s \<Longrightarrow> NUL \<notin> set s"
  "json_members n ms s \<Longrightarrow> NUL \<notin> set s"
  by (induction rule: json_text_json_elements_json_members.inducts)
    (auto dest: number_no_nul chars_no_nul space_no_nul)

lemma text_no_bom: "json_text n j s \<Longrightarrow> hd s \<noteq> CHR 0xEF"
proof (erule json_text.cases)
  fix s' x
  assume "s = s'" "json_number s' x"
  then obtain c t where "s = c # t" "c = CHR ''-'' \<or> is_digit c"
    using number_hd by blast
  then show ?thesis
    by (auto simp: is_digit_def)
qed simp_all

text \<open>A document: a value between blanks, after a byte order mark or without one.\<close>

inductive json_document :: "json \<Rightarrow> string \<Rightarrow> nat \<Rightarrow> bool" where
  document: "bom = [] \<or> bom = [CHR 0xEF, CHR 0xBB, CHR 0xBF] \<Longrightarrow> json_space w \<Longrightarrow> json_text CJSON_NESTING_LIMIT j s \<Longrightarrow>
    json_space w' \<Longrightarrow> json_document j (bom @ w @ s @ w') (length bom + length w + length s)"

lemma document_no_nul: "json_document j doc e \<Longrightarrow> cstr doc = doc"
  unfolding cstr_def
  by (erule json_document.cases) (auto simp: takeWhile_eq_all_conv dest: text_no_nul(1) space_no_nul)

lemma skip_bom:
  assumes "bom = [] \<or> bom = [CHR 0xEF, CHR 0xBB, CHR 0xBF]" "c \<noteq> CHR 0xEF"
  shows "skip_utf8_bom (bom @ c # r @ [NUL]) = length bom"
  using assms by (auto simp: skip_utf8_bom_def starts_with_def can_access_def)

lemma skip_to_end:
  assumes "json_space w" "drop off content = w @ [NUL]"
  shows "buffer_skip_whitespace content off = off + length w"
proof -
  have len: "off + length w + 1 = length content"
    using assms(2) by (metis Suc_eq_plus1 add.assoc append_is_Nil_conv drop_eq_Nil2 leI length_append_singleton
      length_drop list.distinct(1) nat_less_le le_add_diff_inverse)
  have "takeWhile (\<lambda>c. (of_char c :: nat) \<le> 32) (w @ [NUL]) = w @ [NUL]"
    using assms(1) by (auto simp: takeWhile_eq_all_conv json_space_def)
  then show ?thesis
    using len assms(2) by (simp add: buffer_skip_whitespace_def can_access_def Let_def)
qed

lemma parse_document:
  assumes "json_document j doc e"
  shows "cJSON_ParseWithOpts (\<lambda>_. True) doc require_null_terminated = Parsed j (if require_null_terminated then length doc else e)"
  using assms
proof cases
  case (document bom w s w')
  let ?content = "doc @ [NUL]"
  obtain c t where s: "s = c # t" "32 < (of_char c :: nat)"
    using text_hd [OF document(5)] by auto
  obtain d r where d: "w @ s @ w' = d # r" "d \<noteq> CHR 0xEF"
    using document(4) text_no_bom [OF document(5)] s(1) by (cases w) (auto simp: json_space_def)
  have bom: "skip_utf8_bom ?content = length bom"
    using skip_bom [OF document(3) d(2), of r] document(1) d(1) by simp
  have dw: "drop (length bom) ?content = w @ c # t @ w' @ [NUL]"
    using document(1) s by simp
  have start: "buffer_skip_whitespace ?content (length bom) = length bom + length w"
    by (rule skip_space [OF document(4) dw s(2)])
  have ds: "drop (length bom + length w) ?content = s @ w' @ [NUL]"
    using document(1) by simp
  have "stops (w' @ [NUL])"
    using document(6) by (cases w') (auto simp: stops_def json_space_def number_char_def is_digit_def)
  from parse_grammar(1) [OF document(5) ds this]
  have pv: "parse_value (\<lambda>_. True) ?content CJSON_NESTING_LIMIT (length bom + length w) = Parsed j e"
    using document(2) by simp
  have de: "drop e ?content = w' @ [NUL]"
    using document(1,2) by simp
  have last: "buffer_skip_whitespace ?content e = length doc"
    using skip_to_end [OF document(6) de] document(1,2) by simp
  show ?thesis
    using pv last
    by (simp add: cJSON_ParseWithOpts_def cJSON_ParseWithLengthOpts_def document_no_nul [OF assms] bom start
        buffer_at_def can_access_def Let_def)
qed

end
