(* ===== verification/JsonConfig.thy ===== *)
theory JsonConfig
  imports JsonGrammar
begin

text \<open>
  The configuration loader on whole files: \<open>config_load_file\<close> of theory MotorConfig with the
  parser of theory JsonParse in place of its parameter, on documents of the grammar of theory
  JsonGrammar, down to the configuration file in the repository.
\<close>

section \<open>Numbers a double holds are read exactly\<close>

lemma pow2_powi: "pow2 e = 2 powi e"
  by (simp add: pow2_def power_int_def inverse_eq_divide power_one_over)

lemma pow2_pos [simp]: "0 < pow2 e" "pow2 e \<noteq> 0"
  by (simp_all add: pow2_powi)

lemma pow2_add: "pow2 (a + b) = pow2 a * pow2 b"
  by (simp add: pow2_powi power_int_add)

lemma pow2_less: "pow2 a < pow2 b \<longleftrightarrow> a < b"
  unfolding pow2_powi by (metis linorder_neqE_linordered_idom order_less_asym order_less_irrefl
      power_int_strict_increasing one_less_numeral_iff semiring_norm(76))

lemma pow2_nat: "0 \<le> e \<Longrightarrow> pow2 e = of_int (2 ^ nat e)"
  by (simp add: pow2_def)

lemma find_upto_Some:
  "find P [a..b] = Some e \<Longrightarrow> a \<le> e \<and> P e \<and> (\<forall>i. a \<le> i \<and> i < e \<longrightarrow> \<not> P i)"
proof (induction "nat (b + 1 - a)" arbitrary: a)
  case (Suc n)
  then have r: "[a..b] = a # [a + 1..b]"
    by (simp add: upto_rec1)
  show ?case
  proof (cases "P a")
    case False
    with Suc r have "a + 1 \<le> e \<and> P e \<and> (\<forall>i. a + 1 \<le> i \<and> i < e \<longrightarrow> \<not> P i)"
      by (intro Suc(1)) auto
    with False show ?thesis
      by (metis add1_zle_eq less_le order_less_imp_le zless_add1_eq)
  qed (use Suc r in auto)
qed simp

lemma round_half_even_int: "round_half_even (of_int z) = z"
  by (simp add: round_half_even_def)

text \<open>A number of at most 53 significant bits within the range of the doubles is not rounded.\<close>

lemma round_double_exact:
  assumes "x = of_int m * pow2 k" "\<bar>m\<bar> < 2 ^ 53" "- 1074 \<le> k" "\<bar>x\<bar> < pow2 1024"
  shows "round_double x = Finite x"
proof -
  have "find (\<lambda>e. \<bar>x\<bar> < pow2 (e + 1)) [-1022..1023] \<noteq> None"
    unfolding find_None_iff set_upto using assms(4) by (auto dest: spec [of _ 1023])
  then obtain e where f: "find (\<lambda>e. \<bar>x\<bar> < pow2 (e + 1)) [-1022..1023] = Some e"
    by blast
  from find_upto_Some [OF f] have e: "- 1022 \<le> e" "\<And>i. - 1022 \<le> i \<Longrightarrow> i < e \<Longrightarrow> pow2 (i + 1) \<le> \<bar>x\<bar>"
    by (auto simp: not_less)
  have "e - 52 \<le> k"
  proof (rule ccontr)
    assume k: "\<not> e - 52 \<le> k"
    then have "pow2 e \<le> \<bar>x\<bar>"
      using e(2) [of "e - 1"] assms(3) by simp
    also have "\<bar>x\<bar> = of_int \<bar>m\<bar> * pow2 k"
      by (simp add: assms(1) abs_mult less_imp_le)
    also have "\<dots> < pow2 53 * pow2 k"
      using assms(2) by (intro mult_strict_right_mono) (simp_all add: pow2_def)
    also have "\<dots> = pow2 (53 + k)"
      by (simp add: pow2_add)
    finally show False
      using k by (simp add: pow2_less)
  qed
  then have "x / pow2 (e - 52) = of_int (m * 2 ^ nat (k - (e - 52)))"
    using pow2_add [of "k - (e - 52)" "e - 52"] pow2_nat [of "k - (e - 52)"] assms(1) by simp
  then have "of_int (round_half_even (x / pow2 (e - 52))) * pow2 (e - 52) = x"
    by (metis nonzero_eq_divide_eq pow2_pos(2) round_half_even_int)
  with assms(4) show ?thesis
    unfolding round_double_def f option.case Let_def by simp
qed

lemma round_double_int: "\<bar>z\<bar> < 2 ^ 53 \<Longrightarrow> round_double (of_int z) = Finite (of_int z)"
proof (rule round_double_exact [of _ z 0])
  assume "\<bar>z\<bar> < 2 ^ 53"
  then have "of_int \<bar>z\<bar> < (of_int (2 ^ 53) :: rat)"
    by (simp only: of_int_less_iff)
  also have "\<dots> = pow2 53"
    by (simp add: pow2_def)
  also have "\<dots> < pow2 1024"
    by (simp add: pow2_less)
  finally show "\<bar>of_int z\<bar> < pow2 1024"
    by simp
qed (simp_all add: pow2_def)

section \<open>Every document is accepted\<close>

text \<open>
  C14. Every JSON document whose values are nested at most a thousand deep, with or without a byte
  order mark and with blanks around it, is accepted with the value it denotes: strings with
  their escapes and surrogate pairs decoded to UTF-8, numbers rounded to the nearest double.
  When the caller asks for the end of the text the offset returned is that of the terminating
  NUL, otherwise the one just after the value.
\<close>

theorem cJSON_Parse_complete:
  assumes "json_document j doc e"
  shows "cJSON_Parse (\<lambda>_. True) doc = Some j \<and>
    cJSON_ParseWithOpts (\<lambda>_. True) doc require_null_terminated =
      Parsed j (if require_null_terminated then length doc else e)"
  using parse_document [OF assms] by (simp add: cJSON_Parse_def)

text \<open>So no text denotes two values.\<close>

theorem json_document_unambiguous: "json_document j doc e \<Longrightarrow> json_document j' doc e' \<Longrightarrow> j = j' \<and> e = e'"
  using parse_document [of j doc e False] parse_document [of j' doc e' False] by simp

section \<open>A text written line by line\<close>

definition plain_text :: "string \<Rightarrow> bool" where
  "plain_text s \<longleftrightarrow> (\<forall>c \<in> set s. c \<noteq> DQUOTE \<and> c \<noteq> BACKSLASH \<and> 32 \<le> (of_char c :: nat))"

lemma plain_chars: "plain_text s \<Longrightarrow> json_chars s s"
proof (induction s)
  case (Cons c s)
  then show ?case
    using more_chars [OF plain, of c s s] by (simp add: plain_text_def)
qed (simp add: no_chars)

lemma plain_cstr: "plain_text s \<Longrightarrow> cstr s = s"
proof -
  assume "plain_text s"
  then have "NUL \<notin> set s"
    unfolding plain_text_def by (intro notI) (drule (1) bspec, simp)
  then show ?thesis
    unfolding cstr_def by (subst takeWhile_eq_all_conv) blast
qed

lemma text_plain: "plain_text s \<Longrightarrow> json_text n (JString s) (DQUOTE # s @ [DQUOTE])"
  using text_string [OF plain_chars] by (simp add: plain_cstr)

lemma text_nat:
  assumes "digits ds" "hd ds = CHR ''0'' \<longrightarrow> tl ds = []" "digits_value ds < 2 ^ 53"
  shows "json_text n (JNumber (Finite (of_nat (digits_value ds)))) ds"
proof -
  have "json_number ds (of_nat (digits_value ds))"
    using number [OF assms(1,2), of "[]" "[]" 0 False] by (simp add: no_exponent pow10_def)
  moreover have "round_double (of_nat (digits_value ds)) = Finite (of_nat (digits_value ds))"
    using round_double_int [of "int (digits_value ds)"] assms(3) by simp
  ultimately show ?thesis
    using text_number by metis
qed

text \<open>A whole number written with one decimal.\<close>

lemma text_decimal:
  assumes "digits ds" "hd ds = CHR ''0'' \<longrightarrow> tl ds = []" "digits_value ds < 2 ^ 53"
  shows "json_text n (JNumber (Finite (of_nat (digits_value ds)))) (ds @ ''.0'')"
proof -
  have "json_number (ds @ ''.0'') (of_nat (digits_value ds))"
    using number [OF assms(1,2), of "''0''" "[]" 0 False]
    by (simp add: no_exponent pow10_def digits_value_snoc digits_def is_digit_def digit_val_def)
  moreover have "round_double (of_nat (digits_value ds)) = Finite (of_nat (digits_value ds))"
    using round_double_int [of "int (digits_value ds)"] assms(3) by simp
  ultimately show ?thesis
    using text_number by metis
qed

text \<open>Members given by the blanks before the name, the name, the blanks after the colon and the text of the value.\<close>

fun members_layout :: "string \<Rightarrow> (string \<times> string \<times> string \<times> string) list \<Rightarrow> string" where
  "members_layout e [] = e"
| "members_layout e ((w, name, g, v) # ms) =
     w @ DQUOTE # name @ DQUOTE # CHR '':'' # g @ v @ (if ms = [] then e else CHR '','' # members_layout e ms)"

lemma json_members_layout:
  assumes "list_all2 (\<lambda>(w, name, g, v) (k, j). json_space w \<and> plain_text name \<and> k = name \<and> json_space g \<and> json_text n j v) ms js"
    and "json_space e" "ms \<noteq> []"
  shows "json_members n js (members_layout e ms)"
  using assms
proof (induction rule: list_all2_induct)
  case (Cons m ms x js)
  obtain w name g v j where m: "m = (w, name, g, v)" "x = (name, j)" "json_space w" "plain_text name" "json_space g" "json_text n j v"
    using Cons(1) by (cases m; cases x) auto
  have nil: "json_space []"
    by (simp add: json_space_def)
  show ?case
  proof (cases "ms = []")
    case True
    then have "js = []"
      using Cons(2) by simp
    then show ?thesis
      using one_member [OF m(3) plain_chars [OF m(4)] nil m(5,6) Cons.prems(1)] m(1,2,4) True
      by (simp add: plain_cstr)
  next
    case False
    from Cons.IH [OF Cons.prems(1) this] have "json_members n js (members_layout e ms)" .
    from more_members [OF m(3) plain_chars [OF m(4)] nil m(5,6) nil this] show ?thesis
      using m(1,2,4) False by (simp add: plain_cstr)
  qed
qed simp

section \<open>The configuration file of the repository\<close>

definition indent :: "nat \<Rightarrow> string" where
  "indent n = NEWLINE # replicate n (CHR '' '')"

definition scaling_members :: "(string \<times> string \<times> string \<times> string) list" where
  "scaling_members =
     [(indent 6, ''current_scale'', ''  '', ''1.0''), (indent 6, ''current_offset'', '' '', ''0.0''),
      (indent 6, ''vib_scale'', ''      '', ''1.0''), (indent 6, ''vib_offset'', ''     '', ''0.0''),
      (indent 6, ''rpm_scale'', ''      '', ''1.0''), (indent 6, ''rpm_offset'', ''     '', ''0.0'')]"

definition pi_members :: "(string \<times> string \<times> string \<times> string) list" where
  "pi_members =
     [(indent 4, ''spi_bus'', '' '', ''0''), (indent 4, ''spi_dev'', '' '', ''0''), (indent 4, ''spi_mode'', '' '', ''0''),
      (indent 4, ''spi_clock_hz'', '' '', ''8000000''), (indent 4, ''spi_cpha'', '' '', ''0''),
      (indent 4, ''spi_word_width'', '' '', ''8''), (indent 4, ''spi_idle_insert'', '' '', ''0''),
      (indent 4, ''rt_priority'', '' '', ''30''), (indent 4, ''dataready_pin'', '' '', ''17''),
      (indent 4, ''scaling'', '' '', CHR ''{'' # members_layout (indent 4) scaling_members @ ''}'')]"

definition stm_members :: "(string \<times> string \<times> string \<times> string) list" where
  "stm_members =
     [(indent 4, ''block_rows'', '' '', ''200''), (indent 4, ''source'', '' '', DQUOTE # ''adc'' @ [DQUOTE]),
      (indent 4, ''run_state'', '' '', DQUOTE # ''run'' @ [DQUOTE]), (indent 4, ''sample_rate_hz'', '' '', ''20000''),
      (indent 4, ''imu_rate_hz'', '' '', ''1000'')]"

definition shipped_config_text :: string where
  "shipped_config_text = CHR ''{'' # members_layout [NEWLINE]
     [(indent 2, ''pi'', '' '', CHR ''{'' # members_layout (indent 2) pi_members @ ''}''),
      (indent 2, ''stm'', '' '', CHR ''{'' # members_layout (indent 2) stm_members @ ''}'')] @ ''}''"

text \<open>The defaults with a bus clock of 8 MHz.\<close>

definition shipped_config :: full_config where
  "shipped_config = CONFIG_DEFAULTS\<lparr>fc_pi := (fc_pi CONFIG_DEFAULTS)\<lparr>pi_spi_clock_hz := 8000000\<rparr>\<rparr>"

lemma blanks [simp]:
  "json_space []" "json_space (indent n)" "json_space [NEWLINE]" "json_space (c # w) \<longleftrightarrow> c \<in> {CHR '' '', TAB, NEWLINE, CHR 0x0D} \<and> json_space w"
  by (auto simp: json_space_def indent_def)

lemma text_nat':
  "digits ds \<Longrightarrow> hd ds = CHR ''0'' \<longrightarrow> tl ds = [] \<Longrightarrow> digits_value ds = m \<Longrightarrow> m < 2 ^ 53 \<Longrightarrow> x = of_nat m \<Longrightarrow>
   json_text n (JNumber (Finite x)) ds"
  using text_nat by blast

lemma text_decimal':
  "s = ds @ ''.0'' \<Longrightarrow> digits ds \<Longrightarrow> hd ds = CHR ''0'' \<longrightarrow> tl ds = [] \<Longrightarrow> digits_value ds = m \<Longrightarrow> m < 2 ^ 53 \<Longrightarrow> x = of_nat m \<Longrightarrow>
   json_text n (JNumber (Finite x)) s"
  using text_decimal by blast

lemma layout_object:
  "list_all2 (\<lambda>(w, name, g, v) (k, j). json_space w \<and> plain_text name \<and> k = name \<and> json_space g \<and> json_text n j v) ms js \<Longrightarrow>
   json_space e \<Longrightarrow> ms \<noteq> [] \<Longrightarrow> json_text (Suc n) (JObject js) (CHR ''{'' # members_layout e ms @ ''}'')"
  by (rule text_object) (rule json_members_layout)

lemma text_numerals:
  "json_text n (JNumber (Finite 0)) ''0''" "json_text n (JNumber (Finite 8)) ''8''"
  "json_text n (JNumber (Finite 30)) ''30''" "json_text n (JNumber (Finite 17)) ''17''"
  "json_text n (JNumber (Finite 200)) ''200''" "json_text n (JNumber (Finite 1000)) ''1000''"
  "json_text n (JNumber (Finite 20000)) ''20000''" "json_text n (JNumber (Finite 8000000)) ''8000000''"
  by (rule text_nat', simp_all add: digits_def is_digit_def digits_value_def digit_val_def)+

lemma text_decimals: "json_text n (JNumber (Finite 1)) ''1.0''" "json_text n (JNumber (Finite 0)) ''0.0''"
  by (rule text_decimal' [of _ "''1''" 1] text_decimal' [of _ "''0''" 0],
      simp_all add: digits_def is_digit_def digits_value_def digit_val_def)+

lemma text_words:
  "json_text n (JString ''adc'') [DQUOTE, CHR ''a'', CHR ''d'', CHR ''c'', DQUOTE]"
  "json_text n (JString ''run'') [DQUOTE, CHR ''r'', CHR ''u'', CHR ''n'', DQUOTE]"
  using text_plain [of "''adc''"] text_plain [of "''run''"] by (simp_all add: plain_text_def)

lemma shipped_document: "json_document (config_json shipped_config) shipped_config_text (length shipped_config_text)"
proof -
  have scaling: "json_text (Suc n) (JObject [(''current_scale'', JNumber (Finite 1)), (''current_offset'', JNumber (Finite 0)),
      (''vib_scale'', JNumber (Finite 1)), (''vib_offset'', JNumber (Finite 0)), (''rpm_scale'', JNumber (Finite 1)),
      (''rpm_offset'', JNumber (Finite 0))]) (CHR ''{'' # members_layout (indent 4) scaling_members @ ''}'')" for n
    by (rule layout_object) (simp_all add: scaling_members_def text_decimals plain_text_def)
  have pi: "json_text (Suc (Suc n)) (pi_json (fc_pi shipped_config)) (CHR ''{'' # members_layout (indent 2) pi_members @ ''}'')" for n
    unfolding pi_json_def
    by (rule layout_object) (simp_all add: pi_members_def shipped_config_def CONFIG_DEFAULTS_def text_numerals plain_text_def scaling)
  have stm: "json_text (Suc n) (stm_json (fc_stm shipped_config)) (CHR ''{'' # members_layout (indent 2) stm_members @ ''}'')" for n
    unfolding stm_json_def
    by (rule layout_object) (simp_all add: stm_members_def shipped_config_def CONFIG_DEFAULTS_def text_numerals plain_text_def text_words)
  have "json_text (Suc (Suc (Suc n))) (config_json shipped_config) shipped_config_text" for n
    unfolding config_json_def shipped_config_text_def
    by (rule layout_object) (simp_all add: pi stm plain_text_def)
  from this [of 997] have "json_text CJSON_NESTING_LIMIT (config_json shipped_config) shipped_config_text"
    by simp
  from document [OF _ _ this, of "[]" "[]" "[]"] show ?thesis
    by simp
qed

theorem cJSON_Parse_complete_witness:
  "cJSON_Parse (\<lambda>_. True) ([CHR 0xEF, CHR 0xBB, CHR 0xBF, CHR '' '', DQUOTE, BACKSLASH] @ ''u20AC'' @ [DQUOTE, NEWLINE]) =
    Some (JString [CHR 0xE2, CHR 0x82, CHR 0xAC])"
proof -
  have "json_char ([BACKSLASH] @ ''u20AC'') [CHR 0xE2, CHR 0x82, CHR 0xAC]"
  proof -
    have "hex4_nat ''20AC'' = Some 8364" "map char_of (utf8 8364) = [CHR 0xE2, CHR 0x82, CHR 0xAC]"
      by (simp_all add: hex4_nat_def hex_nat_def utf8_def char_of_eq_iff)
    then show ?thesis
      using unicode [of "''20AC''" 8364] by simp
  qed
  from more_chars [OF this no_chars]
  have "json_text CJSON_NESTING_LIMIT (JString (cstr [CHR 0xE2, CHR 0x82, CHR 0xAC])) (DQUOTE # ([BACKSLASH] @ ''u20AC'') @ [DQUOTE])"
    by (intro text_string) simp
  then have "json_text CJSON_NESTING_LIMIT (JString [CHR 0xE2, CHR 0x82, CHR 0xAC]) (DQUOTE # ([BACKSLASH] @ ''u20AC'') @ [DQUOTE])"
    by (simp add: cstr_def)
  from document [OF _ _ this, of "[CHR 0xEF, CHR 0xBB, CHR 0xBF]" "'' ''" "[NEWLINE]"]
  have "json_document (JString [CHR 0xE2, CHR 0x82, CHR 0xAC])
      ([CHR 0xEF, CHR 0xBB, CHR 0xBF, CHR '' '', DQUOTE, BACKSLASH] @ ''u20AC'' @ [DQUOTE, NEWLINE]) 12"
    by (simp add: eval_nat_numeral)
  from cJSON_Parse_complete [OF this] show ?thesis
    by blast
qed

section \<open>The loader on a document\<close>

text \<open>
  C15. The configuration loader with its parser: a file of at most one megabyte that is a JSON
  document, read in whatever chunks, is loaded as the fields of the document's root, and as
  exactly the configuration it is the JSON form of, when that is in range with scaling
  constants that are floats.
\<close>

theorem config_document_loaded:
  assumes "json_document j doc e" "concat chunks = doc" "\<forall>k \<in> set chunks. k \<noteq> []" "length doc \<le> 2 ^ 20"
  shows "config_load_file (cJSON_Parse (\<lambda>_. True)) \<lparr>cf_open_ok = True, cf_fstat_ok = True, cf_size = int (length doc),
      cf_malloc_ok = True, cf_chunks = chunks\<rparr> = load_root j \<and>
    (j = config_json c \<and> config_ok c \<and> scaling_is_float (fc_pi c) \<longrightarrow> load_root j = Ok c)"
proof -
  have "slurp (length doc) chunks [] = doc"
    using slurp_all [of chunks "[]" "length doc"] assms(2,3) by simp
  moreover have "doc \<noteq> []"
    using assms(1) by (auto elim!: json_document.cases dest: text_hd)
  moreover have "cJSON_Parse (\<lambda>_. True) doc = Some j"
    using parse_document [OF assms(1), of False] by (simp add: cJSON_Parse_def)
  ultimately show ?thesis
    using assms(4) load_config_json document_no_nul [OF assms(1)] by (simp add: config_load_file_def)
qed

lemma shipped_config_ok: "config_ok shipped_config \<and> scaling_is_float (fc_pi shipped_config)"
proof
  show "config_ok shipped_config"
    by (simp add: shipped_config_def config_ok_def CONFIG_DEFAULTS_def pi_hw_ok_def pi_scaling_ok_def stm_ok_def scale_ok_def)
  show "scaling_is_float (fc_pi shipped_config)"
    by (simp add: shipped_config_def CONFIG_DEFAULTS_def scaling_is_float_def cast_float_0 cast_float_1 del: cast_float.simps)
qed

text \<open>The configuration file of the repository is loaded as the defaults with a bus clock of 8 MHz.\<close>

theorem config_document_loaded_witness:
  "config_load_file (cJSON_Parse (\<lambda>_. True)) \<lparr>cf_open_ok = True, cf_fstat_ok = True, cf_size = int (length shipped_config_text),
     cf_malloc_ok = True, cf_chunks = [take 100 shipped_config_text, drop 100 shipped_config_text]\<rparr> = Ok shipped_config"
proof -
  have "length shipped_config_text = 552"
    by code_simp
  moreover from this have "shipped_config_text \<noteq> []"
    by force
  ultimately show ?thesis
    using config_document_loaded [OF shipped_document, of "[take 100 shipped_config_text, drop 100 shipped_config_text]" shipped_config]
      shipped_config_ok
    by auto
qed

section \<open>The loader on a file that does not parse\<close>

text \<open>
  The message of such a file prints from \<open>cJSON_GetErrorPtr\<close>, a position in the buffer that was freed
  one line before: whatever the text, the loader reads freed memory.
\<close>

theorem malformed_file_reads_freed_buffer:
  assumes "cJSON_Parse alloc (cstr doc) = None" "concat chunks = doc" "\<forall>k \<in> set chunks. k \<noteq> []" "doc \<noteq> []" "length doc \<le> 2 ^ 20"
  shows "config_load_file (cJSON_Parse alloc) \<lparr>cf_open_ok = True, cf_fstat_ok = True, cf_size = int (length doc),
      cf_malloc_ok = True, cf_chunks = chunks\<rparr> = Undefined"
proof -
  have "slurp (length doc) chunks [] = doc"
    using slurp_all [of chunks "[]" "length doc"] assms(2,3) by simp
  then show ?thesis
    using assms(1,4,5) by (simp add: config_load_file_def)
qed

theorem malformed_file_reads_freed_buffer_witness:
  "config_load_file (cJSON_Parse (\<lambda>_. True)) \<lparr>cf_open_ok = True, cf_fstat_ok = True, cf_size = 1,
     cf_malloc_ok = True, cf_chunks = [''{'']\<rparr> = Undefined"
proof -
  have "cJSON_Parse (\<lambda>_. True) (cstr ''{'') = None"
    by code_simp
  from malformed_file_reads_freed_buffer [OF this, of "[''{'']"] show ?thesis
    by simp
qed

section \<open>Nesting\<close>

lemma parse_too_deep:
  "drop off content = replicate (Suc n) (CHR ''['') @ r \<Longrightarrow> \<exists>off'. parse_value alloc content n off = Refused off'"
proof (induction n arbitrary: off)
  case 0
  then show ?case
    by (simp add: value_at_bracket(1))
next
  case (Suc n)
  have d: "drop off content = CHR ''['' # CHR ''['' # replicate n (CHR ''['') @ r"
    using Suc.prems by simp
  have d1: "drop (Suc off) content = CHR ''['' # replicate n (CHR ''['') @ r"
    by (rule drop_one [OF d])
  have skip: "buffer_skip_whitespace content (Suc off) = Suc off"
    using skip_space [of "[]" "Suc off" content "CHR ''[''"] d1 by (simp add: json_space_def)
  obtain off' where "parse_value alloc content n (Suc off) = Refused off'"
    using Suc.IH [of "Suc off"] d1 by auto
  moreover obtain fuel where "length content = Suc fuel"
    using drop_can_access [OF d1] by (cases "length content") (simp_all add: can_access_def)
  ultimately show ?case
    using skip by (auto simp: value_at_bracket(1) [OF d] parse_array_def buffer_at_drop [OF d] buffer_at_drop [OF d1]
        drop_can_access [OF d1] Let_def)
qed

text \<open>A text that opens more than a thousand arrays is refused, whatever follows, so the recursion is bounded.\<close>

theorem cJSON_Parse_too_deep:
  assumes "CJSON_NESTING_LIMIT < k"
  shows "cJSON_Parse alloc (replicate k (CHR ''['') @ doc) = None"
proof -
  obtain m where k: "k = Suc CJSON_NESTING_LIMIT + m"
    using assms by (metis Suc_leI le_Suc_ex)
  define content where "content = cstr (replicate k (CHR ''['') @ doc) @ [NUL]"
  have "cstr (replicate k (CHR ''['') @ doc) = replicate k (CHR ''['') @ cstr doc"
    unfolding cstr_def by (rule takeWhile_append2) simp
  then have d: "content = replicate (Suc CJSON_NESTING_LIMIT) (CHR ''['') @ replicate m (CHR ''['') @ cstr doc @ [NUL]"
    unfolding content_def k replicate_add by simp
  obtain t where t: "content = CHR ''['' # t"
    using d by (simp only: replicate_Suc append_Cons)
  have "skip_utf8_bom content = 0" "buffer_skip_whitespace content 0 = 0"
    unfolding t using skip_space [of "[]" 0 "CHR ''['' # t"] by (simp_all add: skip_utf8_bom_def starts_with_def json_space_def)
  moreover obtain off' where "parse_value alloc content CJSON_NESTING_LIMIT 0 = Refused off'"
    using parse_too_deep [of 0 content CJSON_NESTING_LIMIT] d by auto
  ultimately show ?thesis
    by (auto simp: cJSON_Parse_def cJSON_ParseWithOpts_def cJSON_ParseWithLengthOpts_def content_def)
qed

section \<open>What the parser accepts beyond JSON\<close>

text \<open>What follows the value is not looked at: \<open>cJSON_Parse\<close> does not ask for the end of the text.\<close>

theorem cJSON_Parse_ignores_rest: "cJSON_Parse (\<lambda>_. True) ''{ } x'' = Some (JObject [])"
  by code_simp

text \<open>An invalid digit of \<open>\u\<close> makes the code point 0, which ends the string, instead of an error.\<close>

theorem cJSON_Parse_invalid_hex:
  "cJSON_Parse (\<lambda>_. True) ([DQUOTE, CHR ''a'', BACKSLASH] @ ''u00g0b'' @ [DQUOTE]) = Some (JString ''a'')"
  by code_simp

end
